(* ===== verification/Prelude.thy ===== *)
theory Prelude
  imports Main "HOL-Library.Word"
begin

text \<open>
  Shared ground of the development: the fixed-width integer types the C++ sources use, thrown
  exceptions as values, the interface locales that several components implement, and the
  arithmetic and list facts their proofs share.

  \<^item> \<^verbatim>\<open>uint8_t\<close>, \<^verbatim>\<open>uint16_t\<close>, \<^verbatim>\<open>uint32_t\<close>, \<^verbatim>\<open>uint64_t\<close> and (on the 64-bit targets the
    project supports) \<^verbatim>\<open>size_t\<close> are machine words, so every \<open>+\<close>, \<open>-\<close> and \<open>*\<close> of the
    model wraps exactly where the code wraps.
  \<^item> A \<^verbatim>\<open>std::string\<close> or \<^verbatim>\<open>std::string_view\<close> is a list of bytes. Its \<^verbatim>\<open>size()\<close> is
    \<open>sz\<close>, a \<^verbatim>\<open>size_t\<close>; \<open>fits\<close> says that the list has a length the type can express,
    which holds for every string object.
  \<^item> A \<^verbatim>\<open>throw\<close> is a value \<open>Inl e\<close> of the sum type \<open>'a res\<close>. Where the source would run
    into undefined behaviour of the language (reading the front of an empty container, a
    shift by a negative amount), the model has the distinct error \<open>Undefined_behaviour\<close>, so that
    its absence is something to be proved.
\<close>

unbundle bit_operations_syntax

section \<open>Machine types\<close>

type_synonym byte = "8 word"
type_synonym u8 = "8 word"
type_synonym u16 = "16 word"
type_synonym u32 = "32 word"
type_synonym u64 = "64 word"
type_synonym size_t = "64 word"

definition sz :: "'a list \<Rightarrow> size_t" where
  "sz xs = of_nat (length xs)"

abbreviation fits :: "'a list \<Rightarrow> bool" where
  "fits xs \<equiv> length xs < 2 ^ 64"

section \<open>Exceptions as values\<close>

datatype exn =
    Runtime_error string
  | Out_of_range string
  | Invalid_argument string
  | Unix_error string int
  | Undefined_behaviour string

type_synonym 'a res = "exn + 'a"

definition bind_res :: "'a res \<Rightarrow> ('a \<Rightarrow> 'b res) \<Rightarrow> 'b res" where
  "bind_res r f = (case r of Inl e \<Rightarrow> Inl e | Inr x \<Rightarrow> f x)"

lemma bind_res_simps [simp]:
  "bind_res (Inr x) f = f x"
  "bind_res (Inl e) f = Inl e"
  by (simp_all add: bind_res_def)

lemma bind_res_Inr_iff:
  "bind_res r f = Inr y \<longleftrightarrow> (\<exists>x. r = Inr x \<and> f x = Inr y)"
  by (cases r) simp_all

lemma bind_res_cong [fundef_cong]:
  "r = r' \<Longrightarrow> (\<And>x. r' = Inr x \<Longrightarrow> f x = g x) \<Longrightarrow> bind_res r f = bind_res r' g"
  by (cases r') simp_all

section \<open>Collections of simplification rules\<close>

named_theorems stack_defs \<open>definitions of the small accessors of the stack\<close>
named_theorems word_arith \<open>reading word arithmetic as arithmetic on natural numbers\<close>

section \<open>Words read as natural numbers\<close>

lemma unat_min [word_arith]: "unat (min (a::'a::len word) b) = min (unat a) (unat b)"
  by (simp add: min_def word_le_nat_alt)

lemma unat_max [word_arith]: "unat (max (a::'a::len word) b) = max (unat a) (unat b)"
  by (simp add: max_def word_le_nat_alt)

lemma unat_diff_le [word_arith]: "b \<le> a \<Longrightarrow> unat ((a::'a::len word) - b) = unat a - unat b"
  by (simp add: unat_sub)

lemma unat_plus_fits:
  "unat (a::'a::len word) + unat b < 2 ^ LENGTH('a) \<Longrightarrow> unat (a + b) = unat a + unat b"
  by (simp add: unat_word_ariths)

lemma unat_ucast_up:
  "LENGTH('a) \<le> LENGTH('b) \<Longrightarrow> unat (ucast (w :: 'a::len word) :: 'b::len word) = unat w"
proof -
  assume len: "LENGTH('a) \<le> LENGTH('b)"
  have "unat w < 2 ^ LENGTH('a)" by (rule unsigned_less)
  also have "\<dots> \<le> 2 ^ LENGTH('b)" using len by simp
  finally show ?thesis by (simp only: unsigned_ucast_eq take_bit_nat_eq_self)
qed

lemma unat_inc: "(i::'a::len word) < j \<Longrightarrow> unat (i + 1) = Suc (unat i)"
proof -
  assume "i < j"
  then have "Suc (unat i) \<le> unat j" by (simp add: word_less_nat_alt)
  then have "Suc (unat i) < 2 ^ LENGTH('a)" by (rule le_less_trans) simp
  then show ?thesis by (simp add: unat_plus_fits)
qed

lemma unat_inc_diff: "(i::'a::len word) < j \<Longrightarrow> unat j - unat (i + 1) < unat j - unat i"
  by (simp add: unat_inc word_less_nat_alt)

lemma unat_lt64 [simp]: "unat (w::64 word) < 18446744073709551616"
  using unsigned_less [of w] by simp

lemma min_unat_lt64 [simp]:
  "min k (unat (w::64 word)) < 18446744073709551616"
  "min (unat (w::64 word)) k < 18446744073709551616"
  using unat_lt64 [of w] by linarith+

lemma unat_lt32 [simp]: "unat (w::32 word) < 4294967296"
  using unsigned_less [of w] by simp

lemma unat_lt16 [simp]: "unat (w::16 word) < 65536"
  using unsigned_less [of w] by simp

lemma unat_lt8 [simp]: "unat (w::8 word) < 256"
  using unsigned_less [of w] by simp

lemma unat_sz [simp]: "fits xs \<Longrightarrow> unat (sz xs) = length xs"
  by (simp add: sz_def unat_of_nat)

lemma sz_eq_0 [simp]: "fits xs \<Longrightarrow> sz xs = 0 \<longleftrightarrow> xs = []"
proof -
  assume "fits xs"
  have "sz xs = 0 \<longleftrightarrow> unat (sz xs) = 0" by (rule unat_eq_0 [symmetric])
  also have "\<dots> \<longleftrightarrow> length xs = 0" using \<open>fits xs\<close> by (subst unat_sz) simp_all
  finally show ?thesis by simp
qed

lemma sz_eqI: "length xs = unat n \<Longrightarrow> sz xs = n"
  by (simp add: sz_def)

lemma le_unat64: "n \<le> unat (w::64 word) \<Longrightarrow> n < 2 ^ 64"
  by (rule le_less_trans, assumption) simp

lemma sz_drop: "unat n \<le> length xs \<Longrightarrow> sz (drop (unat n) xs) = sz xs - n"
  by (simp add: sz_def)

lemma sz_Nil [simp]: "sz [] = 0"
  by (simp add: sz_def)

lemma sz_append: "sz (xs @ ys) = sz xs + sz ys"
  by (simp add: sz_def)

lemma fits_take [simp]: "fits (take (unat (n::64 word)) xs)"
proof -
  have "length (take (unat n) xs) \<le> unat n" by simp
  also have "\<dots> < 2 ^ 64" using unsigned_less [of n] by simp
  finally show ?thesis .
qed

lemma fits_drop [simp]: "fits xs \<Longrightarrow> fits (drop n xs)"
  by simp


lemma sz_le_iff: "fits xs \<Longrightarrow> n \<le> sz xs \<longleftrightarrow> unat n \<le> length xs"
  by (simp add: word_le_nat_alt)

lemma sz_less_iff: "fits xs \<Longrightarrow> n < sz xs \<longleftrightarrow> unat n < length xs"
  by (simp add: word_less_nat_alt)

lemma less_sz_iff: "fits xs \<Longrightarrow> sz xs < n \<longleftrightarrow> length xs < unat n"
  by (simp add: word_less_nat_alt)

lemma le_sz_iff: "fits xs \<Longrightarrow> sz xs \<le> n \<longleftrightarrow> length xs \<le> unat n"
  by (simp add: word_le_nat_alt)

lemmas sz_order = sz_le_iff sz_less_iff less_sz_iff le_sz_iff

lemma unat_pos_iff: "0 < (n::'a::len word) \<longleftrightarrow> 0 < unat n"
  by (simp add: word_less_nat_alt)

lemma foldl_snoc: "foldl (\<lambda>acc x. acc @ [f x]) acc xs = acc @ map f xs"
  by (induction xs arbitrary: acc) simp_all

lemma foldl_append_map: "foldl (\<lambda>acc x. acc @ f x) acc xs = acc @ concat (map f xs)"
  by (induction xs arbitrary: acc) simp_all

lemma foldl_plus_sz:
  "foldl (\<lambda>acc x. acc + sz (f x)) acc xs = acc + sz (concat (map f xs))"
  by (induction xs arbitrary: acc) (simp_all add: sz_append add.assoc)

section \<open>Interfaces\<close>

text \<open>
  A byte container that discards bytes from its front: the contract of \<^verbatim>\<open>Buffer\<close>,
  \<^verbatim>\<open>BufferList\<close> and \<^verbatim>\<open>BufferViewList\<close>, and what \<^verbatim>\<open>NetParser\<close> and \<^verbatim>\<open>ByteStream\<close> rely on.
\<close>

locale prefix_consumer =
  fixes contents :: "'b \<Rightarrow> byte list"
    and size_of :: "'b \<Rightarrow> size_t"
    and remove_prefix :: "size_t \<Rightarrow> 'b \<Rightarrow> 'b res"
    and invar :: "'b \<Rightarrow> bool"
  assumes fits_contents: "invar b \<Longrightarrow> fits (contents b)"
    and size_contents: "invar b \<Longrightarrow> size_of b = sz (contents b)"
    and remove_ok: "invar b \<Longrightarrow> unat n \<le> length (contents b) \<Longrightarrow>
      \<exists>b'. remove_prefix n b = Inr b' \<and> invar b' \<and> contents b' = drop (unat n) (contents b)"
    and remove_err: "invar b \<Longrightarrow> length (contents b) < unat n \<Longrightarrow>
      \<exists>msg. remove_prefix n b = Inl (Out_of_range msg)"
begin

lemma remove_prefix_Inr:
  assumes "invar b" and "remove_prefix n b = Inr b'"
  shows "invar b'" and "contents b' = drop (unat n) (contents b)"
    and "unat n \<le> length (contents b)"
proof -
  show le: "unat n \<le> length (contents b)"
    using remove_err [OF assms(1), of n] assms(2) by force
  show "invar b'" and "contents b' = drop (unat n) (contents b)"
    using remove_ok [OF assms(1) le] assms(2) by auto
qed

lemma remove_prefix_size:
  "invar b \<Longrightarrow> remove_prefix n b = Inr b' \<Longrightarrow> size_of b' = size_of b - n"
proof -
  assume b: "invar b" and r: "remove_prefix n b = Inr b'"
  note ok = remove_prefix_Inr [OF b r]
  have n: "of_nat (unat n) = n" by simp
  show ?thesis
    using ok(3) by (simp add: size_contents b ok(1,2) sz_def of_nat_diff)
qed

lemma remove_prefix_twice:
  assumes "invar b" and "remove_prefix m b = Inr b1" and "remove_prefix n b1 = Inr b2"
  shows "contents b2 = drop (unat m + unat n) (contents b)"
  using remove_prefix_Inr [OF assms(1,2)] remove_prefix_Inr(2) [OF _ assms(3)]
  by (simp add: add.commute)

lemma remove_prefix_iff:
  "invar b \<Longrightarrow> (\<exists>b'. remove_prefix n b = Inr b') \<longleftrightarrow> unat n \<le> length (contents b)"
  using remove_ok [of b n] remove_prefix_Inr(3) [of b n] by blast

end


text \<open>
  Sequences of operations. \<open>run_ops\<close> runs a list of operations and stops at the first
  exception; a component whose operations all keep an invariant, and do not throw while it
  holds, is an \<open>op_machine\<close>.
\<close>

fun run_ops :: "('op \<Rightarrow> 's \<Rightarrow> 's res) \<Rightarrow> 'op list \<Rightarrow> 's \<Rightarrow> 's res" where
  "run_ops step [] s = Inr s"
| "run_ops step (x # xs) s = bind_res (step x s) (run_ops step xs)"

locale op_machine =
  fixes step :: "'op \<Rightarrow> 's \<Rightarrow> 's res"
    and allowed :: "'op \<Rightarrow> bool"
    and invar :: "'s \<Rightarrow> bool"
  assumes step_ok: "invar s \<Longrightarrow> allowed x \<Longrightarrow> \<exists>s'. step x s = Inr s' \<and> invar s'"
begin

lemma run_ok:
  "invar s \<Longrightarrow> list_all allowed xs \<Longrightarrow> \<exists>s'. run_ops step xs s = Inr s' \<and> invar s'"
proof (induction xs arbitrary: s)
  case Nil
  then show ?case by simp
next
  case (Cons x xs)
  then obtain s1 where "step x s = Inr s1" and "invar s1"
    using step_ok [of s x] by auto
  with Cons show ?case by simp
qed

lemma run_invar:
  "invar s \<Longrightarrow> list_all allowed xs \<Longrightarrow> run_ops step xs s = Inr s' \<Longrightarrow> invar s'"
  using run_ok [of s xs] by auto

end

end
