(* ===== verification/Buffers.thy ===== *)
theory Buffers
  imports Prelude
begin

text \<open>
  \<^verbatim>\<open>libsponge/util/buffer.hh\<close> and \<^verbatim>\<open>buffer.cc\<close>: the read-only byte strings that can discard
  bytes from the front. A \<open>Buffer\<close> keeps an optional (shared, never written) storage and an
  offset into it; since nothing ever writes through the shared pointer, sharing is not
  observable and the storage is a plain value. A \<^verbatim>\<open>BufferList\<close> and a \<^verbatim>\<open>BufferViewList\<close>
  are the queues of such pieces.

  The locale \<open>prefix_consumer\<close> is the contract the three classes share; it is interpreted for
  each of them at the end.
\<close>

section \<open>Buffer\<close>

record Buffer =
  storage :: "byte list option"
  starting_offset :: size_t

definition Buffer_empty :: Buffer where
  "Buffer_empty = \<lparr>storage = None, starting_offset = 0\<rparr>"

definition Buffer_of_string :: "byte list \<Rightarrow> Buffer" where
  "Buffer_of_string str = \<lparr>storage = Some str, starting_offset = 0\<rparr>"

definition Buffer_str :: "Buffer \<Rightarrow> byte list" where
  "Buffer_str b =
     (case storage b of
        None \<Rightarrow> []
      | Some s \<Rightarrow> drop (unat (starting_offset b)) s)"

definition Buffer_size :: "Buffer \<Rightarrow> size_t" where
  "Buffer_size b = sz (Buffer_str b)"

definition Buffer_at :: "Buffer \<Rightarrow> size_t \<Rightarrow> u8 res" where
  "Buffer_at b n =
     (if unat n < length (Buffer_str b) then Inr (Buffer_str b ! unat n)
      else Inl (Out_of_range ''basic_string_view::at''))"

definition Buffer_copy :: "Buffer \<Rightarrow> byte list" where
  "Buffer_copy b = Buffer_str b"

definition Buffer_remove_prefix :: "size_t \<Rightarrow> Buffer \<Rightarrow> Buffer res" where
  "Buffer_remove_prefix n b =
     (if n > Buffer_size b then Inl (Out_of_range ''Buffer::remove_prefix'')
      else
        let b' = b\<lparr>starting_offset := starting_offset b + n\<rparr> in
        Inr (case storage b' of
               Some s \<Rightarrow> (if starting_offset b' = sz s then b'\<lparr>storage := None\<rparr> else b')
             | None \<Rightarrow> b'))"

definition Buffer_wf :: "Buffer \<Rightarrow> bool" where
  "Buffer_wf b \<longleftrightarrow>
     (case storage b of None \<Rightarrow> True
      | Some s \<Rightarrow> fits s \<and> unat (starting_offset b) \<le> length s)"

section \<open>BufferList\<close>

type_synonym BufferList = "Buffer list"

definition BufferList_of_Buffer :: "Buffer \<Rightarrow> BufferList" where
  "BufferList_of_Buffer b = [b]"

definition BufferList_append :: "BufferList \<Rightarrow> BufferList \<Rightarrow> BufferList" where
  "BufferList_append bl other = foldl (\<lambda>acc buf. acc @ [buf]) bl other"

definition BufferList_of_string :: "byte list \<Rightarrow> BufferList" where
  "BufferList_of_string str = BufferList_append [] (BufferList_of_Buffer (Buffer_of_string str))"

definition BufferList_to_Buffer :: "BufferList \<Rightarrow> Buffer res" where
  "BufferList_to_Buffer bl =
     (case bl of
        [] \<Rightarrow> Inr Buffer_empty
      | [b] \<Rightarrow> Inr b
      | _ \<Rightarrow> Inl (Runtime_error ''BufferList: please use concatenate() to combine a multi-Buffer BufferList into one Buffer''))"

definition BufferList_concatenate :: "BufferList \<Rightarrow> byte list" where
  "BufferList_concatenate bl = foldl (\<lambda>ret buf. ret @ Buffer_str buf) [] bl"

definition BufferList_size :: "BufferList \<Rightarrow> size_t" where
  "BufferList_size bl = foldl (\<lambda>ret buf. ret + Buffer_size buf) 0 bl"

fun BufferList_remove_prefix :: "size_t \<Rightarrow> BufferList \<Rightarrow> BufferList res" where
  "BufferList_remove_prefix n [] =
     (if n > 0 then Inl (Out_of_range ''BufferList::remove_prefix'') else Inr [])"
| "BufferList_remove_prefix n (b # bs) =
     (if n > 0 then
        if n < sz (Buffer_str b) then
          bind_res (Buffer_remove_prefix n b) (\<lambda>b'. Inr (b' # bs))
        else BufferList_remove_prefix (n - sz (Buffer_str b)) bs
      else Inr (b # bs))"

definition BufferList_wf :: "BufferList \<Rightarrow> bool" where
  "BufferList_wf bl \<longleftrightarrow>
     (\<forall>b \<in> set bl. Buffer_wf b) \<and> fits (concat (map Buffer_str bl))"

section \<open>BufferViewList\<close>

type_synonym BufferViewList = "byte list list"

definition BufferViewList_of_string :: "byte list \<Rightarrow> BufferViewList" where
  "BufferViewList_of_string str = [str]"

definition BufferViewList_of_BufferList :: "BufferList \<Rightarrow> BufferViewList" where
  "BufferViewList_of_BufferList buffers = foldl (\<lambda>vs x. vs @ [Buffer_str x]) [] buffers"

fun BufferViewList_remove_prefix :: "size_t \<Rightarrow> BufferViewList \<Rightarrow> BufferViewList res" where
  "BufferViewList_remove_prefix n [] =
     (if n > 0 then Inl (Out_of_range ''BufferListView::remove_prefix'') else Inr [])"
| "BufferViewList_remove_prefix n (v # vs) =
     (if n > 0 then
        if n < sz v then Inr (drop (unat n) v # vs)
        else BufferViewList_remove_prefix (n - sz v) vs
      else Inr (v # vs))"

definition BufferViewList_size :: "BufferViewList \<Rightarrow> size_t" where
  "BufferViewList_size vs = foldl (\<lambda>ret buf. ret + sz buf) 0 vs"

definition BufferViewList_as_iovecs :: "BufferViewList \<Rightarrow> (byte list \<times> size_t) list" where
  "BufferViewList_as_iovecs vs = foldl (\<lambda>ret x. ret @ [(x, sz x)]) [] vs"

definition BufferViewList_wf :: "BufferViewList \<Rightarrow> bool" where
  "BufferViewList_wf vs \<longleftrightarrow> fits (concat vs)"


section \<open>What the operations do\<close>

lemma Buffer_wf_fits: "Buffer_wf b \<Longrightarrow> fits (Buffer_str b)"
  by (auto simp: Buffer_wf_def Buffer_str_def split: option.splits)

lemma Buffer_str_of_string [simp]: "Buffer_str (Buffer_of_string s) = s"
  by (simp add: Buffer_str_def Buffer_of_string_def)

lemma Buffer_str_empty [simp]: "Buffer_str Buffer_empty = []"
  by (simp add: Buffer_str_def Buffer_empty_def)

lemma Buffer_wf_of_string [simp]: "Buffer_wf (Buffer_of_string s) \<longleftrightarrow> fits s"
  by (simp add: Buffer_wf_def Buffer_of_string_def)

lemma Buffer_wf_empty [simp]: "Buffer_wf Buffer_empty"
  by (simp add: Buffer_wf_def Buffer_empty_def)

lemma Buffer_remove_prefix_ok:
  assumes wf: "Buffer_wf b" and n: "unat n \<le> length (Buffer_str b)"
  shows "\<exists>b'. Buffer_remove_prefix n b = Inr b' \<and> Buffer_wf b' \<and>
    Buffer_str b' = drop (unat n) (Buffer_str b)"
proof (cases "storage b")
  case None
  with n show ?thesis
    by (simp add: Buffer_remove_prefix_def Buffer_size_def Buffer_str_def Buffer_wf_def Let_def
        word_less_nat_alt)
next
  case (Some s)
  let ?o = "unat (starting_offset b)"
  have s: "fits s" "?o \<le> length s" using wf Some by (auto simp: Buffer_wf_def)
  have n': "unat n \<le> length s - ?o" using n Some by (simp add: Buffer_str_def)
  have sum: "unat (starting_offset b + n) = ?o + unat n"
    using s n' by (intro unat_plus_fits) simp
  have "Buffer_size b \<ge> n"
    using n Buffer_wf_fits [OF wf] by (simp add: Buffer_size_def sz_order)
  moreover have "starting_offset b + n = sz s \<Longrightarrow> drop (unat n) (Buffer_str b) = []"
    using sum s Some by (simp add: Buffer_str_def)
  moreover have "unat (starting_offset b + n) \<le> length s"
    using sum s n' by simp
  ultimately show ?thesis
    using Some s sum
    by (auto simp: Buffer_remove_prefix_def Buffer_str_def Buffer_wf_def Let_def add.commute)
qed

lemma BufferList_append_eq [simp]: "BufferList_append bl other = bl @ other"
  using foldl_snoc [of "\<lambda>x. x" bl other] by (simp add: BufferList_append_def)

lemma BufferList_concatenate_eq: "BufferList_concatenate bl = concat (map Buffer_str bl)"
  by (simp add: BufferList_concatenate_def foldl_append_map)

lemma BufferList_size_eq: "BufferList_size bl = sz (BufferList_concatenate bl)"
  using foldl_plus_sz [of Buffer_str 0 bl]
  by (simp add: BufferList_size_def Buffer_size_def BufferList_concatenate_eq)

lemma BufferList_wf_Cons:
  "BufferList_wf (b # bs) \<longleftrightarrow>
     Buffer_wf b \<and> BufferList_wf bs \<and> fits (Buffer_str b @ concat (map Buffer_str bs))"
  by (auto simp: BufferList_wf_def)

lemma BufferList_remove_prefix_ok:
  assumes "BufferList_wf bl" and "unat n \<le> length (concat (map Buffer_str bl))"
  shows "\<exists>bl'. BufferList_remove_prefix n bl = Inr bl' \<and> BufferList_wf bl' \<and>
    concat (map Buffer_str bl') = drop (unat n) (concat (map Buffer_str bl))"
  using assms
proof (induction n bl rule: BufferList_remove_prefix.induct)
  case (1 n)
  then show ?case by (simp add: unat_pos_iff)
next
  case (2 n b bs)
  note wf = "2.prems"(1) [unfolded BufferList_wf_Cons]
  have fb: "fits (Buffer_str b)" using wf by (blast intro: Buffer_wf_fits)
  show ?case
  proof (cases "0 < n \<and> n < sz (Buffer_str b)")
    case True
    with fb obtain b' where b': "Buffer_remove_prefix n b = Inr b'" "Buffer_wf b'"
      "Buffer_str b' = drop (unat n) (Buffer_str b)"
      using Buffer_remove_prefix_ok [of b n] wf by (auto simp: sz_order)
    with True fb wf show ?thesis
      by (auto simp: BufferList_wf_Cons sz_order)
  next
    case False
    show ?thesis
    proof (cases "n = 0")
      case True
      with "2.prems" show ?thesis by simp
    next
      case n0: False
      with False have ge: "sz (Buffer_str b) \<le> n" by (simp add: word_neq_0_conv not_less)
      then have "unat (n - sz (Buffer_str b)) = unat n - length (Buffer_str b)"
        using fb by (simp add: word_arith)
      with ge n0 fb wf False "2.prems"(2) "2.IH" show ?thesis
        by (auto simp: word_neq_0_conv sz_order)
    qed
  qed
qed

lemma BufferList_remove_prefix_err:
  assumes "BufferList_wf bl" and "length (concat (map Buffer_str bl)) < unat n"
  shows "BufferList_remove_prefix n bl = Inl (Out_of_range ''BufferList::remove_prefix'')"
  using assms
proof (induction n bl rule: BufferList_remove_prefix.induct)
  case (1 n)
  then show ?case by (simp add: unat_pos_iff)
next
  case (2 n b bs)
  note wf = "2.prems"(1) [unfolded BufferList_wf_Cons]
  have fb: "fits (Buffer_str b)" using wf by (blast intro: Buffer_wf_fits)
  have "0 < n" "\<not> n < sz (Buffer_str b)"
    using "2.prems"(2) fb by (auto simp: unat_pos_iff sz_order)
  moreover from this have "unat (n - sz (Buffer_str b)) = unat n - length (Buffer_str b)"
    using fb by (simp add: word_arith not_less)
  ultimately show ?case using "2.IH" "2.prems"(2) wf by simp
qed

lemma BufferViewList_remove_prefix_ok:
  assumes "fits (concat vs)" and "unat n \<le> length (concat vs)"
  shows "\<exists>vs'. BufferViewList_remove_prefix n vs = Inr vs' \<and> fits (concat vs') \<and>
    concat vs' = drop (unat n) (concat vs)"
  using assms
proof (induction n vs rule: BufferViewList_remove_prefix.induct)
  case (1 n)
  then show ?case by (simp add: unat_pos_iff)
next
  case (2 n v vs)
  have fv: "fits v" using "2.prems"(1) by simp
  show ?case
  proof (cases "n = 0 \<or> n < sz v")
    case True
    with fv "2.prems" show ?thesis
      by (cases "n = 0") (auto simp: sz_order word_neq_0_conv)
  next
    case False
    then have "unat (n - sz v) = unat n - length v"
      using fv by (simp add: word_arith not_less)
    with False fv "2.prems" "2.IH" show ?thesis
      by (auto simp: word_neq_0_conv sz_order)
  qed
qed

lemma BufferViewList_remove_prefix_err:
  assumes "fits (concat vs)" and "length (concat vs) < unat n"
  shows "BufferViewList_remove_prefix n vs = Inl (Out_of_range ''BufferListView::remove_prefix'')"
  using assms
proof (induction n vs rule: BufferViewList_remove_prefix.induct)
  case (1 n)
  then show ?case by (simp add: unat_pos_iff)
next
  case (2 n v vs)
  have fv: "fits v" using "2.prems"(1) by simp
  have "0 < n" "\<not> n < sz v"
    using "2.prems"(2) fv by (auto simp: unat_pos_iff sz_order)
  moreover from this have "unat (n - sz v) = unat n - length v"
    using fv by (simp add: word_arith not_less)
  ultimately show ?case using "2.IH" "2.prems" by simp
qed

section \<open>The three classes keep the contract\<close>

interpretation buf: prefix_consumer Buffer_str Buffer_size Buffer_remove_prefix Buffer_wf
proof unfold_locales
  fix b n
  assume b: "Buffer_wf b"
  show "fits (Buffer_str b)" using b by (rule Buffer_wf_fits)
  show "Buffer_size b = sz (Buffer_str b)" by (simp add: Buffer_size_def)
  show "unat n \<le> length (Buffer_str b) \<Longrightarrow> \<exists>b'. Buffer_remove_prefix n b = Inr b' \<and>
      Buffer_wf b' \<and> Buffer_str b' = drop (unat n) (Buffer_str b)"
    using b by (rule Buffer_remove_prefix_ok)
  show "length (Buffer_str b) < unat n \<Longrightarrow> \<exists>msg. Buffer_remove_prefix n b = Inl (Out_of_range msg)"
    using Buffer_wf_fits [OF b]
    by (simp add: Buffer_remove_prefix_def Buffer_size_def sz_order)
qed

interpretation buflist: prefix_consumer BufferList_concatenate BufferList_size
  BufferList_remove_prefix BufferList_wf
  by unfold_locales
    (auto simp: BufferList_size_eq BufferList_concatenate_eq BufferList_remove_prefix_ok
      BufferList_remove_prefix_err, auto simp: BufferList_wf_def)

interpretation views: prefix_consumer concat BufferViewList_size
  BufferViewList_remove_prefix BufferViewList_wf
proof unfold_locales
  fix vs n
  assume vs: "BufferViewList_wf vs"
  then have f: "fits (concat vs)" by (simp only: BufferViewList_wf_def)
  show "fits (concat vs)" by (rule f)
  show "BufferViewList_size vs = sz (concat vs)"
    using foldl_plus_sz [of "\<lambda>x. x" 0 vs] by (simp add: BufferViewList_size_def)
  show "unat n \<le> length (concat vs) \<Longrightarrow> \<exists>vs'. BufferViewList_remove_prefix n vs = Inr vs' \<and>
      BufferViewList_wf vs' \<and> concat vs' = drop (unat n) (concat vs)"
    unfolding BufferViewList_wf_def by (rule BufferViewList_remove_prefix_ok [OF f])
  show "length (concat vs) < unat n \<Longrightarrow>
      \<exists>msg. BufferViewList_remove_prefix n vs = Inl (Out_of_range msg)"
    using BufferViewList_remove_prefix_err [OF f] by blast
qed

lemma BufferViewList_of_BufferList_concat:
  "concat (BufferViewList_of_BufferList bl) = BufferList_concatenate bl"
  using foldl_snoc [of Buffer_str "[]" bl]
  by (simp add: BufferViewList_of_BufferList_def BufferList_concatenate_eq)

lemma BufferViewList_as_iovecs_eq: "BufferViewList_as_iovecs vs = map (\<lambda>x. (x, sz x)) vs"
  using foldl_snoc [of "\<lambda>x. (x, sz x)" "[]" vs] by (simp add: BufferViewList_as_iovecs_def)

end
