(* ===== verification/ByteStreams.thy ===== *)
theory ByteStreams
  imports Buffers
begin

text \<open>
  \<^verbatim>\<open>libsponge/byte_stream.hh\<close> and \<^verbatim>\<open>byte_stream.cc\<close>: the flow-controlled in-memory byte
  stream. The state is the queue of written pieces with two running counters; the lemmas
  show that it implements a bounded first-in first-out queue of bytes, whatever the way the
  bytes are cut into pieces, and that no operation reads past the end of that queue.
\<close>

section \<open>State and operations\<close>

record ByteStream =
  bs_buffer :: "Buffer list"
  bs_capacity :: size_t
  bs_written_cnt :: size_t
  bs_read_cnt :: size_t
  bs_input_ended_flag :: bool
  bs_error :: bool

definition ByteStream_new :: "size_t \<Rightarrow> ByteStream" where
  "ByteStream_new capacity =
     \<lparr>bs_buffer = [], bs_capacity = capacity, bs_written_cnt = 0, bs_read_cnt = 0,
      bs_input_ended_flag = False, bs_error = False\<rparr>"

definition ByteStream_buffer_size :: "ByteStream \<Rightarrow> size_t" where
  "ByteStream_buffer_size s = bs_written_cnt s - bs_read_cnt s"

definition ByteStream_remaining_capacity :: "ByteStream \<Rightarrow> size_t" where
  "ByteStream_remaining_capacity s = bs_capacity s - ByteStream_buffer_size s"

definition ByteStream_write :: "byte list \<Rightarrow> ByteStream \<Rightarrow> ByteStream \<times> size_t" where
  "ByteStream_write data s =
     (let ret = min (sz data) (ByteStream_remaining_capacity s) in
      (s\<lparr>bs_buffer := bs_buffer s @ [Buffer_of_string (take (unat ret) data)],
         bs_written_cnt := bs_written_cnt s + ret\<rparr>, ret))"

fun peek_loop :: "Buffer list \<Rightarrow> size_t \<Rightarrow> byte list \<Rightarrow> byte list" where
  "peek_loop [] n ret = ret"
| "peek_loop (buffer # rest) n ret =
     (if n \<ge> Buffer_size buffer then
        peek_loop rest (n - Buffer_size buffer) (ret @ Buffer_str buffer)
      else ret @ take (unat n) (Buffer_str buffer))"

definition ByteStream_peek_output :: "size_t \<Rightarrow> ByteStream \<Rightarrow> byte list" where
  "ByteStream_peek_output len s =
     (let n = min len (ByteStream_buffer_size s) in peek_loop (bs_buffer s) n [])"

fun pop_loop :: "Buffer list \<Rightarrow> size_t \<Rightarrow> Buffer list res" where
  "pop_loop [] n =
     (if n > 0 then Inl (Undefined_behaviour ''std::deque::front on an empty deque'') else Inr [])"
| "pop_loop (front # rest) n =
     (if n > 0 then
        if n \<ge> Buffer_size front then pop_loop rest (n - Buffer_size front)
        else bind_res (Buffer_remove_prefix n front) (\<lambda>front'. Inr (front' # rest))
      else Inr (front # rest))"

definition ByteStream_pop_output :: "size_t \<Rightarrow> ByteStream \<Rightarrow> ByteStream res" where
  "ByteStream_pop_output len s =
     (let n = min len (ByteStream_buffer_size s) in
      bind_res (pop_loop (bs_buffer s) n)
        (\<lambda>buffer. Inr (s\<lparr>bs_read_cnt := bs_read_cnt s + n, bs_buffer := buffer\<rparr>)))"

definition ByteStream_read :: "size_t \<Rightarrow> ByteStream \<Rightarrow> (ByteStream \<times> byte list) res" where
  "ByteStream_read len s =
     (let ret = ByteStream_peek_output len s in
      bind_res (ByteStream_pop_output len s) (\<lambda>s'. Inr (s', ret)))"

definition ByteStream_end_input :: "ByteStream \<Rightarrow> ByteStream" where
  "ByteStream_end_input s = s\<lparr>bs_input_ended_flag := True\<rparr>"

definition ByteStream_set_error :: "ByteStream \<Rightarrow> ByteStream" where
  "ByteStream_set_error s = s\<lparr>bs_error := True\<rparr>"

definition ByteStream_input_ended :: "ByteStream \<Rightarrow> bool" where
  "ByteStream_input_ended s = bs_input_ended_flag s"

definition ByteStream_error :: "ByteStream \<Rightarrow> bool" where
  "ByteStream_error s = bs_error s"

definition ByteStream_buffer_empty :: "ByteStream \<Rightarrow> bool" where
  "ByteStream_buffer_empty s \<longleftrightarrow> ByteStream_buffer_size s = 0"

definition ByteStream_eof :: "ByteStream \<Rightarrow> bool" where
  "ByteStream_eof s \<longleftrightarrow> bs_input_ended_flag s \<and> ByteStream_buffer_empty s"

definition ByteStream_bytes_written :: "ByteStream \<Rightarrow> size_t" where
  "ByteStream_bytes_written s = bs_written_cnt s"

definition ByteStream_bytes_read :: "ByteStream \<Rightarrow> size_t" where
  "ByteStream_bytes_read s = bs_read_cnt s"

section \<open>Abstraction and invariant\<close>

text \<open>The bytes in the stream, and the invariant that ties the counters to them.\<close>

definition ByteStream_contents :: "ByteStream \<Rightarrow> byte list" where
  "ByteStream_contents s = concat (map Buffer_str (bs_buffer s))"

definition ByteStream_inv :: "ByteStream \<Rightarrow> bool" where
  "ByteStream_inv s \<longleftrightarrow>
     (\<forall>b \<in> set (bs_buffer s). Buffer_wf b) \<and>
     ByteStream_buffer_size s = sz (ByteStream_contents s) \<and>
     length (ByteStream_contents s) \<le> unat (bs_capacity s)"

lemma ByteStream_inv_fits: "ByteStream_inv s \<Longrightarrow> fits (ByteStream_contents s)"
  unfolding ByteStream_inv_def by (blast intro: le_unat64)

lemma ByteStream_size_unat:
  "ByteStream_inv s \<Longrightarrow> unat (ByteStream_buffer_size s) = length (ByteStream_contents s)"
  using ByteStream_inv_fits [of s] by (simp add: ByteStream_inv_def)

lemma ByteStream_remaining_unat:
  "ByteStream_inv s \<Longrightarrow>
     unat (ByteStream_remaining_capacity s) = unat (bs_capacity s) - length (ByteStream_contents s)"
  using ByteStream_size_unat [of s]
  by (simp add: ByteStream_remaining_capacity_def ByteStream_inv_def unat_diff_le word_le_nat_alt)

lemma ByteStream_new_inv [simp]: "ByteStream_inv (ByteStream_new c)"
  by (simp add: ByteStream_inv_def ByteStream_new_def ByteStream_contents_def
      ByteStream_buffer_size_def)

lemma ByteStream_new_contents [simp]: "ByteStream_contents (ByteStream_new c) = []"
  by (simp add: ByteStream_contents_def ByteStream_new_def)

section \<open>The operations on the abstract queue\<close>

lemma ByteStream_write_contents:
  assumes inv: "ByteStream_inv s" and d: "fits data"
    and w: "ByteStream_write data s = (s', n)"
  shows "ByteStream_inv s'"
    and "unat n = min (length data) (unat (bs_capacity s) - length (ByteStream_contents s))"
    and "ByteStream_contents s' = ByteStream_contents s @ take (unat n) data"
    and "bs_written_cnt s' = bs_written_cnt s + n"
    and "bs_read_cnt s' = bs_read_cnt s"
    and "bs_capacity s' = bs_capacity s"
    and "bs_input_ended_flag s' = bs_input_ended_flag s"
    and "bs_error s' = bs_error s"
proof -
  have n: "n = min (sz data) (ByteStream_remaining_capacity s)"
    and s': "s' = s\<lparr>bs_buffer := bs_buffer s @ [Buffer_of_string (take (unat n) data)],
               bs_written_cnt := bs_written_cnt s + n\<rparr>"
    using w by (auto simp: ByteStream_write_def Let_def)
  show un: "unat n = min (length data) (unat (bs_capacity s) - length (ByteStream_contents s))"
    using d inv by (simp add: n unat_min ByteStream_remaining_unat)
  show c: "ByteStream_contents s' = ByteStream_contents s @ take (unat n) data"
    by (simp add: s' ByteStream_contents_def)
  have "sz (take (unat n) data) = n"
    using un by (intro sz_eqI) simp
  then have "ByteStream_buffer_size s' = sz (ByteStream_contents s')"
    using inv c by (simp add: s' sz_append ByteStream_inv_def ByteStream_buffer_size_def)
  moreover have "bs_capacity s' = bs_capacity s"
    by (simp add: s')
  moreover have "length (ByteStream_contents s') \<le> unat (bs_capacity s)"
    using inv un by (auto simp: c ByteStream_inv_def)
  moreover have "Buffer_wf (Buffer_of_string (take (unat n) data))"
    by simp
  ultimately show "ByteStream_inv s'"
    using inv by (auto simp: s' ByteStream_inv_def)
qed (use w in \<open>auto simp: ByteStream_write_def Let_def\<close>)

lemma peek_loop_eq:
  "\<forall>b \<in> set bl. Buffer_wf b \<Longrightarrow> fits (concat (map Buffer_str bl)) \<Longrightarrow>
     peek_loop bl n ret = ret @ take (unat n) (concat (map Buffer_str bl))"
proof (induction bl n ret rule: peek_loop.induct)
  case (1 n ret)
  then show ?case by simp
next
  case (2 b rest n ret)
  then have fb: "fits (Buffer_str b)" by simp
  show ?case
  proof (cases "n \<ge> Buffer_size b")
    case True
    then have "unat (n - Buffer_size b) = unat n - length (Buffer_str b)"
      and "length (Buffer_str b) \<le> unat n"
      using fb by (simp_all add: Buffer_size_def unat_diff_le sz_order)
    with True "2" show ?thesis by simp
  next
    case False
    then have "unat n < length (Buffer_str b)"
      using fb by (simp add: Buffer_size_def sz_order not_le)
    with False show ?thesis by simp
  qed
qed

lemma take_min_length: "take (min n (length xs)) xs = take n xs"
  by (simp add: min_def)

lemma ByteStream_peek_output_eq:
  "ByteStream_inv s \<Longrightarrow>
     ByteStream_peek_output len s = take (unat len) (ByteStream_contents s)"
  using peek_loop_eq [of "bs_buffer s"] ByteStream_inv_fits [of s] ByteStream_size_unat [of s]
  by (simp add: ByteStream_peek_output_def ByteStream_inv_def ByteStream_contents_def Let_def
      unat_min take_min_length)

lemma pop_loop_ok:
  "\<forall>b \<in> set bl. Buffer_wf b \<Longrightarrow> fits (concat (map Buffer_str bl)) \<Longrightarrow>
     unat n \<le> length (concat (map Buffer_str bl)) \<Longrightarrow>
     \<exists>bl'. pop_loop bl n = Inr bl' \<and> (\<forall>b \<in> set bl'. Buffer_wf b) \<and>
       concat (map Buffer_str bl') = drop (unat n) (concat (map Buffer_str bl))"
proof (induction bl n rule: pop_loop.induct)
  case (1 n)
  then show ?case by (simp add: unat_pos_iff)
next
  case (2 b rest n)
  then have fb: "fits (Buffer_str b)" by simp
  consider "n = 0" | "n \<noteq> 0" "n \<ge> Buffer_size b" | "n \<noteq> 0" "n < Buffer_size b"
    by fastforce
  then show ?case
  proof cases
    case 1
    with "2.prems" show ?thesis by simp
  next
    case 2
    then have "unat (n - Buffer_size b) = unat n - length (Buffer_str b)"
      and "length (Buffer_str b) \<le> unat n"
      using fb by (simp_all add: Buffer_size_def unat_diff_le sz_order)
    with 2 "2.prems" "2.IH" show ?thesis by (auto simp: word_neq_0_conv)
  next
    case 3
    then have le: "unat n < length (Buffer_str b)"
      using fb by (simp add: Buffer_size_def sz_order)
    with "2.prems"(1) obtain b' where "Buffer_remove_prefix n b = Inr b'" "Buffer_wf b'"
      "Buffer_str b' = drop (unat n) (Buffer_str b)"
      using buf.remove_ok [of b n] by auto
    with 3 le "2.prems" show ?thesis by (auto simp: word_neq_0_conv not_le)
  qed
qed

lemma ByteStream_pop_output_ok:
  assumes inv: "ByteStream_inv s"
  obtains s' where "ByteStream_pop_output len s = Inr s'" and "ByteStream_inv s'"
    and "ByteStream_contents s' = drop (unat len) (ByteStream_contents s)"
    and "bs_written_cnt s' = bs_written_cnt s"
    and "bs_read_cnt s' = bs_read_cnt s + min len (ByteStream_buffer_size s)"
    and "bs_capacity s' = bs_capacity s"
    and "bs_input_ended_flag s' = bs_input_ended_flag s"
    and "bs_error s' = bs_error s"
proof -
  let ?n = "min len (ByteStream_buffer_size s)"
  have f: "fits (ByteStream_contents s)" using inv by (rule ByteStream_inv_fits)
  have n: "unat ?n = min (unat len) (length (ByteStream_contents s))"
    using inv by (simp add: unat_min ByteStream_size_unat)
  then obtain bl where bl: "pop_loop (bs_buffer s) ?n = Inr bl" "\<forall>b \<in> set bl. Buffer_wf b"
    "concat (map Buffer_str bl) = drop (unat ?n) (ByteStream_contents s)"
    using pop_loop_ok [of "bs_buffer s" ?n] inv f
    by (auto simp: ByteStream_inv_def ByteStream_contents_def)
  let ?s = "s\<lparr>bs_read_cnt := bs_read_cnt s + ?n, bs_buffer := bl\<rparr>"
  have c: "ByteStream_contents ?s = drop (unat len) (ByteStream_contents s)"
    using bl(3) n by (simp add: ByteStream_contents_def min_def)
  have "sz (drop (unat ?n) (ByteStream_contents s)) = sz (ByteStream_contents s) - ?n"
    using n by (intro sz_drop) simp
  then have "ByteStream_buffer_size ?s = sz (ByteStream_contents ?s)"
    using inv bl(3) by (simp add: ByteStream_inv_def ByteStream_buffer_size_def
        ByteStream_contents_def algebra_simps)
  then have "ByteStream_inv ?s"
    using inv bl(2) c by (auto simp: ByteStream_inv_def)
  moreover have "ByteStream_pop_output len s = Inr ?s"
    using bl(1) by (simp add: ByteStream_pop_output_def Let_def)
  ultimately show ?thesis using that c by simp
qed

lemma ByteStream_read_ok:
  assumes inv: "ByteStream_inv s"
  obtains s' where "ByteStream_read len s = Inr (s', take (unat len) (ByteStream_contents s))"
    and "ByteStream_pop_output len s = Inr s'"
    and "ByteStream_inv s'"
    and "ByteStream_contents s' = drop (unat len) (ByteStream_contents s)"
    and "bs_written_cnt s' = bs_written_cnt s"
    and "bs_read_cnt s' = bs_read_cnt s + min len (ByteStream_buffer_size s)"
    and "bs_capacity s' = bs_capacity s"
    and "bs_input_ended_flag s' = bs_input_ended_flag s"
    and "bs_error s' = bs_error s"
  using ByteStream_pop_output_ok [OF inv, of len] inv
  by (auto simp: ByteStream_read_def ByteStream_peek_output_eq)

lemma ByteStream_flags [simp]:
  "ByteStream_inv (ByteStream_end_input s) = ByteStream_inv s"
  "ByteStream_inv (ByteStream_set_error s) = ByteStream_inv s"
  "ByteStream_contents (ByteStream_end_input s) = ByteStream_contents s"
  "ByteStream_contents (ByteStream_set_error s) = ByteStream_contents s"
  by (simp_all add: ByteStream_inv_def ByteStream_contents_def ByteStream_buffer_size_def
      ByteStream_end_input_def ByteStream_set_error_def)

lemma ByteStream_buffer_empty_iff:
  "ByteStream_inv s \<Longrightarrow> ByteStream_buffer_empty s \<longleftrightarrow> ByteStream_contents s = []"
  using ByteStream_inv_fits [of s] by (simp add: ByteStream_buffer_empty_def ByteStream_inv_def)


section \<open>The stream as its clients see it\<close>

text \<open>
  What the reassembler, the TCP sender and the receiver rely on: a bounded queue of bytes
  with counters. \<open>ByteStream\<close> is the instance; the facts of the locale are stated over the
  abstract contents only.
\<close>

locale bounded_byte_queue =
  fixes contents :: "'s \<Rightarrow> byte list"
    and capacity :: "'s \<Rightarrow> nat"
    and invar :: "'s \<Rightarrow> bool"
    and put :: "byte list \<Rightarrow> 's \<Rightarrow> 's \<times> size_t"
    and get :: "size_t \<Rightarrow> 's \<Rightarrow> ('s \<times> byte list) res"
  assumes bounded: "invar s \<Longrightarrow> length (contents s) \<le> capacity s"
    and put_law: "invar s \<Longrightarrow> fits data \<Longrightarrow> put data s = (s', n) \<Longrightarrow>
      invar s' \<and> capacity s' = capacity s \<and> contents s' = contents s @ take (unat n) data \<and>
      unat n = min (length data) (capacity s - length (contents s))"
    and get_law: "invar s \<Longrightarrow> \<exists>s'. get len s = Inr (s', take (unat len) (contents s)) \<and>
      invar s' \<and> capacity s' = capacity s \<and> contents s' = drop (unat len) (contents s)"
begin

lemma put_all:
  assumes "invar s" and "fits data" and "length data \<le> capacity s - length (contents s)"
    and "put data s = (s', n)"
  shows "contents s' = contents s @ data" and "unat n = length data"
  using put_law [OF assms(1,2,4)] assms(3) by (auto simp: min_def)

lemma put_then_get:
  assumes "invar s" and "contents s = []" and "fits data" and "length data \<le> capacity s"
    and "put data s = (s', n)"
  shows "\<exists>s''. get n s' = Inr (s'', data) \<and> contents s'' = []"
proof -
  have c: "contents s' = data" "unat n = length data" and "invar s'"
    using put_all [OF assms(1,3) _ assms(5)] put_law [OF assms(1,3,5)] assms(2,4) by auto
  then show ?thesis using get_law [of s' n] by auto
qed

lemma get_get:
  assumes "invar s" and "get m s = Inr (s1, x)" and "get n s1 = Inr (s2, y)"
  shows "x @ y = take (unat m + unat n) (contents s)"
    and "contents s2 = drop (unat m + unat n) (contents s)"
  using get_law [OF assms(1), of m] get_law [of s1 n] assms(2,3)
  by (auto simp: take_add add.commute)

end

interpretation bstream: bounded_byte_queue ByteStream_contents "\<lambda>s. unat (bs_capacity s)"
  ByteStream_inv ByteStream_write ByteStream_read
proof unfold_locales
  fix s :: ByteStream and s' data n len
  assume inv: "ByteStream_inv s"
  show "length (ByteStream_contents s) \<le> unat (bs_capacity s)"
    using inv by (simp add: ByteStream_inv_def)
  show "fits data \<Longrightarrow> ByteStream_write data s = (s', n) \<Longrightarrow>
      ByteStream_inv s' \<and> unat (bs_capacity s') = unat (bs_capacity s) \<and>
      ByteStream_contents s' = ByteStream_contents s @ take (unat n) data \<and>
      unat n = min (length data) (unat (bs_capacity s) - length (ByteStream_contents s))"
    using ByteStream_write_contents [OF inv] by metis
  show "\<exists>s'. ByteStream_read len s = Inr (s', take (unat len) (ByteStream_contents s)) \<and>
      ByteStream_inv s' \<and> unat (bs_capacity s') = unat (bs_capacity s) \<and>
      ByteStream_contents s' = drop (unat len) (ByteStream_contents s)"
    using ByteStream_read_ok [OF inv, of len] by metis
qed

section \<open>Whole lifetimes of a stream\<close>

text \<open>
  A stream together with a record of its history: all bytes ever accepted by
  \<^verbatim>\<open>write\<close> and all bytes ever handed out by \<^verbatim>\<open>read\<close> or dropped by \<^verbatim>\<open>pop_output\<close>.
\<close>

datatype stream_op =
    Write "byte list"
  | Read size_t
  | Pop size_t
  | End_input
  | Set_error

type_synonym stream_history = "ByteStream \<times> byte list \<times> byte list"

fun stream_step :: "stream_op \<Rightarrow> stream_history \<Rightarrow> stream_history res" where
  "stream_step (Write data) (s, acc, out) =
     (case ByteStream_write data s of (s', n) \<Rightarrow> Inr (s', acc @ take (unat n) data, out))"
| "stream_step (Read n) (s, acc, out) =
     bind_res (ByteStream_read n s) (\<lambda>(s', bytes). Inr (s', acc, out @ bytes))"
| "stream_step (Pop n) (s, acc, out) =
     bind_res (ByteStream_pop_output n s)
       (\<lambda>s'. Inr (s', acc, out @ ByteStream_peek_output n s))"
| "stream_step End_input (s, acc, out) = Inr (ByteStream_end_input s, acc, out)"
| "stream_step Set_error (s, acc, out) = Inr (ByteStream_set_error s, acc, out)"

fun stream_op_ok :: "stream_op \<Rightarrow> bool" where
  "stream_op_ok (Write data) \<longleftrightarrow> fits data"
| "stream_op_ok _ \<longleftrightarrow> True"

definition stream_history_inv :: "size_t \<Rightarrow> stream_history \<Rightarrow> bool" where
  "stream_history_inv c = (\<lambda>(s, acc, out).
     ByteStream_inv s \<and> bs_capacity s = c \<and> acc = out @ ByteStream_contents s \<and>
     bs_written_cnt s = sz acc \<and> bs_read_cnt s = sz out)"

interpretation stream_life: op_machine stream_step stream_op_ok "stream_history_inv c"
proof unfold_locales
  fix h x
  assume h: "stream_history_inv c h" and ok: "stream_op_ok x"
  obtain s acc out where [simp]: "h = (s, acc, out)" by (cases h)
  have inv: "ByteStream_inv s" and hist: "bs_capacity s = c" "acc = out @ ByteStream_contents s"
    "bs_written_cnt s = sz acc" "bs_read_cnt s = sz out"
    using h by (auto simp: stream_history_inv_def)
  have cnt: "min n (ByteStream_buffer_size s) = sz (take (unat n) (ByteStream_contents s))" for n
    using inv by (intro sz_eqI [symmetric]) (simp add: unat_min ByteStream_size_unat min.commute)
  show "\<exists>s'. stream_step x h = Inr s' \<and> stream_history_inv c s'"
  proof (cases x)
    case (Write data)
    obtain s' n where w: "ByteStream_write data s = (s', n)" by fastforce
    then have "sz (take (unat n) data) = n"
      using ByteStream_write_contents(2) [OF inv _ w] ok Write by (intro sz_eqI) simp
    then show ?thesis
      using ByteStream_write_contents [OF inv _ w] w ok Write hist
      by (auto simp: stream_history_inv_def sz_append)
  next
    case (Read n)
    obtain s' where "ByteStream_read n s = Inr (s', take (unat n) (ByteStream_contents s))"
      and "ByteStream_inv s'" "ByteStream_contents s' = drop (unat n) (ByteStream_contents s)"
      "bs_written_cnt s' = bs_written_cnt s" "bs_capacity s' = bs_capacity s"
      "bs_read_cnt s' = bs_read_cnt s + min n (ByteStream_buffer_size s)"
      using ByteStream_read_ok [OF inv] by metis
    with Read hist cnt show ?thesis by (simp add: stream_history_inv_def sz_append)
  next
    case (Pop n)
    obtain s' where "ByteStream_pop_output n s = Inr s'"
      and "ByteStream_inv s'" "ByteStream_contents s' = drop (unat n) (ByteStream_contents s)"
      "bs_written_cnt s' = bs_written_cnt s" "bs_capacity s' = bs_capacity s"
      "bs_read_cnt s' = bs_read_cnt s + min n (ByteStream_buffer_size s)"
      using ByteStream_pop_output_ok [OF inv] by metis
    with Pop hist cnt show ?thesis
      by (simp add: stream_history_inv_def sz_append ByteStream_peek_output_eq [OF inv])
  qed (use inv hist in \<open>simp_all add: stream_history_inv_def\<close>,
      simp_all add: ByteStream_end_input_def ByteStream_set_error_def)
qed

text \<open>
  C5. A \<^verbatim>\<open>ByteStream\<close> is a loss-free first-in first-out queue: along any sequence of writes,
  reads, pops and flag updates from a fresh stream no operation fails, the bytes accepted by
  \<^verbatim>\<open>write\<close> are exactly the bytes handed out so far followed by the bytes still stored, the
  stored bytes never exceed the capacity, and \<^verbatim>\<open>bytes_written\<close> and \<^verbatim>\<open>bytes_read\<close> count
  both sides (modulo the width of \<^verbatim>\<open>size_t\<close>).
\<close>

theorem byte_stream_fifo:
  assumes "list_all stream_op_ok xs"
  shows "\<exists>s acc out. run_ops stream_step xs (ByteStream_new c, [], []) = Inr (s, acc, out) \<and>
    acc = out @ ByteStream_contents s \<and> length (ByteStream_contents s) \<le> unat c \<and>
    ByteStream_bytes_written s = sz acc \<and> ByteStream_bytes_read s = sz out"
proof -
  have "stream_history_inv c (ByteStream_new c, [], [])"
    by (simp add: stream_history_inv_def) (simp add: ByteStream_new_def)
  then obtain s acc out where "run_ops stream_step xs (ByteStream_new c, [], []) = Inr (s, acc, out)"
    "stream_history_inv c (s, acc, out)"
    using stream_life.run_ok assms by (metis prod_cases3)
  then show ?thesis
    using bstream.bounded [of s]
    by (auto simp: stream_history_inv_def ByteStream_bytes_written_def ByteStream_bytes_read_def)
qed

theorem byte_stream_fifo_witness:
  "list_all stream_op_ok [Write [1, 2, 3], Read 2, Write [4, 5], Pop 1] \<and>
   (\<exists>s acc out.
      run_ops stream_step [Write [1, 2, 3], Read 2, Write [4, 5], Pop 1] (ByteStream_new 3, [], [])
        = Inr (s, acc, out) \<and>
      acc = out @ ByteStream_contents s \<and> length (ByteStream_contents s) \<le> unat (3::size_t) \<and>
      ByteStream_bytes_written s = sz acc \<and> ByteStream_bytes_read s = sz out)"
proof -
  have ok: "list_all stream_op_ok [Write [1, 2, 3], Read 2, Write [4, 5], Pop 1]" by simp
  show ?thesis using ok byte_stream_fifo [OF ok, of 3] by blast
qed

end
