(* ===== verification/Reassembler.thy ===== *)
theory Reassembler
  imports ByteStreams
begin

text \<open>
  \<^verbatim>\<open>libsponge/stream_reassembler.hh\<close> and \<^verbatim>\<open>stream_reassembler.cc\<close>: substrings of a byte
  stream arrive in any order, overlapping and repeated; the reassembler keeps the ones inside
  its window in a ring of \<^verbatim>\<open>capacity\<close> slots and writes the contiguous prefix to its output
  stream. The lemmas relate the ring to the true stream it receives pieces of.
\<close>

section \<open>State and operations\<close>

record StreamReassembler =
  sr_output :: ByteStream
  sr_capacity :: size_t
  sr_stream :: "(byte \<times> bool) list"
  sr_cur_index :: u64
  sr_eof_index :: u64
  sr_unassembled_bytes_cnt :: size_t

definition uint64_max :: u64 where
  "uint64_max = - 1"

definition StreamReassembler_new :: "size_t \<Rightarrow> StreamReassembler" where
  "StreamReassembler_new capacity =
     \<lparr>sr_output = ByteStream_new capacity, sr_capacity = capacity,
      sr_stream = replicate (unat capacity) (0, False), sr_cur_index = 0,
      sr_eof_index = uint64_max, sr_unassembled_bytes_cnt = 0\<rparr>"

text \<open>
  The slot of an index: \<^verbatim>\<open>_stream[i % _capacity]\<close>. A remainder by zero and an index past the
  vector are undefined in C++; both are errors of the model.
\<close>

definition ring_slot :: "StreamReassembler \<Rightarrow> u64 \<Rightarrow> nat res" where
  "ring_slot r i =
     (if sr_capacity r = 0 then Inl (Undefined_behaviour ''remainder by zero'')
      else if unat (i mod sr_capacity r) < length (sr_stream r) then Inr (unat (i mod sr_capacity r))
      else Inl (Undefined_behaviour ''std::vector::operator[] out of range''))"

function store_loop ::
    "byte list \<Rightarrow> size_t \<Rightarrow> size_t \<Rightarrow> size_t \<Rightarrow> StreamReassembler \<Rightarrow> StreamReassembler res" where
  "store_loop data ed i j r =
     (if i < ed then
        bind_res (ring_slot r i) (\<lambda>k.
        if \<not> unat j < length data then
          Inl (Undefined_behaviour ''std::string::operator[] out of range'')
        else
          let t = sr_stream r ! k in
          if snd t then
            if fst t \<noteq> data ! unat j then
              Inl (Runtime_error ''StreamReassembler::push_substring: Inconsistent substrings!'')
            else store_loop data ed (i + 1) (j + 1) r
          else
            store_loop data ed (i + 1) (j + 1)
              (r\<lparr>sr_stream := (sr_stream r)[k := (data ! unat j, True)],
                 sr_unassembled_bytes_cnt := sr_unassembled_bytes_cnt r + 1\<rparr>))
      else Inr r)"
  by pat_completeness auto
termination
  by (relation "measure (\<lambda>(data, ed, i, j, r). unat ed - unat i)") (simp_all add: unat_inc_diff)

declare store_loop.simps [simp del]

function assemble_loop ::
    "StreamReassembler \<Rightarrow> byte list \<Rightarrow> (StreamReassembler \<times> byte list) res" where
  "assemble_loop r str =
     (if sr_cur_index r < sr_eof_index r then
        bind_res (ring_slot r (sr_cur_index r)) (\<lambda>k.
        if snd (sr_stream r ! k) then
          assemble_loop
            (r\<lparr>sr_stream := (sr_stream r)[k := (0, False)],
               sr_unassembled_bytes_cnt := sr_unassembled_bytes_cnt r - 1,
               sr_cur_index := sr_cur_index r + 1\<rparr>)
            (str @ [fst (sr_stream r ! k)])
        else Inr (r, str))
      else Inr (r, str))"
  by pat_completeness auto
termination
  by (relation "measure (\<lambda>(r, str). unat (sr_eof_index r) - unat (sr_cur_index r))")
    (simp_all add: unat_inc_diff)

declare assemble_loop.simps [simp del]

definition note_eof :: "byte list \<Rightarrow> u64 \<Rightarrow> bool \<Rightarrow> StreamReassembler \<Rightarrow> StreamReassembler res" where
  "note_eof data index eof r =
     (if eof then
        if sr_eof_index r = uint64_max then Inr (r\<lparr>sr_eof_index := index + sz data\<rparr>)
        else if sr_eof_index r \<noteq> index + sz data then
          Inl (Runtime_error ''StreamReassembler::push_substring: Inconsistent EOF indexes!'')
        else Inr r
      else Inr r)"

definition StreamReassembler_push_substring ::
    "byte list \<Rightarrow> u64 \<Rightarrow> bool \<Rightarrow> StreamReassembler \<Rightarrow> StreamReassembler res" where
  "StreamReassembler_push_substring data index eof r =
     (let st = max index (sr_cur_index r);
          ed = min (index + sz data)
                 (min (sr_cur_index r + sr_capacity r - ByteStream_buffer_size (sr_output r))
                      (sr_eof_index r))
      in
      bind_res (note_eof data index eof r) (\<lambda>r1.
      bind_res (store_loop data ed st (st - index) r1) (\<lambda>r2.
      bind_res (assemble_loop r2 []) (\<lambda>(r3, str).
      let r4 = r3\<lparr>sr_output := fst (ByteStream_write str (sr_output r3))\<rparr> in
      Inr (if sr_cur_index r4 = sr_eof_index r4
           then r4\<lparr>sr_output := ByteStream_end_input (sr_output r4)\<rparr> else r4)))))"

definition StreamReassembler_stream_out :: "StreamReassembler \<Rightarrow> ByteStream" where
  "StreamReassembler_stream_out r = sr_output r"

definition StreamReassembler_unassembled_bytes :: "StreamReassembler \<Rightarrow> size_t" where
  "StreamReassembler_unassembled_bytes r = sr_unassembled_bytes_cnt r"

definition StreamReassembler_empty :: "StreamReassembler \<Rightarrow> bool" where
  "StreamReassembler_empty r \<longleftrightarrow> StreamReassembler_unassembled_bytes r = 0"

section \<open>The ring and the true stream\<close>

text \<open>
  \<open>whole\<close> is the complete stream the pieces are taken from. \<open>ring_ok whole r S\<close>: inside the
  window of \<open>capacity\<close> indices from the first unassembled one, exactly the slots of the indices
  in \<open>S\<close> are occupied, each with the byte the stream has there.
\<close>

abbreviation win :: "StreamReassembler \<Rightarrow> nat set" where
  "win r \<equiv> {unat (sr_cur_index r)..<unat (sr_cur_index r) + unat (sr_capacity r)}"

definition slot :: "StreamReassembler \<Rightarrow> nat \<Rightarrow> byte \<times> bool" where
  "slot r i = sr_stream r ! (i mod unat (sr_capacity r))"

definition ring_ok :: "byte list \<Rightarrow> StreamReassembler \<Rightarrow> nat set \<Rightarrow> bool" where
  "ring_ok whole r S \<longleftrightarrow>
     sr_capacity r \<noteq> 0 \<and> length (sr_stream r) = unat (sr_capacity r) \<and>
     S \<subseteq> win r \<and>
     (\<forall>i \<in> win r. snd (slot r i) \<longleftrightarrow> i \<in> S) \<and>
     (\<forall>i \<in> S. i < length whole \<and> fst (slot r i) = whole ! i) \<and>
     sr_unassembled_bytes_cnt r = sz (filter snd (sr_stream r))"

lemma ring_slot_ok:
  "ring_ok whole r S \<Longrightarrow> ring_slot r i = Inr (unat i mod unat (sr_capacity r))"
  by (auto simp: ring_ok_def ring_slot_def unat_mod_distrib unat_gt_0)

lemma window_mod_inj:
  fixes i j c n :: nat
  assumes "i mod n = j mod n" "c \<le> i" "i < c + n" "c \<le> j" "j < c + n"
  shows "i = j"
proof -
  have "a \<le> b \<Longrightarrow> b - a < n \<Longrightarrow> a mod n = b mod n \<Longrightarrow> a = b" for a b :: nat
    using mod_eq_dvd_iff_nat [of a b n] dvd_imp_le [of n "b - a"] by linarith
  from this [of i j] this [of j i] assms show ?thesis by linarith
qed

lemma count_set:
  "k < length xs \<Longrightarrow> \<not> snd (xs ! k) \<Longrightarrow>
     length (filter snd (xs[k := (b, True)])) = Suc (length (filter snd xs))"
proof (induction xs arbitrary: k)
  case (Cons x xs)
  then show ?case by (cases k) auto
qed simp

lemma count_clear:
  "k < length xs \<Longrightarrow> snd (xs ! k) \<Longrightarrow>
     Suc (length (filter snd (xs[k := (b, False)]))) = length (filter snd xs)"
proof (induction xs arbitrary: k)
  case (Cons x xs)
  then show ?case by (cases k) auto
qed simp


lemma ring_ok_set:
  assumes ok: "ring_ok whole r S" and i: "i \<in> win r" "i \<notin> S" "i < length whole"
  shows "ring_ok whole
    (r\<lparr>sr_stream := (sr_stream r)[i mod unat (sr_capacity r) := (whole ! i, True)],
       sr_unassembled_bytes_cnt := sr_unassembled_bytes_cnt r + 1\<rparr>) (insert i S)"
    (is "ring_ok whole ?r (insert i S)")
proof -
  let ?n = "unat (sr_capacity r)"
  have n: "0 < ?n" "length (sr_stream r) = ?n" using ok by (auto simp: ring_ok_def unat_gt_0)
  then have k: "i mod ?n < length (sr_stream r)" by simp
  have slot: "x \<in> win r \<Longrightarrow> slot ?r x = (if x = i then (whole ! i, True) else slot r x)" for x
    using window_mod_inj [of x ?n i "unat (sr_cur_index r)"] i(1) k
    by (auto simp: slot_def nth_list_update)
  have "\<not> snd (sr_stream r ! (i mod ?n))"
    using ok i by (auto simp: ring_ok_def slot_def)
  then have "length (filter snd (sr_stream ?r)) = Suc (length (filter snd (sr_stream r)))"
    using k by (simp add: count_set)
  then show ?thesis
    using ok i slot by (auto simp: ring_ok_def sz_def)
qed

lemma ring_ok_clear:
  assumes ok: "ring_ok whole r S" and i: "unat (sr_cur_index r) \<in> S"
    and less: "sr_cur_index r < e"
  shows "ring_ok whole
    (r\<lparr>sr_stream := (sr_stream r)[unat (sr_cur_index r) mod unat (sr_capacity r) := (0, False)],
       sr_unassembled_bytes_cnt := sr_unassembled_bytes_cnt r - 1,
       sr_cur_index := sr_cur_index r + 1\<rparr>) (S - {unat (sr_cur_index r)})"
    (is "ring_ok whole ?r (S - {?c})")
proof -
  let ?n = "unat (sr_capacity r)"
  have n: "0 < ?n" "length (sr_stream r) = ?n" using ok by (auto simp: ring_ok_def unat_gt_0)
  then have k: "?c mod ?n < length (sr_stream r)" by simp
  have c: "unat (sr_cur_index r + 1) = Suc ?c" using less by (rule unat_inc)
  have win: "x \<in> win ?r \<longleftrightarrow> x = ?c + ?n \<or> x \<in> win r \<and> x \<noteq> ?c" for x
    using c n by auto
  have slot: "x \<in> win ?r \<Longrightarrow> slot ?r x = (if x = ?c + ?n then (0, False) else slot r x)" for x
    using window_mod_inj [of x ?n ?c "?c"] k win [of x]
    by (auto simp: slot_def nth_list_update)
  have S: "S \<subseteq> win r" "?c + ?n \<notin> S" using ok by (auto simp: ring_ok_def)
  have "snd (sr_stream r ! (?c mod ?n))"
    using ok i n by (auto simp: ring_ok_def slot_def)
  then have "length (filter snd (sr_stream r)) = Suc (length (filter snd (sr_stream ?r)))"
    using k by (simp add: count_clear)
  then have "sz (filter snd (sr_stream r)) = 1 + sz (filter snd (sr_stream ?r))"
    by (simp only: sz_def of_nat_Suc)
  then have cnt: "sr_unassembled_bytes_cnt ?r = sz (filter snd (sr_stream ?r))"
    using ok by (simp add: ring_ok_def)
  have sub: "S - {?c} \<subseteq> win ?r" using S win by blast
  have "\<forall>x \<in> win ?r. snd (slot ?r x) \<longleftrightarrow> x \<in> S - {?c}"
    using slot win ok S by (auto simp: ring_ok_def)
  moreover have "\<forall>x \<in> S - {?c}. x < length whole \<and> fst (slot ?r x) = whole ! x"
  proof
    fix x assume x: "x \<in> S - {?c}"
    then have "x \<in> win ?r" and "x \<noteq> ?c + ?n" using sub S by auto
    then show "x < length whole \<and> fst (slot ?r x) = whole ! x"
      using slot x ok by (auto simp: ring_ok_def)
  qed
  ultimately show ?thesis
    unfolding ring_ok_def using sub cnt ok by (simp add: ring_ok_def)
qed

lemma store_next:
  fixes i j ed cur :: "64 word" and data whole :: "byte list"
  assumes lt: "i < ed" and cur: "cur \<le> i" and "fits data"
    and room: "unat i < unat ed \<longrightarrow> unat j + (unat ed - unat i) \<le> length data"
    and rest: "\<forall>x. unat i \<le> x \<and> x < unat ed \<longrightarrow> x < length whole \<and> data ! (unat j + (x - unat i)) = whole ! x"
  shows "unat j < length data" "unat i < length whole" "data ! unat j = whole ! unat i" "cur \<le> i + 1"
    "unat (i + 1) < unat ed \<longrightarrow> unat (j + 1) + (unat ed - unat (i + 1)) \<le> length data"
    "\<forall>x. unat (i + 1) \<le> x \<and> x < unat ed \<longrightarrow>
       x < length whole \<and> data ! (unat (j + 1) + (x - unat (i + 1))) = whole ! x"
    "insert (unat i) {unat (i + 1)..<unat ed} = {unat i..<unat ed}"
proof -
  have lt': "unat i < unat ed" using lt by (simp add: word_less_nat_alt)
  have i1: "unat (i + 1) = Suc (unat i)" using lt by (rule unat_inc)
  show jl: "unat j < length data" using room lt' by linarith
  have "Suc (unat j) < 2 ^ 64" using jl \<open>fits data\<close> by linarith
  then have j1: "unat (j + 1) = Suc (unat j)" by (simp add: unat_word_ariths)
  show "unat i < length whole" "data ! unat j = whole ! unat i" using rest lt' by auto
  show "cur \<le> i + 1" using cur i1 by (simp add: word_le_nat_alt)
  show "unat (i + 1) < unat ed \<longrightarrow> unat (j + 1) + (unat ed - unat (i + 1)) \<le> length data"
    using room lt' i1 j1 by linarith
  show "insert (unat i) {unat (i + 1)..<unat ed} = {unat i..<unat ed}" using i1 lt' by auto
  show "\<forall>x. unat (i + 1) \<le> x \<and> x < unat ed \<longrightarrow>
      x < length whole \<and> data ! (unat (j + 1) + (x - unat (i + 1))) = whole ! x"
  proof (intro allI impI)
    fix x assume x: "unat (i + 1) \<le> x \<and> x < unat ed"
    then have "unat (j + 1) + (x - unat (i + 1)) = unat j + (x - unat i)" using i1 j1 by linarith
    then show "x < length whole \<and> data ! (unat (j + 1) + (x - unat (i + 1))) = whole ! x"
      using rest x i1 by auto
  qed
qed

lemma store_loop_ok:
  assumes "ring_ok whole r S"
    and "sr_cur_index r \<le> i" and "unat ed \<le> unat (sr_cur_index r) + unat (sr_capacity r)"
    and "fits data" and "unat i < unat ed \<longrightarrow> unat j + (unat ed - unat i) \<le> length data"
    and "\<forall>x. unat i \<le> x \<and> x < unat ed \<longrightarrow>
           x < length whole \<and> data ! (unat j + (x - unat i)) = whole ! x"
  shows "\<exists>st cnt. store_loop data ed i j r =
      Inr (r\<lparr>sr_stream := st, sr_unassembled_bytes_cnt := cnt\<rparr>) \<and>
    ring_ok whole (r\<lparr>sr_stream := st, sr_unassembled_bytes_cnt := cnt\<rparr>) (S \<union> {unat i..<unat ed})"
  using assms
proof (induction data ed i j r arbitrary: S rule: store_loop.induct)
  case (1 data ed i j r)
  note ok = "1.prems"(1)
  let ?k = "unat i mod unat (sr_capacity r)"
  show ?case
  proof (cases "i < ed")
    case False
    then show ?thesis
      using ok by (intro exI [of _ "sr_stream r"] exI [of _ "sr_unassembled_bytes_cnt r"])
        (simp add: store_loop.simps [of data ed i j r] word_less_nat_alt)
  next
    case True
    note nx = store_next [OF True "1.prems"(2,4-6)]
    have win: "unat i \<in> win r" using "1.prems"(2,3) True by (auto simp: word_le_nat_alt word_less_nat_alt)
    show ?thesis
    proof (cases "snd (sr_stream r ! ?k)")
      case taken: True
      then have S: "unat i \<in> S" and same: "fst (sr_stream r ! ?k) = data ! unat j"
        using ok win nx(2,3) by (auto simp: ring_ok_def slot_def)
      have eq: "store_loop data ed i j r = store_loop data ed (i + 1) (j + 1) r"
        using True taken same nx(1)
        by (subst store_loop.simps) (simp add: ring_slot_ok [OF ok])
      have un: "S \<union> {unat (i + 1)..<unat ed} = S \<union> {unat i..<unat ed}"
        using S unfolding nx(7) [symmetric] by blast
      show ?thesis
        unfolding eq un [symmetric]
        by (rule "1.IH"(1) [OF True ring_slot_ok [OF ok] _ refl _ _ ok nx(4) "1.prems"(3,4) nx(5,6)])
          (use nx(1) taken same in simp_all)
    next
      case free: False
      then have S: "unat i \<notin> S"
        using ok win by (auto simp: ring_ok_def slot_def)
      let ?r = "r\<lparr>sr_stream := (sr_stream r)[?k := (data ! unat j, True)],
                   sr_unassembled_bytes_cnt := sr_unassembled_bytes_cnt r + 1\<rparr>"
      have ok': "ring_ok whole ?r (insert (unat i) S)"
        using ring_ok_set [OF ok win S nx(2)] by (simp add: nx(3))
      have eq: "store_loop data ed i j r = store_loop data ed (i + 1) (j + 1) ?r"
        using True free nx(1)
        by (subst store_loop.simps) (simp add: ring_slot_ok [OF ok])
      have un: "insert (unat i) S \<union> {unat (i + 1)..<unat ed} = S \<union> {unat i..<unat ed}"
        using nx(7) by blast
      have "\<exists>st cnt. store_loop data ed (i + 1) (j + 1) ?r =
          Inr (?r\<lparr>sr_stream := st, sr_unassembled_bytes_cnt := cnt\<rparr>) \<and>
        ring_ok whole (?r\<lparr>sr_stream := st, sr_unassembled_bytes_cnt := cnt\<rparr>)
          (insert (unat i) S \<union> {unat (i + 1)..<unat ed})"
        by (rule "1.IH"(2) [OF True ring_slot_ok [OF ok] _ refl _ ok' _ _ "1.prems"(4) nx(5,6)])
          (use nx(1,4) free "1.prems"(3) in simp_all)
      then show ?thesis unfolding eq un by simp
    qed
  qed
qed


lemma assemble_loop_ok:
  assumes "ring_ok whole r S" and "length whole \<le> unat (sr_eof_index r)"
    and "unat (sr_cur_index r) \<le> length whole"
  shows "\<exists>st cnt c bytes. assemble_loop r str =
      Inr (r\<lparr>sr_stream := st, sr_unassembled_bytes_cnt := cnt, sr_cur_index := c\<rparr>, str @ bytes) \<and>
    unat c = unat (sr_cur_index r) + length bytes \<and> unat c \<le> length whole \<and>
    bytes = take (length bytes) (drop (unat (sr_cur_index r)) whole) \<and>
    {unat (sr_cur_index r)..<unat c} \<subseteq> S \<and> unat c \<notin> S \<and>
    ring_ok whole (r\<lparr>sr_stream := st, sr_unassembled_bytes_cnt := cnt, sr_cur_index := c\<rparr>)
      (S - {..<unat c})"
  using assms
proof (induction r str arbitrary: S rule: assemble_loop.induct)
  case (1 r str)
  note ok = "1.prems"(1)
  let ?c = "unat (sr_cur_index r)"
  let ?k = "?c mod unat (sr_capacity r)"
  have n: "0 < unat (sr_capacity r)" using ok by (auto simp: ring_ok_def unat_gt_0)
  have S: "S \<subseteq> win r" "S \<subseteq> {..<length whole}" using ok by (auto simp: ring_ok_def)
  have iff: "?c \<in> S \<longleftrightarrow> snd (sr_stream r ! ?k)"
    using ok n by (auto simp: ring_ok_def slot_def)
  show ?case
  proof (cases "?c \<in> S")
    case False
    have "S - {..<?c} = S" using S by auto
    moreover have "assemble_loop r str = Inr (r, str)"
      using False iff by (subst assemble_loop.simps) (simp add: ring_slot_ok [OF ok])
    ultimately show ?thesis
      using ok False "1.prems"(3)
      by (intro exI [of _ "sr_stream r"] exI [of _ "sr_unassembled_bytes_cnt r"]
          exI [of _ "sr_cur_index r"] exI [of _ "[]"]) simp
  next
    case True
    then have cl: "?c < length whole" using S by auto
    then have less: "sr_cur_index r < sr_eof_index r"
      using "1.prems"(2) by (simp add: word_less_nat_alt)
    have c1: "unat (sr_cur_index r + 1) = Suc ?c" using less by (rule unat_inc)
    have byte: "fst (sr_stream r ! ?k) = whole ! ?c"
      using ok True by (auto simp: ring_ok_def slot_def)
    let ?r = "r\<lparr>sr_stream := (sr_stream r)[?k := (0, False)],
        sr_unassembled_bytes_cnt := sr_unassembled_bytes_cnt r - 1,
        sr_cur_index := sr_cur_index r + 1\<rparr>"
    have eq: "assemble_loop r str = assemble_loop ?r (str @ [whole ! ?c])"
      using True iff less byte by (subst assemble_loop.simps) (simp add: ring_slot_ok [OF ok])
    obtain st cnt c bytes where IH: "assemble_loop ?r (str @ [whole ! ?c]) =
        Inr (?r\<lparr>sr_stream := st, sr_unassembled_bytes_cnt := cnt, sr_cur_index := c\<rparr>,
          (str @ [whole ! ?c]) @ bytes)"
      "unat c = Suc ?c + length bytes" "unat c \<le> length whole"
      "bytes = take (length bytes) (drop (Suc ?c) whole)"
      "{Suc ?c..<unat c} \<subseteq> S - {?c}" "unat c \<notin> S - {?c}"
      "ring_ok whole (?r\<lparr>sr_stream := st, sr_unassembled_bytes_cnt := cnt, sr_cur_index := c\<rparr>)
        (S - {?c} - {..<unat c})"
      using "1.IH" [OF less ring_slot_ok [OF ok], of "S - {?c}"] True iff byte cl c1
        ring_ok_clear [OF ok True less] "1.prems"(2) by auto
    have bytes: "whole ! ?c # bytes = take (length (whole ! ?c # bytes)) (drop ?c whole)"
      using IH(4) cl by (simp add: Cons_nth_drop_Suc [symmetric])
    have S': "S - {?c} - {..<unat c} = S - {..<unat c}" using IH(2) by auto
    have sub: "{?c..<unat c} \<subseteq> S" "unat c \<notin> S"
    proof -
      have "{?c..<unat c} = insert ?c {Suc ?c..<unat c}" using IH(2) by auto
      then show "{?c..<unat c} \<subseteq> S" using IH(5) True by auto
      show "unat c \<notin> S" using IH(2,6) by auto
    qed
    show ?thesis
      unfolding eq IH(1)
      by (intro exI [of _ st] exI [of _ cnt] exI [of _ c] exI [of _ "whole ! ?c # bytes"])
        (use IH(2,3,7) bytes sub S' in simp)
  qed
qed


section \<open>The invariant of the reassembler\<close>

definition stored :: "StreamReassembler \<Rightarrow> nat set" where
  "stored r = {i \<in> win r. snd (slot r i)}"

abbreviation read_idx :: "StreamReassembler \<Rightarrow> nat" where
  "read_idx r \<equiv> unat (bs_read_cnt (sr_output r))"

abbreviation cur_idx :: "StreamReassembler \<Rightarrow> nat" where
  "cur_idx r \<equiv> unat (sr_cur_index r)"

definition output_ok :: "byte list \<Rightarrow> StreamReassembler \<Rightarrow> bool" where
  "output_ok whole r \<longleftrightarrow>
     ByteStream_inv (sr_output r) \<and> bs_capacity (sr_output r) = sr_capacity r \<and>
     bs_written_cnt (sr_output r) = sr_cur_index r \<and> read_idx r \<le> cur_idx r \<and>
     cur_idx r \<le> length whole \<and>
     ByteStream_contents (sr_output r) = drop (read_idx r) (take (cur_idx r) whole)"

definition eof_ok :: "byte list \<Rightarrow> StreamReassembler \<Rightarrow> bool" where
  "eof_ok whole r \<longleftrightarrow>
     (sr_eof_index r = uint64_max \<or> unat (sr_eof_index r) = length whole) \<and>
     (bs_input_ended_flag (sr_output r) \<longleftrightarrow> sr_cur_index r = sr_eof_index r)"

definition reassembler_inv :: "byte list \<Rightarrow> StreamReassembler \<Rightarrow> bool" where
  "reassembler_inv whole r \<longleftrightarrow>
     length whole + unat (sr_capacity r) < 2 ^ 64 \<and>
     ring_ok whole r (stored r) \<and> output_ok whole r \<and> eof_ok whole r \<and>
     stored r \<subseteq> {cur_idx r<..<read_idx r + unat (sr_capacity r)}"

definition piece_of :: "byte list \<Rightarrow> byte list \<Rightarrow> u64 \<Rightarrow> bool \<Rightarrow> bool" where
  "piece_of whole data index eof \<longleftrightarrow>
     unat index + length data \<le> length whole \<and>
     data = take (length data) (drop (unat index) whole) \<and>
     (eof \<longrightarrow> unat index + length data = length whole)"

definition accepted :: "byte list \<Rightarrow> u64 \<Rightarrow> StreamReassembler \<Rightarrow> nat set" where
  "accepted data index r =
     {unat index..<unat index + length data} \<inter> {cur_idx r..<read_idx r + unat (sr_capacity r)}"

lemma ring_ok_stored: "ring_ok whole r S \<Longrightarrow> stored r = S"
  by (auto simp: ring_ok_def stored_def)

lemma unat_uint64_max: "unat uint64_max = 2 ^ 64 - 1"
  by (simp add: uint64_max_def unsigned_minus_1_eq_mask mask_eq_exp_minus_1)

lemma ring_ok_eof [simp]: "ring_ok whole (r\<lparr>sr_eof_index := e\<rparr>) S = ring_ok whole r S"
  by (simp add: ring_ok_def slot_def)

lemma ring_ok_output [simp]: "ring_ok whole (r\<lparr>sr_output := b\<rparr>) S = ring_ok whole r S"
  by (simp add: ring_ok_def slot_def)

lemma stored_output [simp]: "stored (r\<lparr>sr_output := b\<rparr>) = stored r"
  by (simp add: stored_def slot_def)

lemma inv_arith:
  assumes inv: "reassembler_inv whole r" and piece: "piece_of whole data index eof"
  shows "fits data"
    and "unat (index + sz data) = unat index + length data"
    and "unat (sr_cur_index r + sr_capacity r - ByteStream_buffer_size (sr_output r)) =
      read_idx r + unat (sr_capacity r)"
    and "length whole \<le> unat (sr_eof_index r)"
    and "cur_idx r \<le> read_idx r + unat (sr_capacity r)"
proof -
  have len: "length whole + unat (sr_capacity r) < 2 ^ 64"
    and out: "ByteStream_inv (sr_output r)" "bs_capacity (sr_output r) = sr_capacity r"
      "read_idx r \<le> cur_idx r" "cur_idx r \<le> length whole"
      "ByteStream_contents (sr_output r) = drop (read_idx r) (take (cur_idx r) whole)"
    and eof: "sr_eof_index r = uint64_max \<or> unat (sr_eof_index r) = length whole"
    using inv by (auto simp: reassembler_inv_def output_ok_def eof_ok_def)
  show f: "fits data" using piece len by (simp add: piece_of_def)
  show "unat (index + sz data) = unat index + length data"
    using piece len f by (subst unat_plus_fits) (simp_all add: piece_of_def)
  have size: "unat (ByteStream_buffer_size (sr_output r)) = cur_idx r - read_idx r"
    using out by (simp add: ByteStream_size_unat)
  show cap: "cur_idx r \<le> read_idx r + unat (sr_capacity r)"
    using bstream.bounded [OF out(1)] out by simp
  have "unat (sr_cur_index r + sr_capacity r) = cur_idx r + unat (sr_capacity r)"
    using len out by (subst unat_plus_fits) simp_all
  moreover from this have "ByteStream_buffer_size (sr_output r) \<le> sr_cur_index r + sr_capacity r"
    using size by (simp add: word_le_nat_alt)
  ultimately show "unat (sr_cur_index r + sr_capacity r - ByteStream_buffer_size (sr_output r)) =
      read_idx r + unat (sr_capacity r)"
    using size out(3) by (simp add: unat_diff_le)
  show "length whole \<le> unat (sr_eof_index r)"
    using eof len by (auto simp: unat_uint64_max)
qed

lemma note_eof_ok:
  assumes inv: "reassembler_inv whole r" and piece: "piece_of whole data index eof"
  obtains e where "note_eof data index eof r = Inr (r\<lparr>sr_eof_index := e\<rparr>)"
    and "e = (if eof then index + sz data else sr_eof_index r)"
    and "e = uint64_max \<or> unat e = length whole"
    and "sr_eof_index r = uint64_max \<or> e = sr_eof_index r"
proof -
  note a = inv_arith [OF inv piece]
  have known: "sr_eof_index r = uint64_max \<or> unat (sr_eof_index r) = length whole"
    using inv by (simp add: reassembler_inv_def eof_ok_def)
  have end_idx: "eof \<Longrightarrow> unat (index + sz data) = length whole"
    using piece a(2) by (simp add: piece_of_def)
  let ?e = "if eof then index + sz data else sr_eof_index r"
  have same: "eof \<Longrightarrow> sr_eof_index r \<noteq> uint64_max \<Longrightarrow> sr_eof_index r = index + sz data"
    using known end_idx by (simp add: word_unat_eq_iff)
  then have "note_eof data index eof r = Inr (r\<lparr>sr_eof_index := ?e\<rparr>)"
    by (auto simp: note_eof_def)
  moreover have "sr_eof_index r = uint64_max \<or> ?e = sr_eof_index r"
    using same by (cases "sr_eof_index r = uint64_max") auto
  ultimately show ?thesis
    by (intro that [OF _ refl]) (use known end_idx in auto)
qed


lemma span_fits:
  "s = max a c \<Longrightarrow> e = min (a + n) m \<Longrightarrow> j = s - a \<Longrightarrow> s < e \<Longrightarrow> j + (e - s) \<le> (n::nat)"
  by linarith

lemma push_stores:
  assumes inv: "reassembler_inv whole r" and piece: "piece_of whole data index eof"
  shows "\<exists>st cnt. store_loop data
      (min (index + sz data)
        (min (sr_cur_index r + sr_capacity r - ByteStream_buffer_size (sr_output r)) (sr_eof_index r)))
      (max index (sr_cur_index r)) (max index (sr_cur_index r) - index) (r\<lparr>sr_eof_index := e\<rparr>) =
      Inr (r\<lparr>sr_eof_index := e, sr_stream := st, sr_unassembled_bytes_cnt := cnt\<rparr>) \<and>
    ring_ok whole (r\<lparr>sr_eof_index := e, sr_stream := st, sr_unassembled_bytes_cnt := cnt\<rparr>)
      (stored r \<union> accepted data index r)"
proof -
  note a = inv_arith [OF inv piece]
  let ?st = "max index (sr_cur_index r)"
  let ?ed = "min (index + sz data)
    (min (sr_cur_index r + sr_capacity r - ByteStream_buffer_size (sr_output r)) (sr_eof_index r))"
  have p: "unat index + length data \<le> length whole"
    "data = take (length data) (drop (unat index) whole)"
    using piece by (auto simp: piece_of_def)
  have st: "unat ?st = max (unat index) (cur_idx r)" by (simp add: unat_max)
  have ed: "unat ?ed = min (unat index + length data) (read_idx r + unat (sr_capacity r))"
    using a(2,3,4) p(1) by (simp add: unat_min)
  have j: "unat (?st - index) = unat ?st - unat index" by (simp add: unat_diff_le)
  have acc: "{unat ?st..<unat ?ed} = accepted data index r"
    unfolding st ed accepted_def by auto
  have bytes: "\<forall>x. unat ?st \<le> x \<and> x < unat ?ed \<longrightarrow> x < length whole \<and>
      data ! (unat (?st - index) + (x - unat ?st)) = whole ! x"
  proof (intro allI impI)
    fix x assume x: "unat ?st \<le> x \<and> x < unat ?ed"
    then have k: "unat (?st - index) + (x - unat ?st) = x - unat index" "x - unat index < length data"
      "unat index \<le> x"
      using st ed j by auto
    then have "take (length data) (drop (unat index) whole) ! (x - unat index) = whole ! x"
      using p(1) by simp
    then have "data ! (x - unat index) = whole ! x"
      by (simp only: p(2) [symmetric])
    then show "x < length whole \<and> data ! (unat (?st - index) + (x - unat ?st)) = whole ! x"
      using k p(1) by simp
  qed
  have "unat ?st < unat ?ed \<longrightarrow> unat (?st - index) + (unat ?ed - unat ?st) \<le> length data"
    using span_fits [OF st ed j] by blast
  moreover have "unat ?ed \<le> cur_idx r + unat (sr_capacity r)"
    using inv ed by (simp add: reassembler_inv_def output_ok_def min_le_iff_disj)
  moreover have "ring_ok whole (r\<lparr>sr_eof_index := e\<rparr>) (stored r)"
    using inv by (simp add: reassembler_inv_def)
  ultimately show ?thesis
    using store_loop_ok [of whole "r\<lparr>sr_eof_index := e\<rparr>" "stored r" ?st ?ed data "?st - index"]
      bytes a(1) acc by simp
qed

text \<open>Writing the assembled bytes: they always fit, and the output stays a prefix.\<close>

lemma output_write:
  assumes out: "output_ok whole r" and len: "length whole < 2 ^ 64"
    and bytes: "bytes = take (length bytes) (drop (cur_idx r) whole)"
    and c: "unat c = cur_idx r + length bytes" "unat c \<le> length whole"
    and room: "unat c \<le> read_idx r + unat (sr_capacity r)"
  defines "o4 \<equiv> fst (ByteStream_write bytes (sr_output r))"
  shows "ByteStream_inv o4" and "bs_capacity o4 = sr_capacity r" and "bs_written_cnt o4 = c"
    and "bs_read_cnt o4 = bs_read_cnt (sr_output r)"
    and "ByteStream_contents o4 = drop (read_idx r) (take (unat c) whole)"
    and "bs_error o4 = bs_error (sr_output r)"
    and "bs_input_ended_flag o4 = bs_input_ended_flag (sr_output r)"
proof -
  obtain n where w: "ByteStream_write bytes (sr_output r) = (o4, n)"
    by (metis o4_def prod.collapse)
  have inv: "ByteStream_inv (sr_output r)" and cap: "bs_capacity (sr_output r) = sr_capacity r"
    and wr: "bs_written_cnt (sr_output r) = sr_cur_index r"
    and idx: "read_idx r \<le> cur_idx r" "cur_idx r \<le> length whole"
    and cont: "ByteStream_contents (sr_output r) = drop (read_idx r) (take (cur_idx r) whole)"
    using out by (auto simp: output_ok_def)
  have fb: "fits bytes" using c len by linarith
  note o4 = ByteStream_write_contents [OF inv fb w]
  have n: "unat n = length bytes" using o4(2) room c cont idx cap by simp
  have "sr_cur_index r + n = c"
    using c n len by (simp add: word_unat_eq_iff unat_plus_fits)
  then show "bs_written_cnt o4 = c" using o4(4) wr by simp
  show "ByteStream_contents o4 = drop (read_idx r) (take (unat c) whole)"
    using o4(3) cont n c bytes idx by (simp add: take_add)
  show "bs_capacity o4 = sr_capacity r" using o4(6) cap by simp
  show "ByteStream_inv o4" and "bs_read_cnt o4 = bs_read_cnt (sr_output r)"
    and "bs_error o4 = bs_error (sr_output r)"
    and "bs_input_ended_flag o4 = bs_input_ended_flag (sr_output r)"
    by (rule o4)+
qed

lemma end_input_fields [simp]:
  "bs_capacity (ByteStream_end_input s) = bs_capacity s"
  "bs_written_cnt (ByteStream_end_input s) = bs_written_cnt s"
  "bs_read_cnt (ByteStream_end_input s) = bs_read_cnt s"
  "bs_error (ByteStream_end_input s) = bs_error s"
  "bs_input_ended_flag (ByteStream_end_input s)"
  by (simp_all add: ByteStream_end_input_def)

lemma push_runs:
  assumes inv: "reassembler_inv whole r" and piece: "piece_of whole data index eof"
  defines "e \<equiv> if eof then index + sz data else sr_eof_index r"
    and "K \<equiv> stored r \<union> accepted data index r"
  obtains st cnt c bytes where
    "StreamReassembler_push_substring data index eof r =
      Inr (r\<lparr>sr_eof_index := e, sr_stream := st, sr_unassembled_bytes_cnt := cnt, sr_cur_index := c,
        sr_output := (let b = fst (ByteStream_write bytes (sr_output r)) in
          if c = e then ByteStream_end_input b else b)\<rparr>)"
    "unat c = cur_idx r + length bytes" "unat c \<le> length whole"
    "bytes = take (length bytes) (drop (cur_idx r) whole)"
    "{cur_idx r..<unat c} \<subseteq> K" "unat c \<notin> K"
    "ring_ok whole (r\<lparr>sr_eof_index := e, sr_stream := st, sr_unassembled_bytes_cnt := cnt, sr_cur_index := c\<rparr>) (K - {..<unat c})"
    "e = uint64_max \<or> unat e = length whole" "sr_eof_index r = uint64_max \<or> e = sr_eof_index r"
proof -
  have len: "length whole + unat (sr_capacity r) < 2 ^ 64" and out: "cur_idx r \<le> length whole"
    using inv by (auto simp: reassembler_inv_def output_ok_def)
  have e: "note_eof data index eof r = Inr (r\<lparr>sr_eof_index := e\<rparr>)"
    "e = uint64_max \<or> unat e = length whole" "sr_eof_index r = uint64_max \<or> e = sr_eof_index r"
    using note_eof_ok [OF inv piece] unfolding e_def by metis+
  obtain st cnt where r2: "store_loop data
      (min (index + sz data)
        (min (sr_cur_index r + sr_capacity r - ByteStream_buffer_size (sr_output r)) (sr_eof_index r)))
      (max index (sr_cur_index r)) (max index (sr_cur_index r) - index) (r\<lparr>sr_eof_index := e\<rparr>) =
      Inr (r\<lparr>sr_eof_index := e, sr_stream := st, sr_unassembled_bytes_cnt := cnt\<rparr>)"
    and ok2: "ring_ok whole (r\<lparr>sr_eof_index := e, sr_stream := st, sr_unassembled_bytes_cnt := cnt\<rparr>) K"
    using push_stores [OF inv piece] unfolding K_def by blast
  let ?r2 = "r\<lparr>sr_eof_index := e, sr_stream := st, sr_unassembled_bytes_cnt := cnt\<rparr>"
  have Le: "length whole \<le> unat e" using e(2) len by (auto simp: unat_uint64_max)
  obtain st3 cnt3 c bytes where r3: "assemble_loop ?r2 [] =
      Inr (?r2\<lparr>sr_stream := st3, sr_unassembled_bytes_cnt := cnt3, sr_cur_index := c\<rparr>, bytes)"
    "unat c = cur_idx r + length bytes" "unat c \<le> length whole"
    "bytes = take (length bytes) (drop (cur_idx r) whole)"
    "{cur_idx r..<unat c} \<subseteq> K" "unat c \<notin> K"
    "ring_ok whole (?r2\<lparr>sr_stream := st3, sr_unassembled_bytes_cnt := cnt3, sr_cur_index := c\<rparr>) (K - {..<unat c})"
    using assemble_loop_ok [OF ok2, of "[]"] Le out by auto
  show thesis
    by (rule that [where st = st3 and cnt = cnt3 and c = c and bytes = bytes])
      (use r3 e in \<open>simp_all add: StreamReassembler_push_substring_def Let_def r2\<close>)
qed

lemma push_substring_ok:
  assumes inv: "reassembler_inv whole r" and piece: "piece_of whole data index eof"
  obtains r' where "StreamReassembler_push_substring data index eof r = Inr r'"
    and "reassembler_inv whole r'"
    and "sr_capacity r' = sr_capacity r" and "read_idx r' = read_idx r"
    and "sr_eof_index r' = (if eof then index + sz data else sr_eof_index r)"
    and "cur_idx r \<le> cur_idx r'"
    and "{cur_idx r..<cur_idx r'} \<subseteq> stored r \<union> accepted data index r"
    and "cur_idx r' \<notin> stored r \<union> accepted data index r"
    and "stored r' = (stored r \<union> accepted data index r) - {..<cur_idx r'}"
    and "bs_error (sr_output r') = bs_error (sr_output r)"
proof -
  note a = inv_arith [OF inv piece]
  let ?K = "stored r \<union> accepted data index r"
  have len: "length whole + unat (sr_capacity r) < 2 ^ 64" and cap: "0 < unat (sr_capacity r)"
    and out: "output_ok whole r" "cur_idx r \<le> length whole"
    and flag: "bs_input_ended_flag (sr_output r) \<longleftrightarrow> sr_cur_index r = sr_eof_index r"
    and S: "stored r \<subseteq> {cur_idx r<..<read_idx r + unat (sr_capacity r)}"
    using inv by (auto simp: reassembler_inv_def output_ok_def eof_ok_def ring_ok_def unat_gt_0)
  define e where "e = (if eof then index + sz data else sr_eof_index r)"
  obtain st cnt c bytes where push: "StreamReassembler_push_substring data index eof r =
      Inr (r\<lparr>sr_eof_index := e, sr_stream := st, sr_unassembled_bytes_cnt := cnt, sr_cur_index := c,
        sr_output := (let b = fst (ByteStream_write bytes (sr_output r)) in
          if c = e then ByteStream_end_input b else b)\<rparr>)" (is "_ = Inr ?r'")
    and r3: "unat c = cur_idx r + length bytes" "unat c \<le> length whole"
    "bytes = take (length bytes) (drop (cur_idx r) whole)" "{cur_idx r..<unat c} \<subseteq> ?K" "unat c \<notin> ?K"
    "ring_ok whole (r\<lparr>sr_eof_index := e, sr_stream := st, sr_unassembled_bytes_cnt := cnt, sr_cur_index := c\<rparr>) (?K - {..<unat c})"
    and e: "e = uint64_max \<or> unat e = length whole" "sr_eof_index r = uint64_max \<or> e = sr_eof_index r"
    using push_runs [OF inv piece] unfolding e_def by metis
  have K: "?K \<subseteq> {cur_idx r..<read_idx r + unat (sr_capacity r)}"
    using S by (auto simp: accepted_def)
  have cmax: "unat c \<le> read_idx r + unat (sr_capacity r)"
    using r3(4) K a(5) r3(1) by (cases bytes) (auto dest!: subsetD)
  have len': "length whole < 2 ^ 64" using len by linarith
  note o4 = output_write [OF out(1) len' r3(3,1,2) cmax]
  have st': "stored ?r' = ?K - {..<unat c}"
    using ring_ok_stored [OF r3(6)] by simp
  have tail: "?K - {..<unat c} \<subseteq> {unat c<..<read_idx r + unat (sr_capacity r)}"
  proof
    fix x assume x: "x \<in> ?K - {..<unat c}"
    then have "x \<noteq> unat c" and "x < read_idx r + unat (sr_capacity r)" using r3(5) K by auto
    with x show "x \<in> {unat c<..<read_idx r + unat (sr_capacity r)}" by simp
  qed
  have ended: "bs_input_ended_flag (sr_output r) \<Longrightarrow> c = e"
  proof -
    assume "bs_input_ended_flag (sr_output r)"
    then have ce: "sr_cur_index r = sr_eof_index r" using flag by simp
    then have "cur_idx r = length whole" using a(4) out(2) by simp
    moreover from this have "e = sr_eof_index r" using e(2) ce len cap by (auto simp: unat_uint64_max)
    ultimately show "c = e" using r3(1,2) ce by (simp add: word_unat_eq_iff)
  qed
  have "reassembler_inv whole ?r'"
    unfolding reassembler_inv_def
  proof (intro conjI)
    show "length whole + unat (sr_capacity ?r') < 2 ^ 64" using len by simp
    show "ring_ok whole ?r' (stored ?r')" using r3(6) st' by simp
    show "output_ok whole ?r'"
      using o4 out r3(1,2) by (simp add: output_ok_def Let_def)
    show "eof_ok whole ?r'" unfolding eof_ok_def using o4(7) e(1) ended by (auto simp: Let_def)
    show "stored ?r' \<subseteq> {cur_idx ?r'<..<read_idx ?r' + unat (sr_capacity ?r')}"
      unfolding st' using tail o4(4) by (cases "c = e") (simp_all add: Let_def)
  qed
  then show ?thesis
    using that [OF push] o4(4,6) r3(1,4,5) st' by (simp add: e_def Let_def)
qed


lemma reassembler_new_inv:
  "c \<noteq> 0 \<Longrightarrow> length whole + unat c < 2 ^ 64 \<Longrightarrow> reassembler_inv whole (StreamReassembler_new c)"
proof -
  assume c: "c \<noteq> 0" and len: "length whole + unat c < 2 ^ 64"
  let ?r = "StreamReassembler_new c"
  have "slot ?r i = (0, False)" for i
    using c by (simp add: slot_def StreamReassembler_new_def unat_gt_0)
  then have st: "stored ?r = {}" by (simp add: stored_def)
  have "ring_ok whole ?r {}"
    using c \<open>\<And>i. slot ?r i = (0, False)\<close> unfolding ring_ok_def
    by (simp add: StreamReassembler_new_def)
  moreover have "sr_output ?r = ByteStream_new c" "sr_cur_index ?r = 0" "sr_capacity ?r = c"
    "sr_eof_index ?r = uint64_max" "sr_unassembled_bytes_cnt ?r = 0"
    by (simp_all add: StreamReassembler_new_def)
  moreover have "bs_read_cnt (ByteStream_new c) = 0" "bs_written_cnt (ByteStream_new c) = 0"
    "bs_capacity (ByteStream_new c) = c" "\<not> bs_input_ended_flag (ByteStream_new c)"
    by (simp_all add: ByteStream_new_def)
  moreover have "uint64_max \<noteq> 0" by (simp add: uint64_max_def)
  ultimately show ?thesis using st len
    by (simp add: reassembler_inv_def output_ok_def eof_ok_def)
qed

lemma consume_ok:
  assumes inv: "reassembler_inv whole r"
  obtains b where "ByteStream_read n (sr_output r) =
      Inr (b, take (unat n) (ByteStream_contents (sr_output r)))"
    and "reassembler_inv whole (r\<lparr>sr_output := b\<rparr>)"
    and "take (unat (bs_read_cnt b)) whole =
      take (read_idx r) whole @ take (unat n) (ByteStream_contents (sr_output r))"
    and "read_idx r \<le> unat (bs_read_cnt b)"
proof -
  have bs: "ByteStream_inv (sr_output r)" and idx: "read_idx r \<le> cur_idx r" "cur_idx r \<le> length whole"
    and cont: "ByteStream_contents (sr_output r) = drop (read_idx r) (take (cur_idx r) whole)"
    using inv by (auto simp: reassembler_inv_def output_ok_def)
  obtain b where b: "ByteStream_read n (sr_output r) =
      Inr (b, take (unat n) (ByteStream_contents (sr_output r)))"
    "ByteStream_inv b" "ByteStream_contents b = drop (unat n) (ByteStream_contents (sr_output r))"
    "bs_written_cnt b = bs_written_cnt (sr_output r)" "bs_capacity b = bs_capacity (sr_output r)"
    "bs_read_cnt b = bs_read_cnt (sr_output r) + min n (ByteStream_buffer_size (sr_output r))"
    "bs_input_ended_flag b = bs_input_ended_flag (sr_output r)"
    using ByteStream_read_ok [OF bs] by metis
  let ?m = "min (unat n) (cur_idx r - read_idx r)"
  have "unat (min n (ByteStream_buffer_size (sr_output r))) = ?m"
    using idx cont by (simp add: unat_min ByteStream_size_unat [OF bs])
  moreover have "read_idx r + ?m \<le> cur_idx r" using idx by simp
  ultimately have rd: "unat (bs_read_cnt b) = read_idx r + ?m"
    unfolding b(6) using unat_lt64 [of "sr_cur_index r"]
    by (subst unat_plus_fits) (auto simp del: unat_lt64)
  have "take (unat (bs_read_cnt b)) whole =
      take (read_idx r) whole @ take (unat n) (ByteStream_contents (sr_output r))"
    unfolding rd cont using idx by (simp add: take_add drop_take min.commute)
  moreover have "ByteStream_contents b = drop (unat (bs_read_cnt b)) (take (cur_idx r) whole)"
    unfolding b(3) cont rd using idx by (cases "unat n \<le> cur_idx r - read_idx r") (auto simp: add.commute)
  then have "output_ok whole (r\<lparr>sr_output := b\<rparr>)" and "eof_ok whole (r\<lparr>sr_output := b\<rparr>)"
    using inv b(2,4,5,7) rd idx by (simp_all add: reassembler_inv_def output_ok_def eof_ok_def)
  then have "reassembler_inv whole (r\<lparr>sr_output := b\<rparr>)"
    using inv rd by (auto simp: reassembler_inv_def)
  ultimately show ?thesis using that b(1) rd by simp
qed

lemma card_stored:
  assumes "ring_ok whole r S"
  shows "card S = length (filter snd (sr_stream r))"
proof -
  let ?n = "unat (sr_capacity r)"
  have len: "length (sr_stream r) = ?n" and n: "0 < ?n"
    using assms by (auto simp: ring_ok_def unat_gt_0)
  have inj: "inj_on (\<lambda>i. i mod ?n) (win r)"
    by (rule inj_onI) (auto intro: window_mod_inj)
  have onto: "(\<lambda>i. i mod ?n) ` win r = {..<?n}"
    using n by (intro card_subset_eq) (auto simp: card_image [OF inj])
  have iff: "i \<in> win r \<Longrightarrow> i \<in> S \<longleftrightarrow> snd (sr_stream r ! (i mod ?n))" for i
    using assms by (auto simp: ring_ok_def slot_def)
  have sub: "S \<subseteq> win r" using assms by (simp add: ring_ok_def)
  have "{k. k < ?n \<and> snd (sr_stream r ! k)} = (\<lambda>i. i mod ?n) ` S"
  proof (intro set_eqI iffI)
    fix k assume k: "k \<in> {k. k < ?n \<and> snd (sr_stream r ! k)}"
    then obtain i where "i \<in> win r" "k = i mod ?n" using onto by blast
    with k iff show "k \<in> (\<lambda>i. i mod ?n) ` S" by blast
  next
    fix k assume "k \<in> (\<lambda>i. i mod ?n) ` S"
    then obtain i where "i \<in> S" "k = i mod ?n" by blast
    with iff sub n show "k \<in> {k. k < ?n \<and> snd (sr_stream r ! k)}" by auto
  qed
  moreover have "inj_on (\<lambda>i. i mod ?n) S"
    using inj assms by (auto simp: ring_ok_def intro: inj_on_subset)
  ultimately show ?thesis
    by (simp add: length_filter_conv_card len card_image)
qed

lemma push_first_missing:
  assumes "reassembler_inv whole r" and "piece_of whole data index eof"
  shows "\<exists>r'. StreamReassembler_push_substring data index eof r = Inr r' \<and>
    reassembler_inv whole r' \<and>
    cur_idx r' = (LEAST i. cur_idx r \<le> i \<and> i \<notin> stored r \<union> accepted data index r) \<and>
    stored r' = (stored r \<union> accepted data index r) - {..<cur_idx r'} \<and>
    sr_eof_index r' = (if eof then index + sz data else sr_eof_index r) \<and>
    sr_capacity r' = sr_capacity r \<and> read_idx r' = read_idx r"
proof -
  obtain r' where r': "StreamReassembler_push_substring data index eof r = Inr r'"
    "reassembler_inv whole r'" "sr_capacity r' = sr_capacity r" "read_idx r' = read_idx r"
    "sr_eof_index r' = (if eof then index + sz data else sr_eof_index r)"
    "cur_idx r \<le> cur_idx r'"
    "{cur_idx r..<cur_idx r'} \<subseteq> stored r \<union> accepted data index r"
    "cur_idx r' \<notin> stored r \<union> accepted data index r"
    "stored r' = (stored r \<union> accepted data index r) - {..<cur_idx r'}"
    by (rule push_substring_ok [OF assms])
  have first: "(LEAST i. cur_idx r \<le> i \<and> i \<notin> stored r \<union> accepted data index r) = cur_idx r'"
  proof (rule Least_equality)
    show "cur_idx r \<le> cur_idx r' \<and> cur_idx r' \<notin> stored r \<union> accepted data index r"
      using r'(6,8) by blast
    fix i assume "cur_idx r \<le> i \<and> i \<notin> stored r \<union> accepted data index r"
    then show "cur_idx r' \<le> i" using r'(7) by (meson atLeastLessThan_iff leI subsetD)
  qed
  show ?thesis
    by (intro exI [of _ r'] conjI r'(1-5,9) first [symmetric])
qed

text \<open>An empty substring that does not end the stream does nothing, at any index.\<close>

lemma push_empty_eq:
  "StreamReassembler_push_substring [] i False r = StreamReassembler_push_substring [] 0 False r"
proof -
  have "store_loop [] (min (j + sz []) e) (max j (sr_cur_index r)) (max j (sr_cur_index r) - j) r = Inr r" for j e
    by (subst store_loop.simps) (auto simp: min_def max_def)
  moreover have "store_loop [] 0 x y r = Inr r" for x y by (subst store_loop.simps) simp
  ultimately show ?thesis
    by (simp add: StreamReassembler_push_substring_def note_eof_def Let_def)
qed

section \<open>Runs of the reassembler\<close>

text \<open>
  A run of the reassembler as its owner drives it: substrings are pushed and the application
  reads from the output stream, in any order. The second component collects what was read.
\<close>

datatype sr_op =
    Push "byte list" u64 bool
  | Consume size_t

fun sr_step :: "sr_op \<Rightarrow> StreamReassembler \<times> byte list \<Rightarrow> (StreamReassembler \<times> byte list) res" where
  "sr_step (Push data index eof) (r, got) =
     bind_res (StreamReassembler_push_substring data index eof r) (\<lambda>r'. Inr (r', got))"
| "sr_step (Consume n) (r, got) =
     bind_res (ByteStream_read n (StreamReassembler_stream_out r))
       (\<lambda>(b, bytes). Inr (r\<lparr>sr_output := b\<rparr>, got @ bytes))"

fun sr_op_ok :: "byte list \<Rightarrow> sr_op \<Rightarrow> bool" where
  "sr_op_ok whole (Push data index eof) \<longleftrightarrow> piece_of whole data index eof"
| "sr_op_ok whole (Consume n) \<longleftrightarrow> True"

definition sr_run_inv :: "byte list \<Rightarrow> size_t \<Rightarrow> StreamReassembler \<times> byte list \<Rightarrow> bool" where
  "sr_run_inv whole c = (\<lambda>(r, got).
     reassembler_inv whole r \<and> sr_capacity r = c \<and> got = take (read_idx r) whole)"

interpretation sr_life: op_machine sr_step "sr_op_ok whole" "sr_run_inv whole c"
proof unfold_locales
  fix s x
  assume s: "sr_run_inv whole c s" and ok: "sr_op_ok whole x"
  obtain r got where [simp]: "s = (r, got)" by (cases s)
  have inv: "reassembler_inv whole r" and got: "sr_capacity r = c" "got = take (read_idx r) whole"
    using s by (auto simp: sr_run_inv_def)
  show "\<exists>s'. sr_step x s = Inr s' \<and> sr_run_inv whole c s'"
  proof (cases x)
    case (Push data index eof)
    with ok have piece: "piece_of whole data index eof" by simp
    show ?thesis
      by (rule push_substring_ok [OF inv piece]) (simp add: Push sr_run_inv_def got)
  next
    case (Consume n)
    show ?thesis
      by (rule consume_ok [OF inv, of n])
        (simp add: Consume sr_run_inv_def got StreamReassembler_stream_out_def)
  qed
qed

lemma stored_count:
  assumes inv: "reassembler_inv whole r"
  shows "unat (StreamReassembler_unassembled_bytes r) = card (stored r)"
    and "length (ByteStream_contents (sr_output r)) + card (stored r) \<le> unat (sr_capacity r)"
proof -
  let ?hi = "read_idx r + unat (sr_capacity r)"
  have ring: "ring_ok whole r (stored r)" and sub: "stored r \<subseteq> {cur_idx r<..<?hi}"
    and idx: "read_idx r \<le> cur_idx r" "cur_idx r \<le> length whole"
    and cont: "ByteStream_contents (sr_output r) = drop (read_idx r) (take (cur_idx r) whole)"
    using inv by (auto simp: reassembler_inv_def output_ok_def)
  have "card (stored r) \<le> card {cur_idx r<..<?hi}" by (rule card_mono) (use sub in auto)
  then have card: "card (stored r) \<le> ?hi - Suc (cur_idx r)" by simp
  have "piece_of whole [] 0 False" by (simp add: piece_of_def)
  from inv_arith(5) [OF inv this] card
  show "length (ByteStream_contents (sr_output r)) + card (stored r) \<le> unat (sr_capacity r)"
    using idx by (simp add: cont)
  then have "card (stored r) < 2 ^ 64" using unat_lt64 [of "sr_capacity r"] by (simp del: unat_lt64)
  then show "unat (StreamReassembler_unassembled_bytes r) = card (stored r)"
    using ring card_stored [OF ring]
    by (simp add: StreamReassembler_unassembled_bytes_def ring_ok_def)
qed

lemma eof_not_max:
  "reassembler_inv whole r \<Longrightarrow> unat x \<le> length whole \<Longrightarrow> x \<noteq> uint64_max"
  by (auto simp: reassembler_inv_def ring_ok_def unat_uint64_max dest!: unat_gt_0 [THEN iffD2])

lemma assembled_prefix:
  assumes inv: "reassembler_inv whole r"
  shows "take (read_idx r) whole @ ByteStream_contents (sr_output r) = take (cur_idx r) whole"
    and "cur_idx r \<le> length whole"
    and "sr_cur_index r = sr_eof_index r \<Longrightarrow> cur_idx r = length whole"
proof -
  have out: "read_idx r \<le> cur_idx r" "cur_idx r \<le> length whole"
    "ByteStream_contents (sr_output r) = drop (read_idx r) (take (cur_idx r) whole)"
    using inv by (auto simp: reassembler_inv_def output_ok_def)
  show "take (read_idx r) whole @ ByteStream_contents (sr_output r) = take (cur_idx r) whole"
    using out(1) append_take_drop_id [of "read_idx r" "take (cur_idx r) whole"]
    unfolding out(3) by (simp add: min.absorb1)
  show "cur_idx r \<le> length whole" by (rule out(2))
  show "sr_cur_index r = sr_eof_index r \<Longrightarrow> cur_idx r = length whole"
    using inv eof_not_max [OF inv out(2)] by (auto simp: reassembler_inv_def eof_ok_def)
qed

type_synonym piece = "byte list \<times> u64 \<times> bool"

fun push_piece :: "piece \<Rightarrow> StreamReassembler \<Rightarrow> StreamReassembler res" where
  "push_piece (data, index, eof) = StreamReassembler_push_substring data index eof"

fun covers :: "piece \<Rightarrow> nat set" where
  "covers (data, index, eof) = {unat index..<unat index + length data}"

lemma push_pieces:
  assumes "reassembler_inv whole r" and "list_all (\<lambda>(d, i, e). piece_of whole d i e) ps"
    and "read_idx r = 0" and "length whole \<le> unat (sr_capacity r)"
  shows "\<exists>r'. run_ops push_piece ps r = Inr r' \<and> reassembler_inv whole r' \<and> read_idx r' = 0 \<and>
    {..<cur_idx r'} \<union> stored r' = {..<cur_idx r} \<union> stored r \<union> (\<Union>p \<in> set ps. covers p) \<and>
    (sr_eof_index r' \<noteq> uint64_max \<longleftrightarrow> sr_eof_index r \<noteq> uint64_max \<or> (\<exists>(d, i, e) \<in> set ps. e))"
  using assms
proof (induction ps arbitrary: r)
  case (Cons p ps)
  obtain d i e where [simp]: "p = (d, i, e)" by (cases p)
  have piece: "piece_of whole d i e" using Cons.prems(2) by simp
  have cur: "cur_idx r \<le> length whole" using Cons.prems(1) by (simp add: reassembler_inv_def output_ok_def)
  obtain r1 where r1: "StreamReassembler_push_substring d i e r = Inr r1" "reassembler_inv whole r1"
    "sr_capacity r1 = sr_capacity r" "read_idx r1 = read_idx r"
    "sr_eof_index r1 = (if e then i + sz d else sr_eof_index r)"
    "cur_idx r \<le> cur_idx r1"
    "{cur_idx r..<cur_idx r1} \<subseteq> stored r \<union> accepted d i r"
    "stored r1 = (stored r \<union> accepted d i r) - {..<cur_idx r1}"
    by (rule push_substring_ok [OF Cons.prems(1) piece])
  have "{..<cur_idx r} \<union> accepted d i r = {..<cur_idx r} \<union> covers p"
    using piece Cons.prems(3,4) by (auto simp: accepted_def piece_of_def)
  then have cov: "{..<cur_idx r1} \<union> stored r1 = {..<cur_idx r} \<union> stored r \<union> covers p"
    using r1(7,8) ivl_disj_un_one(2) [OF r1(6)] by blast
  have "e \<Longrightarrow> i + sz d \<noteq> uint64_max"
    using inv_arith(2) [OF Cons.prems(1) piece] piece
    by (intro eof_not_max [OF Cons.prems(1)]) (simp add: piece_of_def)
  then have eof: "sr_eof_index r1 \<noteq> uint64_max \<longleftrightarrow> sr_eof_index r \<noteq> uint64_max \<or> e"
    using r1(5) by auto
  obtain r' where "run_ops push_piece ps r1 = Inr r'" "reassembler_inv whole r'" "read_idx r' = 0"
    "{..<cur_idx r'} \<union> stored r' = {..<cur_idx r1} \<union> stored r1 \<union> (\<Union>p \<in> set ps. covers p)"
    "sr_eof_index r' \<noteq> uint64_max \<longleftrightarrow> sr_eof_index r1 \<noteq> uint64_max \<or> (\<exists>(d, i, e) \<in> set ps. e)"
    using Cons.IH [OF r1(2)] Cons.prems r1(3,4) by auto
  then show ?case
    using r1(1) unfolding cov eof by (intro exI [of _ r']) (auto simp: Un_assoc)
qed simp

section \<open>Properties\<close>

text \<open>
  What one \<^verbatim>\<open>push_substring\<close> does. For a piece of the stream: it does not throw; of the
  piece exactly the bytes between the first unassembled index and the end of the window (bytes
  read by the application plus capacity) are accepted; the output is extended precisely up to
  the first index that is neither stored nor accepted, and everything beyond it stays stored.
\<close>

theorem push_substring_assembles:
  assumes "reassembler_inv whole r" and "piece_of whole data index eof"
  shows "\<exists>r'. StreamReassembler_push_substring data index eof r = Inr r' \<and>
    reassembler_inv whole r' \<and>
    cur_idx r' = (LEAST i. cur_idx r \<le> i \<and> i \<notin> stored r \<union> accepted data index r) \<and>
    stored r' = (stored r \<union> accepted data index r) - {..<cur_idx r'} \<and>
    sr_eof_index r' = (if eof then index + sz data else sr_eof_index r)"
  using push_first_missing [OF assms] by blast

definition fresh3 :: StreamReassembler where
  "fresh3 = StreamReassembler_new 3"

theorem push_substring_assembles_witness:
  "reassembler_inv [7, 8, 9, 10] fresh3 \<and> piece_of [7, 8, 9, 10] [8, 9] 1 False \<and>
   (\<exists>r'. StreamReassembler_push_substring [8, 9] 1 False fresh3 = Inr r' \<and>
    reassembler_inv [7, 8, 9, 10] r' \<and>
    cur_idx r' = (LEAST i. cur_idx fresh3 \<le> i \<and> i \<notin> stored fresh3 \<union> accepted [8, 9] 1 fresh3) \<and>
    stored r' = (stored fresh3 \<union> accepted [8, 9] 1 fresh3) - {..<cur_idx r'} \<and>
    sr_eof_index r' = (if False then 1 + sz [8, 9::byte] else sr_eof_index fresh3))"
proof -
  have i: "reassembler_inv [7, 8, 9, 10] fresh3"
    unfolding fresh3_def by (rule reassembler_new_inv) simp_all
  have p: "piece_of [7, 8, 9, 10] [8, 9] 1 False" by (simp add: piece_of_def)
  show ?thesis using i p push_substring_assembles [OF i p] by blast
qed

text \<open>
  C2. The reassembler is transparent: whatever sequence of pieces of a stream is pushed, in any
  order, with repetitions and overlaps, and however the application reads in between, nothing
  throws; what the application has read followed by what is still buffered is exactly the
  assembled prefix of the stream; the output is ended exactly when the end is known and all of
  the stream is assembled; and buffered plus stored bytes never exceed the capacity.
\<close>

theorem reassembler_transparent:
  assumes "c \<noteq> 0" and "length whole + unat c < 2 ^ 64" and "list_all (sr_op_ok whole) xs"
  shows "\<exists>r got. run_ops sr_step xs (StreamReassembler_new c, []) = Inr (r, got) \<and>
    got @ ByteStream_contents (StreamReassembler_stream_out r) = take (cur_idx r) whole \<and>
    (ByteStream_input_ended (StreamReassembler_stream_out r) \<longrightarrow>
       got @ ByteStream_contents (StreamReassembler_stream_out r) = whole) \<and>
    length (ByteStream_contents (StreamReassembler_stream_out r)) +
      unat (StreamReassembler_unassembled_bytes r) \<le> unat c"
proof -
  let ?r0 = "StreamReassembler_new c"
  have "sr_run_inv whole c (?r0, [])"
    using reassembler_new_inv [OF assms(1,2)]
    by (simp add: sr_run_inv_def StreamReassembler_new_def ByteStream_new_def)
  then obtain r got where run: "run_ops sr_step xs (?r0, []) = Inr (r, got)"
    and "sr_run_inv whole c (r, got)"
    using sr_life.run_ok assms(3) by (metis prod.exhaust)
  then have inv: "reassembler_inv whole r" and cap: "sr_capacity r = c"
    and got: "got = take (read_idx r) whole"
    by (simp_all add: sr_run_inv_def)
  show ?thesis
    using run cap got stored_count [OF inv] assembled_prefix [OF inv] inv
    by (simp add: StreamReassembler_stream_out_def ByteStream_input_ended_def reassembler_inv_def eof_ok_def)
qed

theorem reassembler_transparent_witness:
  "(4::size_t) \<noteq> 0 \<and> length [7::byte, 8, 9] + unat (4::size_t) < 2 ^ 64 \<and>
   list_all (sr_op_ok [7, 8, 9]) [Push [8, 9] 1 True, Push [7] 0 False, Consume 2, Push [9] 2 True] \<and>
   (\<exists>r got. run_ops sr_step [Push [8, 9] 1 True, Push [7] 0 False, Consume 2, Push [9] 2 True]
      (StreamReassembler_new 4, []) = Inr (r, got) \<and>
    got @ ByteStream_contents (StreamReassembler_stream_out r) = take (cur_idx r) [7, 8, 9] \<and>
    (ByteStream_input_ended (StreamReassembler_stream_out r) \<longrightarrow>
       got @ ByteStream_contents (StreamReassembler_stream_out r) = [7, 8, 9]) \<and>
    length (ByteStream_contents (StreamReassembler_stream_out r)) +
      unat (StreamReassembler_unassembled_bytes r) \<le> unat (4::size_t))"
proof -
  have a: "(4::size_t) \<noteq> 0" "length [7::byte, 8, 9] + unat (4::size_t) < 2 ^ 64" by simp_all
  have b: "list_all (sr_op_ok [7, 8, 9])
      [Push [8, 9] 1 True, Push [7] 0 False, Consume 2, Push [9] 2 True]"
    by (simp add: piece_of_def)
  show ?thesis using a b reassembler_transparent [OF a b] by blast
qed

text \<open>
  C16. Delivery in any order. If the window is as large as the stream and the pieces pushed
  cover every index of it, then whatever their order the reassembler ends up with the whole
  stream in its output and nothing left over, and the output is ended as soon as one of the
  pieces carried the end-of-stream mark.
\<close>

theorem reassembler_any_order:
  assumes "c \<noteq> 0" and "length whole \<le> unat c" and "length whole + unat c < 2 ^ 64"
    and "list_all (\<lambda>(d, i, e). piece_of whole d i e) ps"
    and "{..<length whole} \<subseteq> (\<Union>p \<in> set ps. covers p)"
  shows "\<exists>r. run_ops push_piece ps (StreamReassembler_new c) = Inr r \<and>
    ByteStream_contents (StreamReassembler_stream_out r) = whole \<and> StreamReassembler_empty r \<and>
    ((\<exists>(d, i, e) \<in> set ps. e) \<longrightarrow> ByteStream_input_ended (StreamReassembler_stream_out r))"
proof -
  let ?r0 = "StreamReassembler_new c"
  have "read_idx ?r0 = 0" "sr_capacity ?r0 = c"
    by (simp_all add: StreamReassembler_new_def ByteStream_new_def)
  then obtain r where r: "run_ops push_piece ps ?r0 = Inr r" "reassembler_inv whole r" "read_idx r = 0"
    "(\<Union>p \<in> set ps. covers p) \<subseteq> {..<cur_idx r} \<union> stored r"
    "(\<exists>(d, i, e) \<in> set ps. e) \<Longrightarrow> sr_eof_index r \<noteq> uint64_max"
    using push_pieces [OF reassembler_new_inv [OF assms(1,3)] assms(4)] assms(2) by auto
  have out: "cur_idx r \<le> length whole" "stored r \<subseteq> {cur_idx r<..<length whole}"
    "ByteStream_contents (sr_output r) = take (cur_idx r) whole"
    using r(2,3) by (auto simp: reassembler_inv_def output_ok_def ring_ok_def)
  have cur: "cur_idx r = length whole"
  proof (rule ccontr)
    assume "cur_idx r \<noteq> length whole"
    then have "cur_idx r \<in> {..<length whole}" using out(1) by simp
    then have "cur_idx r \<in> {..<cur_idx r} \<union> stored r" using assms(5) r(4) by blast
    then show False using out(2) by auto
  qed
  then have "stored r = {}" using out(2) by auto
  moreover have "sr_eof_index r \<noteq> uint64_max \<Longrightarrow> bs_input_ended_flag (sr_output r)"
    using r(2) cur by (auto simp: reassembler_inv_def eof_ok_def word_unat_eq_iff)
  ultimately show ?thesis
    using r(1,5) out(3) cur stored_count(1) [OF r(2)]
    by (simp add: StreamReassembler_stream_out_def StreamReassembler_empty_def
        ByteStream_input_ended_def unat_eq_zero)
qed

theorem reassembler_any_order_witness:
  "(5::size_t) \<noteq> 0 \<and> length [7::byte, 8, 9] \<le> unat (5::size_t) \<and>
   length [7::byte, 8, 9] + unat (5::size_t) < 2 ^ 64 \<and>
   list_all (\<lambda>(d, i, e). piece_of [7, 8, 9] d i e) [([9], 2, True), ([8, 9], 1, True), ([7, 8], 0, False)] \<and>
   {..<length [7::byte, 8, 9]} \<subseteq>
     (\<Union>p \<in> set [([9], 2, True), ([8, 9], 1, True), ([7, 8], 0, False)]. covers p) \<and>
   (\<exists>r. run_ops push_piece [([9], 2, True), ([8, 9], 1, True), ([7, 8], 0, False)]
        (StreamReassembler_new 5) = Inr r \<and>
    ByteStream_contents (StreamReassembler_stream_out r) = [7, 8, 9] \<and> StreamReassembler_empty r \<and>
    ((\<exists>(d, i, e) \<in> set [([9::byte], 2::u64, True), ([8, 9], 1, True), ([7, 8], 0, False)]. e) \<longrightarrow>
      ByteStream_input_ended (StreamReassembler_stream_out r)))"
proof -
  have a: "(5::size_t) \<noteq> 0" "length [7::byte, 8, 9] \<le> unat (5::size_t)"
    "length [7::byte, 8, 9] + unat (5::size_t) < 2 ^ 64" by simp_all
  have b: "list_all (\<lambda>(d, i, e). piece_of [7, 8, 9] d i e)
      [([9], 2, True), ([8, 9], 1, True), ([7, 8], 0, False)]"
    by (simp add: piece_of_def)
  have d: "{..<length [7::byte, 8, 9]} \<subseteq>
      (\<Union>p \<in> set [([9], 2, True), ([8, 9], 1, True), ([7, 8], 0, False)]. covers p)"
    by auto
  show ?thesis using a b d reassembler_any_order [OF a b d] by blast
qed

end
