(* ===== verification/WrappingInts.thy ===== *)
theory WrappingInts
  imports Prelude
begin

text \<open>
  \<^verbatim>\<open>libsponge/wrapping_integers.hh\<close> and \<^verbatim>\<open>wrapping_integers.cc\<close>: 32-bit sequence numbers
  relative to an initial sequence number, and their conversion from and to the 64-bit
  absolute sequence numbers of a stream.

  The constant \<^verbatim>\<open>1 << 31\<close> of \<^verbatim>\<open>unwrap\<close> is an \<^verbatim>\<open>int\<close>: it is \<open>-2\<^sup>3\<^sup>1\<close>, and adding it to the
  64-bit checkpoint sign-extends it. So \<^verbatim>\<open>high32bit1\<close> looks half a window \<^emph>\<open>below\<close> the
  checkpoint and \<^verbatim>\<open>high32bit2\<close> half a window above it; the model keeps that literally.
\<close>

section \<open>The type and its operators\<close>

datatype WrappingInt32 = WrappingInt32 (raw_value: u32)

definition wi_minus :: "WrappingInt32 \<Rightarrow> WrappingInt32 \<Rightarrow> int" where
  "wi_minus a b = sint (raw_value a - raw_value b)"

definition wi_eq :: "WrappingInt32 \<Rightarrow> WrappingInt32 \<Rightarrow> bool" where
  "wi_eq a b \<longleftrightarrow> raw_value a = raw_value b"

definition wi_neq :: "WrappingInt32 \<Rightarrow> WrappingInt32 \<Rightarrow> bool" where
  "wi_neq a b \<longleftrightarrow> \<not> wi_eq a b"

definition wi_add :: "WrappingInt32 \<Rightarrow> u32 \<Rightarrow> WrappingInt32" where
  "wi_add a b = WrappingInt32 (raw_value a + b)"

definition wi_sub :: "WrappingInt32 \<Rightarrow> u32 \<Rightarrow> WrappingInt32" where
  "wi_sub a b = wi_add a (- b)"

section \<open>wrap and unwrap\<close>

definition wrap :: "u64 \<Rightarrow> WrappingInt32 \<Rightarrow> WrappingInt32" where
  "wrap n isn = WrappingInt32 (ucast n + raw_value isn)"

definition shift31 :: u64 where
  "shift31 = word_of_int (sint (push_bit 31 (1::32 word)))"

definition unwrap :: "WrappingInt32 \<Rightarrow> WrappingInt32 \<Rightarrow> u64 \<Rightarrow> u64" where
  "unwrap n isn checkpoint =
     (let low32bit = (word_of_int (wi_minus n isn) :: u32);
          high32bit1 = (checkpoint + shift31) AND 0xFFFFFFFF00000000;
          high32bit2 = (checkpoint - shift31) AND 0xFFFFFFFF00000000;
          res1 = ucast low32bit OR high32bit1;
          res2 = ucast low32bit OR high32bit2
      in if max res1 checkpoint - min res1 checkpoint < max res2 checkpoint - min res2 checkpoint
         then res1 else res2)"

section \<open>Reading the bit operations as arithmetic\<close>

lemma wi_eq_iff [simp]: "wi_eq a b \<longleftrightarrow> a = b"
  by (cases a; cases b) (simp add: wi_eq_def)

lemma shift31_eq: "shift31 = - 0x80000000"
  by (simp add: shift31_def)

lemma low32_eq: "(word_of_int (wi_minus n isn) :: u32) = raw_value n - raw_value isn"
  by (simp add: wi_minus_def)

lemma high_mask: "(0xFFFFFFFF00000000 :: u64) = NOT (mask 32)"
  by (simp add: mask_eq_exp_minus_1)

lemma and_high_eq: "(x::u64) AND 0xFFFFFFFF00000000 = x - take_bit 32 x"
proof -
  have "x AND NOT (mask 32) = push_bit 32 (drop_bit 32 x)"
    by (rule bit_word_eqI) (auto simp: bit_simps)
  then show ?thesis
    using bits_ident [of 32 x] unfolding high_mask by (simp only: eq_diff_eq)
qed

lemma unat_take_bit32: "unat (take_bit 32 (x::u64)) = unat x mod 2 ^ 32"
  by (simp only: unsigned_take_bit_eq take_bit_eq_mod [where 'a = nat])

lemma unat_and_high: "unat ((x::u64) AND 0xFFFFFFFF00000000) = 2 ^ 32 * (unat x div 2 ^ 32)"
proof -
  have "take_bit 32 x \<le> x"
    by (simp add: word_le_nat_alt unat_take_bit32)
  then show ?thesis
    by (simp add: and_high_eq unat_diff_le unat_take_bit32 minus_mod_eq_mult_div)
qed

lemma block64: "unat (x::u64) div 2 ^ 32 < 2 ^ 32"
  by (rule less_mult_imp_div_less) simp

lemma unat_low_or_high:
  "unat (ucast (l::u32) OR ((x::u64) AND 0xFFFFFFFF00000000)) =
     unat l + 2 ^ 32 * (unat x div 2 ^ 32)"
proof -
  let ?h = "x AND 0xFFFFFFFF00000000"
  have "(ucast l :: u64) AND ?h = 0"
    unfolding high_mask
    by (rule bit_word_eqI) (auto simp: bit_simps dest: bit_imp_le_length)
  then have "ucast l OR ?h = ucast l + ?h"
    by (rule disjunctive_add_eq_or [symmetric])
  moreover have "unat (ucast l :: u64) = unat l"
    by (simp add: unsigned_ucast_eq take_bit_nat_eq_self_iff less_trans [OF unat_lt32])
  moreover have "unat l + 2 ^ 32 * (unat x div 2 ^ 32) < 2 ^ 64"
    using unat_lt32 [of l] block64 [of x] by (simp del: unat_lt32)
  ultimately show ?thesis
    by (simp add: unat_plus_fits unat_and_high)
qed

lemma unat_dist:
  "int (unat (max a b - min a b)) = \<bar>int (unat (a::u64)) - int (unat b)\<bar>"
proof -
  have "min a b \<le> max a b" by (simp add: le_max_iff_disj min_le_iff_disj)
  moreover have "int (max (unat a) (unat b) - min (unat a) (unat b)) =
      \<bar>int (unat a) - int (unat b)\<bar>"
    by linarith
  ultimately show ?thesis by (simp only: unat_diff_le unat_max unat_min)
qed

lemma wrap_eq_iff:
  "wrap x isn = n \<longleftrightarrow> unat x mod 2 ^ 32 = unat (raw_value n - raw_value isn)"
proof -
  have "wrap x isn = n \<longleftrightarrow> (ucast x :: u32) = raw_value n - raw_value isn"
    by (cases n) (auto simp: wrap_def)
  also have "\<dots> \<longleftrightarrow> unat (ucast x :: u32) = unat (raw_value n - raw_value isn)"
    by (simp add: word_unat_eq_iff)
  finally show ?thesis
    by (simp add: unsigned_ucast_eq take_bit_eq_mod)
qed

section \<open>unwrap returns the closest candidate\<close>

text \<open>
  Among the numbers congruent to \<open>l\<close>, the ones in the two blocks chosen by \<^verbatim>\<open>unwrap\<close>
  dominate all others; \<open>q\<close> and \<open>m\<close> are block number and offset of the checkpoint.
\<close>

lemma block_dominates_below:
  fixes l m q k :: int
  assumes "0 \<le> l" "l < 2 ^ 32" "0 \<le> m" "m < 2 ^ 31"
  shows "\<bar>l + 2 ^ 32 * q - (m + 2 ^ 32 * q)\<bar> \<le> \<bar>l + 2 ^ 32 * k - (m + 2 ^ 32 * q)\<bar> \<or>
    k \<le> q - 1 \<and>
    \<bar>l + 2 ^ 32 * (q - 1) - (m + 2 ^ 32 * q)\<bar> \<le> \<bar>l + 2 ^ 32 * k - (m + 2 ^ 32 * q)\<bar>"
  using assms by (cases "k \<le> q - 1"; cases "k = q") (auto simp: algebra_simps)

lemma block_dominates_above:
  fixes l m q k :: int
  assumes "0 \<le> l" "l < 2 ^ 32" "2 ^ 31 \<le> m" "m < 2 ^ 32"
  shows "\<bar>l + 2 ^ 32 * q - (m + 2 ^ 32 * q)\<bar> \<le> \<bar>l + 2 ^ 32 * k - (m + 2 ^ 32 * q)\<bar> \<or>
    q + 1 \<le> k \<and>
    \<bar>l + 2 ^ 32 * (q + 1) - (m + 2 ^ 32 * q)\<bar> \<le> \<bar>l + 2 ^ 32 * k - (m + 2 ^ 32 * q)\<bar>"
  using assms by (cases "q + 1 \<le> k"; cases "k = q") (auto simp: algebra_simps)


text \<open>The two candidates of \<^verbatim>\<open>unwrap\<close>, as numbers.\<close>

lemma unat_minus_shift31:
  "unat (c + shift31) = (if 2 ^ 31 \<le> unat c then unat c - 2 ^ 31 else unat c + (2 ^ 64 - 2 ^ 31))"
proof -
  have "c + shift31 = c - 0x80000000" by (simp add: shift31_eq)
  then show ?thesis by (simp only: unat_sub_if_size) (simp add: word_size)
qed

lemma unat_plus_shift31:
  "unat (c - shift31) = (if unat c + 2 ^ 31 < 2 ^ 64 then unat c + 2 ^ 31 else unat c + 2 ^ 31 - 2 ^ 64)"
proof -
  have "c - shift31 = c + 0x80000000" by (simp add: shift31_eq)
  then show ?thesis by (simp only: unat_plus_if_size) (simp add: word_size)
qed

lemma unwrap_dist:
  fixes c :: u64
  defines "low \<equiv> \<lambda>n isn. raw_value n - raw_value isn"
  defines "dist \<equiv> \<lambda>a. \<bar>int a - int (unat c)\<bar>"
  defines "cand \<equiv> \<lambda>n isn x. unat (low n isn) + 2 ^ 32 * (unat (x::u64) div 2 ^ 32)"
  shows "unat (unwrap n isn c) \<in> {cand n isn (c + shift31), cand n isn (c - shift31)}"
    and "dist (unat (unwrap n isn c)) \<le> dist (cand n isn (c + shift31))"
    and "dist (unat (unwrap n isn c)) \<le> dist (cand n isn (c - shift31))"
proof -
  let ?r1 = "ucast (low n isn) OR ((c + shift31) AND 0xFFFFFFFF00000000)"
  let ?r2 = "ucast (low n isn) OR ((c - shift31) AND 0xFFFFFFFF00000000)"
  have u: "unwrap n isn c =
      (if max ?r1 c - min ?r1 c < max ?r2 c - min ?r2 c then ?r1 else ?r2)"
    by (simp only: unwrap_def Let_def low32_eq low_def)
  have cmp: "max ?r1 c - min ?r1 c < max ?r2 c - min ?r2 c \<longleftrightarrow>
      dist (unat ?r1) < dist (unat ?r2)"
    by (simp only: word_less_nat_alt dist_def unat_dist [symmetric] of_nat_less_iff)
  have c1: "unat ?r1 = cand n isn (c + shift31)" and c2: "unat ?r2 = cand n isn (c - shift31)"
    by (simp_all only: unat_low_or_high cand_def)
  show "unat (unwrap n isn c) \<in> {cand n isn (c + shift31), cand n isn (c - shift31)}"
    and "dist (unat (unwrap n isn c)) \<le> dist (cand n isn (c + shift31))"
    and "dist (unat (unwrap n isn c)) \<le> dist (cand n isn (c - shift31))"
    unfolding u cmp c1 [symmetric] c2 [symmetric] by auto
qed

lemma unwrap_mod: "unat (unwrap n isn c) mod 2 ^ 32 = unat (raw_value n - raw_value isn)"
  using unwrap_dist(1) [of n isn c] by auto

lemma div32I: "2 ^ 32 * q \<le> n \<Longrightarrow> n < 2 ^ 32 * q + 2 ^ 32 \<Longrightarrow> n div 2 ^ 32 = (q::nat)"
  by (rule div_nat_eqI) simp_all

lemma block_below:
  assumes c: "unat c = m + 2 ^ 32 * q" and m: "m < 2 ^ 32"
  shows "2 ^ 31 \<le> m \<Longrightarrow> unat (c + shift31) div 2 ^ 32 = q"
    and "m < 2 ^ 31 \<Longrightarrow> 1 \<le> q \<Longrightarrow> unat (c + shift31) div 2 ^ 32 = q - 1"
  unfolding unat_minus_shift31 using c m by (auto intro!: div32I)

lemma block_above:
  assumes c: "unat c = m + 2 ^ 32 * q" and m: "m < 2 ^ 32"
  shows "m < 2 ^ 31 \<Longrightarrow> unat (c - shift31) div 2 ^ 32 = q"
    and "2 ^ 31 \<le> m \<Longrightarrow> q + 1 < 2 ^ 32 \<Longrightarrow> unat (c - shift31) div 2 ^ 32 = q + 1"
proof -
  have q: "q < 2 ^ 32" using block64 [of c] c m by simp
  show "m < 2 ^ 31 \<Longrightarrow> unat (c - shift31) div 2 ^ 32 = q"
    and "2 ^ 31 \<le> m \<Longrightarrow> q + 1 < 2 ^ 32 \<Longrightarrow> unat (c - shift31) div 2 ^ 32 = q + 1"
    unfolding unat_plus_shift31 using c m q by (auto intro!: div32I)
qed

lemma unwrap_min:
  assumes x: "unat (x::u64) mod 2 ^ 32 = unat (raw_value n - raw_value isn)"
  shows "\<bar>int (unat (unwrap n isn c)) - int (unat c)\<bar> \<le> \<bar>int (unat x) - int (unat c)\<bar>"
proof -
  define l k m q where "l = unat (raw_value n - raw_value isn)"
    and "k = unat x div 2 ^ 32" and "m = unat c mod 2 ^ 32" and "q = unat c div 2 ^ 32"
  have l: "l < 2 ^ 32" and m: "m < 2 ^ 32" and k: "k < 2 ^ 32"
    unfolding l_def m_def k_def using block64 [of x] by simp_all
  have xe: "unat x = l + 2 ^ 32 * k"
    unfolding l_def k_def x [symmetric] by simp
  have ce: "unat c = m + 2 ^ 32 * q"
    unfolding m_def q_def by simp
  let ?d = "\<lambda>j. \<bar>int l + 2 ^ 32 * j - (int m + 2 ^ 32 * int q)\<bar>"
  have d1: "\<bar>int (unat (unwrap n isn c)) - int (unat c)\<bar> \<le> ?d (int (unat (c + shift31) div 2 ^ 32))"
    and d2: "\<bar>int (unat (unwrap n isn c)) - int (unat c)\<bar> \<le> ?d (int (unat (c - shift31) div 2 ^ 32))"
    using unwrap_dist(2,3) [where n = n and isn = isn and c = c]
    unfolding l_def [symmetric] by (simp_all add: ce)
  show ?thesis
  proof (cases "m < 2 ^ 31")
    case True
    have b: "unat (c - shift31) div 2 ^ 32 = q" "1 \<le> q \<Longrightarrow> unat (c + shift31) div 2 ^ 32 = q - 1"
      using block_below [OF ce m] block_above [OF ce m] True by auto
    show ?thesis
      using block_dominates_below [of "int l" "int m" "int q" "int k"] l True d1 d2 b k
      by (cases "1 \<le> q") (auto simp: xe ce of_nat_diff)
  next
    case False
    have b: "unat (c + shift31) div 2 ^ 32 = q"
      "q + 1 < 2 ^ 32 \<Longrightarrow> unat (c - shift31) div 2 ^ 32 = q + 1"
      using block_below [OF ce m] block_above [OF ce m] False by auto
    show ?thesis
      using block_dominates_above [of "int l" "int m" "int q" "int k"] l m False d1 d2 b k
      by (cases "q + 1 < 2 ^ 32") (auto simp: xe ce)
  qed
qed

text \<open>
  C17. \<^verbatim>\<open>unwrap\<close> inverts \<^verbatim>\<open>wrap\<close> and picks the right representative: the result wraps back to
  the given sequence number, and of all 64-bit absolute sequence numbers that do, none is
  closer to the checkpoint. This holds for every checkpoint, also in the first and the last
  half window of the 64-bit range, where one of the two candidates wraps around.
\<close>

theorem unwrap_closest:
  "wrap (unwrap n isn c) isn = n \<and>
   (\<forall>x. wrap x isn = n \<longrightarrow>
      \<bar>int (unat (unwrap n isn c)) - int (unat c)\<bar> \<le> \<bar>int (unat x) - int (unat c)\<bar>)"
  using unwrap_mod [of n isn c] unwrap_min by (simp only: wrap_eq_iff simp_thms) blast

theorem unwrap_closest_witness:
  "wrap 4294967306 (WrappingInt32 5) = WrappingInt32 15 \<and>
   \<bar>int (unat (unwrap (WrappingInt32 15) (WrappingInt32 5) 4294967000)) - int (unat (4294967000::u64))\<bar>
     \<le> \<bar>int (unat (4294967306::u64)) - int (unat (4294967000::u64))\<bar>"
proof -
  have w: "wrap 4294967306 (WrappingInt32 5) = WrappingInt32 15" by (simp add: wrap_def)
  show ?thesis
    using w unwrap_closest [of "WrappingInt32 15" "WrappingInt32 5" 4294967000] by blast
qed

lemma mod_close_eq:
  fixes a b k :: nat
  assumes "a mod k = b mod k" and "\<bar>int a - int b\<bar> < int k"
  shows "a = b"
proof -
  have "a \<le> b \<Longrightarrow> b - a < k \<Longrightarrow> a mod k = b mod k \<Longrightarrow> a = b" for a b :: nat
    using mod_eq_dvd_iff_nat [of a b k] dvd_imp_le [of k "b - a"] by linarith
  from this [of a b] this [of b a] assms show ?thesis by linarith
qed

lemma unwrap_wrap:
  assumes "\<bar>int (unat x) - int (unat c)\<bar> < 2 ^ 31"
  shows "unwrap (wrap x isn) isn c = x"
proof -
  let ?r = "unwrap (wrap x isn) isn c"
  have x: "unat x mod 2 ^ 32 = unat (raw_value (wrap x isn) - raw_value isn)"
    using wrap_eq_iff [of x isn "wrap x isn"] by simp
  then have "unat ?r mod 2 ^ 32 = unat x mod 2 ^ 32"
    by (simp only: unwrap_mod)
  moreover have "\<bar>int (unat ?r) - int (unat c)\<bar> < 2 ^ 31"
    using unwrap_min [OF x, of c] assms by (rule le_less_trans)
  then have "\<bar>int (unat ?r) - int (unat x)\<bar> < 2 ^ 31 + 2 ^ 31"
    using assms by linarith
  then have "\<bar>int (unat ?r) - int (unat x)\<bar> < int (2 ^ 32)"
    by (rule less_le_trans) simp
  ultimately have "unat ?r = unat x"
    by (rule mod_close_eq)
  then show ?thesis by (simp only: word_unat_eq_iff)
qed

text \<open>
  Sequence numbers survive the wire: an absolute sequence number within half a window
  (less than \<open>2\<^sup>3\<^sup>1\<close>) of the receiver's checkpoint is recovered exactly from its 32-bit form.
\<close>

theorem unwrap_wrap_roundtrip:
  "\<bar>int (unat x) - int (unat c)\<bar> < 2 ^ 31 \<Longrightarrow> unwrap (wrap x isn) isn c = x"
  by (rule unwrap_wrap)

theorem unwrap_wrap_roundtrip_witness:
  "\<bar>int (unat (6442450943::u64)) - int (unat (4294967296::u64))\<bar> < 2 ^ 31 \<and>
   unwrap (wrap 6442450943 (WrappingInt32 4294967295)) (WrappingInt32 4294967295) 4294967296
     = 6442450943"
proof -
  have d: "\<bar>int (unat (6442450943::u64)) - int (unat (4294967296::u64))\<bar> < 2 ^ 31" by simp
  show ?thesis using d unwrap_wrap_roundtrip [OF d, of "WrappingInt32 4294967295"] by blast
qed

end
