(* ===== verification/Parser.thy ===== *)
theory Parser
  imports Buffers
begin

text \<open>
  \<^verbatim>\<open>libsponge/util/parser.hh\<close> and \<^verbatim>\<open>parser.cc\<close>: reading and writing big-endian integers. A
  \<^verbatim>\<open>NetParser\<close> remembers the first lack of data as an error and returns 0 from then on, so
  callers may look at the error once, at the end.

  Callers read many fields in a row; \<open>parser_bind\<close> threads the parser through them. Two
  predicates describe what a reader does: \<open>parse_ok\<close> on input that holds an encoded value, and
  \<open>consumes\<close> on arbitrary input. The locale \<open>codec\<close> is the contract between a reader
  and the matching writer.
\<close>

section \<open>Data and operations\<close>

datatype ParseResult =
    NoError
  | BadChecksum
  | PacketTooShort
  | WrongIPVersion
  | HeaderTooShort
  | TruncatedPacket
  | Unsupported

fun ParseResult_value :: "ParseResult \<Rightarrow> nat" where
  "ParseResult_value NoError = 0"
| "ParseResult_value BadChecksum = 1"
| "ParseResult_value PacketTooShort = 2"
| "ParseResult_value WrongIPVersion = 3"
| "ParseResult_value HeaderTooShort = 4"
| "ParseResult_value TruncatedPacket = 5"
| "ParseResult_value Unsupported = 6"

definition parse_result_names :: "string list" where
  "parse_result_names =
     [''NoError'', ''BadChecksum'', ''PacketTooShort'', ''WrongIPVersion'', ''HeaderTooShort'',
      ''TruncatedPacket'']"

definition as_string :: "ParseResult \<Rightarrow> string res" where
  "as_string r =
     (if ParseResult_value r < length parse_result_names
      then Inr (parse_result_names ! ParseResult_value r)
      else Inl (Undefined_behaviour ''array subscript out of range''))"

record NetParser =
  np_buffer :: Buffer
  np_error :: ParseResult

type_synonym 'a parser = "NetParser \<Rightarrow> ('a \<times> NetParser) res"

definition NetParser_new :: "Buffer \<Rightarrow> NetParser" where
  "NetParser_new buffer = \<lparr>np_buffer = buffer, np_error = NoError\<rparr>"

definition NetParser_set_error :: "ParseResult \<Rightarrow> NetParser \<Rightarrow> NetParser" where
  "NetParser_set_error res p = p\<lparr>np_error := res\<rparr>"

definition NetParser_error :: "NetParser \<Rightarrow> bool" where
  "NetParser_error p \<longleftrightarrow> np_error p \<noteq> NoError"

definition NetParser_check_size :: "size_t \<Rightarrow> NetParser \<Rightarrow> NetParser" where
  "NetParser_check_size n p =
     (if n > Buffer_size (np_buffer p) then NetParser_set_error PacketTooShort p else p)"

function parse_int_loop :: "Buffer \<Rightarrow> size_t \<Rightarrow> size_t \<Rightarrow> 'a::len word \<Rightarrow> 'a word res" where
  "parse_int_loop b len i ret =
     (if i < len then
        bind_res (Buffer_at b i) (\<lambda>v. parse_int_loop b len (i + 1) (push_bit 8 ret + ucast v))
      else Inr ret)"
  by pat_completeness auto
termination
  by (relation "measure (\<lambda>(b, len, i, ret). unat len - unat i)") (simp_all add: unat_inc_diff)

declare parse_int_loop.simps [simp del]

definition NetParser_parse_int :: "'a::len word parser" where
  "NetParser_parse_int p =
     (let len = of_nat (LENGTH('a) div 8);
          p1 = NetParser_check_size len p
      in
      if NetParser_error p1 then Inr (0, p1)
      else
        bind_res (parse_int_loop (np_buffer p1) len 0 0) (\<lambda>ret.
        bind_res (Buffer_remove_prefix len (np_buffer p1)) (\<lambda>b.
        Inr (ret, p1\<lparr>np_buffer := b\<rparr>))))"

definition NetParser_remove_prefix :: "size_t \<Rightarrow> unit parser" where
  "NetParser_remove_prefix n p =
     (let p1 = NetParser_check_size n p in
      if NetParser_error p1 then Inr ((), p1)
      else bind_res (Buffer_remove_prefix n (np_buffer p1)) (\<lambda>b. Inr ((), p1\<lparr>np_buffer := b\<rparr>)))"

definition NetParser_u32 :: "u32 parser" where
  "NetParser_u32 = NetParser_parse_int"

definition NetParser_u16 :: "u16 parser" where
  "NetParser_u16 = NetParser_parse_int"

definition NetParser_u8 :: "u8 parser" where
  "NetParser_u8 = NetParser_parse_int"

definition NetUnparser_unparse_int :: "byte list \<Rightarrow> 'a::len word \<Rightarrow> byte list" where
  "NetUnparser_unparse_int s val =
     (let len = LENGTH('a) div 8 in
      foldl (\<lambda>s i. s @ [ucast (drop_bit ((len - i - 1) * 8) val AND 0xff)]) s [0..<len])"

definition NetUnparser_u32 :: "byte list \<Rightarrow> u32 \<Rightarrow> byte list" where
  "NetUnparser_u32 s val = NetUnparser_unparse_int s val"

definition NetUnparser_u16 :: "byte list \<Rightarrow> u16 \<Rightarrow> byte list" where
  "NetUnparser_u16 s val = NetUnparser_unparse_int s val"

definition NetUnparser_u8 :: "byte list \<Rightarrow> u8 \<Rightarrow> byte list" where
  "NetUnparser_u8 s val = NetUnparser_unparse_int s val"

definition parser_return :: "'a \<Rightarrow> 'a parser" where
  "parser_return x p = Inr (x, p)"

definition parser_bind :: "'a parser \<Rightarrow> ('a \<Rightarrow> 'b parser) \<Rightarrow> 'b parser" where
  "parser_bind m f p = bind_res (m p) (\<lambda>(x, p'). f x p')"

section \<open>What a reader does\<close>

abbreviation np_str :: "NetParser \<Rightarrow> byte list" where
  "np_str p \<equiv> Buffer_str (np_buffer p)"

definition parser_at :: "NetParser \<Rightarrow> byte list \<Rightarrow> bool" where
  "parser_at p s \<longleftrightarrow> Buffer_wf (np_buffer p) \<and> np_error p = NoError \<and> np_str p = s"

definition parse_ok :: "'a parser \<Rightarrow> byte list \<Rightarrow> 'a \<Rightarrow> byte list \<Rightarrow> bool" where
  "parse_ok m s v rest \<longleftrightarrow>
     (\<forall>p. parser_at p s \<longrightarrow> (\<exists>p'. m p = Inr (v, p') \<and> parser_at p' rest))"

definition consumes :: "'a parser \<Rightarrow> nat \<Rightarrow> bool" where
  "consumes m n \<longleftrightarrow>
     (\<forall>p. Buffer_wf (np_buffer p) \<longrightarrow>
        (\<exists>v p'. m p = Inr (v, p') \<and> Buffer_wf (np_buffer p') \<and>
           (np_error p = NoError \<and> n \<le> length (np_str p) \<longrightarrow>
              np_error p' = NoError \<and> np_str p' = drop n (np_str p)) \<and>
           (np_error p = NoError \<and> length (np_str p) < n \<longrightarrow> np_error p' = PacketTooShort) \<and>
           (np_error p = PacketTooShort \<longrightarrow> np_error p' = PacketTooShort)))"

lemma parser_at_new: "fits s \<Longrightarrow> parser_at (NetParser_new (Buffer_of_string s)) s"
  by (simp add: parser_at_def NetParser_new_def)

lemma parser_at_new_buffer:
  "Buffer_wf b \<Longrightarrow> parser_at (NetParser_new b) (Buffer_str b)"
  by (simp add: parser_at_def NetParser_new_def)

lemma parser_at_size: "parser_at p s \<Longrightarrow> unat (Buffer_size (np_buffer p)) = length s"
  using Buffer_wf_fits [of "np_buffer p"] by (auto simp: parser_at_def Buffer_size_def)

lemma parse_ok_return: "parse_ok (parser_return v) s v s"
  by (simp add: parse_ok_def parser_return_def)

lemma parse_ok_bind:
  "parse_ok m s v s1 \<Longrightarrow> parse_ok (f v) s1 w s2 \<Longrightarrow> parse_ok (parser_bind m f) s w s2"
  by (fastforce simp: parse_ok_def parser_bind_def)

lemma consumes_return: "consumes (parser_return v) 0"
  by (simp add: consumes_def parser_return_def)

lemma consumes_bind:
  assumes m: "consumes m a" and f: "\<And>x. consumes (f x) b"
  shows "consumes (parser_bind m f) (a + b)"
  unfolding consumes_def
proof (intro allI impI)
  fix p :: NetParser assume "Buffer_wf (np_buffer p)"
  with m obtain v p1 where 1: "m p = Inr (v, p1)" "Buffer_wf (np_buffer p1)"
    "np_error p = NoError \<and> a \<le> length (np_str p) \<longrightarrow>
       np_error p1 = NoError \<and> np_str p1 = drop a (np_str p)"
    "np_error p = NoError \<and> length (np_str p) < a \<longrightarrow> np_error p1 = PacketTooShort"
    "np_error p = PacketTooShort \<longrightarrow> np_error p1 = PacketTooShort"
    unfolding consumes_def by blast
  from f [of v] 1(2) obtain w p2 where 2: "f v p1 = Inr (w, p2)" "Buffer_wf (np_buffer p2)"
    "np_error p1 = NoError \<and> b \<le> length (np_str p1) \<longrightarrow>
       np_error p2 = NoError \<and> np_str p2 = drop b (np_str p1)"
    "np_error p1 = NoError \<and> length (np_str p1) < b \<longrightarrow> np_error p2 = PacketTooShort"
    "np_error p1 = PacketTooShort \<longrightarrow> np_error p2 = PacketTooShort"
    unfolding consumes_def by blast
  show "\<exists>v p'. parser_bind m f p = Inr (v, p') \<and> Buffer_wf (np_buffer p') \<and>
      (np_error p = NoError \<and> a + b \<le> length (np_str p) \<longrightarrow>
         np_error p' = NoError \<and> np_str p' = drop (a + b) (np_str p)) \<and>
      (np_error p = NoError \<and> length (np_str p) < a + b \<longrightarrow> np_error p' = PacketTooShort) \<and>
      (np_error p = PacketTooShort \<longrightarrow> np_error p' = PacketTooShort)"
  proof (intro exI [of _ w] exI [of _ p2] conjI impI)
    show "parser_bind m f p = Inr (w, p2)" using 1(1) 2(1) by (simp add: parser_bind_def)
    show "Buffer_wf (np_buffer p2)" by (rule 2(2))
    show "np_error p2 = PacketTooShort" if "np_error p = PacketTooShort"
      using that 1(5) 2(5) by blast
    show "np_error p2 = PacketTooShort" if "np_error p = NoError \<and> length (np_str p) < a + b"
      using that 1(3,4) 2(4,5) by (cases "a \<le> length (np_str p)") auto
  qed (use 1(3) 2(3) in \<open>auto simp: add.commute\<close>)
qed

text \<open>The contract of a fixed-width reader and its writer.\<close>

locale codec =
  fixes enc :: "'v \<Rightarrow> byte list" and dec :: "'v parser" and width :: nat
  assumes enc_length: "length (enc v) = width"
    and dec_enc: "parse_ok dec (enc v @ rest) v rest"
    and enc_surj: "length s = width \<Longrightarrow> \<exists>v. s = enc v"
    and dec_consumes: "consumes dec width"
    and width_fits: "width < 2 ^ 64"
begin

lemma enc_inj: "enc v = enc w \<longleftrightarrow> v = w"
proof
  assume eq: "enc v = enc w"
  have "fits (enc v)" using enc_length width_fits by simp
  then have at: "parser_at (NetParser_new (Buffer_of_string (enc v))) (enc v)"
    by (rule parser_at_new)
  obtain p1 where "dec (NetParser_new (Buffer_of_string (enc v))) = Inr (v, p1)"
    using at dec_enc [of v "[]"] by (auto simp: parse_ok_def)
  moreover obtain p2 where "dec (NetParser_new (Buffer_of_string (enc v))) = Inr (w, p2)"
    using at dec_enc [of w "[]"] eq by (auto simp: parse_ok_def)
  ultimately show "v = w" by simp
qed simp

lemma enc_append_inj: "enc v @ s = enc w @ t \<longleftrightarrow> v = w \<and> s = t"
  using enc_inj by (auto simp: append_eq_append_conv enc_length)

lemma dec_any:
  assumes "width \<le> length s"
  obtains v where "s = enc v @ drop width s" and "parse_ok dec s v (drop width s)"
proof -
  obtain v where v: "take width s = enc v" using enc_surj [of "take width s"] assms by auto
  then have "s = enc v @ drop width s" using append_take_drop_id [of width s] by simp
  then show ?thesis using that dec_enc [of v "drop width s"] by metis
qed

lemma dec_at:
  assumes "k + width \<le> length s"
  shows "\<exists>v. parse_ok dec (drop k s) v (drop (k + width) s)"
proof -
  have "width \<le> length (drop k s)" using assms by simp
  then obtain v where "parse_ok dec (drop k s) v (drop width (drop k s))" by (rule dec_any)
  then show ?thesis by (auto simp: add.commute)
qed

end

section \<open>The integer readers and writers\<close>

definition be_step :: "'a::len word \<Rightarrow> byte \<Rightarrow> 'a word" where
  "be_step ret v = push_bit 8 ret + ucast v"

definition be_bytes :: "'a::len word \<Rightarrow> byte list" where
  "be_bytes v = map (\<lambda>i. ucast (drop_bit ((LENGTH('a) div 8 - i - 1) * 8) v)) [0..<LENGTH('a) div 8]"

lemma be_bytes_length [simp]: "length (be_bytes (v :: 'a::len word)) = LENGTH('a) div 8"
  by (simp add: be_bytes_def)

lemma ucast_low_byte: "(ucast (w AND 0xff) :: byte) = ucast (w :: 'a::len word)"
proof -
  have "(0xff :: 'a word) = mask 8" by (simp add: mask_eq_exp_minus_1)
  then have "w AND 0xff = take_bit 8 w" by (simp add: take_bit_eq_mask)
  then show ?thesis by (intro bit_word_eqI) (auto simp: bit_simps)
qed

lemma unparse_int_eq: "NetUnparser_unparse_int s v = s @ be_bytes v"
  using foldl_snoc [of "\<lambda>i. ucast (drop_bit ((LENGTH('a) div 8 - i - 1) * 8) v)" s "[0..<LENGTH('a) div 8]"]
  by (simp add: NetUnparser_unparse_int_def be_bytes_def ucast_low_byte Let_def)

lemma parse_int_loop_eq:
  assumes "unat len \<le> length (Buffer_str b)" and "i \<le> len"
  shows "parse_int_loop b len i ret =
    Inr (foldl be_step ret (drop (unat i) (take (unat len) (Buffer_str b))))"
  using assms
proof (induction b len i ret rule: parse_int_loop.induct)
  case (1 b len i ret)
  show ?case
  proof (cases "i < len")
    case False
    then have "i = len" using "1.prems"(2) by simp
    with "1.prems"(1) show ?thesis by (subst parse_int_loop.simps) simp
  next
    case True
    then have lt: "unat i < unat len" by (simp add: word_less_nat_alt)
    have at: "Buffer_at b i = Inr (Buffer_str b ! unat i)" using lt "1.prems"(1) by (simp add: Buffer_at_def)
    have "i + 1 \<le> len" using unat_inc [OF True] lt by (simp add: word_le_nat_alt)
    moreover have "drop (unat i) (take (unat len) (Buffer_str b)) =
        Buffer_str b ! unat i # drop (Suc (unat i)) (take (unat len) (Buffer_str b))"
      using lt "1.prems"(1) by (simp add: Cons_nth_drop_Suc [symmetric])
    ultimately show ?thesis
      using True "1.IH" [OF True, of "Buffer_str b ! unat i"] "1.prems"(1) at unat_inc [OF True]
      by (subst parse_int_loop.simps) (simp add: be_step_def [of ret "Buffer_str b ! unat i", symmetric]
          be_step_def [abs_def, symmetric])
  qed
qed

lemma be_step_drop: "8 \<le> LENGTH('a) \<Longrightarrow>
  be_step (drop_bit (n + 8) v) (ucast (drop_bit n (v :: 'a::len word))) = drop_bit n v"
proof -
  assume "8 \<le> LENGTH('a)"
  then have "ucast (ucast (drop_bit n v) :: byte) = (take_bit 8 (drop_bit n v) :: 'a word)"
    by (intro bit_word_eqI) (auto simp: bit_simps)
  then show ?thesis
    using bits_ident [of 8 "drop_bit n v"] by (simp add: be_step_def add.commute)
qed

lemma be_fold_bytes:
  fixes v :: "'a::len word"
  assumes "LENGTH('a) = 8 * n" and "j \<le> n"
  shows "foldl be_step 0 (take j (be_bytes v)) = drop_bit (8 * (n - j)) v"
  using assms(2)
proof (induction j)
  case 0
  have "drop_bit (8 * n) v = 0"
    using assms(1) by (intro bit_word_eqI) (auto simp: bit_simps dest: bit_imp_le_length)
  then show ?case by simp
next
  case (Suc j)
  have n: "LENGTH('a) div 8 = n" "8 \<le> LENGTH('a)" using assms(1) Suc.prems by simp_all
  have "take (Suc j) (be_bytes v) = take j (be_bytes v) @ [ucast (drop_bit (8 * (n - Suc j)) v)]"
    using Suc.prems n(1) by (simp add: take_Suc_conv_app_nth) (simp add: be_bytes_def mult.commute)
  moreover have "8 * (n - j) = 8 * (n - Suc j) + 8" using Suc.prems by simp
  ultimately show ?case
    using Suc be_step_drop [OF n(2), of "8 * (n - Suc j)" v] by simp
qed

lemma be_fold_all:
  fixes v :: "'a::len word"
  assumes "LENGTH('a) = 8 * n"
  shows "foldl be_step 0 (be_bytes v) = v"
proof -
  have "take n (be_bytes v) = be_bytes v" using assms by simp
  then show ?thesis using be_fold_bytes [OF assms order.refl, of v] by simp
qed

lemma be_bytes_surj:
  fixes s :: "byte list"
  assumes "LENGTH('a::len) = 8 * n" and "length s = n"
  shows "\<exists>v :: 'a word. s = be_bytes v"
proof -
  let ?L = "{xs :: byte list. set xs \<subseteq> UNIV \<and> length xs = n}"
  have inj: "inj (be_bytes :: 'a word \<Rightarrow> byte list)"
  proof (rule injI)
    fix v w :: "'a word" assume "be_bytes v = be_bytes w"
    then have "foldl be_step 0 (be_bytes v) = (foldl be_step 0 (be_bytes w) :: 'a word)"
      by (rule arg_cong)
    then show "v = w" by (simp only: be_fold_all [OF assms(1)])
  qed
  have "range (be_bytes :: 'a word \<Rightarrow> byte list) = ?L"
  proof (rule card_subset_eq)
    show "finite ?L" by (rule finite_lists_length_eq) simp
    show "range (be_bytes :: 'a word \<Rightarrow> byte list) \<subseteq> ?L" using assms(1) by auto
    show "card (range (be_bytes :: 'a word \<Rightarrow> byte list)) = card ?L"
      using assms(1) card_lists_length_eq [of "UNIV :: byte set" n]
      by (simp add: card_image [OF inj] card_word power_mult)
  qed
  then show ?thesis using assms(2) by blast
qed

lemma parse_int_at:
  fixes v :: "'a::len word"
  assumes "LENGTH('a) = 8 * n" and "n < 2 ^ 64"
  shows "parse_ok NetParser_parse_int (be_bytes v @ rest) v rest"
  unfolding parse_ok_def
proof (intro allI impI)
  fix p :: NetParser
  assume at: "parser_at p (be_bytes v @ rest)"
  then have wf: "Buffer_wf (np_buffer p)" and str: "np_str p = be_bytes v @ rest"
    and err: "np_error p = NoError" by (auto simp: parser_at_def)
  have len: "LENGTH('a) div 8 = n" "length (be_bytes v) = n" using assms(1) by simp_all
  have n: "unat (of_nat n :: size_t) = n" using assms(2) by (simp add: unat_of_nat)
  have "of_nat n \<le> Buffer_size (np_buffer p)"
    using Buffer_wf_fits [OF wf] n str len by (simp add: Buffer_size_def word_le_nat_alt)
  then have check: "NetParser_check_size (of_nat n) p = p"
    by (simp add: NetParser_check_size_def not_less [symmetric])
  obtain b where b: "Buffer_remove_prefix (of_nat n) (np_buffer p) = Inr b" "Buffer_wf b"
    "Buffer_str b = rest"
    using Buffer_remove_prefix_ok [OF wf, of "of_nat n"] n str len by auto
  have "parse_int_loop (np_buffer p) (of_nat n) 0 0 = Inr v"
    using be_fold_all [OF assms(1), of v] n str len by (subst parse_int_loop_eq) simp_all
  with b check err len
  show "\<exists>p'. NetParser_parse_int p = Inr (v, p') \<and> parser_at p' rest"
    by (simp add: NetParser_parse_int_def NetParser_error_def parser_at_def Let_def)
qed

lemma parser_short:
  assumes wf: "Buffer_wf (np_buffer p)" and n: "unat n > length (np_str p)"
  shows "NetParser_check_size n p = p\<lparr>np_error := PacketTooShort\<rparr>"
  using n Buffer_wf_fits [OF wf]
  by (simp add: NetParser_check_size_def NetParser_set_error_def Buffer_size_def word_less_nat_alt)

lemma parser_enough:
  assumes wf: "Buffer_wf (np_buffer p)" and n: "unat n \<le> length (np_str p)"
  shows "NetParser_check_size n p = p"
  using n Buffer_wf_fits [OF wf]
  by (simp add: NetParser_check_size_def Buffer_size_def word_less_nat_alt)

lemma parse_int_consumes:
  assumes "LENGTH('a::len) = 8 * n" and "n < 2 ^ 64"
  shows "consumes (NetParser_parse_int :: 'a word parser) n"
  unfolding consumes_def
proof (intro allI impI)
  fix p :: NetParser assume wf: "Buffer_wf (np_buffer p)"
  have len: "LENGTH('a) div 8 = n" using assms(1) by simp
  have n: "unat (of_nat n :: size_t) = n" using assms(2) by (simp add: unat_of_nat)
  let ?R = "\<lambda>(v :: 'a word) p'. NetParser_parse_int p = Inr (v, p') \<and> Buffer_wf (np_buffer p') \<and>
      (np_error p = NoError \<and> n \<le> length (np_str p) \<longrightarrow>
         np_error p' = NoError \<and> np_str p' = drop n (np_str p)) \<and>
      (np_error p = NoError \<and> length (np_str p) < n \<longrightarrow> np_error p' = PacketTooShort) \<and>
      (np_error p = PacketTooShort \<longrightarrow> np_error p' = PacketTooShort)"
  show "\<exists>v p'. ?R v p'"
  proof (cases "n \<le> length (np_str p)")
    case False
    then have "NetParser_check_size (of_nat n) p = p\<lparr>np_error := PacketTooShort\<rparr>"
      using n by (intro parser_short wf) simp
    then have "?R 0 (p\<lparr>np_error := PacketTooShort\<rparr>)"
      using wf False len by (simp add: NetParser_parse_int_def NetParser_error_def Let_def)
    then show ?thesis by blast
  next
    case True
    then have check: "NetParser_check_size (of_nat n) p = p" using n by (intro parser_enough wf) simp
    show ?thesis
    proof (cases "np_error p = NoError")
      case False
      then have "?R 0 p"
        using wf len check by (simp add: NetParser_parse_int_def NetParser_error_def Let_def)
      then show ?thesis by blast
    next
      case noerr: True
      obtain v :: "'a word" where v: "take n (np_str p) = be_bytes v"
        using be_bytes_surj [OF assms(1), of "take n (np_str p)"] True by auto
      have "parser_at p (be_bytes v @ drop n (np_str p))"
        using wf noerr by (simp add: parser_at_def v [symmetric])
      then show ?thesis
        using parse_int_at [OF assms, of v "drop n (np_str p)"] noerr True
        by (fastforce simp: parse_ok_def parser_at_def)
    qed
  qed
qed

lemma remove_prefix_ok:
  "length s = unat n \<Longrightarrow> parse_ok (NetParser_remove_prefix n) (s @ rest) () rest"
  unfolding parse_ok_def
proof (intro allI impI)
  fix p :: NetParser
  assume s: "length s = unat n" and at: "parser_at p (s @ rest)"
  then have wf: "Buffer_wf (np_buffer p)" and str: "np_str p = s @ rest"
    and err: "np_error p = NoError" by (auto simp: parser_at_def)
  obtain b where "Buffer_remove_prefix n (np_buffer p) = Inr b" "Buffer_wf b" "Buffer_str b = rest"
    using Buffer_remove_prefix_ok [OF wf, of n] s str by auto
  moreover have "NetParser_check_size n p = p" using s str by (intro parser_enough wf) simp
  ultimately show "\<exists>p'. NetParser_remove_prefix n p = Inr ((), p') \<and> parser_at p' rest"
    using err by (simp add: NetParser_remove_prefix_def NetParser_error_def parser_at_def)
qed

lemma remove_prefix_consumes: "consumes (NetParser_remove_prefix n) (unat n)"
  unfolding consumes_def
proof (intro allI impI)
  fix p :: NetParser assume wf: "Buffer_wf (np_buffer p)"
  let ?R = "\<lambda>v p'. NetParser_remove_prefix n p = Inr (v, p') \<and> Buffer_wf (np_buffer p') \<and>
      (np_error p = NoError \<and> unat n \<le> length (np_str p) \<longrightarrow>
         np_error p' = NoError \<and> np_str p' = drop (unat n) (np_str p)) \<and>
      (np_error p = NoError \<and> length (np_str p) < unat n \<longrightarrow> np_error p' = PacketTooShort) \<and>
      (np_error p = PacketTooShort \<longrightarrow> np_error p' = PacketTooShort)"
  show "\<exists>v p'. ?R v p'"
  proof (cases "unat n \<le> length (np_str p)")
    case False
    then have "?R () (p\<lparr>np_error := PacketTooShort\<rparr>)"
      using wf parser_short [OF wf, of n] by (simp add: NetParser_remove_prefix_def NetParser_error_def)
    then show ?thesis by blast
  next
    case True
    then obtain b where "Buffer_remove_prefix n (np_buffer p) = Inr b" "Buffer_wf b"
      "Buffer_str b = drop (unat n) (np_str p)"
      using Buffer_remove_prefix_ok [OF wf, of n] by auto
    then have "?R () (if np_error p = NoError then p\<lparr>np_buffer := b\<rparr> else p)"
      using wf True parser_enough [OF wf True]
      by (simp add: NetParser_remove_prefix_def NetParser_error_def)
    then show ?thesis by blast
  qed
qed

lemma unparse_append:
  "NetUnparser_u8 s a = s @ NetUnparser_u8 [] a"
  "NetUnparser_u16 s b = s @ NetUnparser_u16 [] b"
  "NetUnparser_u32 s c = s @ NetUnparser_u32 [] c"
  by (simp_all add: NetUnparser_u8_def NetUnparser_u16_def NetUnparser_u32_def unparse_int_eq)

interpretation c8: codec "NetUnparser_u8 []" NetParser_u8 1
proof unfold_locales
  fix v rest and s :: "byte list"
  show "length (NetUnparser_u8 [] v) = 1" by (simp add: NetUnparser_u8_def unparse_int_eq)
  show "parse_ok NetParser_u8 (NetUnparser_u8 [] v @ rest) v rest"
    by (simp add: NetUnparser_u8_def NetParser_u8_def unparse_int_eq parse_int_at)
  show "length s = 1 \<Longrightarrow> \<exists>v. s = NetUnparser_u8 [] v"
    by (simp add: NetUnparser_u8_def unparse_int_eq be_bytes_surj)
  show "consumes NetParser_u8 1" by (simp add: NetParser_u8_def parse_int_consumes)
qed simp

interpretation c16: codec "NetUnparser_u16 []" NetParser_u16 2
proof unfold_locales
  fix v rest and s :: "byte list"
  show "length (NetUnparser_u16 [] v) = 2" by (simp add: NetUnparser_u16_def unparse_int_eq)
  show "parse_ok NetParser_u16 (NetUnparser_u16 [] v @ rest) v rest"
    by (simp add: NetUnparser_u16_def NetParser_u16_def unparse_int_eq parse_int_at)
  show "length s = 2 \<Longrightarrow> \<exists>v. s = NetUnparser_u16 [] v"
    by (simp add: NetUnparser_u16_def unparse_int_eq be_bytes_surj)
  show "consumes NetParser_u16 2" by (simp add: NetParser_u16_def parse_int_consumes)
qed simp

interpretation c32: codec "NetUnparser_u32 []" NetParser_u32 4
proof unfold_locales
  fix v rest and s :: "byte list"
  show "length (NetUnparser_u32 [] v) = 4" by (simp add: NetUnparser_u32_def unparse_int_eq)
  show "parse_ok NetParser_u32 (NetUnparser_u32 [] v @ rest) v rest"
    by (simp add: NetUnparser_u32_def NetParser_u32_def unparse_int_eq parse_int_at)
  show "length s = 4 \<Longrightarrow> \<exists>v. s = NetUnparser_u32 [] v"
    by (simp add: NetUnparser_u32_def unparse_int_eq be_bytes_surj)
  show "consumes NetParser_u32 4" by (simp add: NetParser_u32_def parse_int_consumes)
qed simp

lemma unparse_u8: "NetUnparser_u8 [] v = [v]"
  by (simp add: NetUnparser_u8_def unparse_int_eq be_bytes_def)

lemma u8_at: "k < length s \<Longrightarrow> parse_ok NetParser_u8 (drop k s) (s ! k) (drop (Suc k) s)"
  using c8.dec_enc [of "s ! k" "drop (Suc k) s"] by (simp add: unparse_u8 Cons_nth_drop_Suc)

lemmas unparse_length [simp] = c8.enc_length c16.enc_length c32.enc_length
lemmas parse_ok_ints = c8.dec_enc c16.dec_enc c32.dec_enc
lemmas consumes_ints = c8.dec_consumes c16.dec_consumes c32.dec_consumes

end
