(* ===== verification/Checksum.thy ===== *)
theory Checksum
  imports Parser
begin

text \<open>
  \<^verbatim>\<open>class InternetChecksum\<close> of \<^verbatim>\<open>libsponge/util/util.hh\<close> and \<^verbatim>\<open>util.cc\<close>: the ones'
  complement sum of 16-bit words over a message that is added in pieces. The 32-bit accumulator
  is kept at its width; the lemmas reduce the folded value to arithmetic modulo 65535.
\<close>

section \<open>State and operations\<close>

record InternetChecksum =
  ic_sum :: u32
  ic_parity :: bool

definition InternetChecksum_new :: "u32 \<Rightarrow> InternetChecksum" where
  "InternetChecksum_new initial_sum = \<lparr>ic_sum = initial_sum, ic_parity = False\<rparr>"

definition checksum_add_byte :: "InternetChecksum \<Rightarrow> byte \<Rightarrow> InternetChecksum" where
  "checksum_add_byte c b =
     (let val = ucast b :: u16;
          val = (if \<not> ic_parity c then push_bit 8 val else val)
      in c\<lparr>ic_sum := ic_sum c + ucast val, ic_parity := \<not> ic_parity c\<rparr>)"

definition InternetChecksum_add :: "byte list \<Rightarrow> InternetChecksum \<Rightarrow> InternetChecksum" where
  "InternetChecksum_add data c = foldl checksum_add_byte c data"

lemma fold_carry_unat:
  fixes r :: u32
  shows "unat (drop_bit 16 r + (r AND 0xffff)) = unat r div 65536 + unat r mod 65536"
proof -
  have "(0xffff :: u32) = mask 16" by (simp add: mask_eq_exp_minus_1)
  then have "r AND 0xffff = take_bit 16 r" by (simp only: take_bit_eq_mask)
  then have "unat (r AND 0xffff) = take_bit 16 (unat r)" by (simp only: unsigned_take_bit_eq)
  then have lo: "unat (r AND 0xffff) = unat r mod 65536" by (simp add: take_bit_eq_mod)
  have hi: "unat (drop_bit 16 r) = unat r div 65536"
    by (simp add: unsigned_drop_bit_eq) (simp add: drop_bit_eq_div take_bit_eq_mod)
  have "unat r div 65536 < 65536" using unat_lt32 [of r] by (simp del: unat_lt32 add: div_less_iff_less_mult)
  moreover have "unat r mod 65536 < 65536" by simp
  ultimately have "unat (drop_bit 16 r) + unat (r AND 0xffff) < 2 ^ 32"
    unfolding lo hi by simp
  then show ?thesis by (subst unat_plus_simple [THEN iffD1]) (simp_all add: lo hi no_olen_add_nat)
qed

lemma fold_carry_less: "65535 < n \<Longrightarrow> n div 65536 + n mod 65536 < (n::nat)"
proof -
  assume n: "65535 < n"
  have "n = 65536 * (n div 65536) + n mod 65536" by simp
  moreover have "0 < n div 65536" using n by (simp add: div_greater_zero_iff)
  ultimately show ?thesis by linarith
qed

function fold_carry :: "u32 \<Rightarrow> u32" where
  "fold_carry ret = (if ret > 0xffff then fold_carry (drop_bit 16 ret + (ret AND 0xffff)) else ret)"
  by pat_completeness auto
termination
proof (relation "measure unat")
  fix ret :: u32 assume "0xffff < ret"
  then have "65535 < unat ret" by (simp add: word_less_nat_alt)
  then show "(drop_bit 16 ret + (ret AND 0xffff), ret) \<in> measure unat"
    by (simp add: fold_carry_unat fold_carry_less)
qed simp

declare fold_carry.simps [simp del]

definition InternetChecksum_value :: "InternetChecksum \<Rightarrow> u16" where
  "InternetChecksum_value c = ucast (NOT (fold_carry (ic_sum c)))"

definition checksum_of :: "u32 \<Rightarrow> byte list \<Rightarrow> u16" where
  "checksum_of initial_sum data =
     InternetChecksum_value (InternetChecksum_add data (InternetChecksum_new initial_sum))"

section \<open>The sum\<close>

fun word_sum :: "bool \<Rightarrow> byte list \<Rightarrow> nat" where
  "word_sum par [] = 0"
| "word_sum par (b # bs) = unat b * (if par then 1 else 256) + word_sum (\<not> par) bs"

lemma word_sum_append:
  "word_sum par (xs @ ys) = word_sum par xs + word_sum (par \<noteq> odd (length xs)) ys"
proof (induction xs arbitrary: par)
  case (Cons x xs)
  have "((\<not> par) \<noteq> odd (length xs)) = (par \<noteq> odd (length (x # xs)))" by auto
  then show ?case using Cons [of "\<not> par"] by simp
qed simp

lemma word_sum_le: "word_sum par bs \<le> 65280 * length bs"
proof (induction bs arbitrary: par)
  case (Cons b bs)
  have "unat b \<le> 255" using unat_lt8 [of b] by (simp del: unat_lt8)
  then show ?case using Cons [of "\<not> par"] by (cases par) auto
qed simp

lemma checksum_add_eq:
  "InternetChecksum_add data c =
     c\<lparr>ic_sum := ic_sum c + of_nat (word_sum (ic_parity c) data),
       ic_parity := (ic_parity c \<noteq> odd (length data))\<rparr>"
proof (induction data arbitrary: c)
  case (Cons b bs)
  have b: "unat b < 256" using unat_lt8 [of b] by (simp del: unat_lt8)
  have lo: "(ucast (ucast b :: u16) :: u32) = of_nat (unat b)"
    by simp (rule bit_word_eqI, auto simp: bit_simps dest: bit_imp_le_length)
  have "unat (ucast b :: u16) = unat b"
    by (simp add: unsigned_ucast_eq) (rule take_bit_nat_eq_self, rule less_trans [OF b], simp)
  then have "unat (push_bit 8 (ucast b :: u16)) = take_bit 16 (unat b * 256)"
    by (simp add: unsigned_push_bit_eq) (simp add: push_bit_eq_mult)
  also have "\<dots> = unat b * 256" using b by (simp add: take_bit_nat_eq_self)
  finally have hi: "(ucast (push_bit 8 (ucast b :: u16)) :: u32) = of_nat (unat b * 256)"
    by (metis of_nat_unat)
  show ?case
    using Cons [of "checksum_add_byte c b"] lo hi
    by (auto simp: InternetChecksum_add_def checksum_add_byte_def Let_def)
qed (simp add: InternetChecksum_add_def)

lemma fold_carry_spec:
  "unat (fold_carry r) = (if r = 0 then 0 else (unat r - 1) mod 65535 + 1)"
proof (induction r rule: fold_carry.induct)
  case (1 ret)
  show ?case
  proof (cases "ret > 0xffff")
    case False
    then have "unat ret \<le> 65535" by (simp add: word_le_nat_alt not_less)
    moreover have "ret \<noteq> 0 \<Longrightarrow> 0 < unat ret" by (simp add: unat_gt_0)
    ultimately show ?thesis using False by (subst fold_carry.simps) (auto simp: mod_less)
  next
    case True
    let ?n = "unat ret" and ?f = "drop_bit 16 ret + (ret AND 0xffff)"
    have n: "65535 < ?n" using True by (simp add: word_less_nat_alt)
    have f: "unat ?f = ?n div 65536 + ?n mod 65536" by (rule fold_carry_unat)
    have "0 < ?n div 65536" using n by (simp add: div_greater_zero_iff)
    then have pos: "0 < unat ?f" using f by simp
    then have f0: "?f \<noteq> 0" by (auto simp: unat_gt_0)
    have "?n = 65535 * (?n div 65536) + unat ?f" unfolding f by simp
    then have "?n - 1 = (unat ?f - 1) + 65535 * (?n div 65536)" using pos by linarith
    then have "(?n - 1) mod 65535 = (unat ?f - 1) mod 65535" by (metis mod_mult_self2)
    then show ?thesis using True n f0 1 [OF True] by (subst fold_carry.simps) auto
  qed
qed

lemma fold_carry_le: "unat (fold_carry r) \<le> 65535"
  using fold_carry_spec [of r] mod_less_divisor [of 65535 "unat r - 1"] by (simp add: Suc_le_eq)

lemma value_unat: "unat (InternetChecksum_value c) = 65535 - unat (fold_carry (ic_sum c))"
proof -
  let ?x = "fold_carry (ic_sum c)"
  have "NOT ?x = - 1 - ?x" by (simp add: not_eq_complement)
  then have "unat (NOT ?x) = unat (- 1 :: u32) - unat ?x" by (simp only: unat_sub word_n1_ge)
  then have "unat (NOT ?x) = 4294967295 - unat ?x"
    by (simp add: unsigned_minus_1_eq_mask mask_eq_exp_minus_1)
  also have "\<dots> = 65535 - unat ?x + 65535 * 65536" using fold_carry_le [of "ic_sum c"] by linarith
  finally have "unat (NOT ?x) mod 65536 = (65535 - unat ?x) mod 65536" by (simp only: mod_mult_self1)
  moreover have "unat (InternetChecksum_value c) = take_bit 16 (unat (NOT ?x))"
    by (simp add: InternetChecksum_value_def unsigned_ucast_eq)
  ultimately show ?thesis by (simp add: take_bit_eq_mod)
qed

lemma value_zero_iff:
  "InternetChecksum_value c = 0 \<longleftrightarrow> ic_sum c \<noteq> 0 \<and> 65535 dvd unat (ic_sum c)"
proof -
  let ?n = "unat (ic_sum c)"
  have "InternetChecksum_value c = 0 \<longleftrightarrow> unat (fold_carry (ic_sum c)) = 65535"
    using value_unat [of c] fold_carry_le [of "ic_sum c"] by (simp add: word_unat_eq_iff)
  also have "\<dots> \<longleftrightarrow> 0 < ?n \<and> (?n - 1) mod 65535 = 65534"
    by (simp add: fold_carry_spec unat_gt_0)
  also have "\<dots> \<longleftrightarrow> 0 < ?n \<and> 65535 dvd ?n"
    by (cases ?n) (auto simp: dvd_eq_mod_eq_0 mod_Suc)
  finally show ?thesis by (simp add: unat_gt_0)
qed

lemma checksum_complement:
  fixes s :: nat
  assumes "c = InternetChecksum_value \<lparr>ic_sum = of_nat s, ic_parity = p\<rparr>" and "s < 2 ^ 32"
  shows "0 < s + unat c" and "65535 dvd s + unat c"
proof -
  have s: "unat (of_nat s :: u32) = s" using assms(2) by (simp add: unat_of_nat)
  have c: "unat c = 65535 - unat (fold_carry (of_nat s))" using assms(1) by (simp add: value_unat)
  have z: "(of_nat s :: u32) = 0 \<longleftrightarrow> s = 0" using s by (simp add: word_unat_eq_iff)
  show "0 < s + unat c" using c z fold_carry_spec [of "of_nat s"] by (cases "s = 0") simp_all
  show "65535 dvd s + unat c"
  proof (cases "s = 0")
    case True
    then show ?thesis using c z fold_carry_spec [of "of_nat s"] by simp
  next
    case False
    define m q where "m = (s - 1) mod 65535" and "q = (s - 1) div 65535"
    have "s - 1 = 65535 * q + m" unfolding m_def q_def by simp
    moreover have "unat c = 65535 - (m + 1)"
      using False c z s fold_carry_spec [of "of_nat s"] by (simp add: m_def)
    moreover have "m < 65535" by (simp add: m_def)
    ultimately have "s = 65535 * q + m + 1" "unat c + m + 1 = 65535" using False by simp_all
    then have "s + unat c = 65535 * (q + 1)" by simp
    then show ?thesis by simp
  qed
qed

definition summable :: "u32 \<Rightarrow> byte list \<Rightarrow> bool" where
  "summable initial_sum data \<longleftrightarrow> unat initial_sum < 2 ^ 20 \<and> length data < 2 ^ 16"

lemma summable_bound:
  assumes "summable i data"
  shows "unat i + word_sum False data < 2 ^ 32"
proof -
  have "unat i \<le> 1048575" "length data \<le> 65535" using assms by (simp_all add: summable_def)
  then show ?thesis using word_sum_le [of False data] by simp
qed

lemma checksum_of_eq:
  "checksum_of i data = InternetChecksum_value
     \<lparr>ic_sum = of_nat (unat i + word_sum False data), ic_parity = odd (length data)\<rparr>"
  by (simp add: checksum_of_def checksum_add_eq InternetChecksum_new_def)

lemma checksum_of_zero_iff:
  assumes "summable i data"
  shows "checksum_of i data = 0 \<longleftrightarrow>
    0 < unat i + word_sum False data \<and> 65535 dvd unat i + word_sum False data"
proof -
  let ?n = "unat i + word_sum False data"
  have "unat (of_nat ?n :: u32) = ?n"
    using summable_bound [OF assms] by (simp only: unat_of_nat) simp
  then show ?thesis
    unfolding checksum_of_eq value_zero_iff by (simp add: word_unat_eq_iff del: of_nat_add)
qed

lemma word_sum_u16: "word_sum False (NetUnparser_u16 [] c) = unat c"
proof -
  have "[0..<2] = [0, 1 :: nat]" by (simp add: upt_rec numeral_2_eq_2)
  then have "NetUnparser_u16 [] c = [ucast (drop_bit 8 c), ucast c]"
    by (simp add: NetUnparser_u16_def unparse_int_eq be_bytes_def)
  moreover have "unat (ucast (drop_bit 8 c) :: byte) = unat c div 256"
    using unat_lt16 [of c]
    by (simp add: unsigned_ucast_eq unsigned_drop_bit_eq del: unat_lt16)
      (simp add: drop_bit_eq_div take_bit_eq_mod div_less_iff_less_mult mod_less)
  moreover have "unat (ucast c :: byte) = unat c mod 256"
    by (simp add: unsigned_ucast_eq take_bit_eq_mod)
  ultimately show ?thesis by simp
qed

lemma checksum_insert:
  assumes "summable i (pre @ NetUnparser_u16 [] 0 @ suf)" and "even (length pre)"
    and "c = checksum_of i (pre @ NetUnparser_u16 [] 0 @ suf)"
  shows "checksum_of i (pre @ NetUnparser_u16 [] c @ suf) = 0"
proof -
  have sum: "word_sum False (pre @ NetUnparser_u16 [] x @ suf) =
      word_sum False pre + unat x + word_sum False suf" for x
    using assms(2) by (simp add: word_sum_append word_sum_u16)
  have "summable i (pre @ NetUnparser_u16 [] c @ suf)" using assms(1) by (simp add: summable_def)
  then show ?thesis
    using checksum_complement [OF assms(3) [unfolded checksum_of_eq] summable_bound [OF assms(1)]]
    by (simp add: checksum_of_zero_iff sum ac_simps)
qed

lemma dvd_byte_diff:
  fixes a b w :: nat
  assumes "65535 dvd (int b - int a) * int w" and "b < 256" and "a < 256" and "b \<noteq> a"
    and "w = 1 \<or> w = 256"
  shows False
proof -
  have "\<bar>int b - int a\<bar> \<le> 255" using assms(2,3) by linarith
  then have "\<bar>(int b - int a) * int w\<bar> < 65535" "(int b - int a) * int w \<noteq> 0"
    using assms(4,5) by (auto simp: abs_mult)
  then show False using assms(1) dvd_imp_le_int [of "(int b - int a) * int w" 65535] by simp
qed

section \<open>Properties\<close>

text \<open>
  C25. The checksum detects every corruption of one byte. If a message of less than 64 KiB
  passes verification (its checksum, over any pseudo-header sum, is 0), then the message with
  any one byte replaced by a different byte does not.
\<close>

theorem checksum_detects_byte:
  assumes "summable i data" and "checksum_of i data = 0" and "k < length data" and "b \<noteq> data ! k"
  shows "checksum_of i (data[k := b]) \<noteq> 0"
proof
  let ?a = "data ! k"
  define w :: nat where "w = (if odd k then 1 else 256)"
  define n where "n = unat i + word_sum False (take k data) + word_sum (\<not> odd k) (drop (Suc k) data)"
  assume zero: "checksum_of i (data[k := b]) = 0"
  have len: "length (take k data) = k" using assms(3) by simp
  have sum: "unat i + word_sum False (take k data @ x # drop (Suc k) data) = n + unat x * w" for x
    unfolding n_def w_def by (simp only: word_sum_append word_sum.simps len) auto
  have parts: "data[k := b] = take k data @ b # drop (Suc k) data"
    "take k data @ ?a # drop (Suc k) data = data"
    using assms(3) by (simp_all add: upd_conv_take_nth_drop id_take_nth_drop [symmetric])
  have "summable i (data[k := b])" using assms(1) by (simp add: summable_def)
  then have new: "65535 dvd n + unat b * w"
    using zero sum [of b] by (simp only: checksum_of_zero_iff parts(1))
  have old: "65535 dvd n + unat ?a * w"
    using assms(1,2) sum [of ?a] by (simp only: checksum_of_zero_iff parts(2))
  have "int 65535 dvd int (n + unat b * w) - int (n + unat ?a * w)"
    by (rule dvd_diff) (rule int_dvd_int_iff [THEN iffD2], rule new old)+
  then have "65535 dvd (int (unat b) - int (unat ?a)) * int w"
    by (simp add: left_diff_distrib)
  moreover have "unat b < 256" "unat ?a < 256"
    using unat_lt8 [of b] unat_lt8 [of ?a] by (simp_all del: unat_lt8)
  moreover have "unat b \<noteq> unat ?a" using assms(4) by (simp add: word_unat_eq_iff)
  ultimately show False by (rule dvd_byte_diff) (simp add: w_def)
qed

theorem checksum_detects_byte_witness:
  "summable 0 [0x12, 0x34, 0xed, 0xcb] \<and> checksum_of 0 [0x12, 0x34, 0xed, 0xcb] = 0 \<and>
   1 < length [0x12, 0x34, 0xed, 0xcb :: byte] \<and> (0x35 :: byte) \<noteq> [0x12, 0x34, 0xed, 0xcb] ! 1 \<and>
   checksum_of 0 ([0x12, 0x34, 0xed, 0xcb][1 := 0x35]) \<noteq> 0"
proof -
  have a: "summable 0 [0x12, 0x34, 0xed, 0xcb]" by (simp add: summable_def)
  moreover from this have b: "checksum_of 0 [0x12, 0x34, 0xed, 0xcb] = 0"
    by (simp add: checksum_of_zero_iff)
  moreover have c: "1 < length [0x12, 0x34, 0xed, 0xcb :: byte]"
    "(0x35 :: byte) \<noteq> [0x12, 0x34, 0xed, 0xcb] ! 1" by simp_all
  ultimately show ?thesis using checksum_detects_byte [OF a b c] by blast
qed

end
