(* ===== verification/TCPSegments.thy ===== *)
theory TCPSegments
  imports Checksum WrappingInts
begin

text \<open>
  \<^verbatim>\<open>libsponge/tcp_helpers/tcp_header.*\<close> and \<^verbatim>\<open>tcp_segment.*\<close>: the header of a TCP segment, the
  segment, and their wire format. Serialising inserts the Internet checksum over the
  pseudo-header, the header and the payload; parsing verifies it.
\<close>

section \<open>TCPHeader\<close>

record TCPHeader =
  th_sport :: u16
  th_dport :: u16
  th_seqno :: WrappingInt32
  th_ackno :: WrappingInt32
  th_doff :: u8
  th_urg :: bool
  th_ack :: bool
  th_psh :: bool
  th_rst :: bool
  th_syn :: bool
  th_fin :: bool
  th_win :: u16
  th_cksum :: u16
  th_uptr :: u16

definition TCPHeader_LENGTH :: size_t where
  "TCPHeader_LENGTH = 20"

definition TCPHeader_default :: TCPHeader where
  "TCPHeader_default =
     \<lparr>th_sport = 0, th_dport = 0, th_seqno = WrappingInt32 0, th_ackno = WrappingInt32 0,
      th_doff = ucast (TCPHeader_LENGTH div 4), th_urg = False, th_ack = False, th_psh = False,
      th_rst = False, th_syn = False, th_fin = False, th_win = 0, th_cksum = 0, th_uptr = 0\<rparr>"

definition TCPHeader_parse_fields :: "TCPHeader parser" where
  "TCPHeader_parse_fields =
     parser_bind NetParser_u16 (\<lambda>sport.
     parser_bind NetParser_u16 (\<lambda>dport.
     parser_bind NetParser_u32 (\<lambda>seqno.
     parser_bind NetParser_u32 (\<lambda>ackno.
     parser_bind NetParser_u8 (\<lambda>off_b.
     parser_bind NetParser_u8 (\<lambda>fl_b.
     parser_bind NetParser_u16 (\<lambda>wnd.
     parser_bind NetParser_u16 (\<lambda>cksum.
     parser_bind NetParser_u16 (\<lambda>uptr.
     parser_return
       \<lparr>th_sport = sport, th_dport = dport,
        th_seqno = WrappingInt32 seqno, th_ackno = WrappingInt32 ackno,
        th_doff = drop_bit 4 off_b,
        th_urg = (fl_b AND 0x20 \<noteq> 0), th_ack = (fl_b AND 0x10 \<noteq> 0), th_psh = (fl_b AND 0x08 \<noteq> 0),
        th_rst = (fl_b AND 0x04 \<noteq> 0), th_syn = (fl_b AND 0x02 \<noteq> 0), th_fin = (fl_b AND 0x01 \<noteq> 0),
        th_win = wnd, th_cksum = cksum, th_uptr = uptr\<rparr>)))))))))"

definition TCPHeader_parse :: "(ParseResult \<times> TCPHeader) parser" where
  "TCPHeader_parse =
     parser_bind TCPHeader_parse_fields (\<lambda>h.
     if th_doff h < 5 then parser_return (HeaderTooShort, h)
     else
       parser_bind (NetParser_remove_prefix (ucast (th_doff h) * 4 - TCPHeader_LENGTH)) (\<lambda>_ p.
       if NetParser_error p then Inr ((np_error p, h), p) else Inr ((NoError, h), p)))"

definition string_resize :: "nat \<Rightarrow> byte list \<Rightarrow> byte list" where
  "string_resize n s = take n s @ replicate (n - length s) 0"

definition TCPHeader_flag_byte :: "TCPHeader \<Rightarrow> u8" where
  "TCPHeader_flag_byte h =
     (if th_urg h then 0x20 else 0) OR (if th_ack h then 0x10 else 0) OR (if th_psh h then 0x08 else 0) OR
     (if th_rst h then 0x04 else 0) OR (if th_syn h then 0x02 else 0) OR (if th_fin h then 0x01 else 0)"

definition TCPHeader_serialize :: "TCPHeader \<Rightarrow> byte list res" where
  "TCPHeader_serialize h =
     (if th_doff h < 5 then Inl (Runtime_error ''TCP header too short'')
      else
        let ret = NetUnparser_u16 [] (th_sport h);
            ret = NetUnparser_u16 ret (th_dport h);
            ret = NetUnparser_u32 ret (raw_value (th_seqno h));
            ret = NetUnparser_u32 ret (raw_value (th_ackno h));
            ret = NetUnparser_u8 ret (push_bit 4 (th_doff h));
            ret = NetUnparser_u8 ret (TCPHeader_flag_byte h);
            ret = NetUnparser_u16 ret (th_win h);
            ret = NetUnparser_u16 ret (th_cksum h);
            ret = NetUnparser_u16 ret (th_uptr h)
        in Inr (string_resize (4 * unat (th_doff h)) ret))"

definition TCPHeader_eq :: "TCPHeader \<Rightarrow> TCPHeader \<Rightarrow> bool" where
  "TCPHeader_eq a b \<longleftrightarrow>
     wi_eq (th_seqno a) (th_seqno b) \<and> wi_eq (th_ackno a) (th_ackno b) \<and> th_doff a = th_doff b \<and>
     th_urg a = th_urg b \<and> th_ack a = th_ack b \<and> th_psh a = th_psh b \<and> th_rst a = th_rst b \<and>
     th_syn a = th_syn b \<and> th_fin a = th_fin b \<and> th_win a = th_win b \<and> th_uptr a = th_uptr b"

section \<open>TCPSegment\<close>

record TCPSegment =
  ts_header :: TCPHeader
  ts_payload :: Buffer

definition TCPSegment_default :: TCPSegment where
  "TCPSegment_default = \<lparr>ts_header = TCPHeader_default, ts_payload = Buffer_empty\<rparr>"

definition TCPSegment_parse :: "Buffer \<Rightarrow> u32 \<Rightarrow> TCPSegment \<Rightarrow> (ParseResult \<times> TCPSegment) res" where
  "TCPSegment_parse buffer datagram_layer_checksum seg =
     (let check = InternetChecksum_add (Buffer_str buffer) (InternetChecksum_new datagram_layer_checksum) in
      if InternetChecksum_value check \<noteq> 0 then Inr (BadChecksum, seg)
      else
        bind_res (TCPHeader_parse (NetParser_new buffer)) (\<lambda>((_, h), p).
        Inr (np_error p, \<lparr>ts_header = h, ts_payload = np_buffer p\<rparr>)))"

definition TCPSegment_length_in_sequence_space :: "TCPSegment \<Rightarrow> size_t" where
  "TCPSegment_length_in_sequence_space seg =
     sz (Buffer_str (ts_payload seg)) + (if th_syn (ts_header seg) then 1 else 0) +
     (if th_fin (ts_header seg) then 1 else 0)"

definition TCPSegment_serialize :: "u32 \<Rightarrow> TCPSegment \<Rightarrow> BufferList res" where
  "TCPSegment_serialize datagram_layer_checksum seg =
     (let header_out = (ts_header seg)\<lparr>th_cksum := 0\<rparr> in
      bind_res (TCPHeader_serialize header_out) (\<lambda>zero_checksum.
      let check = InternetChecksum_new datagram_layer_checksum;
          check = InternetChecksum_add zero_checksum check;
          check = InternetChecksum_add (Buffer_str (ts_payload seg)) check;
          header_out = header_out\<lparr>th_cksum := InternetChecksum_value check\<rparr>
      in
      bind_res (TCPHeader_serialize header_out) (\<lambda>header_string.
      let ret = BufferList_append [] (BufferList_of_string header_string);
          ret = BufferList_append ret (BufferList_of_Buffer (ts_payload seg))
      in Inr ret)))"

section \<open>The wire format of the header\<close>

lemma drop_push_nibble: "unat d < 16 \<Longrightarrow> drop_bit 4 (push_bit 4 (d :: u8)) = d"
proof -
  assume d: "unat d < 16"
  have "unat (push_bit 4 d) = take_bit 8 (push_bit 4 (unat d))" by (simp add: unsigned_push_bit_eq)
  also have "\<dots> = unat d * 16" using d by (simp add: push_bit_eq_mult take_bit_nat_eq_self)
  finally have "unat (push_bit 4 d) = unat d * 16" .
  moreover have "unat (drop_bit 4 (push_bit 4 d)) = drop_bit 4 (take_bit 8 (unat (push_bit 4 d)))"
    by (simp add: unsigned_drop_bit_eq)
  ultimately have "unat (drop_bit 4 (push_bit 4 d)) = unat d"
    using d by (simp add: drop_bit_eq_div take_bit_nat_eq_self)
  then show ?thesis by (rule word_unat_eq_iff [THEN iffD2])
qed

lemma flag_byte_bits [simp]:
  "TCPHeader_flag_byte h AND 0x20 \<noteq> 0 \<longleftrightarrow> th_urg h"
  "TCPHeader_flag_byte h AND 0x10 \<noteq> 0 \<longleftrightarrow> th_ack h"
  "TCPHeader_flag_byte h AND 0x08 \<noteq> 0 \<longleftrightarrow> th_psh h"
  "TCPHeader_flag_byte h AND 0x04 \<noteq> 0 \<longleftrightarrow> th_rst h"
  "TCPHeader_flag_byte h AND 0x02 \<noteq> 0 \<longleftrightarrow> th_syn h"
  "TCPHeader_flag_byte h AND 0x01 \<noteq> 0 \<longleftrightarrow> th_fin h"
  by (simp_all add: TCPHeader_flag_byte_def)

text \<open>The twenty fixed bytes, split around the checksum field, and the options as zeros.\<close>

definition tcp_prefix :: "TCPHeader \<Rightarrow> byte list" where
  "tcp_prefix h =
     NetUnparser_u16 [] (th_sport h) @ NetUnparser_u16 [] (th_dport h) @
     NetUnparser_u32 [] (raw_value (th_seqno h)) @ NetUnparser_u32 [] (raw_value (th_ackno h)) @
     NetUnparser_u8 [] (push_bit 4 (th_doff h)) @ NetUnparser_u8 [] (TCPHeader_flag_byte h) @
     NetUnparser_u16 [] (th_win h)"

definition tcp_suffix :: "TCPHeader \<Rightarrow> byte list" where
  "tcp_suffix h = NetUnparser_u16 [] (th_uptr h) @ replicate (4 * unat (th_doff h) - 20) 0"

lemma tcp_prefix_length [simp]: "length (tcp_prefix h) = 16"
  by (simp add: tcp_prefix_def)

lemma tcp_prefix_cksum [simp]: "tcp_prefix (h\<lparr>th_cksum := c\<rparr>) = tcp_prefix h"
  by (simp add: tcp_prefix_def TCPHeader_flag_byte_def)

lemma tcp_suffix_cksum [simp]: "tcp_suffix (h\<lparr>th_cksum := c\<rparr>) = tcp_suffix h"
  by (simp add: tcp_suffix_def)

lemma header_serialize_eq:
  assumes "5 \<le> unat (th_doff h)"
  shows "TCPHeader_serialize h = Inr (tcp_prefix h @ NetUnparser_u16 [] (th_cksum h) @ tcp_suffix h)"
proof -
  have "\<not> th_doff h < 5" using assms by (simp add: word_less_nat_alt)
  moreover have "string_resize (4 * unat (th_doff h)) (xs @ ys) = xs @ ys @ replicate (4 * unat (th_doff h) - 20) 0"
    if "length xs + length ys = 20" for xs ys
    using assms that by (simp add: string_resize_def)
  ultimately show ?thesis
    by (simp add: TCPHeader_serialize_def Let_def unparse_append [where s = "_ @ _"]
        unparse_append [where s = "NetUnparser_u16 [] _"] tcp_prefix_def tcp_suffix_def)
qed

lemma parse_fields_ok:
  assumes "unat (th_doff h) < 16"
  shows "parse_ok TCPHeader_parse_fields
    (tcp_prefix h @ NetUnparser_u16 [] (th_cksum h) @ NetUnparser_u16 [] (th_uptr h) @ rest) h rest"
  unfolding TCPHeader_parse_fields_def tcp_prefix_def append_assoc
  by (rule parse_ok_bind, rule parse_ok_ints)+
    (cases h, use drop_push_nibble [OF assms] parse_ok_return [of h rest] in simp)

lemma parse_fields_consumes: "consumes TCPHeader_parse_fields 20"
proof -
  have "consumes TCPHeader_parse_fields (2 + (2 + (4 + (4 + (1 + (1 + (2 + (2 + (2 + 0)))))))))"
    unfolding TCPHeader_parse_fields_def by (intro consumes_bind consumes_ints consumes_return)
  then show ?thesis by simp
qed

lemma high_nibble: "unat (drop_bit 4 (b :: u8)) = unat b div 16"
  by (simp add: unsigned_drop_bit_eq) (simp add: drop_bit_eq_div take_bit_eq_mod)

lemma parse_fields_any:
  assumes "20 \<le> length s"
  shows "\<exists>h. unat (th_doff h) = unat (s ! 12) div 16 \<and>
    parse_ok TCPHeader_parse_fields s h (drop 20 s)"
proof -
  note at16 = c16.dec_at [where s = s] and at32 = c32.dec_at [where s = s]
  obtain a where "parse_ok NetParser_u16 s a (drop 2 s)"
    using c16.dec_any [of s] assms by force
  moreover obtain b c d where "parse_ok NetParser_u16 (drop 2 s) b (drop 4 s)"
    "parse_ok NetParser_u32 (drop 4 s) c (drop 8 s)" "parse_ok NetParser_u32 (drop 8 s) d (drop 12 s)"
    using at16 [of 2] at32 [of 4] at32 [of 8] assms by auto
  moreover have "parse_ok NetParser_u8 (drop 12 s) (s ! 12) (drop 13 s)"
    "parse_ok NetParser_u8 (drop 13 s) (s ! 13) (drop 14 s)"
    using u8_at [of 12 s] u8_at [of 13 s] assms by simp_all
  moreover obtain e f g where "parse_ok NetParser_u16 (drop 14 s) e (drop 16 s)"
    "parse_ok NetParser_u16 (drop 16 s) f (drop 18 s)" "parse_ok NetParser_u16 (drop 18 s) g (drop 20 s)"
    using at16 [of 14] at16 [of 16] at16 [of 18] assms by auto
  ultimately have "\<exists>h. parse_ok TCPHeader_parse_fields s h (drop 20 s) \<and> th_doff h = drop_bit 4 (s ! 12)"
    unfolding TCPHeader_parse_fields_def
    by - (rule exI, rule conjI, (rule parse_ok_bind, assumption)+, rule parse_ok_return, simp)
  then show ?thesis using high_nibble by metis
qed

definition tcp_data_offset :: "byte list \<Rightarrow> nat" where
  "tcp_data_offset s = (if 20 \<le> length s then max 20 (4 * (unat (s ! 12) div 16)) else 20)"

lemma doff_words:
  assumes "\<not> th_doff h < 5"
  shows "unat (ucast (th_doff h) * 4 - TCPHeader_LENGTH :: size_t) = 4 * unat (th_doff h) - 20"
proof -
  have d: "unat (th_doff h) < 256" using unat_lt8 [of "th_doff h"] by (simp del: unat_lt8)
  have "unat (ucast (th_doff h) :: size_t) = unat (th_doff h)"
    by (simp add: unsigned_ucast_eq) (rule take_bit_nat_eq_self, rule less_trans [OF d], simp)
  then have "unat (ucast (th_doff h) * 4 :: size_t) = 4 * unat (th_doff h)"
    using d by (simp add: unat_word_ariths del: unat_lt8)
  moreover have "5 \<le> unat (th_doff h)" using assms by (simp add: word_less_nat_alt)
  ultimately show ?thesis
    by (subst unat_sub) (simp_all add: TCPHeader_LENGTH_def word_le_nat_alt)
qed

lemma header_parse_result:
  assumes at: "parser_at p s"
  shows "\<exists>r h p'. TCPHeader_parse p = Inr ((r, h), p') \<and> Buffer_wf (np_buffer p') \<and>
    (if length s < tcp_data_offset s then np_error p' = PacketTooShort
     else np_error p' = NoError \<and> np_str p' = drop (tcp_data_offset s) s \<and>
       (r = (if unat (s ! 12) div 16 < 5 then HeaderTooShort else NoError)))"
proof -
  have wf: "Buffer_wf (np_buffer p)" "np_error p = NoError" "np_str p = s"
    using at by (auto simp: parser_at_def)
  let ?skip = "\<lambda>h. NetParser_remove_prefix (ucast (th_doff h) * 4 - TCPHeader_LENGTH)"
  obtain h p1 where 1: "TCPHeader_parse_fields p = Inr (h, p1)" "Buffer_wf (np_buffer p1)"
    "length s < 20 \<longrightarrow> np_error p1 = PacketTooShort"
    "20 \<le> length s \<longrightarrow> np_error p1 = NoError \<and> np_str p1 = drop 20 s \<and>
       unat (th_doff h) = unat (s ! 12) div 16"
  proof (cases "20 \<le> length s")
    case True
    then show ?thesis
      using that parse_fields_any [of s] at by (fastforce simp: parse_ok_def parser_at_def)
  next
    case False
    then show ?thesis
      using that parse_fields_consumes wf unfolding consumes_def by (metis not_less)
  qed
  obtain u p2 where 2: "?skip h p1 = Inr (u, p2)" "Buffer_wf (np_buffer p2)"
    "np_error p1 = PacketTooShort \<longrightarrow> np_error p2 = PacketTooShort"
    "np_error p1 = NoError \<and> unat (ucast (th_doff h) * 4 - TCPHeader_LENGTH :: size_t) \<le> length (np_str p1)
       \<longrightarrow> np_error p2 = NoError \<and>
           np_str p2 = drop (unat (ucast (th_doff h) * 4 - TCPHeader_LENGTH :: size_t)) (np_str p1)"
    "np_error p1 = NoError \<and> length (np_str p1) < unat (ucast (th_doff h) * 4 - TCPHeader_LENGTH :: size_t)
       \<longrightarrow> np_error p2 = PacketTooShort"
    using remove_prefix_consumes [of "ucast (th_doff h) * 4 - TCPHeader_LENGTH"] 1(2)
    unfolding consumes_def by blast
  show ?thesis
  proof (cases "th_doff h < 5")
    case True
    then have "unat (th_doff h) < 5" by (simp add: word_less_nat_alt)
    with True 1 show ?thesis
      by (auto simp: TCPHeader_parse_def parser_bind_def parser_return_def tcp_data_offset_def)
  next
    case False
    then have d: "5 \<le> unat (th_doff h)" by (simp add: word_less_nat_alt)
    note 2 = 2 [unfolded doff_words [OF False]]
    have "TCPHeader_parse p = Inr ((np_error p2, h), p2)"
      using False 1(1) 2(1) by (auto simp: TCPHeader_parse_def parser_bind_def NetParser_error_def)
    with 1(3,4) 2(2-5) d show ?thesis
      by (cases "20 \<le> length s") (auto simp: tcp_data_offset_def max_def)
  qed
qed

lemma header_parse_ok:
  assumes "5 \<le> unat (th_doff h)" and "unat (th_doff h) < 16"
  shows "parse_ok TCPHeader_parse
    (tcp_prefix h @ NetUnparser_u16 [] (th_cksum h) @ tcp_suffix h @ rest) (NoError, h) rest"
proof -
  let ?n = "ucast (th_doff h) * 4 - TCPHeader_LENGTH :: size_t"
  let ?opt = "replicate (4 * unat (th_doff h) - 20) 0"
  have d: "\<not> th_doff h < 5" using assms(1) by (simp add: word_less_nat_alt)
  have "parse_ok (NetParser_remove_prefix ?n) (?opt @ rest) () rest"
    by (rule remove_prefix_ok) (simp add: doff_words [OF d])
  then have "parse_ok (parser_bind (NetParser_remove_prefix ?n) (\<lambda>_ p.
      if NetParser_error p then Inr ((np_error p, h), p) else Inr ((NoError, h), p)))
      (?opt @ rest) (NoError, h) rest"
    by (rule parse_ok_bind) (simp add: parse_ok_def parser_at_def NetParser_error_def)
  then show ?thesis
    unfolding TCPHeader_parse_def tcp_suffix_def append_assoc
    by (intro parse_ok_bind [OF parse_fields_ok [OF assms(2)]]) (simp add: d)
qed

lemma tcp_parse_total:
  assumes "Buffer_wf b"
  shows "\<exists>r. TCPSegment_parse b ck seg = Inr r"
  using header_parse_result [OF parser_at_new_buffer [OF assms]]
  by (auto simp: TCPSegment_parse_def Let_def)

lemma tcp_segment_wire:
  assumes "5 \<le> unat (th_doff (ts_header seg))" and "unat (th_doff (ts_header seg)) < 16"
    and "unat ck < 2 ^ 20"
    and "4 * unat (th_doff (ts_header seg)) + length (Buffer_str (ts_payload seg)) < 2 ^ 16"
  obtains bl c where "TCPSegment_serialize ck seg = Inr bl"
    and "length (BufferList_concatenate bl) = 4 * unat (th_doff (ts_header seg)) + length (Buffer_str (ts_payload seg))"
    and "\<And>b old. Buffer_wf b \<Longrightarrow> Buffer_str b = BufferList_concatenate bl \<Longrightarrow>
      \<exists>seg'. TCPSegment_parse b ck old = Inr (NoError, seg') \<and> ts_header seg' = (ts_header seg)\<lparr>th_cksum := c\<rparr> \<and>
        Buffer_str (ts_payload seg') = Buffer_str (ts_payload seg)"
proof -
  let ?h = "ts_header seg" and ?pay = "Buffer_str (ts_payload seg)"
  let ?bytes = "\<lambda>c. tcp_prefix ?h @ NetUnparser_u16 [] c @ tcp_suffix ?h @ ?pay"
  define c where "c = checksum_of ck (?bytes 0)"
  have size: "length (?bytes x) = 4 * unat (th_doff ?h) + length ?pay" for x
    using assms(1) by (simp add: tcp_suffix_def)
  then have "summable ck (?bytes 0)" using assms(3,4) by (simp only: summable_def)
  then have zero: "checksum_of ck (?bytes c) = 0" by (rule checksum_insert) (simp_all add: c_def)
  have ser: "TCPHeader_serialize (?h\<lparr>th_cksum := x\<rparr>) =
      Inr (tcp_prefix ?h @ NetUnparser_u16 [] x @ tcp_suffix ?h)" for x
    using header_serialize_eq [of "?h\<lparr>th_cksum := x\<rparr>"] assms(1) by simp
  let ?bl = "[Buffer_of_string (tcp_prefix ?h @ NetUnparser_u16 [] c @ tcp_suffix ?h), ts_payload seg]"
  have bl: "BufferList_concatenate ?bl = ?bytes c" by (simp add: BufferList_concatenate_eq)
  have "TCPSegment_serialize ck seg = Inr ?bl"
    using ser [of 0] ser [of c]
    by (simp add: TCPSegment_serialize_def Let_def BufferList_of_string_def BufferList_of_Buffer_def
        c_def checksum_of_def InternetChecksum_add_def)
  moreover have "\<exists>seg'. TCPSegment_parse b ck old = Inr (NoError, seg') \<and> ts_header seg' = ?h\<lparr>th_cksum := c\<rparr> \<and>
      Buffer_str (ts_payload seg') = ?pay" if b: "Buffer_wf b" "Buffer_str b = BufferList_concatenate ?bl" for b old
  proof -
    have s: "Buffer_str b = ?bytes c" using b(2) bl by simp
    have "parser_at (NetParser_new b) (?bytes c)" using parser_at_new_buffer [OF b(1)] s by simp
    then obtain p where "TCPHeader_parse (NetParser_new b) = Inr ((NoError, ?h\<lparr>th_cksum := c\<rparr>), p)" "parser_at p ?pay"
      using header_parse_ok [of "?h\<lparr>th_cksum := c\<rparr>" ?pay] assms(1,2) by (auto simp: parse_ok_def)
    then show ?thesis
      using zero s by (fastforce simp: TCPSegment_parse_def checksum_of_def parser_at_def)
  qed
  ultimately show thesis using that [of ?bl c] bl size [of c] by simp
qed

section \<open>Properties\<close>

text \<open>
  C24. A TCP segment survives the wire. Serialising a segment whose data offset is a legal one
  (5 to 15 words) and whose length is below 64 KiB does not throw, and parsing the resulting
  bytes with the same pseudo-header sum reports no error and returns the same header, up to the
  checksum field, which holds the checksum over the segment, and the same payload.
\<close>

theorem tcp_segment_roundtrip:
  assumes "5 \<le> unat (th_doff (ts_header seg))" and "unat (th_doff (ts_header seg)) < 16"
    and "unat ck < 2 ^ 20"
    and "4 * unat (th_doff (ts_header seg)) + length (Buffer_str (ts_payload seg)) < 2 ^ 16"
  shows "\<exists>bl seg' c. TCPSegment_serialize ck seg = Inr bl \<and>
    TCPSegment_parse (Buffer_of_string (BufferList_concatenate bl)) ck old = Inr (NoError, seg') \<and>
    ts_header seg' = (ts_header seg)\<lparr>th_cksum := c\<rparr> \<and>
    Buffer_str (ts_payload seg') = Buffer_str (ts_payload seg)"
proof -
  obtain bl c where bl: "TCPSegment_serialize ck seg = Inr bl"
    "length (BufferList_concatenate bl) = 4 * unat (th_doff (ts_header seg)) + length (Buffer_str (ts_payload seg))"
    "\<And>b old. Buffer_wf b \<Longrightarrow> Buffer_str b = BufferList_concatenate bl \<Longrightarrow>
      \<exists>seg'. TCPSegment_parse b ck old = Inr (NoError, seg') \<and> ts_header seg' = (ts_header seg)\<lparr>th_cksum := c\<rparr> \<and>
        Buffer_str (ts_payload seg') = Buffer_str (ts_payload seg)"
    using tcp_segment_wire [OF assms] by blast
  have "Buffer_wf (Buffer_of_string (BufferList_concatenate bl))" using bl(2) assms(4) by simp
  from bl(3) [OF this, of old] bl(1) show ?thesis by auto
qed

theorem tcp_segment_roundtrip_witness:
  "(let h = TCPHeader_default\<lparr>th_syn := True, th_doff := 6\<rparr>;
        seg = \<lparr>ts_header = h, ts_payload = Buffer_of_string [1, 2, 3]\<rparr>
    in 5 \<le> unat (th_doff (ts_header seg)) \<and> unat (th_doff (ts_header seg)) < 16 \<and>
       unat (7 :: u32) < 2 ^ 20 \<and>
       4 * unat (th_doff (ts_header seg)) + length (Buffer_str (ts_payload seg)) < 2 ^ 16 \<and>
       (\<exists>bl seg' c. TCPSegment_serialize 7 seg = Inr bl \<and>
          TCPSegment_parse (Buffer_of_string (BufferList_concatenate bl)) 7 TCPSegment_default =
            Inr (NoError, seg') \<and>
          ts_header seg' = (ts_header seg)\<lparr>th_cksum := c\<rparr> \<and>
          Buffer_str (ts_payload seg') = Buffer_str (ts_payload seg)))"
proof -
  let ?seg = "\<lparr>ts_header = TCPHeader_default\<lparr>th_syn := True, th_doff := 6\<rparr>,
    ts_payload = Buffer_of_string [1, 2, 3]\<rparr>"
  have h: "5 \<le> unat (th_doff (ts_header ?seg))" "unat (th_doff (ts_header ?seg)) < 16"
    "unat (7 :: u32) < 2 ^ 20"
    "4 * unat (th_doff (ts_header ?seg)) + length (Buffer_str (ts_payload ?seg)) < 2 ^ 16"
    by simp_all
  show ?thesis using h tcp_segment_roundtrip [OF h, of TCPSegment_default] unfolding Let_def by blast
qed

text \<open>
  C30. What \<^verbatim>\<open>TCPSegment::parse\<close> answers on arbitrary bytes. It never throws. It answers
  \<^verbatim>\<open>BadChecksum\<close>, leaving the segment as it was, exactly when the checksum does not verify;
  otherwise \<^verbatim>\<open>PacketTooShort\<close> exactly when the bytes end before the data offset; otherwise
  \<^verbatim>\<open>NoError\<close>, with everything from the data offset on as payload. In particular the
  \<^verbatim>\<open>HeaderTooShort\<close> that the header parser returns for a data offset below 5 words is dropped, and
  such a segment is accepted with its payload starting at byte 20.
\<close>

theorem tcp_parse_result:
  assumes "Buffer_wf b"
  shows "\<exists>r seg'. TCPSegment_parse b ck seg = Inr (r, seg') \<and>
    r = (if checksum_of ck (Buffer_str b) \<noteq> 0 then BadChecksum
         else if length (Buffer_str b) < tcp_data_offset (Buffer_str b) then PacketTooShort
         else NoError) \<and>
    (r = BadChecksum \<longrightarrow> seg' = seg) \<and>
    (r = NoError \<longrightarrow> Buffer_str (ts_payload seg') = drop (tcp_data_offset (Buffer_str b)) (Buffer_str b))"
proof (cases "checksum_of ck (Buffer_str b) = 0")
  case False
  then show ?thesis by (simp add: TCPSegment_parse_def checksum_of_def)
next
  case True
  obtain r h p where "TCPHeader_parse (NetParser_new b) = Inr ((r, h), p)"
    "if length (Buffer_str b) < tcp_data_offset (Buffer_str b) then np_error p = PacketTooShort
     else np_error p = NoError \<and> np_str p = drop (tcp_data_offset (Buffer_str b)) (Buffer_str b)"
    using header_parse_result [OF parser_at_new_buffer [OF assms]] by (metis (no_types, lifting))
  with True show ?thesis
    by (auto simp: TCPSegment_parse_def checksum_of_def split: if_splits)
qed

theorem tcp_parse_result_witness:
  "Buffer_wf (Buffer_of_string [1, 2]) \<and>
   (\<exists>r seg'. TCPSegment_parse (Buffer_of_string [1, 2]) 0 TCPSegment_default = Inr (r, seg') \<and>
    r = (if checksum_of 0 (Buffer_str (Buffer_of_string [1, 2])) \<noteq> 0 then BadChecksum
         else if length (Buffer_str (Buffer_of_string [1, 2])) <
             tcp_data_offset (Buffer_str (Buffer_of_string [1, 2])) then PacketTooShort
         else NoError) \<and>
    (r = BadChecksum \<longrightarrow> seg' = TCPSegment_default) \<and>
    (r = NoError \<longrightarrow> Buffer_str (ts_payload seg') =
       drop (tcp_data_offset (Buffer_str (Buffer_of_string [1, 2]))) (Buffer_str (Buffer_of_string [1, 2]))))"
proof -
  have wf: "Buffer_wf (Buffer_of_string [1, 2])" by simp
  show ?thesis using wf tcp_parse_result [OF wf] by blast
qed

end
