(* ===== verification/TCPReceivers.thy ===== *)
theory TCPReceivers
  imports Reassembler TCPSegments
begin

text \<open>
  \<^verbatim>\<open>libsponge/tcp_receiver.hh\<close> and \<^verbatim>\<open>tcp_receiver.cc\<close>: the receiving half of a connection. It
  places the payload of each segment in the byte stream through its sequence number, and
  answers with the acknowledgment number and the window. The lemmas are about segments that
  carry pieces of one stream \<open>whole\<close> numbered from an initial sequence number.
\<close>

section \<open>State and operations\<close>

record TCPReceiver =
  tr_reassembler :: StreamReassembler
  tr_capacity :: size_t
  tr_isn :: "WrappingInt32 option"

definition TCPReceiver_new :: "size_t \<Rightarrow> TCPReceiver" where
  "TCPReceiver_new capacity =
     \<lparr>tr_reassembler = StreamReassembler_new capacity, tr_capacity = capacity, tr_isn = None\<rparr>"

definition TCPReceiver_stream_out :: "TCPReceiver \<Rightarrow> ByteStream" where
  "TCPReceiver_stream_out r = StreamReassembler_stream_out (tr_reassembler r)"

definition TCPReceiver_place ::
    "WrappingInt32 \<Rightarrow> TCPSegment \<Rightarrow> TCPReceiver \<Rightarrow> TCPReceiver res" where
  "TCPReceiver_place isn seg r =
     (let header = ts_header seg;
          checkpoint = ByteStream_bytes_written (StreamReassembler_stream_out (tr_reassembler r));
          abs_seq = unwrap (th_seqno header) isn checkpoint;
          stream_index = abs_seq - 1 + (if th_syn header then 1 else 0)
      in
      bind_res
        (StreamReassembler_push_substring (Buffer_copy (ts_payload seg)) stream_index (th_fin header)
          (tr_reassembler r))
        (\<lambda>ra. Inr (r\<lparr>tr_reassembler := ra\<rparr>)))"

definition TCPReceiver_segment_received :: "TCPSegment \<Rightarrow> TCPReceiver \<Rightarrow> TCPReceiver res" where
  "TCPReceiver_segment_received seg r =
     (case tr_isn r of
        None \<Rightarrow>
          if \<not> th_syn (ts_header seg) then Inr r
          else TCPReceiver_place (th_seqno (ts_header seg)) seg
                 (r\<lparr>tr_isn := Some (th_seqno (ts_header seg))\<rparr>)
      | Some isn \<Rightarrow> TCPReceiver_place isn seg r)"

definition TCPReceiver_ackno :: "TCPReceiver \<Rightarrow> WrappingInt32 option" where
  "TCPReceiver_ackno r =
     (case tr_isn r of
        None \<Rightarrow> None
      | Some isn \<Rightarrow>
          let abs_seq = ByteStream_bytes_written (StreamReassembler_stream_out (tr_reassembler r)) + 1 +
                (if ByteStream_input_ended (StreamReassembler_stream_out (tr_reassembler r)) then 1 else 0)
          in Some (wrap abs_seq isn))"

definition TCPReceiver_window_size :: "TCPReceiver \<Rightarrow> size_t" where
  "TCPReceiver_window_size r =
     tr_capacity r - ByteStream_buffer_size (StreamReassembler_stream_out (tr_reassembler r))"

definition TCPReceiver_unassembled_bytes :: "TCPReceiver \<Rightarrow> size_t" where
  "TCPReceiver_unassembled_bytes r = StreamReassembler_unassembled_bytes (tr_reassembler r)"

section \<open>Segments of a stream\<close>

text \<open>
  \<open>carries whole isn seg a\<close>: the segment has absolute sequence number \<open>a\<close>; the SYN sits at 0,
  the byte with stream index \<open>i\<close> at \<open>i + 1\<close> and the FIN after the last byte.
\<close>

definition stream_pos :: "TCPSegment \<Rightarrow> u64 \<Rightarrow> u64" where
  "stream_pos seg a = (if th_syn (ts_header seg) then a else a - 1)"

definition carries :: "byte list \<Rightarrow> WrappingInt32 \<Rightarrow> TCPSegment \<Rightarrow> u64 \<Rightarrow> bool" where
  "carries whole isn seg a \<longleftrightarrow>
     th_seqno (ts_header seg) = wrap a isn \<and> (th_syn (ts_header seg) \<longleftrightarrow> a = 0) \<and>
     piece_of whole (Buffer_str (ts_payload seg)) (stream_pos seg a) (th_fin (ts_header seg))"

text \<open>
  A bare segment (no SYN, FIN or payload) only acknowledges; its sequence number may be anything.
\<close>

definition bare :: "TCPSegment \<Rightarrow> bool" where
  "bare seg \<longleftrightarrow> \<not> th_syn (ts_header seg) \<and> \<not> th_fin (ts_header seg) \<and> Buffer_str (ts_payload seg) = []"

definition receiver_inv :: "byte list \<Rightarrow> WrappingInt32 \<Rightarrow> TCPReceiver \<Rightarrow> bool" where
  "receiver_inv whole isn r \<longleftrightarrow>
     reassembler_inv whole (tr_reassembler r) \<and> tr_capacity r = sr_capacity (tr_reassembler r) \<and>
     (tr_isn r = None \<and> cur_idx (tr_reassembler r) = 0 \<or> tr_isn r = Some isn)"

lemma receiver_new_inv:
  "c \<noteq> 0 \<Longrightarrow> length whole + unat c < 2 ^ 64 \<Longrightarrow> receiver_inv whole isn (TCPReceiver_new c)"
  using reassembler_new_inv [of c whole]
  by (simp add: receiver_inv_def TCPReceiver_new_def) (simp add: StreamReassembler_new_def)

lemma written_cur:
  "reassembler_inv whole ra \<Longrightarrow> ByteStream_bytes_written (StreamReassembler_stream_out ra) = sr_cur_index ra"
  by (simp add: reassembler_inv_def output_ok_def ByteStream_bytes_written_def
      StreamReassembler_stream_out_def)

text \<open>In the window around the checkpoint, placing a segment is pushing its piece.\<close>

lemma place_eq:
  assumes "reassembler_inv whole (tr_reassembler r)" and "carries whole isn seg a"
    and "\<bar>int (unat a) - int (cur_idx (tr_reassembler r))\<bar> < 2 ^ 31"
  shows "TCPReceiver_place isn seg r =
    bind_res (StreamReassembler_push_substring (Buffer_str (ts_payload seg)) (stream_pos seg a)
        (th_fin (ts_header seg)) (tr_reassembler r))
      (\<lambda>ra. Inr (r\<lparr>tr_reassembler := ra\<rparr>))"
  using assms(2) unwrap_wrap [OF assms(3), of isn]
  by (simp add: TCPReceiver_place_def carries_def written_cur [OF assms(1)] stream_pos_def Buffer_copy_def)

lemma segment_received_eq:
  assumes inv: "receiver_inv whole isn r" and seg: "carries whole isn seg a"
    and syn: "tr_isn r \<noteq> None \<or> th_syn (ts_header seg)"
    and close: "\<bar>int (unat a) - int (cur_idx (tr_reassembler r))\<bar> < 2 ^ 31"
  shows "TCPReceiver_segment_received seg r =
    bind_res (StreamReassembler_push_substring (Buffer_str (ts_payload seg)) (stream_pos seg a)
        (th_fin (ts_header seg)) (tr_reassembler r))
      (\<lambda>ra. Inr (r\<lparr>tr_reassembler := ra, tr_isn := Some isn\<rparr>))"
proof (cases "tr_isn r")
  case None
  have "th_seqno (ts_header seg) = isn"
    using seg syn None by (simp add: carries_def wrap_def)
  moreover have "reassembler_inv whole (tr_reassembler (r\<lparr>tr_isn := Some isn\<rparr>))"
    using inv by (simp add: receiver_inv_def)
  ultimately show ?thesis
    using None syn place_eq [OF _ seg, of "r\<lparr>tr_isn := Some isn\<rparr>"] close
    by (simp add: TCPReceiver_segment_received_def bind_res_def split: sum.splits)
next
  case (Some x)
  then have "tr_isn r = Some isn" and ra: "reassembler_inv whole (tr_reassembler r)"
    using inv by (auto simp: receiver_inv_def)
  then show ?thesis
    using place_eq [OF ra seg close]
    by (simp add: TCPReceiver_segment_received_def bind_res_def split: sum.splits)
qed

lemma receiver_answers:
  assumes inv: "receiver_inv whole isn r" and isn: "tr_isn r = Some isn"
  shows "TCPReceiver_ackno r = Some (wrap (1 + sr_cur_index (tr_reassembler r) +
      (if sr_cur_index (tr_reassembler r) = sr_eof_index (tr_reassembler r) then 1 else 0)) isn)"
    and "unat (TCPReceiver_window_size r) = read_idx (tr_reassembler r) + unat (tr_capacity r) - cur_idx (tr_reassembler r)"
proof -
  let ?ra = "tr_reassembler r"
  have ra: "reassembler_inv whole ?ra" and cap: "tr_capacity r = sr_capacity ?ra"
    using inv by (auto simp: receiver_inv_def)
  have "ByteStream_input_ended (sr_output ?ra) \<longleftrightarrow> sr_cur_index ?ra = sr_eof_index ?ra"
    using ra by (simp add: reassembler_inv_def eof_ok_def ByteStream_input_ended_def)
  then show "TCPReceiver_ackno r = Some (wrap (1 + sr_cur_index ?ra +
      (if sr_cur_index ?ra = sr_eof_index ?ra then 1 else 0)) isn)"
    using isn written_cur [OF ra]
    by (simp add: TCPReceiver_ackno_def StreamReassembler_stream_out_def add.commute)
  have out: "ByteStream_inv (sr_output ?ra)" "read_idx ?ra \<le> cur_idx ?ra" "cur_idx ?ra \<le> length whole"
    "ByteStream_contents (sr_output ?ra) = drop (read_idx ?ra) (take (cur_idx ?ra) whole)"
    "bs_capacity (sr_output ?ra) = sr_capacity ?ra"
    using ra by (auto simp: reassembler_inv_def output_ok_def)
  have size: "unat (ByteStream_buffer_size (sr_output ?ra)) = cur_idx ?ra - read_idx ?ra"
    using out by (simp add: ByteStream_size_unat)
  moreover have "ByteStream_buffer_size (sr_output ?ra) \<le> tr_capacity r"
    using bstream.bounded [OF out(1)] out cap size by (simp add: word_le_nat_alt)
  ultimately show "unat (TCPReceiver_window_size r) =
      read_idx ?ra + unat (tr_capacity r) - cur_idx ?ra"
    using out(2) by (simp add: TCPReceiver_window_size_def StreamReassembler_stream_out_def unat_diff_le)
qed

section \<open>Runs of the receiver\<close>

datatype receiver_op =
    Segment TCPSegment u64
  | Read_out size_t

fun receiver_step :: "receiver_op \<Rightarrow> TCPReceiver \<times> byte list \<Rightarrow> (TCPReceiver \<times> byte list) res" where
  "receiver_step (Segment seg a) (r, got) =
     bind_res (TCPReceiver_segment_received seg r) (\<lambda>r'. Inr (r', got))"
| "receiver_step (Read_out n) (r, got) =
     bind_res (ByteStream_read n (TCPReceiver_stream_out r))
       (\<lambda>(b, bytes). Inr (r\<lparr>tr_reassembler := (tr_reassembler r)\<lparr>sr_output := b\<rparr>\<rparr>, got @ bytes))"

fun receiver_op_ok :: "byte list \<Rightarrow> WrappingInt32 \<Rightarrow> receiver_op \<Rightarrow> bool" where
  "receiver_op_ok whole isn (Segment seg a) \<longleftrightarrow> carries whole isn seg a \<or> bare seg"
| "receiver_op_ok whole isn (Read_out n) \<longleftrightarrow> True"

definition receiver_run_inv :: "byte list \<Rightarrow> WrappingInt32 \<Rightarrow> TCPReceiver \<times> byte list \<Rightarrow> bool" where
  "receiver_run_inv whole isn = (\<lambda>(r, got).
     length whole + 1 < 2 ^ 31 \<and> receiver_inv whole isn r \<and> got = take (read_idx (tr_reassembler r)) whole)"

lemma carries_close:
  assumes "carries whole isn seg a" and "length whole + 1 < 2 ^ 31" and "c \<le> length whole"
  shows "\<bar>int (unat a) - int c\<bar> < 2 ^ 31"
proof -
  have "unat a \<le> length whole + 1"
  proof (cases "a = 0")
    case False
    then have "unat (a - 1) = unat a - 1" by (simp add: unat_minus_one)
    then show ?thesis using assms(1) False by (auto simp: carries_def stream_pos_def piece_of_def)
  qed simp
  moreover have "\<bar>int m - int c\<bar> < 2 ^ 31" if "m \<le> length whole + 1" for m
    using that assms(2,3) by simp
  ultimately show ?thesis by blast
qed

lemma receiver_carries:
  assumes inv: "receiver_inv whole isn r" and len: "length whole + 1 < 2 ^ 31"
    and seg: "carries whole isn seg a"
  shows "\<exists>r'. TCPReceiver_segment_received seg r = Inr r' \<and> receiver_inv whole isn r' \<and>
    read_idx (tr_reassembler r') = read_idx (tr_reassembler r) \<and>
    (sr_eof_index (tr_reassembler r') = sr_eof_index (tr_reassembler r) \<or> th_fin (ts_header seg)) \<and>
    tr_capacity r' = tr_capacity r"
proof (cases "tr_isn r \<noteq> None \<or> th_syn (ts_header seg)")
  case False
  then show ?thesis using inv by (simp add: TCPReceiver_segment_received_def)
next
  case True
  have ra: "reassembler_inv whole (tr_reassembler r)" using inv by (simp add: receiver_inv_def)
  then have "cur_idx (tr_reassembler r) \<le> length whole"
    by (simp add: reassembler_inv_def output_ok_def)
  note eq = segment_received_eq [OF inv seg True carries_close [OF seg len this]]
  have "piece_of whole (Buffer_str (ts_payload seg)) (stream_pos seg a) (th_fin (ts_header seg))"
    using seg by (simp add: carries_def)
  from push_first_missing [OF ra this] show ?thesis
    using inv eq by (auto simp: receiver_inv_def)
qed

lemma receiver_bare:
  assumes inv: "receiver_inv whole isn r" and seg: "bare seg"
  shows "\<exists>r'. TCPReceiver_segment_received seg r = Inr r' \<and> receiver_inv whole isn r' \<and>
    read_idx (tr_reassembler r') = read_idx (tr_reassembler r) \<and>
    (sr_eof_index (tr_reassembler r') = sr_eof_index (tr_reassembler r) \<or> th_fin (ts_header seg)) \<and>
    tr_capacity r' = tr_capacity r"
proof (cases "tr_isn r")
  case None
  then show ?thesis using inv seg by (simp add: TCPReceiver_segment_received_def bare_def)
next
  case (Some x)
  have ra: "reassembler_inv whole (tr_reassembler r)" using inv by (simp add: receiver_inv_def)
  have "piece_of whole [] 0 False" by (simp add: piece_of_def)
  from push_first_missing [OF ra this] obtain ra' where
    "StreamReassembler_push_substring [] 0 False (tr_reassembler r) = Inr ra'"
    "reassembler_inv whole ra'" "sr_capacity ra' = sr_capacity (tr_reassembler r)"
    "read_idx ra' = read_idx (tr_reassembler r)"
    "sr_eof_index ra' = sr_eof_index (tr_reassembler r)" by auto
  then show ?thesis
    using Some inv seg push_empty_eq [of _ "tr_reassembler r"]
    by (auto simp: TCPReceiver_segment_received_def TCPReceiver_place_def bare_def Buffer_copy_def
        receiver_inv_def)
qed

interpretation receiver_life: op_machine receiver_step "receiver_op_ok whole isn" "receiver_run_inv whole isn"
proof unfold_locales
  fix s x
  assume s: "receiver_run_inv whole isn s" and ok: "receiver_op_ok whole isn x"
  obtain r got where [simp]: "s = (r, got)" by (cases s)
  have len: "length whole + 1 < 2 ^ 31" and inv: "receiver_inv whole isn r"
    and got: "got = take (read_idx (tr_reassembler r)) whole"
    and ra: "reassembler_inv whole (tr_reassembler r)"
    using s by (auto simp: receiver_run_inv_def receiver_inv_def)
  show "\<exists>s'. receiver_step x s = Inr s' \<and> receiver_run_inv whole isn s'"
  proof (cases x)
    case (Segment seg a)
    with ok have "carries whole isn seg a \<or> bare seg" by simp
    then show ?thesis
    proof
      assume "carries whole isn seg a"
      then show ?thesis
        using receiver_carries [OF inv len] s Segment by (fastforce simp: receiver_run_inv_def)
    next
      assume "bare seg"
      then show ?thesis
        using receiver_bare [OF inv] s Segment by (fastforce simp: receiver_run_inv_def)
    qed
  next
    case (Read_out n)
    show ?thesis
      by (rule consume_ok [OF ra, of n])
        (use len inv in \<open>auto simp: Read_out receiver_run_inv_def receiver_inv_def got
          TCPReceiver_stream_out_def StreamReassembler_stream_out_def\<close>)
  qed
qed

text \<open>While the end of the stream is not known, more of it may be written.\<close>

lemma receiver_inv_append:
  assumes "receiver_inv w isn r" and "sr_eof_index (tr_reassembler r) = uint64_max"
    and "length (w @ x) + unat (tr_capacity r) < 2 ^ 64"
  shows "receiver_inv (w @ x) isn r"
proof -
  let ?ra = "tr_reassembler r"
  have ra: "reassembler_inv w ?ra" and cap: "tr_capacity r = sr_capacity ?ra"
    using assms(1) by (auto simp: receiver_inv_def)
  have "ring_ok (w @ x) ?ra (stored ?ra)"
    using ra by (auto simp: reassembler_inv_def ring_ok_def nth_append)
  moreover have "output_ok (w @ x) ?ra" using ra by (simp add: reassembler_inv_def output_ok_def)
  ultimately have "reassembler_inv (w @ x) ?ra"
    using ra assms(2,3) cap by (simp add: reassembler_inv_def eof_ok_def)
  then show ?thesis using assms(1) by (simp add: receiver_inv_def)
qed

lemma receiver_read_ok:
  assumes "receiver_inv w isn r"
  shows "\<exists>b. ByteStream_read n (TCPReceiver_stream_out r) =
      Inr (b, take (unat n) (ByteStream_contents (TCPReceiver_stream_out r))) \<and>
    receiver_inv w isn (r\<lparr>tr_reassembler := (tr_reassembler r)\<lparr>sr_output := b\<rparr>\<rparr>) \<and>
    take (unat (bs_read_cnt b)) w = take (read_idx (tr_reassembler r)) w @
      take (unat n) (ByteStream_contents (TCPReceiver_stream_out r))"
proof -
  have ra: "reassembler_inv w (tr_reassembler r)" using assms by (simp add: receiver_inv_def)
  show ?thesis
    by (rule consume_ok [OF ra, of n])
      (use assms in \<open>auto simp: receiver_inv_def TCPReceiver_stream_out_def StreamReassembler_stream_out_def\<close>)
qed

section \<open>Properties\<close>

text \<open>
  What the receiver does with a segment. Once the SYN is known, a segment of the stream
  within half the sequence space of the expected byte is accepted without an exception; the
  acknowledgment number it then answers with is the sequence number of the first byte it has
  neither stored before nor accepted from this segment (one further when the stream is complete
  and its FIN known), and the window ends exactly at the capacity after the bytes the
  application has read.
\<close>

theorem receiver_acks_first_missing:
  assumes "receiver_inv whole isn r" and "carries whole isn seg a"
    and "tr_isn r \<noteq> None \<or> th_syn (ts_header seg)"
    and "\<bar>int (unat a) - int (cur_idx (tr_reassembler r))\<bar> < 2 ^ 31"
  shows "\<exists>r' first. TCPReceiver_segment_received seg r = Inr r' \<and> receiver_inv whole isn r' \<and>
    unat first = (LEAST i. cur_idx (tr_reassembler r) \<le> i \<and>
      i \<notin> stored (tr_reassembler r) \<union>
        accepted (Buffer_str (ts_payload seg)) (stream_pos seg a) (tr_reassembler r)) \<and>
    TCPReceiver_ackno r' = Some (wrap (1 + first +
      (if first = sr_eof_index (tr_reassembler r') then 1 else 0)) isn) \<and>
    unat (TCPReceiver_window_size r') =
      read_idx (tr_reassembler r) + unat (tr_capacity r) - unat first"
proof -
  let ?ra = "tr_reassembler r" and ?pay = "Buffer_str (ts_payload seg)" and ?pos = "stream_pos seg a"
  have ra: "reassembler_inv whole ?ra" using assms(1) by (simp add: receiver_inv_def)
  have piece: "piece_of whole ?pay ?pos (th_fin (ts_header seg))" using assms(2) by (simp add: carries_def)
  obtain ra' where push: "StreamReassembler_push_substring ?pay ?pos (th_fin (ts_header seg)) ?ra = Inr ra'"
    "reassembler_inv whole ra'"
    "cur_idx ra' = (LEAST i. cur_idx ?ra \<le> i \<and> i \<notin> stored ?ra \<union> accepted ?pay ?pos ?ra)"
    "sr_capacity ra' = sr_capacity ?ra" "read_idx ra' = read_idx ?ra"
    using push_first_missing [OF ra piece] by blast
  let ?r' = "r\<lparr>tr_reassembler := ra', tr_isn := Some isn\<rparr>"
  have rec: "TCPReceiver_segment_received seg r = Inr ?r'"
    using segment_received_eq [OF assms] push(1) by simp
  have inv': "receiver_inv whole isn ?r'" using assms(1) push by (simp add: receiver_inv_def)
  show ?thesis
    using rec inv' push(3,5) receiver_answers [OF inv']
    by (intro exI [of _ ?r'] exI [of _ "sr_cur_index ra'"]) simp
qed

theorem receiver_acks_first_missing_witness:
  "(let syn = \<lparr>ts_header = TCPHeader_default\<lparr>th_syn := True, th_seqno := WrappingInt32 9\<rparr>,
               ts_payload = Buffer_of_string [5]\<rparr>;
        r = TCPReceiver_new 4; whole = [5, 6]; isn = WrappingInt32 9
    in receiver_inv whole isn r \<and> carries whole isn syn 0 \<and>
       (tr_isn r \<noteq> None \<or> th_syn (ts_header syn)) \<and>
       \<bar>int (unat (0::u64)) - int (cur_idx (tr_reassembler r))\<bar> < 2 ^ 31 \<and>
       (\<exists>r' first. TCPReceiver_segment_received syn r = Inr r' \<and> receiver_inv whole isn r' \<and>
          unat first = (LEAST i. cur_idx (tr_reassembler r) \<le> i \<and>
            i \<notin> stored (tr_reassembler r) \<union>
              accepted (Buffer_str (ts_payload syn)) (stream_pos syn 0) (tr_reassembler r)) \<and>
          TCPReceiver_ackno r' = Some (wrap (1 + first +
            (if first = sr_eof_index (tr_reassembler r') then 1 else 0)) isn) \<and>
          unat (TCPReceiver_window_size r') =
            read_idx (tr_reassembler r) + unat (tr_capacity r) - unat first))"
proof -
  let ?syn = "\<lparr>ts_header = TCPHeader_default\<lparr>th_syn := True, th_seqno := WrappingInt32 9\<rparr>,
    ts_payload = Buffer_of_string [5]\<rparr>"
  let ?r = "TCPReceiver_new 4" and ?w = "[5, 6]" and ?isn = "WrappingInt32 9"
  have a: "receiver_inv ?w ?isn ?r" by (rule receiver_new_inv) simp_all
  have b: "carries ?w ?isn ?syn 0" by (simp add: carries_def wrap_def stream_pos_def piece_of_def TCPHeader_default_def)
  have c: "tr_isn ?r \<noteq> None \<or> th_syn (ts_header ?syn)" by simp
  have d: "\<bar>int (unat (0::u64)) - int (cur_idx (tr_reassembler ?r))\<bar> < 2 ^ 31"
    by (simp add: TCPReceiver_new_def StreamReassembler_new_def)
  show ?thesis
    using a b c d receiver_acks_first_missing [OF a b c d] unfolding Let_def by blast
qed

text \<open>
  C6. The receiver is transparent. Take any stream of less than 2 GiB and any sequence of
  segments of it, reordered, repeated, overlapping, before or after the SYN, mixed with bare
  acknowledgments and interleaved with reads by the application. Nothing throws; the bytes read followed by the bytes still buffered
  are a prefix of the stream, all of it once the inbound stream reports its end, and the
  acknowledgment number, once the SYN has arrived, counts exactly that prefix.
\<close>

theorem receiver_transparent:
  assumes "c \<noteq> 0" and "length whole + 1 < 2 ^ 31" and "length whole + unat c < 2 ^ 64"
    and "list_all (receiver_op_ok whole isn) xs"
  shows "\<exists>r got n. run_ops receiver_step xs (TCPReceiver_new c, []) = Inr (r, got) \<and>
    got @ ByteStream_contents (TCPReceiver_stream_out r) = take n whole \<and> n \<le> length whole \<and>
    (ByteStream_input_ended (TCPReceiver_stream_out r) \<longrightarrow> n = length whole) \<and>
    (tr_isn r \<noteq> None \<longrightarrow> TCPReceiver_ackno r = Some (wrap (of_nat
       (1 + n + (if ByteStream_input_ended (TCPReceiver_stream_out r) then 1 else 0))) isn))"
proof -
  let ?r0 = "TCPReceiver_new c"
  have "receiver_run_inv whole isn (?r0, [])"
    using receiver_new_inv [OF assms(1,3)] assms(2)
    by (simp add: receiver_run_inv_def) (simp add: TCPReceiver_new_def StreamReassembler_new_def ByteStream_new_def)
  then obtain r got where run: "run_ops receiver_step xs (?r0, []) = Inr (r, got)"
    and "receiver_run_inv whole isn (r, got)"
    using receiver_life.run_ok assms(4) by (metis prod.exhaust)
  then have inv: "receiver_inv whole isn r" and got: "got = take (read_idx (tr_reassembler r)) whole"
    by (simp_all add: receiver_run_inv_def)
  then have ra: "reassembler_inv whole (tr_reassembler r)" by (simp add: receiver_inv_def)
  have ended: "ByteStream_input_ended (TCPReceiver_stream_out r) \<longleftrightarrow>
      sr_cur_index (tr_reassembler r) = sr_eof_index (tr_reassembler r)"
    using ra by (simp add: reassembler_inv_def eof_ok_def ByteStream_input_ended_def
        TCPReceiver_stream_out_def StreamReassembler_stream_out_def)
  have "TCPReceiver_ackno r = Some (wrap (of_nat (1 + cur_idx (tr_reassembler r) +
      (if ByteStream_input_ended (TCPReceiver_stream_out r) then 1 else 0))) isn)" if "tr_isn r \<noteq> None"
    using receiver_answers(1) [OF inv] inv that by (auto simp: ended receiver_inv_def)
  then show ?thesis
    using run assembled_prefix [OF ra] ended
    by (intro exI [of _ r] exI [of _ got] exI [of _ "cur_idx (tr_reassembler r)"])
      (simp add: got TCPReceiver_stream_out_def StreamReassembler_stream_out_def)
qed

definition data_segment :: "u32 \<Rightarrow> bool \<Rightarrow> byte list \<Rightarrow> bool \<Rightarrow> TCPSegment" where
  "data_segment seqno syn data fin =
     \<lparr>ts_header = TCPHeader_default\<lparr>th_seqno := WrappingInt32 seqno, th_syn := syn, th_fin := fin\<rparr>,
      ts_payload = Buffer_of_string data\<rparr>"

theorem receiver_transparent_witness:
  "(let xs = [Segment (data_segment 0 False [6] True) 2, Segment (data_segment 0xFFFFFFFE True [] False) 0,
              Segment (data_segment 0 False [6] True) 2, Segment (data_segment 0xFFFFFFFF False [5] False) 1,
              Read_out 1]; isn = WrappingInt32 0xFFFFFFFE; c = (4 :: size_t); whole = [5, 6]
    in c \<noteq> 0 \<and> length whole + 1 < 2 ^ 31 \<and> length whole + unat c < 2 ^ 64 \<and>
       list_all (receiver_op_ok whole isn) xs \<and>
       (\<exists>r got n. run_ops receiver_step xs (TCPReceiver_new c, []) = Inr (r, got) \<and>
          got @ ByteStream_contents (TCPReceiver_stream_out r) = take n whole \<and> n \<le> length whole \<and>
          (ByteStream_input_ended (TCPReceiver_stream_out r) \<longrightarrow> n = length whole) \<and>
          (tr_isn r \<noteq> None \<longrightarrow> TCPReceiver_ackno r = Some (wrap (of_nat
             (1 + n + (if ByteStream_input_ended (TCPReceiver_stream_out r) then 1 else 0))) isn))))"
proof -
  let ?xs = "[Segment (data_segment 0 False [6] True) 2, Segment (data_segment 0xFFFFFFFE True [] False) 0,
    Segment (data_segment 0 False [6] True) 2, Segment (data_segment 0xFFFFFFFF False [5] False) 1, Read_out 1]"
  have a: "(4 :: size_t) \<noteq> 0" "length [5, 6 :: byte] + 1 < 2 ^ 31"
    "length [5, 6 :: byte] + unat (4 :: size_t) < 2 ^ 64" by simp_all
  have b: "list_all (receiver_op_ok [5, 6] (WrappingInt32 0xFFFFFFFE)) ?xs"
    by (simp add: carries_def wrap_def stream_pos_def piece_of_def data_segment_def TCPHeader_default_def)
  show ?thesis using a b receiver_transparent [OF a b] unfolding Let_def by blast
qed

end
