(* ===== verification/TCPSenders.thy ===== *)
theory TCPSenders
  imports TCPReceivers
begin

text \<open>
  \<^verbatim>\<open>libsponge/tcp_sender.hh\<close>, \<^verbatim>\<open>tcp_sender.cc\<close> and \<^verbatim>\<open>class TCPConfig\<close>: the sending half of a
  connection. It cuts the outgoing byte stream into segments that fit the window, keeps the
  unacknowledged ones with a retransmission timer, and optionally limits itself by TCP Reno
  congestion control.

  The loop of \<^verbatim>\<open>fill_window\<close> is bounded by fuel, one more than the window: every round that
  does not leave the loop uses up at least one sequence number of the window, which
  \<open>fill_loop_ok\<close> proves enough. Running out of fuel is an error of the model.
\<close>

section \<open>Configuration and timer\<close>

record TCPConfig =
  cfg_rt_timeout :: u16
  cfg_recv_capacity :: size_t
  cfg_send_capacity :: size_t
  cfg_fixed_isn :: "WrappingInt32 option"
  cfg_congestion_control :: bool

definition DEFAULT_CAPACITY :: size_t where "DEFAULT_CAPACITY = 64000"
definition MAX_PAYLOAD_SIZE :: size_t where "MAX_PAYLOAD_SIZE = 1000"
definition TIMEOUT_DFLT :: u16 where "TIMEOUT_DFLT = 1000"
definition MAX_RETX_ATTEMPTS :: u32 where "MAX_RETX_ATTEMPTS = 8"

definition TCPConfig_default :: TCPConfig where
  "TCPConfig_default =
     \<lparr>cfg_rt_timeout = TIMEOUT_DFLT, cfg_recv_capacity = DEFAULT_CAPACITY,
      cfg_send_capacity = DEFAULT_CAPACITY, cfg_fixed_isn = None, cfg_congestion_control = False\<rparr>"

record Timer =
  tm_time_count :: u32
  tm_time_out :: u32
  tm_is_running :: bool

definition Timer_new :: "u32 \<Rightarrow> Timer" where
  "Timer_new time_out = \<lparr>tm_time_count = 0, tm_time_out = time_out, tm_is_running = False\<rparr>"

definition Timer_stop :: "Timer \<Rightarrow> Timer" where
  "Timer_stop t = t\<lparr>tm_is_running := False\<rparr>"

definition Timer_set_time_out :: "u32 \<Rightarrow> Timer \<Rightarrow> Timer" where
  "Timer_set_time_out time_out t = t\<lparr>tm_time_out := time_out\<rparr>"

definition Timer_restart :: "Timer \<Rightarrow> Timer" where
  "Timer_restart t = t\<lparr>tm_is_running := True, tm_time_count := 0\<rparr>"

definition Timer_tick :: "size_t \<Rightarrow> Timer \<Rightarrow> Timer" where
  "Timer_tick ms t =
     (if tm_is_running t then t\<lparr>tm_time_count := ucast (ucast (tm_time_count t) + ms)\<rparr> else t)"

definition Timer_check_time_out :: "Timer \<Rightarrow> bool" where
  "Timer_check_time_out t \<longleftrightarrow> tm_is_running t \<and> tm_time_count t \<ge> tm_time_out t"

section \<open>State and operations\<close>

record TCPSender =
  ss_isn :: WrappingInt32
  ss_segments_out :: "TCPSegment list"
  ss_initial_retransmission_timeout :: u32
  ss_stream :: ByteStream
  ss_next_seqno :: u64
  ss_timer :: Timer
  ss_outstanding_seg :: "(u64 \<times> TCPSegment) list"
  ss_consecutive_retransmissions_count :: u32
  ss_bytes_in_flight :: size_t
  ss_window_size :: u16
  ss_set_syn_flag :: bool
  ss_set_fin_flag :: bool
  ss_congestion_control_enabled :: bool
  ss_congestion_window :: size_t
  ss_slow_start_threshold :: size_t
  ss_dup_ack_count :: u32
  ss_last_ackno_absolute :: u64
  ss_in_fast_recovery :: bool

text \<open>The value drawn from \<^verbatim>\<open>random_device\<close> for the ISN is the parameter \<open>random_isn\<close>.\<close>

definition TCPSender_new ::
    "size_t \<Rightarrow> u16 \<Rightarrow> WrappingInt32 option \<Rightarrow> bool \<Rightarrow> u32 \<Rightarrow> TCPSender" where
  "TCPSender_new capacity retx_timeout fixed_isn enable_cc random_isn =
     \<lparr>ss_isn = (case fixed_isn of Some isn \<Rightarrow> isn | None \<Rightarrow> WrappingInt32 random_isn),
      ss_segments_out = [], ss_initial_retransmission_timeout = ucast retx_timeout,
      ss_stream = ByteStream_new capacity, ss_next_seqno = 0,
      ss_timer = Timer_new (ucast retx_timeout), ss_outstanding_seg = [],
      ss_consecutive_retransmissions_count = 0, ss_bytes_in_flight = 0, ss_window_size = 1,
      ss_set_syn_flag = False, ss_set_fin_flag = False, ss_congestion_control_enabled = enable_cc,
      ss_congestion_window = MAX_PAYLOAD_SIZE, ss_slow_start_threshold = - 1,
      ss_dup_ack_count = 0, ss_last_ackno_absolute = 0, ss_in_fast_recovery = False\<rparr>"

definition TCPSender_next_seqno :: "TCPSender \<Rightarrow> WrappingInt32" where
  "TCPSender_next_seqno s = wrap (ss_next_seqno s) (ss_isn s)"

definition TCPSender_effective_window_size :: "TCPSender \<Rightarrow> size_t" where
  "TCPSender_effective_window_size s =
     (let adv = max (ucast (ss_window_size s)) 1 in
      if \<not> ss_congestion_control_enabled s then adv else min adv (ss_congestion_window s))"

definition make_segment :: "size_t \<Rightarrow> TCPSender \<Rightarrow> (TCPSegment \<times> TCPSender) res" where
  "make_segment window_size s =
     (let syn = \<not> ss_set_syn_flag s;
          header = TCPHeader_default\<lparr>th_syn := syn\<rparr>;
          s = s\<lparr>ss_set_syn_flag := True\<rparr>;
          payload_size = min MAX_PAYLOAD_SIZE
            (min (window_size - ss_bytes_in_flight s - (if th_syn header then 1 else 0))
                 (ByteStream_buffer_size (ss_stream s)))
      in
      bind_res (ByteStream_read payload_size (ss_stream s)) (\<lambda>(stream, payload).
      let s = s\<lparr>ss_stream := stream\<rparr>;
          seg = \<lparr>ts_header = header, ts_payload = Buffer_of_string payload\<rparr>
      in
      if \<not> ss_set_fin_flag s \<and> ByteStream_eof stream \<and>
         ss_bytes_in_flight s + TCPSegment_length_in_sequence_space seg < window_size
      then Inr (seg\<lparr>ts_header := header\<lparr>th_fin := True\<rparr>\<rparr>, s\<lparr>ss_set_fin_flag := True\<rparr>)
      else Inr (seg, s)))"

definition send_segment :: "TCPSegment \<Rightarrow> TCPSender \<Rightarrow> TCPSender" where
  "send_segment seg s =
     (let len = TCPSegment_length_in_sequence_space seg;
          seg = seg\<lparr>ts_header := (ts_header seg)\<lparr>th_seqno := TCPSender_next_seqno s\<rparr>\<rparr>
      in
      s\<lparr>ss_segments_out := ss_segments_out s @ [seg],
        ss_timer := (if \<not> tm_is_running (ss_timer s) then Timer_restart (ss_timer s) else ss_timer s),
        ss_outstanding_seg := ss_outstanding_seg s @ [(ss_next_seqno s, seg)],
        ss_next_seqno := ss_next_seqno s + len,
        ss_bytes_in_flight := ss_bytes_in_flight s + len\<rparr>)"

fun fill_loop :: "nat \<Rightarrow> size_t \<Rightarrow> TCPSender \<Rightarrow> TCPSender res" where
  "fill_loop 0 window_size s = Inl (Undefined_behaviour ''fill_window: out of fuel'')"
| "fill_loop (Suc fuel) window_size s =
     (if ss_bytes_in_flight s < window_size then
        bind_res (make_segment window_size s) (\<lambda>(seg, s1).
        if TCPSegment_length_in_sequence_space seg = 0 then Inr s1
        else fill_loop fuel window_size (send_segment seg s1))
      else Inr s)"

definition TCPSender_fill_window :: "TCPSender \<Rightarrow> TCPSender res" where
  "TCPSender_fill_window s =
     (let window_size = TCPSender_effective_window_size s in
      fill_loop (Suc (unat window_size)) window_size s)"

fun ack_loop :: "u64 \<Rightarrow> (u64 \<times> TCPSegment) list \<Rightarrow> size_t \<Rightarrow> size_t \<Rightarrow>
    (u64 \<times> TCPSegment) list \<times> size_t \<times> size_t" where
  "ack_loop abs_ackno [] in_flight newly = ([], in_flight, newly)"
| "ack_loop abs_ackno ((abs_seq, seg) # rest) in_flight newly =
     (if abs_seq + TCPSegment_length_in_sequence_space seg - 1 < abs_ackno then
        ack_loop abs_ackno rest (in_flight - TCPSegment_length_in_sequence_space seg)
          (newly + TCPSegment_length_in_sequence_space seg)
      else ((abs_seq, seg) # rest, in_flight, newly))"

definition on_new_ack :: "size_t \<Rightarrow> TCPSender \<Rightarrow> TCPSender res" where
  "on_new_ack newly_acked_bytes s =
     (let s = (if ss_in_fast_recovery s
               then s\<lparr>ss_congestion_window := ss_slow_start_threshold s, ss_in_fast_recovery := False\<rparr>
               else s)
      in
      if ss_congestion_window s < ss_slow_start_threshold s then
        Inr (s\<lparr>ss_congestion_window := ss_congestion_window s + newly_acked_bytes,
               ss_dup_ack_count := 0\<rparr>)
      else if ss_congestion_window s = 0 then Inl (Undefined_behaviour ''division by zero'')
      else
        Inr (s\<lparr>ss_congestion_window := ss_congestion_window s +
                 MAX_PAYLOAD_SIZE * newly_acked_bytes div ss_congestion_window s,
               ss_dup_ack_count := 0\<rparr>))"

definition on_dup_ack :: "TCPSender \<Rightarrow> TCPSender" where
  "on_dup_ack s =
     (case ss_outstanding_seg s of
        [] \<Rightarrow> s
      | (_, oldest) # _ \<Rightarrow>
          let s = s\<lparr>ss_dup_ack_count := ss_dup_ack_count s + 1\<rparr> in
          if ss_dup_ack_count s = 3 \<and> \<not> ss_in_fast_recovery s then
            let thresh = max (ss_congestion_window s div 2) (2 * MAX_PAYLOAD_SIZE) in
            s\<lparr>ss_slow_start_threshold := thresh,
              ss_congestion_window := thresh + 3 * MAX_PAYLOAD_SIZE,
              ss_in_fast_recovery := True,
              ss_segments_out := ss_segments_out s @ [oldest]\<rparr>
          else if ss_in_fast_recovery s \<and> ss_dup_ack_count s > 3 then
            s\<lparr>ss_congestion_window := ss_congestion_window s + MAX_PAYLOAD_SIZE\<rparr>
          else s)"

definition on_congestion_timeout :: "TCPSender \<Rightarrow> TCPSender" where
  "on_congestion_timeout s =
     s\<lparr>ss_slow_start_threshold := max (ss_congestion_window s div 2) (2 * MAX_PAYLOAD_SIZE),
       ss_congestion_window := MAX_PAYLOAD_SIZE,
       ss_dup_ack_count := 0,
       ss_in_fast_recovery := False\<rparr>"

definition congestion_on_ack :: "u64 \<Rightarrow> size_t \<Rightarrow> TCPSender \<Rightarrow> TCPSender res" where
  "congestion_on_ack abs_ackno newly s =
     (if ss_congestion_control_enabled s then
        bind_res
          (if newly > 0 then on_new_ack newly s
           else if abs_ackno = ss_last_ackno_absolute s then Inr (on_dup_ack s)
           else Inr s)
          (\<lambda>s. Inr (s\<lparr>ss_last_ackno_absolute := abs_ackno\<rparr>))
      else Inr s)"

definition retransmission_on_ack :: "size_t \<Rightarrow> TCPSender \<Rightarrow> TCPSender" where
  "retransmission_on_ack newly s =
     (let s = (if newly > 0 then
                 s\<lparr>ss_consecutive_retransmissions_count := 0,
                   ss_timer := Timer_restart (Timer_set_time_out (ss_initial_retransmission_timeout s) (ss_timer s))\<rparr>
               else s)
      in if ss_bytes_in_flight s = 0 then s\<lparr>ss_timer := Timer_stop (ss_timer s)\<rparr> else s)"

definition TCPSender_ack_received :: "WrappingInt32 \<Rightarrow> u16 \<Rightarrow> TCPSender \<Rightarrow> TCPSender res" where
  "TCPSender_ack_received ackno window_size s =
     (let abs_ackno = unwrap ackno (ss_isn s) (ss_next_seqno s) in
      if abs_ackno > ss_next_seqno s then Inr s
      else
        let (outstanding, in_flight, newly) =
              ack_loop abs_ackno (ss_outstanding_seg s) (ss_bytes_in_flight s) 0;
            s = s\<lparr>ss_outstanding_seg := outstanding, ss_bytes_in_flight := in_flight\<rparr>
        in
        bind_res (congestion_on_ack abs_ackno newly s) (\<lambda>s.
        TCPSender_fill_window ((retransmission_on_ack newly s)\<lparr>ss_window_size := window_size\<rparr>)))"

definition TCPSender_tick :: "size_t \<Rightarrow> TCPSender \<Rightarrow> TCPSender" where
  "TCPSender_tick ms s =
     (let s = s\<lparr>ss_timer := Timer_tick ms (ss_timer s)\<rparr> in
      case ss_outstanding_seg s of
        [] \<Rightarrow> s
      | (_, oldest) # _ \<Rightarrow>
          if Timer_check_time_out (ss_timer s) then
            let s = (if ss_congestion_control_enabled s then on_congestion_timeout s else s);
                s = s\<lparr>ss_segments_out := ss_segments_out s @ [oldest]\<rparr>;
                s = (if ss_window_size s > 0 then
                       s\<lparr>ss_consecutive_retransmissions_count := ss_consecutive_retransmissions_count s + 1,
                         ss_timer := Timer_set_time_out (tm_time_out (ss_timer s) * 2) (ss_timer s)\<rparr>
                     else s)
            in s\<lparr>ss_timer := Timer_restart (ss_timer s)\<rparr>
          else s)"

definition TCPSender_send_empty_segment :: "TCPSender \<Rightarrow> TCPSender" where
  "TCPSender_send_empty_segment s =
     (let seg = \<lparr>ts_header = TCPHeader_default\<lparr>th_seqno := TCPSender_next_seqno s\<rparr>,
                 ts_payload = Buffer_empty\<rparr>
      in s\<lparr>ss_segments_out := ss_segments_out s @ [seg]\<rparr>)"

section \<open>The invariant of the sender\<close>

text \<open>
  \<open>w\<close> is everything the application has written so far. Sequence number 0 is the SYN, the byte
  \<open>w ! i\<close> has number \<open>i + 1\<close>, and the FIN follows the last byte. \<open>flight a out e\<close>: the outstanding
  segments are contiguous from \<open>a\<close> to \<open>e\<close> and none of them is empty.
\<close>

definition seg_len :: "TCPSegment \<Rightarrow> nat" where
  "seg_len seg = length (Buffer_str (ts_payload seg)) + of_bool (th_syn (ts_header seg)) +
     of_bool (th_fin (ts_header seg))"

fun flight :: "nat \<Rightarrow> (u64 \<times> TCPSegment) list \<Rightarrow> nat \<Rightarrow> bool" where
  "flight a [] e \<longleftrightarrow> a = e"
| "flight a ((x, seg) # rest) e \<longleftrightarrow> unat x = a \<and> 0 < seg_len seg \<and> flight (a + seg_len seg) rest e"

abbreviation nread :: "TCPSender \<Rightarrow> nat" where
  "nread s \<equiv> unat (bs_read_cnt (ss_stream s))"

abbreviation ended :: "TCPSender \<Rightarrow> bool" where
  "ended s \<equiv> bs_input_ended_flag (ss_stream s)"

definition sent_ok :: "byte list \<Rightarrow> WrappingInt32 \<Rightarrow> bool \<Rightarrow> u64 \<Rightarrow> TCPSegment \<Rightarrow> bool" where
  "sent_ok w isn over a seg \<longleftrightarrow>
     carries w isn seg a \<and> length (Buffer_str (ts_payload seg)) \<le> 1000 \<and> (th_fin (ts_header seg) \<longrightarrow> over)"

definition wire_ok :: "byte list \<Rightarrow> WrappingInt32 \<Rightarrow> bool \<Rightarrow> TCPSegment \<Rightarrow> bool" where
  "wire_ok w isn over seg \<longleftrightarrow> (\<exists>a. sent_ok w isn over a seg) \<or> bare seg"

definition stream_ok :: "byte list \<Rightarrow> ByteStream \<Rightarrow> bool" where
  "stream_ok w st \<longleftrightarrow>
     ByteStream_inv st \<and> bs_written_cnt st = sz w \<and> unat (bs_read_cnt st) \<le> length w \<and>
     ByteStream_contents st = drop (unat (bs_read_cnt st)) w \<and> length w + 2 < 2 ^ 64"

definition numbers_ok :: "byte list \<Rightarrow> TCPSender \<Rightarrow> bool" where
  "numbers_ok w s \<longleftrightarrow>
     unat (ss_next_seqno s) = of_bool (ss_set_syn_flag s) + nread s + of_bool (ss_set_fin_flag s) \<and>
     (\<not> ss_set_syn_flag s \<longrightarrow> nread s = 0 \<and> \<not> ss_set_fin_flag s) \<and>
     (ss_set_fin_flag s \<longrightarrow> ended s \<and> nread s = length w)"

definition flight_ok :: "byte list \<Rightarrow> TCPSender \<Rightarrow> bool" where
  "flight_ok w s \<longleftrightarrow>
     unat (ss_bytes_in_flight s) \<le> unat (ss_next_seqno s) \<and> unat (ss_bytes_in_flight s) \<le> 65535 \<and>
     flight (unat (ss_next_seqno s) - unat (ss_bytes_in_flight s)) (ss_outstanding_seg s)
       (unat (ss_next_seqno s)) \<and>
     (\<forall>(a, seg) \<in> set (ss_outstanding_seg s). sent_ok w (ss_isn s) (ended s) a seg)"

definition sender_core :: "byte list \<Rightarrow> TCPSender \<Rightarrow> bool" where
  "sender_core w s \<longleftrightarrow>
     stream_ok w (ss_stream s) \<and> numbers_ok w s \<and> flight_ok w s \<and>
     (\<forall>seg \<in> set (ss_segments_out s). wire_ok w (ss_isn s) (ended s) seg)"

definition sender_inv :: "byte list \<Rightarrow> TCPSender \<Rightarrow> bool" where
  "sender_inv w s \<longleftrightarrow> sender_core w s \<and> (tm_is_running (ss_timer s) \<longleftrightarrow> ss_bytes_in_flight s \<noteq> 0)"

lemmas sender_inv_defs = sender_inv_def sender_core_def stream_ok_def numbers_ok_def flight_ok_def

text \<open>Fields that the numbering and the flight do not depend on.\<close>

lemma numbers_flight_upd [simp]:
  "numbers_ok w (s\<lparr>ss_timer := x_timer\<rparr>) = numbers_ok w s"
  "flight_ok w (s\<lparr>ss_timer := x_timer\<rparr>) = flight_ok w s"
  "numbers_ok w (s\<lparr>ss_segments_out := x_segments_out\<rparr>) = numbers_ok w s"
  "flight_ok w (s\<lparr>ss_segments_out := x_segments_out\<rparr>) = flight_ok w s"
  "numbers_ok w (s\<lparr>ss_window_size := x_window_size\<rparr>) = numbers_ok w s"
  "flight_ok w (s\<lparr>ss_window_size := x_window_size\<rparr>) = flight_ok w s"
  "numbers_ok w (s\<lparr>ss_congestion_window := x_congestion_window\<rparr>) = numbers_ok w s"
  "flight_ok w (s\<lparr>ss_congestion_window := x_congestion_window\<rparr>) = flight_ok w s"
  "numbers_ok w (s\<lparr>ss_slow_start_threshold := x_slow_start_threshold\<rparr>) = numbers_ok w s"
  "flight_ok w (s\<lparr>ss_slow_start_threshold := x_slow_start_threshold\<rparr>) = flight_ok w s"
  "numbers_ok w (s\<lparr>ss_dup_ack_count := x_dup_ack_count\<rparr>) = numbers_ok w s"
  "flight_ok w (s\<lparr>ss_dup_ack_count := x_dup_ack_count\<rparr>) = flight_ok w s"
  "numbers_ok w (s\<lparr>ss_in_fast_recovery := x_in_fast_recovery\<rparr>) = numbers_ok w s"
  "flight_ok w (s\<lparr>ss_in_fast_recovery := x_in_fast_recovery\<rparr>) = flight_ok w s"
  "numbers_ok w (s\<lparr>ss_consecutive_retransmissions_count := x_consecutive_retransmissions_count\<rparr>) = numbers_ok w s"
  "flight_ok w (s\<lparr>ss_consecutive_retransmissions_count := x_consecutive_retransmissions_count\<rparr>) = flight_ok w s"
  "numbers_ok w (s\<lparr>ss_last_ackno_absolute := x_last_ackno_absolute\<rparr>) = numbers_ok w s"
  "flight_ok w (s\<lparr>ss_last_ackno_absolute := x_last_ackno_absolute\<rparr>) = flight_ok w s"
  by (simp_all add: numbers_ok_def flight_ok_def)

lemma seg_len_unat:
  "length (Buffer_str (ts_payload seg)) \<le> 1000 \<Longrightarrow>
     unat (TCPSegment_length_in_sequence_space seg) = seg_len seg"
proof -
  assume len: "length (Buffer_str (ts_payload seg)) \<le> 1000"
  have "TCPSegment_length_in_sequence_space seg = of_nat (seg_len seg)"
    by (simp add: TCPSegment_length_in_sequence_space_def seg_len_def sz_def)
  moreover have "seg_len seg < 2 ^ 64" using len by (simp add: seg_len_def)
  ultimately show ?thesis by (simp add: unat_of_nat)
qed

lemma flight_snoc:
  "flight a xs e \<Longrightarrow> unat x = e \<Longrightarrow> 0 < seg_len seg \<Longrightarrow> flight a (xs @ [(x, seg)]) (e + seg_len seg)"
  by (induction a xs e rule: flight.induct) auto

lemma flight_le: "flight a xs e \<Longrightarrow> a \<le> e"
  by (induction a xs e rule: flight.induct) auto

lemma flight_Nil_iff: "flight a xs e \<Longrightarrow> xs = [] \<longleftrightarrow> a = e"
proof (cases xs)
  case (Cons p rest)
  assume "flight a xs e"
  then have "0 < seg_len (snd p)" "flight (a + seg_len (snd p)) rest e" by (cases p; simp add: Cons)+
  then show ?thesis using flight_le [of "a + seg_len (snd p)" rest e] Cons by auto
qed simp

text \<open>What is left to send: SYN, unread bytes, FIN.\<close>

definition todo :: "byte list \<Rightarrow> TCPSender \<Rightarrow> nat" where
  "todo w s = of_bool (\<not> ss_set_syn_flag s) + (length w - nread s) +
     of_bool (ended s \<and> \<not> ss_set_fin_flag s)"

lemma stream_ok_read:
  assumes "stream_ok w st"
  obtains st' where "ByteStream_read n st = Inr (st', take (unat n) (drop (unat (bs_read_cnt st)) w))"
    and "stream_ok w st'"
    and "unat (bs_read_cnt st') = unat (bs_read_cnt st) + min (unat n) (length w - unat (bs_read_cnt st))"
    and "bs_input_ended_flag st' = bs_input_ended_flag st" and "bs_capacity st' = bs_capacity st"
    and "ByteStream_eof st' \<longleftrightarrow> bs_input_ended_flag st \<and> unat (bs_read_cnt st') = length w"
proof -
  let ?rd = "unat (bs_read_cnt st)"
  have inv: "ByteStream_inv st" and cnt: "bs_written_cnt st = sz w" "?rd \<le> length w"
    and cont: "ByteStream_contents st = drop ?rd w" and len: "length w + 2 < 2 ^ 64"
    using assms by (auto simp: stream_ok_def)
  obtain st' where st': "ByteStream_read n st = Inr (st', take (unat n) (ByteStream_contents st))"
    "ByteStream_inv st'" "ByteStream_contents st' = drop (unat n) (ByteStream_contents st)"
    "bs_written_cnt st' = bs_written_cnt st"
    "bs_read_cnt st' = bs_read_cnt st + min n (ByteStream_buffer_size st)"
    "bs_capacity st' = bs_capacity st" "bs_input_ended_flag st' = bs_input_ended_flag st"
    by (rule ByteStream_read_ok [OF inv])
  let ?m = "min (unat n) (length w - ?rd)"
  have "unat (min n (ByteStream_buffer_size st)) = ?m"
    using inv cont by (simp add: unat_min ByteStream_size_unat)
  then have rd: "unat (bs_read_cnt st') = ?rd + ?m"
    unfolding st'(5) using cnt(2) len by (subst unat_plus_fits) simp_all
  have cont': "ByteStream_contents st' = drop (unat (bs_read_cnt st')) w"
    unfolding st'(3) cont rd using cnt(2) by (cases "unat n \<le> length w - ?rd") (auto simp: add.commute)
  have "stream_ok w st'"
    using st'(2,4) cnt rd cont' len by (simp add: stream_ok_def)
  moreover have "ByteStream_eof st' \<longleftrightarrow> bs_input_ended_flag st \<and> unat (bs_read_cnt st') = length w"
    using ByteStream_buffer_empty_iff [OF st'(2)] st'(7) cont' rd cnt(2) by (auto simp: ByteStream_eof_def)
  ultimately show ?thesis using that st'(1,6,7) rd cont by simp
qed

definition same_config :: "TCPSender \<Rightarrow> TCPSender \<Rightarrow> bool" where
  "same_config s s' \<longleftrightarrow>
     ss_isn s' = ss_isn s \<and> ss_window_size s' = ss_window_size s \<and>
     ss_initial_retransmission_timeout s' = ss_initial_retransmission_timeout s \<and>
     ss_consecutive_retransmissions_count s' = ss_consecutive_retransmissions_count s \<and>
     ss_congestion_control_enabled s' = ss_congestion_control_enabled s \<and>
     ss_congestion_window s' = ss_congestion_window s \<and>
     ss_slow_start_threshold s' = ss_slow_start_threshold s \<and>
     ss_dup_ack_count s' = ss_dup_ack_count s \<and>
     ss_last_ackno_absolute s' = ss_last_ackno_absolute s \<and>
     ss_in_fast_recovery s' = ss_in_fast_recovery s \<and>
     tm_time_out (ss_timer s') = tm_time_out (ss_timer s) \<and>
     ended s' = ended s \<and> bs_capacity (ss_stream s') = bs_capacity (ss_stream s)"

lemma same_config_trans: "same_config s t \<Longrightarrow> same_config t u \<Longrightarrow> same_config s u"
  by (simp add: same_config_def)

text \<open>One round: \<open>n\<close> bytes of payload, and the flags.\<close>

lemma make_segment_ok:
  assumes inv: "sender_inv w s" and room: "unat (ss_bytes_in_flight s) < unat wnd" "unat wnd \<le> 65535"
  defines "n \<equiv> min 1000 (min (unat wnd - unat (ss_bytes_in_flight s) - of_bool (\<not> ss_set_syn_flag s))
      (length w - nread s))"
  defines "f \<equiv> \<not> ss_set_fin_flag s \<and> ended s \<and> n = length w - nread s \<and>
      unat (ss_bytes_in_flight s) + of_bool (\<not> ss_set_syn_flag s) + n < unat wnd"
  obtains seg st where "make_segment wnd s =
      Inr (seg, s\<lparr>ss_set_syn_flag := True, ss_stream := st, ss_set_fin_flag := ss_set_fin_flag s \<or> f\<rparr>)"
    and "Buffer_str (ts_payload seg) = take n (drop (nread s) w)"
    and "ts_header seg = TCPHeader_default\<lparr>th_syn := \<not> ss_set_syn_flag s, th_fin := f\<rparr>"
    and "stream_ok w st" and "unat (bs_read_cnt st) = nread s + n"
    and "bs_input_ended_flag st = ended s" and "bs_capacity st = bs_capacity (ss_stream s)"
proof -
  let ?b = "unat (ss_bytes_in_flight s)" and ?y = "of_bool (\<not> ss_set_syn_flag s) :: nat"
  let ?syn = "if \<not> ss_set_syn_flag s then 1 else 0 :: size_t"
  let ?size = "min MAX_PAYLOAD_SIZE (min (wnd - ss_bytes_in_flight s - ?syn)
      (ByteStream_buffer_size (ss_stream s)))"
  have stok: "stream_ok w (ss_stream s)" using inv by (simp add: sender_inv_def sender_core_def)
  have "unat (wnd - ss_bytes_in_flight s) = unat wnd - ?b"
    using room(1) by (intro unat_diff_le) (simp add: word_le_nat_alt)
  then have "unat (wnd - ss_bytes_in_flight s - ?syn) = unat wnd - ?b - ?y"
    using room(1) by (subst unat_diff_le) (auto simp: word_le_nat_alt)
  moreover have "unat (ByteStream_buffer_size (ss_stream s)) = length w - nread s"
    using stok by (simp add: stream_ok_def ByteStream_size_unat)
  ultimately have size: "unat ?size = n" by (simp add: unat_min MAX_PAYLOAD_SIZE_def n_def)
  obtain st where st: "ByteStream_read ?size (ss_stream s) = Inr (st, take n (drop (nread s) w))"
    "stream_ok w st" "unat (bs_read_cnt st) = nread s + n" "bs_input_ended_flag st = ended s"
    "bs_capacity st = bs_capacity (ss_stream s)"
    "ByteStream_eof st \<longleftrightarrow> ended s \<and> nread s + n = length w"
  proof (rule stream_ok_read [OF stok, of ?size])
    fix st
    assume *: "ByteStream_read ?size (ss_stream s) = Inr (st, take (unat ?size) (drop (nread s) w))"
      "stream_ok w st"
      "unat (bs_read_cnt st) = nread s + min (unat ?size) (length w - nread s)"
      "bs_input_ended_flag st = ended s" "bs_capacity st = bs_capacity (ss_stream s)"
      "ByteStream_eof st \<longleftrightarrow> ended s \<and> unat (bs_read_cnt st) = length w"
    have "min n (length w - nread s) = n" by (simp add: n_def)
    with * show thesis by (intro that) (simp_all only: size)
  qed
  let ?h = "TCPHeader_default\<lparr>th_syn := \<not> ss_set_syn_flag s\<rparr>"
  let ?seg = "\<lparr>ts_header = ?h, ts_payload = Buffer_of_string (take n (drop (nread s) w))\<rparr>"
  have n: "n \<le> 1000" "n \<le> length w - nread s" by (simp_all add: n_def)
  have rd: "nread s \<le> length w" using stok by (simp add: stream_ok_def)
  have "unat (TCPSegment_length_in_sequence_space ?seg) = n + ?y"
    using n seg_len_unat [of ?seg] by (simp add: seg_len_def TCPHeader_default_def)
  then have "unat (ss_bytes_in_flight s + TCPSegment_length_in_sequence_space ?seg) = ?b + (n + ?y)"
    using room n(1) by (subst unat_plus_fits) simp_all
  then have fin: "(\<not> ss_set_fin_flag s \<and> ByteStream_eof st \<and>
      ss_bytes_in_flight s + TCPSegment_length_in_sequence_space ?seg < wnd) \<longleftrightarrow> f"
    using st(6) n(2) rd by (auto simp: f_def word_less_nat_alt)
  have mk: "make_segment wnd s = (if f
      then Inr (?seg\<lparr>ts_header := ?h\<lparr>th_fin := True\<rparr>\<rparr>,
        s\<lparr>ss_set_syn_flag := True, ss_stream := st, ss_set_fin_flag := True\<rparr>)
      else Inr (?seg, s\<lparr>ss_set_syn_flag := True, ss_stream := st\<rparr>))"
    using st(1) fin by (simp add: make_segment_def Let_def)
  show thesis
  proof (cases f)
    case True
    then show ?thesis using st(2-5) mk by (intro that [of "?seg\<lparr>ts_header := ?h\<lparr>th_fin := True\<rparr>\<rparr>" st]) simp_all
  next
    case False
    then show ?thesis using st(2-5) mk
      by (intro that [of ?seg st]) (simp_all add: TCPHeader_default_def)
  qed
qed

lemma new_segment_ok:
  assumes inv: "sender_inv w s" and nofin: "\<not> ss_set_fin_flag s"
    and n: "n \<le> 1000" "nread s + n \<le> length w" and f: "f \<Longrightarrow> ended s \<and> nread s + n = length w"
    and h: "th_syn h = (\<not> ss_set_syn_flag s)" "th_fin h = f" "th_seqno h = TCPSender_next_seqno s"
    and pay: "Buffer_str b = take n (drop (nread s) w)"
  shows "sent_ok w (ss_isn s) (ended s) (ss_next_seqno s) \<lparr>ts_header = h, ts_payload = b\<rparr>"
proof -
  let ?seg = "\<lparr>ts_header = h, ts_payload = b\<rparr>"
  have num: "unat (ss_next_seqno s) = of_bool (ss_set_syn_flag s) + nread s"
    "\<not> ss_set_syn_flag s \<Longrightarrow> nread s = 0"
    using inv nofin by (auto simp: sender_inv_def sender_core_def numbers_ok_def)
  have syn: "ss_set_syn_flag s \<longleftrightarrow> ss_next_seqno s \<noteq> 0"
    using num by (cases "ss_set_syn_flag s") (auto simp: word_unat_eq_iff)
  have "unat (stream_pos ?seg (ss_next_seqno s)) = nread s"
    using num syn h(1) by (auto simp: stream_pos_def unat_minus_one)
  moreover have "length (take n (drop (nread s) w)) = n" using n(2) by simp
  ultimately have "piece_of w (Buffer_str (ts_payload ?seg)) (stream_pos ?seg (ss_next_seqno s)) f"
    using n(2) f by (auto simp: piece_of_def pay)
  then show ?thesis
    using h syn n f pay by (simp add: sent_ok_def carries_def TCPSender_next_seqno_def)
qed

lemma send_segment_ok:
  fixes s seg st n f
  defines "k \<equiv> n + of_bool (\<not> ss_set_syn_flag s) + of_bool f"
    and "s2 \<equiv> send_segment seg (s\<lparr>ss_set_syn_flag := True, ss_stream := st, ss_set_fin_flag := ss_set_fin_flag s \<or> f\<rparr>)"
  assumes inv: "sender_inv w s" and nofin: "\<not> ss_set_fin_flag s" and n: "n \<le> 1000" "nread s + n \<le> length w"
    and f: "f \<Longrightarrow> ended s \<and> nread s + n = length w"
    and seg: "Buffer_str (ts_payload seg) = take n (drop (nread s) w)"
      "ts_header seg = TCPHeader_default\<lparr>th_syn := \<not> ss_set_syn_flag s, th_fin := f\<rparr>"
      "unat (TCPSegment_length_in_sequence_space seg) = k" "seg_len seg = k"
    and st: "stream_ok w st" "unat (bs_read_cnt st) = nread s + n" "bs_input_ended_flag st = ended s"
    and k: "0 < k" "unat (ss_bytes_in_flight s) + k \<le> 65535"
  shows "sender_inv w s2" "unat (ss_bytes_in_flight s2) = unat (ss_bytes_in_flight s) + k"
    "unat (ss_next_seqno s2) = unat (ss_next_seqno s) + k" "todo w s = k + todo w s2"
proof -
  let ?seg = "seg\<lparr>ts_header := (ts_header seg)\<lparr>th_seqno := TCPSender_next_seqno s\<rparr>\<rparr>"
  have num: "unat (ss_next_seqno s) = of_bool (ss_set_syn_flag s) + nread s"
    "\<not> ss_set_syn_flag s \<Longrightarrow> nread s = 0" and len: "length w + 2 < 2 ^ 64"
    using inv nofin by (auto simp: sender_inv_defs)
  have old: "unat (ss_bytes_in_flight s) \<le> unat (ss_next_seqno s)"
    "flight (unat (ss_next_seqno s) - unat (ss_bytes_in_flight s)) (ss_outstanding_seg s) (unat (ss_next_seqno s))"
    "\<forall>(a, seg) \<in> set (ss_outstanding_seg s). sent_ok w (ss_isn s) (ended s) a seg"
    using inv by (auto simp: sender_inv_def sender_core_def flight_ok_def)
  have sent: "sent_ok w (ss_isn s) (ended s) (ss_next_seqno s) ?seg"
    using new_segment_ok [OF inv nofin n f, where h = "ts_header ?seg" and b = "ts_payload seg"]
      seg(1,2) by (cases seg) simp
  have bif: "unat (ss_bytes_in_flight s + TCPSegment_length_in_sequence_space seg) = unat (ss_bytes_in_flight s) + k"
    using seg(3) k(2) by (subst unat_plus_fits) simp_all
  have nx: "unat (ss_next_seqno s + TCPSegment_length_in_sequence_space seg) = unat (ss_next_seqno s) + k"
    using seg(3) num n len by (subst unat_plus_fits) (auto simp: k_def split: if_splits)
  show "unat (ss_bytes_in_flight s2) = unat (ss_bytes_in_flight s) + k"
    "unat (ss_next_seqno s2) = unat (ss_next_seqno s) + k"
    using bif nx by (simp_all add: s2_def send_segment_def Let_def)
  show "todo w s = k + todo w s2"
    using st(2,3) n(2) nofin f by (auto simp: todo_def s2_def k_def send_segment_def Let_def)
  have "numbers_ok w s2"
    using nx num nofin st(2,3) f by (auto simp: numbers_ok_def s2_def k_def send_segment_def Let_def)
  moreover have lens: "seg_len ?seg = k" using seg(4) by (simp add: seg_len_def)
  have "flight (unat (ss_next_seqno s) - unat (ss_bytes_in_flight s))
      (ss_outstanding_seg s @ [(ss_next_seqno s, ?seg)]) (unat (ss_next_seqno s) + k)"
    using flight_snoc [OF old(2), of "ss_next_seqno s" ?seg] k(1) lens by simp
  then have "flight_ok w s2"
    using old(1,3) sent k(2) bif nx st(3)
    by (auto simp: flight_ok_def s2_def send_segment_def Let_def TCPSender_next_seqno_def)
  moreover have "\<forall>x \<in> set (ss_segments_out s2). wire_ok w (ss_isn s) (ended s) x"
    using inv sent
    by (auto simp: sender_inv_def sender_core_def s2_def send_segment_def Let_def wire_ok_def TCPSender_next_seqno_def)
  moreover have "tm_is_running (ss_timer s2)" "ss_bytes_in_flight s2 \<noteq> 0"
    using bif k(1) by (auto simp: s2_def send_segment_def Let_def Timer_restart_def word_unat_eq_iff)
  ultimately show "sender_inv w s2"
    using st(1,3) by (simp add: sender_inv_def sender_core_def s2_def send_segment_def Let_def)
qed

lemma fill_round:
  assumes inv: "sender_inv w s" and room: "unat (ss_bytes_in_flight s) < unat wnd" "unat wnd \<le> 65535"
  obtains
    (quit) seg s' where "make_segment wnd s = Inr (seg, s')"
      and "TCPSegment_length_in_sequence_space seg = 0" and "sender_inv w s'" and "same_config s s'"
      and "todo w s = 0" and "ss_bytes_in_flight s' = ss_bytes_in_flight s"
      and "ss_next_seqno s' = ss_next_seqno s" and "ss_outstanding_seg s' = ss_outstanding_seg s"
  | (go) seg s1 k where "make_segment wnd s = Inr (seg, s1)"
      and "TCPSegment_length_in_sequence_space seg \<noteq> 0" and "sender_inv w (send_segment seg s1)"
      and "same_config s (send_segment seg s1)" and "0 < k"
      and "unat (ss_bytes_in_flight (send_segment seg s1)) = unat (ss_bytes_in_flight s) + k"
      and "unat (ss_bytes_in_flight s) + k \<le> unat wnd"
      and "unat (ss_next_seqno (send_segment seg s1)) = unat (ss_next_seqno s) + k"
      and "todo w s = k + todo w (send_segment seg s1)"
      and "\<exists>x. ss_outstanding_seg (send_segment seg s1) = ss_outstanding_seg s @ [x]"
proof -
  let ?b = "unat (ss_bytes_in_flight s)" and ?y = "of_bool (\<not> ss_set_syn_flag s) :: nat"
  let ?rd = "nread s"
  define n where "n = min 1000 (min (unat wnd - ?b - ?y) (length w - ?rd))"
  define f where "f \<longleftrightarrow> \<not> ss_set_fin_flag s \<and> ended s \<and> n = length w - ?rd \<and> ?b + ?y + n < unat wnd"
  obtain seg st where mk: "make_segment wnd s =
      Inr (seg, s\<lparr>ss_set_syn_flag := True, ss_stream := st, ss_set_fin_flag := ss_set_fin_flag s \<or> f\<rparr>)"
    (is "_ = Inr (seg, ?s1)")
    "Buffer_str (ts_payload seg) = take n (drop ?rd w)"
    "ts_header seg = TCPHeader_default\<lparr>th_syn := \<not> ss_set_syn_flag s, th_fin := f\<rparr>"
    "stream_ok w st" "unat (bs_read_cnt st) = ?rd + n"
    "bs_input_ended_flag st = ended s" "bs_capacity st = bs_capacity (ss_stream s)"
    using make_segment_ok [OF inv room] unfolding n_def [symmetric] f_def [symmetric] by blast
  have rd: "?rd \<le> length w" and num: "unat (ss_next_seqno s) = of_bool (ss_set_syn_flag s) + ?rd + of_bool (ss_set_fin_flag s)"
    "ss_set_fin_flag s \<Longrightarrow> ss_set_syn_flag s \<and> ended s \<and> ?rd = length w"
    "\<not> ss_set_syn_flag s \<Longrightarrow> ?rd = 0 \<and> \<not> ss_set_fin_flag s" and len: "length w + 2 < 2 ^ 64"
    using inv by (auto simp: sender_inv_defs)
  have n: "n \<le> 1000" "?rd + n \<le> length w" "n + ?y \<le> unat wnd - ?b"
    using rd room by (auto simp: n_def)
  let ?k = "n + ?y + of_bool f"
  have k: "seg_len seg = ?k" "length (Buffer_str (ts_payload seg)) \<le> 1000"
    using mk(2,3) n by (auto simp: seg_len_def)
  then have kl: "unat (TCPSegment_length_in_sequence_space seg) = ?k" by (simp add: seg_len_unat)
  show thesis
  proof (cases "?k = 0")
    case True
    then have z: "n = 0" "ss_set_syn_flag s" "\<not> f" by (auto split: if_splits)
    then have "length w = ?rd" using room rd by (auto simp: n_def min_def split: if_splits)
    with z room have "todo w s = 0" by (auto simp: todo_def f_def)
    moreover have "sender_inv w ?s1"
      using inv mk(4-6) z by (auto simp: sender_inv_def sender_core_def numbers_ok_def flight_ok_def)
    moreover have "same_config s ?s1" using mk(6,7) by (simp add: same_config_def)
    moreover have "TCPSegment_length_in_sequence_space seg = 0" using kl True by (simp add: unat_eq_zero)
    ultimately show thesis using quit mk(1) by simp
  next
    case False
    have nofin: "\<not> ss_set_fin_flag s"
    proof
      assume "ss_set_fin_flag s"
      then have "n = 0" "?y = 0" "\<not> f" using num(2) by (auto simp: n_def f_def)
      with False show False by simp
    qed
    have f: "f \<Longrightarrow> ended s \<and> ?rd + n = length w" using rd by (auto simp: f_def)
    have fl: "?b + ?k \<le> unat wnd" using n(3) room by (auto simp: f_def)
    have "0 < ?k" "?b + ?k \<le> 65535" using False fl room(2) by simp_all
    note sent = send_segment_ok [OF inv nofin n(1,2) f mk(2,3) kl k(1) mk(4-6) this]
    have "same_config s (send_segment seg ?s1)"
      using mk(6,7) by (simp add: same_config_def send_segment_def Let_def Timer_restart_def)
    moreover have "TCPSegment_length_in_sequence_space seg \<noteq> 0" using kl False by auto
    moreover have "\<exists>x. ss_outstanding_seg (send_segment seg ?s1) = ss_outstanding_seg s @ [x]"
      by (simp add: send_segment_def Let_def)
    ultimately show thesis
      using go [of seg ?s1 ?k] mk(1) False sent fl by simp
  qed
qed

section \<open>fill_window\<close>

lemma fill_loop_ok:
  assumes "sender_inv w s" and "unat wnd \<le> 65535"
    and "unat wnd - unat (ss_bytes_in_flight s) < fuel"
  shows "\<exists>s'. fill_loop fuel wnd s = Inr s' \<and> sender_inv w s' \<and> same_config s s' \<and>
    unat (ss_bytes_in_flight s') =
      max (unat (ss_bytes_in_flight s)) (min (unat wnd) (unat (ss_bytes_in_flight s) + todo w s)) \<and>
    unat (ss_next_seqno s') + unat (ss_bytes_in_flight s) = unat (ss_next_seqno s) + unat (ss_bytes_in_flight s') \<and>
    (\<exists>more. ss_outstanding_seg s' = ss_outstanding_seg s @ more)"
  using assms
proof (induction fuel arbitrary: s)
  case (Suc fuel)
  note inv = Suc.prems(1) and wnd = Suc.prems(2)
  let ?b = "unat (ss_bytes_in_flight s)"
  show ?case
  proof (cases "?b < unat wnd")
    case False
    then have "fill_loop (Suc fuel) wnd s = Inr s" by (simp add: word_less_nat_alt)
    moreover have "same_config s s" by (simp add: same_config_def)
    ultimately show ?thesis using inv False by (intro exI [of _ s]) simp
  next
    case True
    then have lt: "ss_bytes_in_flight s < wnd" by (simp add: word_less_nat_alt)
    show ?thesis
    proof (cases rule: fill_round [OF inv True wnd])
      case (1 seg s')
      then show ?thesis using lt True by (intro exI [of _ s']) simp
    next
      case (2 seg s1 k)
      let ?s2 = "send_segment seg s1"
      have "unat wnd - unat (ss_bytes_in_flight ?s2) < fuel" using 2(5,6) Suc.prems(3) True by linarith
      from Suc.IH [OF 2(3) wnd this] obtain s' where s': "fill_loop fuel wnd ?s2 = Inr s'"
        "sender_inv w s'" "same_config ?s2 s'"
        "unat (ss_bytes_in_flight s') = max (?b + k) (min (unat wnd) (?b + k + todo w ?s2))"
        "unat (ss_next_seqno s') + (?b + k) = unat (ss_next_seqno s) + k + unat (ss_bytes_in_flight s')"
        "\<exists>more. ss_outstanding_seg s' = ss_outstanding_seg ?s2 @ more"
        unfolding 2(6,8) by blast
      have "unat (ss_bytes_in_flight s') = max ?b (min (unat wnd) (?b + todo w s))"
        using s'(4) 2(7,9) True by (auto simp: max_def min_def)
      moreover have "fill_loop (Suc fuel) wnd s = Inr s'" using lt 2(1,2) s'(1) by simp
      ultimately show ?thesis
        using s'(2,5,6) 2(10) same_config_trans [OF 2(4) s'(3)] by (intro exI [of _ s']) auto
    qed
  qed
qed simp

lemma effective_window:
  "unat (TCPSender_effective_window_size s) \<le> 65535"
  "\<not> ss_congestion_control_enabled s \<or> 0 < unat (ss_congestion_window s) \<Longrightarrow>
     0 < unat (TCPSender_effective_window_size s)"
proof -
  have w: "unat (ucast (ss_window_size s) :: size_t) = unat (ss_window_size s)"
    by (rule unat_ucast_up) simp
  moreover have "unat (ss_window_size s) \<le> 65535"
    using unat_lt16 [of "ss_window_size s"] by (simp del: unat_lt16)
  ultimately have "unat (max (ucast (ss_window_size s)) 1 :: size_t) \<le> 65535" by (simp add: unat_max)
  then show "unat (TCPSender_effective_window_size s) \<le> 65535"
    by (simp add: TCPSender_effective_window_size_def Let_def unat_min min.coboundedI1)
  show "\<not> ss_congestion_control_enabled s \<or> 0 < unat (ss_congestion_window s) \<Longrightarrow>
     0 < unat (TCPSender_effective_window_size s)"
    using w by (auto simp: TCPSender_effective_window_size_def Let_def unat_min unat_max)
qed

lemma fill_window_ok:
  assumes "sender_inv w s"
  shows "\<exists>s'. TCPSender_fill_window s = Inr s' \<and> sender_inv w s' \<and> same_config s s' \<and>
    unat (ss_bytes_in_flight s') = max (unat (ss_bytes_in_flight s))
      (min (unat (TCPSender_effective_window_size s)) (unat (ss_bytes_in_flight s) + todo w s)) \<and>
    unat (ss_next_seqno s') + unat (ss_bytes_in_flight s) = unat (ss_next_seqno s) + unat (ss_bytes_in_flight s') \<and>
    (\<exists>more. ss_outstanding_seg s' = ss_outstanding_seg s @ more)"
  unfolding TCPSender_fill_window_def Let_def
  by (rule fill_loop_ok [OF assms effective_window(1)]) simp

section \<open>Acknowledgments\<close>

lemma ack_loop_ok:
  assumes "flight a out e" and "e < 2 ^ 64" and "a + unat b = e" and "unat b + unat m \<le> 65535"
    and "\<forall>(x, seg) \<in> set out. length (Buffer_str (ts_payload seg)) \<le> 1000"
    and "ack_loop ackno out b m = (out', b', m')"
  shows "\<exists>a'. flight a' out' e \<and> a \<le> a' \<and> a' + unat b' = e \<and> set out' \<subseteq> set out \<and>
    unat m' + unat b' = unat m + unat b \<and> (a' \<noteq> a \<longrightarrow> a' \<le> unat ackno) \<and>
    (\<forall>x seg rest. out' = (x, seg) # rest \<longrightarrow> unat ackno < a' + seg_len seg)"
  using assms
proof (induction ackno out b m arbitrary: a rule: ack_loop.induct)
  case (1 ackno b m)
  then show ?case by (intro exI [of _ a]) auto
next
  case (2 ackno x seg rest b m)
  let ?l = "TCPSegment_length_in_sequence_space seg"
  have l: "unat ?l = seg_len seg" using "2.prems"(5) by (simp add: seg_len_unat)
  have fl: "unat x = a" "0 < seg_len seg" "flight (a + seg_len seg) rest e" using "2.prems"(1) by auto
  have le: "a + seg_len seg \<le> e" using flight_le [OF fl(3)] .
  then have "unat (x + ?l) = a + seg_len seg" using fl(1) l "2.prems"(2) by (subst unat_plus_fits) simp_all
  then have cmp: "x + ?l - 1 < ackno \<longleftrightarrow> a + seg_len seg \<le> unat ackno"
    using fl(2) by (subst word_less_nat_alt, subst unat_diff_le) (auto simp: word_le_nat_alt)
  show ?case
  proof (cases "x + ?l - 1 < ackno")
    case False
    then show ?thesis using "2.prems" cmp fl by (intro exI [of _ a]) auto
  next
    case True
    have b: "unat (b - ?l) = unat b - seg_len seg" "seg_len seg \<le> unat b"
      using le l "2.prems"(3) by (auto simp: word_le_nat_alt intro!: unat_diff_le [THEN trans])
    have m: "unat (m + ?l) = unat m + seg_len seg"
      using l b(2) "2.prems"(4) by (subst unat_plus_fits) simp_all
    have "\<exists>a'. flight a' out' e \<and> a + seg_len seg \<le> a' \<and> a' + unat b' = e \<and> set out' \<subseteq> set rest \<and>
        unat m' + unat b' = unat (m + ?l) + unat (b - ?l) \<and> (a' \<noteq> a + seg_len seg \<longrightarrow> a' \<le> unat ackno) \<and>
        (\<forall>x seg rest. out' = (x, seg) # rest \<longrightarrow> unat ackno < a' + seg_len seg)"
      using True fl(3) "2.prems" b m le by (intro "2.IH") auto
    then show ?thesis using b m True cmp by (elim exE) (rule exI, auto)
  qed
qed

section \<open>Congestion control\<close>

text \<open>
  \<open>cc_ok k\<close>: the congestion window stays between one segment and a bound that grows with the
  number \<open>k\<close> of acknowledgments processed, so that none of its 64-bit computations can wrap and
  the division in congestion avoidance is never by zero.
\<close>

definition cc_ok :: "nat \<Rightarrow> TCPSender \<Rightarrow> bool" where
  "cc_ok k s \<longleftrightarrow>
     1000 \<le> unat (ss_congestion_window s) \<and> unat (ss_congestion_window s) \<le> 5000 + 66000 * k \<and>
     2000 \<le> unat (ss_slow_start_threshold s) \<and>
     (ss_in_fast_recovery s \<longrightarrow> unat (ss_slow_start_threshold s) \<le> 5000 + 66000 * k)"

definition same_data :: "TCPSender \<Rightarrow> TCPSender \<Rightarrow> bool" where
  "same_data s s' \<longleftrightarrow>
     ss_isn s' = ss_isn s \<and> ss_stream s' = ss_stream s \<and> ss_next_seqno s' = ss_next_seqno s \<and>
     ss_timer s' = ss_timer s \<and> ss_outstanding_seg s' = ss_outstanding_seg s \<and>
     ss_bytes_in_flight s' = ss_bytes_in_flight s \<and> ss_window_size s' = ss_window_size s \<and>
     ss_set_syn_flag s' = ss_set_syn_flag s \<and> ss_set_fin_flag s' = ss_set_fin_flag s \<and>
     ss_congestion_control_enabled s' = ss_congestion_control_enabled s \<and>
     ss_initial_retransmission_timeout s' = ss_initial_retransmission_timeout s \<and>
     ss_consecutive_retransmissions_count s' = ss_consecutive_retransmissions_count s"

lemma same_data_core:
  assumes "same_data s s'" and "sender_core w s"
    and "\<And>seg. seg \<in> set (ss_segments_out s') \<Longrightarrow> seg \<in> set (ss_segments_out s) \<or>
      seg \<in> snd ` set (ss_outstanding_seg s)"
  shows "sender_core w s'"
proof -
  have "wire_ok w (ss_isn s) (ended s) seg" if "seg \<in> set (ss_segments_out s')" for seg
    using assms(3) [OF that] assms(2) by (fastforce simp: sender_core_def flight_ok_def wire_ok_def)
  moreover have "numbers_ok w s' = numbers_ok w s" "flight_ok w s' = flight_ok w s"
    using assms(1) by (simp_all add: numbers_ok_def flight_ok_def same_data_def)
  ultimately show ?thesis
    using assms(1,2) by (simp add: sender_core_def same_data_def)
qed

lemma half_window: "unat (max (c div 2) (2 * MAX_PAYLOAD_SIZE) :: size_t) = max (unat c div 2) 2000"
  by (simp add: MAX_PAYLOAD_SIZE_def unat_max unat_div_distrib)

lemma avoidance_step:
  fixes c n :: size_t
  assumes "1000 \<le> unat c" and "unat n \<le> 65535"
  shows "unat (MAX_PAYLOAD_SIZE * n div c) \<le> 65535"
proof -
  have "unat (MAX_PAYLOAD_SIZE * n) = 1000 * unat n"
    using assms(2) by (simp add: MAX_PAYLOAD_SIZE_def unat_word_ariths)
  then have "unat (MAX_PAYLOAD_SIZE * n div c) = 1000 * unat n div unat c" by (simp add: unat_div_distrib)
  also have "\<dots> \<le> 1000 * unat n div 1000" using assms(1) by (intro div_le_mono2) simp_all
  finally show ?thesis using assms(2) by simp
qed

lemma cwnd_grow:
  "unat (c :: size_t) \<le> 5000 + 66000 * k \<Longrightarrow> unat d \<le> 65535 \<Longrightarrow> k < 2 ^ 40 \<Longrightarrow>
     unat (c + d) = unat c + unat d"
  by (intro unat_plus_fits) simp

lemma on_new_ack_ok:
  assumes "cc_ok k s" and "unat newly \<le> 65535" and "k < 2 ^ 40"
  shows "\<exists>s'. on_new_ack newly s = Inr s' \<and> cc_ok (Suc k) s' \<and> same_data s s' \<and>
    ss_segments_out s' = ss_segments_out s"
proof -
  define c where "c = (if ss_in_fast_recovery s then ss_slow_start_threshold s else ss_congestion_window s)"
  have c: "1000 \<le> unat c" "unat c \<le> 5000 + 66000 * k"
    using assms(1) by (auto simp: c_def cc_ok_def)
  then have "c \<noteq> 0" by auto
  let ?d = "if c < ss_slow_start_threshold s then newly else MAX_PAYLOAD_SIZE * newly div c"
  let ?s = "s\<lparr>ss_congestion_window := c + ?d, ss_in_fast_recovery := False, ss_dup_ack_count := 0\<rparr>"
  have d: "unat ?d \<le> 65535" using avoidance_step [OF c(1) assms(2)] assms(2) by simp
  have eq: "on_new_ack newly s = Inr ?s"
    using \<open>c \<noteq> 0\<close> by (cases "ss_in_fast_recovery s") (simp_all add: on_new_ack_def c_def Let_def)
  have "cc_ok (Suc k) ?s"
    using cwnd_grow [OF c(2) d assms(3)] c d assms(1) by (simp add: cc_ok_def)
  moreover have "same_data s ?s" by (simp add: same_data_def)
  ultimately show ?thesis using eq by simp
qed

lemma on_dup_ack_ok:
  assumes "cc_ok k s" and "k < 2 ^ 40"
  shows "cc_ok (Suc k) (on_dup_ack s)" and "same_data s (on_dup_ack s)"
    and "seg \<in> set (ss_segments_out (on_dup_ack s)) \<Longrightarrow>
      seg \<in> set (ss_segments_out s) \<or> seg \<in> snd ` set (ss_outstanding_seg s)"
proof -
  let ?c = "ss_congestion_window s" and ?t = "max (ss_congestion_window s div 2) (2 * MAX_PAYLOAD_SIZE)"
  have c: "1000 \<le> unat ?c" "unat ?c \<le> 5000 + 66000 * k" "2000 \<le> unat (ss_slow_start_threshold s)"
    using assms(1) by (auto simp: cc_ok_def)
  have "unat (?c + MAX_PAYLOAD_SIZE) = unat ?c + 1000"
    using cwnd_grow [OF c(2) _ assms(2), of MAX_PAYLOAD_SIZE] by (simp add: MAX_PAYLOAD_SIZE_def)
  moreover have t: "unat ?t \<le> 5000 + 66000 * k" "2000 \<le> unat ?t" using c(2) by (auto simp: half_window)
  then have "unat (?t + 3 * MAX_PAYLOAD_SIZE) = unat ?t + 3000"
    using cwnd_grow [OF t(1) _ assms(2), of "3 * MAX_PAYLOAD_SIZE"] by (simp add: MAX_PAYLOAD_SIZE_def)
  ultimately show "cc_ok (Suc k) (on_dup_ack s)"
    using assms(1) t c(2)
    by (auto simp: on_dup_ack_def cc_ok_def Let_def split: list.splits prod.splits)
  show "same_data s (on_dup_ack s)"
    by (auto simp: on_dup_ack_def same_data_def Let_def split: list.splits prod.splits)
  show "seg \<in> set (ss_segments_out (on_dup_ack s)) \<Longrightarrow>
      seg \<in> set (ss_segments_out s) \<or> seg \<in> snd ` set (ss_outstanding_seg s)"
    by (auto simp: on_dup_ack_def Let_def split: list.splits prod.splits if_splits)
qed

lemma congestion_on_ack_ok:
  assumes "sender_core w s" and "cc_ok k s" and "k < 2 ^ 40" and "unat newly \<le> 65535"
  shows "\<exists>s'. congestion_on_ack ackno newly s = Inr s' \<and> cc_ok (Suc k) s' \<and> same_data s s' \<and> sender_core w s'"
proof -
  let ?step = "if newly > 0 then on_new_ack newly s
    else if ackno = ss_last_ackno_absolute s then Inr (on_dup_ack s) else Inr s"
  have mono: "cc_ok (Suc k) s" using assms(2) by (auto simp: cc_ok_def)
  have same: "same_data s s" by (simp add: same_data_def)
  obtain s1 where s1: "?step = Inr s1" "cc_ok (Suc k) s1" "same_data s s1"
    "\<And>seg. seg \<in> set (ss_segments_out s1) \<Longrightarrow>
      seg \<in> set (ss_segments_out s) \<or> seg \<in> snd ` set (ss_outstanding_seg s)"
    using on_new_ack_ok [OF assms(2,4,3)] on_dup_ack_ok [OF assms(2,3)] mono same
    by (cases "newly > 0"; cases "ackno = ss_last_ackno_absolute s") auto
  show ?thesis
  proof (cases "ss_congestion_control_enabled s")
    case True
    let ?s = "s1\<lparr>ss_last_ackno_absolute := ackno\<rparr>"
    have "same_data s ?s" "cc_ok (Suc k) ?s" using s1 by (simp_all add: same_data_def cc_ok_def)
    moreover from this(1) have "sender_core w ?s" by (rule same_data_core) (use assms(1) s1(4) in auto)
    ultimately show ?thesis using s1(1) True by (simp add: congestion_on_ack_def)
  qed (use assms(1) mono same in \<open>simp add: congestion_on_ack_def\<close>)
qed

section \<open>The operations keep the invariant\<close>

abbreviation una :: "TCPSender \<Rightarrow> nat" where
  "una s \<equiv> unat (ss_next_seqno s) - unat (ss_bytes_in_flight s)"

lemma core_fields:
  assumes "sender_core w s"
  shows "una s + unat (ss_bytes_in_flight s) = unat (ss_next_seqno s)"
    and "flight (una s) (ss_outstanding_seg s) (unat (ss_next_seqno s))"
    and "unat (ss_bytes_in_flight s) \<le> 65535"
    and "(a, seg) \<in> set (ss_outstanding_seg s) \<Longrightarrow> sent_ok w (ss_isn s) (ended s) a seg"
    and "ss_outstanding_seg s = [] \<longleftrightarrow> ss_bytes_in_flight s = 0"
proof -
  show "una s + unat (ss_bytes_in_flight s) = unat (ss_next_seqno s)"
    and fl: "flight (una s) (ss_outstanding_seg s) (unat (ss_next_seqno s))"
    and "unat (ss_bytes_in_flight s) \<le> 65535"
    and "(a, seg) \<in> set (ss_outstanding_seg s) \<Longrightarrow> sent_ok w (ss_isn s) (ended s) a seg"
    using assms by (auto simp: sender_core_def flight_ok_def)
  then show "ss_outstanding_seg s = [] \<longleftrightarrow> ss_bytes_in_flight s = 0"
    using flight_Nil_iff [OF fl] by (auto simp: word_unat_eq_iff)
qed

lemma retransmission_on_ack_ok:
  assumes "sender_core w s"
    and "newly = 0 \<Longrightarrow> tm_is_running (ss_timer s) \<longleftrightarrow> ss_bytes_in_flight s \<noteq> 0"
  shows "sender_inv w ((retransmission_on_ack newly s)\<lparr>ss_window_size := x\<rparr>)"
  using assms
  by (cases "newly = 0") (auto simp: retransmission_on_ack_def sender_inv_def sender_core_def
      Let_def Timer_restart_def Timer_stop_def Timer_set_time_out_def word_neq_0_conv)

lemma ack_loop_core:
  assumes inv: "sender_inv w s" and le: "acked \<le> ss_next_seqno s"
  obtains out b m a where "ack_loop acked (ss_outstanding_seg s) (ss_bytes_in_flight s) 0 = (out, b, m)"
    "sender_core w (s\<lparr>ss_outstanding_seg := out, ss_bytes_in_flight := b\<rparr>)"
    "flight a out (unat (ss_next_seqno s))" "una s \<le> a" "a + unat b = unat (ss_next_seqno s)"
    "unat m \<le> 65535" "m = 0 \<longrightarrow> b = ss_bytes_in_flight s" "a \<noteq> una s \<longrightarrow> a \<le> unat acked"
    "\<forall>x seg rest. out = (x, seg) # rest \<longrightarrow> unat acked < a + seg_len seg"
proof -
  have core: "sender_core w s" using inv by (simp add: sender_inv_def)
  note fields = core_fields [OF core]
  obtain out b m where loop: "ack_loop acked (ss_outstanding_seg s) (ss_bytes_in_flight s) 0 = (out, b, m)"
    by (cases "ack_loop acked (ss_outstanding_seg s) (ss_bytes_in_flight s) 0") auto
  have "\<forall>(x, seg) \<in> set (ss_outstanding_seg s). length (Buffer_str (ts_payload seg)) \<le> 1000"
    using fields(4) by (auto simp: sent_ok_def)
  from ack_loop_ok [OF fields(2) _ fields(1) _ this loop] fields(3)
  obtain a where a: "flight a out (unat (ss_next_seqno s))" "una s \<le> a" "a + unat b = unat (ss_next_seqno s)"
    "set out \<subseteq> set (ss_outstanding_seg s)" "unat m + unat b = unat (ss_bytes_in_flight s)"
    "a \<noteq> una s \<longrightarrow> a \<le> unat acked"
    "\<forall>x seg rest. out = (x, seg) # rest \<longrightarrow> unat acked < a + seg_len seg" by auto
  let ?s1 = "s\<lparr>ss_outstanding_seg := out, ss_bytes_in_flight := b\<rparr>"
  have "unat (ss_next_seqno s) - unat b = a" using a(3) by simp
  then have "flight_ok w ?s1"
    using core a by (auto simp: sender_core_def flight_ok_def)
  moreover have "numbers_ok w ?s1 = numbers_ok w s" by (simp add: numbers_ok_def)
  ultimately have "sender_core w ?s1" using core by (simp add: sender_core_def)
  moreover have "unat m \<le> 65535" using a(5) fields(3) by simp
  moreover have "m = 0 \<longrightarrow> b = ss_bytes_in_flight s" using a(5) by (simp add: word_unat_eq_iff)
  ultimately show thesis using that [OF loop _ a(1-3) _ _ a(6,7)] by blast
qed

lemma ack_received_ok:
  fixes ackno :: WrappingInt32
  assumes inv: "sender_inv w s" and cc: "cc_ok k s" "k < 2 ^ 40"
  defines "acked \<equiv> unwrap ackno (ss_isn s) (ss_next_seqno s)"
  shows "\<exists>s'. TCPSender_ack_received ackno wnd s = Inr s' \<and> sender_inv w s' \<and> cc_ok (Suc k) s' \<and>
    ss_isn s' = ss_isn s \<and> ended s' = ended s \<and>
    (if acked \<le> ss_next_seqno s
     then ss_window_size s' = wnd \<and> una s \<le> una s' \<and> una s' \<le> max (una s) (unat acked) \<and>
       (\<forall>x seg rest. ss_outstanding_seg s' = (x, seg) # rest \<longrightarrow> unat acked < una s' + seg_len seg)
     else s' = s)"
proof (cases "acked \<le> ss_next_seqno s")
  case False
  then show ?thesis
    using inv cc by (auto simp: TCPSender_ack_received_def Let_def acked_def cc_ok_def)
next
  case True
  obtain out b m a where loop: "ack_loop acked (ss_outstanding_seg s) (ss_bytes_in_flight s) 0 = (out, b, m)"
    and core1: "sender_core w (s\<lparr>ss_outstanding_seg := out, ss_bytes_in_flight := b\<rparr>)" (is "sender_core w ?s1")
    and a: "flight a out (unat (ss_next_seqno s))" "una s \<le> a" "a + unat b = unat (ss_next_seqno s)"
    and m: "unat m \<le> 65535" "m = 0 \<longrightarrow> b = ss_bytes_in_flight s"
    and acked: "a \<noteq> una s \<longrightarrow> a \<le> unat acked"
      "\<forall>x seg rest. out = (x, seg) # rest \<longrightarrow> unat acked < a + seg_len seg"
    by (rule ack_loop_core [OF inv True])
  obtain s2 where s2: "congestion_on_ack acked m ?s1 = Inr s2" "cc_ok (Suc k) s2" "same_data ?s1 s2"
    "sender_core w s2"
    using congestion_on_ack_ok [OF core1 _ cc(2) m(1)] cc(1) by (auto simp: cc_ok_def)
  have timer: "m = 0 \<Longrightarrow> tm_is_running (ss_timer s2) \<longleftrightarrow> ss_bytes_in_flight s2 \<noteq> 0"
    using inv s2(3) m(2) by (simp add: sender_inv_def same_data_def)
  let ?s3 = "(retransmission_on_ack m s2)\<lparr>ss_window_size := wnd\<rparr>"
  have s3: "ss_isn ?s3 = ss_isn s" "ended ?s3 = ended s" "ss_next_seqno ?s3 = ss_next_seqno s"
    "ss_bytes_in_flight ?s3 = b" "ss_outstanding_seg ?s3 = out" "cc_ok (Suc k) ?s3"
    using s2(2,3) by (simp_all add: retransmission_on_ack_def same_data_def Let_def cc_ok_def)
  have inv3: "sender_inv w ?s3" by (rule retransmission_on_ack_ok [OF s2(4) timer])
  obtain s4 more where s4: "TCPSender_fill_window ?s3 = Inr s4" "sender_inv w s4" "same_config ?s3 s4"
    "unat (ss_next_seqno s4) + unat b = unat (ss_next_seqno s) + unat (ss_bytes_in_flight s4)"
    "ss_outstanding_seg s4 = out @ more"
    using fill_window_ok [OF inv3] unfolding s3(3-5) by blast
  note f4 = core_fields [OF s4(2) [unfolded sender_inv_def, THEN conjunct1]]
  have una: "una s4 = a" using s4(4) f4(1) a(3) by linarith
  have front: "unat acked < a + seg_len seg" if "ss_outstanding_seg s4 = (x, seg) # rest" for x seg rest
  proof (cases out)
    case Nil
    then have "unat acked \<le> a" using a(1) True by (simp add: word_le_nat_alt)
    moreover have "0 < seg_len seg" using f4(2) that by simp
    ultimately show ?thesis by simp
  qed (use acked(2) that s4(5) in auto)
  have "TCPSender_ack_received ackno wnd s = Inr s4"
    using True loop s2(1) s4(1) by (simp add: TCPSender_ack_received_def Let_def acked_def not_less)
  moreover have "cc_ok (Suc k) s4" using s3(6) s4(3) by (simp add: cc_ok_def same_config_def)
  moreover have "ss_isn s4 = ss_isn s" "ended s4 = ended s" "ss_window_size s4 = wnd"
    using s4(3) s3(1,2) by (simp_all add: same_config_def)
  moreover have "una s \<le> una s4" "una s4 \<le> max (una s) (unat acked)"
    using una a(2) acked(1) by (auto simp only: le_max_iff_disj)
  ultimately show ?thesis
    using True s4(2) front by (intro exI [of _ s4]) (simp add: una)
qed

lemma tick_ok:
  assumes inv: "sender_inv w s" and cc: "cc_ok k s"
  shows "sender_inv w (TCPSender_tick ms s)" and "cc_ok k (TCPSender_tick ms s)"
    and "ss_isn (TCPSender_tick ms s) = ss_isn s" and "ss_stream (TCPSender_tick ms s) = ss_stream s"
proof -
  have core: "sender_core w s" using inv by (simp add: sender_inv_def)
  show "cc_ok k (TCPSender_tick ms s)"
    using cc
    by (auto simp: TCPSender_tick_def Let_def on_congestion_timeout_def cc_ok_def unat_max
        MAX_PAYLOAD_SIZE_def split: list.splits)
  show "ss_isn (TCPSender_tick ms s) = ss_isn s" "ss_stream (TCPSender_tick ms s) = ss_stream s"
    by (auto simp: TCPSender_tick_def Let_def on_congestion_timeout_def split: list.splits)
  show "sender_inv w (TCPSender_tick ms s)"
  proof (cases "ss_outstanding_seg s")
    case Nil
    then show ?thesis
      using inv by (simp add: TCPSender_tick_def Timer_tick_def sender_inv_def sender_core_def)
  next
    case (Cons p rest)
    then have "wire_ok w (ss_isn s) (ended s) (snd p)"
      using core_fields(4) [OF core, of "fst p" "snd p"] by (auto simp: wire_ok_def)
    then show ?thesis
      using inv Cons core_fields(5) [OF core]
      by (cases p) (auto simp: TCPSender_tick_def Let_def Timer_tick_def Timer_restart_def
          Timer_set_time_out_def Timer_check_time_out_def on_congestion_timeout_def
          sender_inv_def sender_core_def)
  qed
qed

lemma send_empty_ok:
  assumes "sender_inv w s"
  shows "sender_inv w (TCPSender_send_empty_segment s)"
proof -
  have "wire_ok w isn e \<lparr>ts_header = TCPHeader_default\<lparr>th_seqno := x\<rparr>, ts_payload = Buffer_empty\<rparr>" for isn e x
    by (simp add: wire_ok_def bare_def TCPHeader_default_def)
  then show ?thesis
    using assms by (auto simp: TCPSender_send_empty_segment_def Let_def sender_inv_def sender_core_def)
qed

lemma piece_of_append:
  "piece_of w d i False \<Longrightarrow> piece_of (w @ x) d i False"
  by (auto simp: piece_of_def)

lemma sent_ok_append:
  "sent_ok w isn False a seg \<Longrightarrow> sent_ok (w @ x) isn over a seg"
  by (auto simp: sent_ok_def carries_def intro: piece_of_append)

lemma wire_ok_append: "wire_ok w isn False seg \<Longrightarrow> wire_ok (w @ x) isn over seg"
  using sent_ok_append by (fastforce simp: wire_ok_def)

lemma sent_ok_over: "sent_ok w isn over a seg \<Longrightarrow> sent_ok w isn True a seg"
  by (simp add: sent_ok_def)

lemma sender_write_ok:
  assumes inv: "sender_inv w s" and notend: "\<not> ended s" and len: "length w + length data + 2 < 2 ^ 64"
    and wr: "ByteStream_write data (ss_stream s) = (st, n)"
  shows "sender_inv (w @ take (unat n) data) (s\<lparr>ss_stream := st\<rparr>)"
proof -
  have st: "stream_ok w (ss_stream s)" using inv by (simp add: sender_inv_def sender_core_def)
  then have bs: "ByteStream_inv (ss_stream s)" by (simp add: stream_ok_def)
  have fd: "fits data" using len by simp
  note wc = ByteStream_write_contents [OF bs fd wr]
  have n: "unat n \<le> length data" using wc(2) by simp
  then have "sz (take (unat n) data) = n" by (intro sz_eqI) simp
  then have st': "stream_ok (w @ take (unat n) data) st"
    using st wc len n by (simp add: stream_ok_def sz_append)
  have fin: "\<not> ss_set_fin_flag s" using inv notend by (auto simp: sender_inv_def sender_core_def numbers_ok_def)
  have num: "numbers_ok (w @ take (unat n) data) (s\<lparr>ss_stream := st\<rparr>)"
    using inv fin wc(5) by (simp add: sender_inv_def sender_core_def numbers_ok_def)
  have "flight_ok (w @ take (unat n) data) (s\<lparr>ss_stream := st\<rparr>)"
    using inv notend sent_ok_append by (fastforce simp: sender_inv_def sender_core_def flight_ok_def)
  moreover have "\<forall>seg \<in> set (ss_segments_out s). wire_ok (w @ take (unat n) data) (ss_isn s) False seg"
    using inv notend wire_ok_append by (fastforce simp: sender_inv_def sender_core_def)
  ultimately show ?thesis
    using inv notend st' num wc(7) by (simp add: sender_inv_def sender_core_def)
qed

lemma sender_end_ok:
  assumes inv: "sender_inv w s"
  shows "sender_inv w (s\<lparr>ss_stream := ByteStream_end_input (ss_stream s)\<rparr>)"
proof -
  let ?st = "ByteStream_end_input (ss_stream s)"
  have [simp]: "bs_input_ended_flag ?st" "bs_read_cnt ?st = bs_read_cnt (ss_stream s)"
    "bs_written_cnt ?st = bs_written_cnt (ss_stream s)"
    by (simp_all add: ByteStream_end_input_def)
  have "stream_ok w ?st" using inv by (simp add: sender_inv_def sender_core_def stream_ok_def)
  moreover have "numbers_ok w (s\<lparr>ss_stream := ?st\<rparr>)"
    using inv by (simp add: sender_inv_def sender_core_def numbers_ok_def)
  moreover have "flight_ok w (s\<lparr>ss_stream := ?st\<rparr>)"
    using inv sent_ok_over by (fastforce simp: sender_inv_def sender_core_def flight_ok_def)
  moreover have "\<forall>seg \<in> set (ss_segments_out s). wire_ok w (ss_isn s) True seg"
    using inv sent_ok_over by (fastforce simp: sender_inv_def sender_core_def wire_ok_def)
  ultimately show ?thesis using inv by (simp add: sender_inv_def sender_core_def)
qed

section \<open>Lives of a sender\<close>

text \<open>
  The states a sender can get into, with everything written to it, every segment taken from its
  queue so far, and the number of acknowledgments it was given. The owner writes only before it
  ends the stream.
\<close>

inductive sender_reach :: "TCPSender \<Rightarrow> TCPSender \<Rightarrow> byte list \<Rightarrow> TCPSegment list \<Rightarrow> nat \<Rightarrow> bool"
  for s0 where
  start: "sender_reach s0 s0 [] [] 0"
| writes: "sender_reach s0 s w out k \<Longrightarrow> \<not> ended s \<Longrightarrow> length w + length data + 2 < 2 ^ 64 \<Longrightarrow>
    ByteStream_write data (ss_stream s) = (st, n) \<Longrightarrow>
    sender_reach s0 (s\<lparr>ss_stream := st\<rparr>) (w @ take (unat n) data) out k"
| ends: "sender_reach s0 s w out k \<Longrightarrow>
    sender_reach s0 (s\<lparr>ss_stream := ByteStream_end_input (ss_stream s)\<rparr>) w out k"
| fills: "sender_reach s0 s w out k \<Longrightarrow> TCPSender_fill_window s = Inr s' \<Longrightarrow> sender_reach s0 s' w out k"
| acks: "sender_reach s0 s w out k \<Longrightarrow> k < 2 ^ 40 \<Longrightarrow> TCPSender_ack_received ackno wnd s = Inr s' \<Longrightarrow>
    sender_reach s0 s' w out (Suc k)"
| ticks: "sender_reach s0 s w out k \<Longrightarrow> sender_reach s0 (TCPSender_tick ms s) w out k"
| empties: "sender_reach s0 s w out k \<Longrightarrow> sender_reach s0 (TCPSender_send_empty_segment s) w out k"
| sends: "sender_reach s0 s w out k \<Longrightarrow> ss_segments_out s = seg # rest \<Longrightarrow>
    sender_reach s0 (s\<lparr>ss_segments_out := rest\<rparr>) w (out @ [seg]) k"

lemma sender_new_inv:
  "sender_inv [] (TCPSender_new c t f cc rnd)" "cc_ok 0 (TCPSender_new c t f cc rnd)"
proof -
  let ?s = "TCPSender_new c t f cc rnd"
  have st: "ss_stream ?s = ByteStream_new c" by (simp add: TCPSender_new_def)
  have "stream_ok [] (ByteStream_new c)"
    by (simp add: stream_ok_def) (simp add: ByteStream_new_def)
  moreover have "bs_read_cnt (ByteStream_new c) = 0" by (simp add: ByteStream_new_def)
  ultimately show "sender_inv [] ?s"
    using st by (simp add: sender_inv_def sender_core_def numbers_ok_def flight_ok_def)
      (simp add: TCPSender_new_def Timer_new_def)
  have "unat (- 1 :: size_t) = 2 ^ 64 - 1" by (simp add: unsigned_minus_1_eq_mask mask_eq_exp_minus_1)
  then show "cc_ok 0 ?s" by (simp add: cc_ok_def TCPSender_new_def MAX_PAYLOAD_SIZE_def)
qed

lemma sender_reach_inv:
  assumes "sender_reach (TCPSender_new c t f cc rnd) s w out k"
  shows "sender_inv w s \<and> cc_ok k s \<and> (\<forall>seg \<in> set out. wire_ok w (ss_isn s) (ended s) seg) \<and>
    ss_isn s = ss_isn (TCPSender_new c t f cc rnd)"
  using assms
proof induction
  case start
  then show ?case using sender_new_inv by simp
next
  case (writes s w out k data st n)
  have "ByteStream_inv (ss_stream s)" using writes by (simp add: sender_inv_def sender_core_def stream_ok_def)
  then have "bs_input_ended_flag st = ended s"
    using ByteStream_write_contents(7) [OF _ _ writes(4)] writes(3) by simp
  then show ?case
    using writes sender_write_ok [of w s data st n] wire_ok_append by (auto simp: cc_ok_def)
next
  case (ends s w out k)
  then show ?case
    using sender_end_ok [of w s] sent_ok_over
    by (fastforce simp: cc_ok_def wire_ok_def ByteStream_end_input_def)
next
  case (fills s w out k s')
  then obtain s1 where "TCPSender_fill_window s = Inr s1" "sender_inv w s1" "same_config s s1"
    using fill_window_ok [of w s] by blast
  with fills show ?case by (auto simp: same_config_def cc_ok_def)
next
  case (acks s w out k ackno wnd s')
  then obtain s1 where "TCPSender_ack_received ackno wnd s = Inr s1" "sender_inv w s1" "cc_ok (Suc k) s1"
    "ss_isn s1 = ss_isn s" "ended s1 = ended s"
    using ack_received_ok [of w s k ackno wnd] by blast
  with acks show ?case by auto
next
  case (ticks s w out k ms)
  then show ?case using tick_ok [of w s k ms] by auto
next
  case (empties s w out k)
  then show ?case
    using send_empty_ok [of w s] by (auto simp: TCPSender_send_empty_segment_def Let_def cc_ok_def)
next
  case (sends s w out k seg rest)
  then show ?case by (auto simp: sender_inv_def sender_core_def cc_ok_def)
qed

section \<open>Properties\<close>

text \<open>
  C3. The sender never throws and only sends its stream. In every state a sender can reach, from
  any configuration and whatever acknowledgments it is given, \<^verbatim>\<open>fill_window\<close> and
  \<^verbatim>\<open>ack_received\<close> return; each segment that ever left its queue is either bare or carries, under
  its sequence number, exactly the bytes written at that place, with SYN only at the start and
  FIN only at the end of an ended stream; the bytes in flight never exceed 65535 or what has
  been sent; and the timer runs exactly while something is in flight.
\<close>

theorem sender_sends_its_stream:
  assumes "sender_reach (TCPSender_new c t f cc rnd) s w out k"
  shows "(\<exists>s'. TCPSender_fill_window s = Inr s') \<and>
    (k < 2 ^ 40 \<longrightarrow> (\<forall>ackno wnd. \<exists>s'. TCPSender_ack_received ackno wnd s = Inr s')) \<and>
    (\<forall>seg \<in> set out. wire_ok w (ss_isn s) (ended s) seg) \<and>
    unat (ss_bytes_in_flight s) \<le> unat (ss_next_seqno s) \<and> unat (ss_bytes_in_flight s) \<le> 65535 \<and>
    (tm_is_running (ss_timer s) \<longleftrightarrow> ss_bytes_in_flight s \<noteq> 0)"
proof -
  have inv: "sender_inv w s" "cc_ok k s" and out: "\<forall>seg \<in> set out. wire_ok w (ss_isn s) (ended s) seg"
    using sender_reach_inv [OF assms] by auto
  have "\<exists>s'. TCPSender_fill_window s = Inr s'" using fill_window_ok [OF inv(1)] by blast
  moreover have "\<exists>s'. TCPSender_ack_received ackno wnd s = Inr s'" if "k < 2 ^ 40" for ackno wnd
    using ack_received_ok [OF inv that] by blast
  ultimately show ?thesis
    using inv out by (simp add: sender_inv_def sender_core_def flight_ok_def)
qed

definition demo_sender :: TCPSender where
  "demo_sender = TCPSender_new 10 1000 (Some (WrappingInt32 7)) True 0"

lemma demo_reach:
  "sender_reach demo_sender
     (demo_sender\<lparr>ss_stream := fst (ByteStream_write [1, 2, 3] (ss_stream demo_sender))\<rparr>) [1, 2, 3] [] 0"
proof -
  let ?w = "ByteStream_write [1, 2, 3] (ss_stream demo_sender)"
  have n: "snd ?w = 3" "\<not> ended demo_sender"
    by (simp_all add: demo_sender_def TCPSender_new_def ByteStream_write_def ByteStream_new_def Let_def
        ByteStream_remaining_capacity_def ByteStream_buffer_size_def sz_def)
  have "sender_reach demo_sender (demo_sender\<lparr>ss_stream := fst ?w\<rparr>) ([] @ take (unat (snd ?w)) [1, 2, 3]) [] 0"
    by (rule sender_reach.writes [OF sender_reach.start n(2), where data = "[1, 2, 3]"]) simp_all
  then show ?thesis by (simp add: n(1))
qed

theorem sender_sends_its_stream_witness:
  "\<exists>s. sender_reach demo_sender s [1, 2, 3] [] 0 \<and>
    (\<exists>s'. TCPSender_fill_window s = Inr s') \<and>
    (\<forall>ackno wnd. \<exists>s'. TCPSender_ack_received ackno wnd s = Inr s') \<and>
    (tm_is_running (ss_timer s) \<longleftrightarrow> ss_bytes_in_flight s \<noteq> 0)"
proof -
  let ?s = "demo_sender\<lparr>ss_stream := fst (ByteStream_write [1, 2, 3] (ss_stream demo_sender))\<rparr>"
  have r: "sender_reach (TCPSender_new 10 1000 (Some (WrappingInt32 7)) True 0) ?s [1, 2, 3] [] 0"
    using demo_reach by (simp only: demo_sender_def [symmetric])
  show ?thesis
    using sender_sends_its_stream [OF r] demo_reach by (intro exI [of _ ?s]) simp
qed

text \<open>
  C19. \<^verbatim>\<open>fill_window\<close> is greedy and stays inside the window. It returns, and afterwards the bytes
  in flight are the smaller of the effective window (the peer's, at least one, limited by the
  congestion window) and of everything that was in flight or left to send (SYN, unread bytes,
  FIN); more than the window only if they were before. The sequence numbers advance by exactly
  what was put in flight.
\<close>

theorem fill_window_greedy:
  assumes "sender_inv w s"
  shows "\<exists>s'. TCPSender_fill_window s = Inr s' \<and> sender_inv w s' \<and>
    unat (ss_bytes_in_flight s') = max (unat (ss_bytes_in_flight s))
      (min (unat (TCPSender_effective_window_size s)) (unat (ss_bytes_in_flight s) + todo w s)) \<and>
    unat (ss_next_seqno s') + unat (ss_bytes_in_flight s) =
      unat (ss_next_seqno s) + unat (ss_bytes_in_flight s')"
  using fill_window_ok [OF assms] by blast

theorem fill_window_greedy_witness:
  "sender_inv [] demo_sender \<and>
   (\<exists>s'. TCPSender_fill_window demo_sender = Inr s' \<and> sender_inv [] s' \<and>
    unat (ss_bytes_in_flight s') = max (unat (ss_bytes_in_flight demo_sender))
      (min (unat (TCPSender_effective_window_size demo_sender))
         (unat (ss_bytes_in_flight demo_sender) + todo [] demo_sender)) \<and>
    unat (ss_next_seqno s') + unat (ss_bytes_in_flight demo_sender) =
      unat (ss_next_seqno demo_sender) + unat (ss_bytes_in_flight s'))"
proof -
  have i: "sender_inv [] demo_sender" unfolding demo_sender_def by (rule sender_new_inv)
  show ?thesis using i fill_window_greedy [OF i] by blast
qed

text \<open>
  C20. Acknowledgments. An acknowledgment of something not yet sent changes nothing. Any other one
  records the window and forgets exactly the segments it covers: the first unacknowledged
  sequence number never goes back, never passes the acknowledgment, and the oldest segment kept
  ends after it.
\<close>

theorem ack_received_covers:
  assumes "sender_inv w s" and "cc_ok k s" and "k < 2 ^ 40"
  shows "\<exists>s'. TCPSender_ack_received ackno wnd s = Inr s' \<and> sender_inv w s' \<and> cc_ok (Suc k) s' \<and>
    (if unwrap ackno (ss_isn s) (ss_next_seqno s) \<le> ss_next_seqno s
     then ss_window_size s' = wnd \<and> una s \<le> una s' \<and>
       una s' \<le> max (una s) (unat (unwrap ackno (ss_isn s) (ss_next_seqno s))) \<and>
       (\<forall>x seg rest. ss_outstanding_seg s' = (x, seg) # rest \<longrightarrow>
          unat (unwrap ackno (ss_isn s) (ss_next_seqno s)) < una s' + seg_len seg)
     else s' = s)"
  using ack_received_ok [OF assms] by blast

theorem ack_received_covers_witness:
  "sender_inv [] demo_sender \<and> cc_ok 0 demo_sender \<and> (0::nat) < 2 ^ 40 \<and>
   (\<exists>s'. TCPSender_ack_received (WrappingInt32 9) 5 demo_sender = Inr s' \<and> sender_inv [] s' \<and>
      cc_ok (Suc 0) s' \<and>
    (if unwrap (WrappingInt32 9) (ss_isn demo_sender) (ss_next_seqno demo_sender) \<le> ss_next_seqno demo_sender
     then ss_window_size s' = 5 \<and> una demo_sender \<le> una s' \<and>
       una s' \<le> max (una demo_sender)
         (unat (unwrap (WrappingInt32 9) (ss_isn demo_sender) (ss_next_seqno demo_sender))) \<and>
       (\<forall>x seg rest. ss_outstanding_seg s' = (x, seg) # rest \<longrightarrow>
          unat (unwrap (WrappingInt32 9) (ss_isn demo_sender) (ss_next_seqno demo_sender)) < una s' + seg_len seg)
     else s' = demo_sender))"
proof -
  have i: "sender_inv [] demo_sender" "cc_ok 0 demo_sender"
    unfolding demo_sender_def by (rule sender_new_inv)+
  have k: "(0::nat) < 2 ^ 40" by simp
  show ?thesis using i k ack_received_covers [OF i k] by blast
qed

text \<open>
  C21. Retransmission, while something is in flight. When the timer has run for at least the
  timeout, a tick queues one more segment, the one that carries the first unacknowledged sequence
  number, and restarts the timer. If the peer's window is open it doubles the timeout and counts the
  retransmission; if the window is zero, when the segment is a probe, timeout and count stay as they
  were. Before the timeout a tick sends nothing and only lets the timer run on.
\<close>

theorem tick_retransmits_oldest:
  assumes "sender_inv w s" and "ss_bytes_in_flight s \<noteq> 0"
  shows "if ucast (ucast (tm_time_count (ss_timer s)) + ms) \<ge> tm_time_out (ss_timer s)
    then \<exists>seg. ss_segments_out (TCPSender_tick ms s) = ss_segments_out s @ [seg] \<and>
        carries w (ss_isn s) seg (ss_next_seqno s - ss_bytes_in_flight s) \<and>
        tm_time_count (ss_timer (TCPSender_tick ms s)) = 0 \<and>
        tm_time_out (ss_timer (TCPSender_tick ms s)) = (if ss_window_size s = 0 then 1 else 2) * tm_time_out (ss_timer s) \<and>
        ss_consecutive_retransmissions_count (TCPSender_tick ms s) =
          ss_consecutive_retransmissions_count s + (if ss_window_size s = 0 then 0 else 1)
    else TCPSender_tick ms s = s\<lparr>ss_timer := (ss_timer s)
      \<lparr>tm_time_count := ucast (ucast (tm_time_count (ss_timer s)) + ms)\<rparr>\<rparr>"
proof -
  have core: "sender_core w s" using assms(1) by (simp add: sender_inv_def)
  note f = core_fields [OF core]
  obtain x seg rest where out: "ss_outstanding_seg s = (x, seg) # rest"
    using f(5) assms(2) by (cases "ss_outstanding_seg s") auto
  have "unat x = una s" using f(2) out by simp
  then have "x = ss_next_seqno s - ss_bytes_in_flight s"
    using f(1) by (simp add: word_unat_eq_iff unat_diff_le word_le_nat_alt)
  then have "carries w (ss_isn s) seg (ss_next_seqno s - ss_bytes_in_flight s)"
    using f(4) [of x seg] out by (simp add: sent_ok_def)
  then show ?thesis
    using assms out
    by (auto simp: TCPSender_tick_def Let_def Timer_tick_def Timer_check_time_out_def Timer_restart_def
        Timer_set_time_out_def on_congestion_timeout_def sender_inv_def word_neq_0_conv)
qed

lemma demo_in_flight: "\<exists>s. sender_inv [] s \<and> ss_bytes_in_flight s \<noteq> 0"
proof -
  have i: "sender_inv [] demo_sender" unfolding demo_sender_def by (rule sender_new_inv)
  have "TCPSender_effective_window_size demo_sender = 1" "todo [] demo_sender = 1"
    "ss_bytes_in_flight demo_sender = 0"
    by (simp_all add: demo_sender_def TCPSender_new_def TCPSender_effective_window_size_def Let_def
        MAX_PAYLOAD_SIZE_def todo_def ByteStream_new_def)
  moreover obtain s' where "sender_inv [] s'" "unat (ss_bytes_in_flight s') =
      max (unat (ss_bytes_in_flight demo_sender)) (min (unat (TCPSender_effective_window_size demo_sender))
        (unat (ss_bytes_in_flight demo_sender) + todo [] demo_sender))"
    using fill_window_ok [OF i] by blast
  ultimately have "sender_inv [] s'" "unat (ss_bytes_in_flight s') = 1" by simp_all
  moreover from this(2) have "ss_bytes_in_flight s' \<noteq> 0" by auto
  ultimately show ?thesis by blast
qed

theorem tick_retransmits_oldest_witness:
  "\<exists>s. sender_inv [] s \<and> ss_bytes_in_flight s \<noteq> 0 \<and>
    (if ucast (ucast (tm_time_count (ss_timer s)) + 1000 :: size_t) \<ge> tm_time_out (ss_timer s)
     then \<exists>seg. ss_segments_out (TCPSender_tick 1000 s) = ss_segments_out s @ [seg] \<and>
        carries [] (ss_isn s) seg (ss_next_seqno s - ss_bytes_in_flight s) \<and>
        tm_time_count (ss_timer (TCPSender_tick 1000 s)) = 0 \<and>
        tm_time_out (ss_timer (TCPSender_tick 1000 s)) = (if ss_window_size s = 0 then 1 else 2) * tm_time_out (ss_timer s) \<and>
        ss_consecutive_retransmissions_count (TCPSender_tick 1000 s) =
          ss_consecutive_retransmissions_count s + (if ss_window_size s = 0 then 0 else 1)
     else TCPSender_tick 1000 s = s\<lparr>ss_timer := (ss_timer s)
       \<lparr>tm_time_count := ucast (ucast (tm_time_count (ss_timer s)) + 1000 :: size_t)\<rparr>\<rparr>)"
proof -
  obtain s where s: "sender_inv [] s" "ss_bytes_in_flight s \<noteq> 0" using demo_in_flight by blast
  show ?thesis by (intro exI [of _ s] conjI s tick_retransmits_oldest [OF s])
qed

end
