(* ===== verification/TCPConnections.thy ===== *)
theory TCPConnections
  imports TCPSenders
begin

text \<open>
  \<^verbatim>\<open>libsponge/tcp_helpers/tcp_state.*\<close> and \<^verbatim>\<open>libsponge/tcp_connection.*\<close>: the summary of a
  connection's state by its sender, its receiver and two flags, and the connection itself, which
  owns a sender and a receiver, stamps the segments of the one with the acknowledgment and
  window of the other, and decides when the connection is over.
\<close>

section \<open>TCPState\<close>

definition ReceiverState_ERROR :: string where
  "ReceiverState_ERROR = ''error (connection was reset)''"
definition ReceiverState_LISTEN :: string where
  "ReceiverState_LISTEN = ''waiting for SYN: ackno is empty''"
definition ReceiverState_SYN_RECV :: string where
  "ReceiverState_SYN_RECV = ''SYN received (ackno exists), and input to stream hasn't ended''"
definition ReceiverState_FIN_RECV :: string where
  "ReceiverState_FIN_RECV = ''input to stream has ended''"

definition SenderState_ERROR :: string where
  "SenderState_ERROR = ''error (connection was reset)''"
definition SenderState_CLOSED :: string where
  "SenderState_CLOSED = ''waiting for stream to begin (no SYN sent)''"
definition SenderState_SYN_SENT :: string where
  "SenderState_SYN_SENT = ''stream started but nothing acknowledged''"
definition SenderState_SYN_ACKED :: string where
  "SenderState_SYN_ACKED = ''stream ongoing''"
definition SenderState_FIN_SENT :: string where
  "SenderState_FIN_SENT = ''stream finished (FIN sent) but not fully acknowledged''"
definition SenderState_FIN_ACKED :: string where
  "SenderState_FIN_ACKED = ''stream finished and fully acknowledged''"

lemmas receiver_state_names =
  ReceiverState_ERROR_def ReceiverState_LISTEN_def ReceiverState_SYN_RECV_def ReceiverState_FIN_RECV_def

lemmas sender_state_names =
  SenderState_ERROR_def SenderState_CLOSED_def SenderState_SYN_SENT_def SenderState_SYN_ACKED_def
  SenderState_FIN_SENT_def SenderState_FIN_ACKED_def

record TCPState =
  st_sender :: string
  st_receiver :: string
  st_active :: bool
  st_linger_after_streams_finish :: bool

datatype State =
    LISTEN | SYN_RCVD | SYN_SENT | ESTABLISHED | CLOSE_WAIT | LAST_ACK | FIN_WAIT_1 | FIN_WAIT_2
  | CLOSING | TIME_WAIT | CLOSED | RESET

definition TCPState_eq :: "TCPState \<Rightarrow> TCPState \<Rightarrow> bool" where
  "TCPState_eq a b \<longleftrightarrow>
     st_active a = st_active b \<and> st_linger_after_streams_finish a = st_linger_after_streams_finish b \<and>
     st_sender a = st_sender b \<and> st_receiver a = st_receiver b"

definition bool_to_string :: "bool \<Rightarrow> string" where
  "bool_to_string b = (if b then ''1'' else ''0'')"

definition TCPState_name :: "TCPState \<Rightarrow> string" where
  "TCPState_name t =
     ''sender=`'' @ st_sender t @ ''`, receiver=`'' @ st_receiver t @ ''`, active='' @
     bool_to_string (st_active t) @ '', linger_after_streams_finish='' @
     bool_to_string (st_linger_after_streams_finish t)"

fun TCPState_of_State :: "State \<Rightarrow> TCPState" where
  "TCPState_of_State LISTEN =
     \<lparr>st_sender = SenderState_CLOSED, st_receiver = ReceiverState_LISTEN, st_active = True,
      st_linger_after_streams_finish = True\<rparr>"
| "TCPState_of_State SYN_RCVD =
     \<lparr>st_sender = SenderState_SYN_SENT, st_receiver = ReceiverState_SYN_RECV, st_active = True,
      st_linger_after_streams_finish = True\<rparr>"
| "TCPState_of_State SYN_SENT =
     \<lparr>st_sender = SenderState_SYN_SENT, st_receiver = ReceiverState_LISTEN, st_active = True,
      st_linger_after_streams_finish = True\<rparr>"
| "TCPState_of_State ESTABLISHED =
     \<lparr>st_sender = SenderState_SYN_ACKED, st_receiver = ReceiverState_SYN_RECV, st_active = True,
      st_linger_after_streams_finish = True\<rparr>"
| "TCPState_of_State CLOSE_WAIT =
     \<lparr>st_sender = SenderState_SYN_ACKED, st_receiver = ReceiverState_FIN_RECV, st_active = True,
      st_linger_after_streams_finish = False\<rparr>"
| "TCPState_of_State LAST_ACK =
     \<lparr>st_sender = SenderState_FIN_SENT, st_receiver = ReceiverState_FIN_RECV, st_active = True,
      st_linger_after_streams_finish = False\<rparr>"
| "TCPState_of_State CLOSING =
     \<lparr>st_sender = SenderState_FIN_SENT, st_receiver = ReceiverState_FIN_RECV, st_active = True,
      st_linger_after_streams_finish = True\<rparr>"
| "TCPState_of_State FIN_WAIT_1 =
     \<lparr>st_sender = SenderState_FIN_SENT, st_receiver = ReceiverState_SYN_RECV, st_active = True,
      st_linger_after_streams_finish = True\<rparr>"
| "TCPState_of_State FIN_WAIT_2 =
     \<lparr>st_sender = SenderState_FIN_ACKED, st_receiver = ReceiverState_SYN_RECV, st_active = True,
      st_linger_after_streams_finish = True\<rparr>"
| "TCPState_of_State TIME_WAIT =
     \<lparr>st_sender = SenderState_FIN_ACKED, st_receiver = ReceiverState_FIN_RECV, st_active = True,
      st_linger_after_streams_finish = True\<rparr>"
| "TCPState_of_State RESET =
     \<lparr>st_sender = SenderState_ERROR, st_receiver = ReceiverState_ERROR, st_active = False,
      st_linger_after_streams_finish = False\<rparr>"
| "TCPState_of_State CLOSED =
     \<lparr>st_sender = SenderState_FIN_ACKED, st_receiver = ReceiverState_FIN_RECV, st_active = False,
      st_linger_after_streams_finish = False\<rparr>"

definition receiver_state_summary :: "TCPReceiver \<Rightarrow> string" where
  "receiver_state_summary receiver =
     (if ByteStream_error (TCPReceiver_stream_out receiver) then ReceiverState_ERROR
      else if TCPReceiver_ackno receiver = None then ReceiverState_LISTEN
      else if ByteStream_input_ended (TCPReceiver_stream_out receiver) then ReceiverState_FIN_RECV
      else ReceiverState_SYN_RECV)"

definition sender_state_summary :: "TCPSender \<Rightarrow> string" where
  "sender_state_summary sender =
     (if ByteStream_error (ss_stream sender) then SenderState_ERROR
      else if ss_next_seqno sender = 0 then SenderState_CLOSED
      else if ss_next_seqno sender = ss_bytes_in_flight sender then SenderState_SYN_SENT
      else if \<not> ByteStream_eof (ss_stream sender) then SenderState_SYN_ACKED
      else if ss_next_seqno sender < ByteStream_bytes_written (ss_stream sender) + 2 then SenderState_SYN_ACKED
      else if ss_bytes_in_flight sender \<noteq> 0 then SenderState_FIN_SENT
      else SenderState_FIN_ACKED)"

definition TCPState_of_parts :: "TCPSender \<Rightarrow> TCPReceiver \<Rightarrow> bool \<Rightarrow> bool \<Rightarrow> TCPState" where
  "TCPState_of_parts sender receiver active linger =
     \<lparr>st_sender = sender_state_summary sender, st_receiver = receiver_state_summary receiver,
      st_active = active, st_linger_after_streams_finish = (if active then linger else False)\<rparr>"

section \<open>TCPConnection\<close>

record TCPConnection =
  tc_cfg :: TCPConfig
  tc_receiver :: TCPReceiver
  tc_sender :: TCPSender
  tc_segments_out :: "TCPSegment list"
  tc_linger_after_streams_finish :: bool
  tc_time_since_last_segment_received :: size_t
  tc_is_active :: bool

definition TCPConnection_new :: "TCPConfig \<Rightarrow> u32 \<Rightarrow> TCPConnection" where
  "TCPConnection_new cfg random_isn =
     \<lparr>tc_cfg = cfg, tc_receiver = TCPReceiver_new (cfg_recv_capacity cfg),
      tc_sender = TCPSender_new (cfg_send_capacity cfg) (cfg_rt_timeout cfg) (cfg_fixed_isn cfg)
        (cfg_congestion_control cfg) random_isn,
      tc_segments_out = [], tc_linger_after_streams_finish = True,
      tc_time_since_last_segment_received = 0, tc_is_active = True\<rparr>"

definition TCPConnection_remaining_outbound_capacity :: "TCPConnection \<Rightarrow> size_t" where
  "TCPConnection_remaining_outbound_capacity c = ByteStream_remaining_capacity (ss_stream (tc_sender c))"

definition TCPConnection_bytes_in_flight :: "TCPConnection \<Rightarrow> size_t" where
  "TCPConnection_bytes_in_flight c = ss_bytes_in_flight (tc_sender c)"

definition TCPConnection_unassembled_bytes :: "TCPConnection \<Rightarrow> size_t" where
  "TCPConnection_unassembled_bytes c = TCPReceiver_unassembled_bytes (tc_receiver c)"

definition TCPConnection_state :: "TCPConnection \<Rightarrow> TCPState" where
  "TCPConnection_state c =
     TCPState_of_parts (tc_sender c) (tc_receiver c) (tc_is_active c) (tc_linger_after_streams_finish c)"

definition stamp :: "TCPReceiver \<Rightarrow> TCPSegment \<Rightarrow> TCPSegment" where
  "stamp receiver seg =
     (let header = ts_header seg;
          header = (case TCPReceiver_ackno receiver of
                      Some ackno \<Rightarrow> header\<lparr>th_ack := True, th_ackno := ackno\<rparr>
                    | None \<Rightarrow> header);
          header = header\<lparr>th_win := ucast (min 65535 (TCPReceiver_window_size receiver))\<rparr>
      in seg\<lparr>ts_header := header\<rparr>)"

definition add_ackno_and_window_to_send :: "TCPConnection \<Rightarrow> TCPConnection" where
  "add_ackno_and_window_to_send c =
     c\<lparr>tc_segments_out := tc_segments_out c @ map (stamp (tc_receiver c)) (ss_segments_out (tc_sender c)),
       tc_sender := (tc_sender c)\<lparr>ss_segments_out := []\<rparr>\<rparr>"

definition receiver_set_error :: "TCPReceiver \<Rightarrow> TCPReceiver" where
  "receiver_set_error r =
     r\<lparr>tr_reassembler := (tr_reassembler r)
         \<lparr>sr_output := ByteStream_set_error (TCPReceiver_stream_out r)\<rparr>\<rparr>"

definition set_rst_state :: "bool \<Rightarrow> TCPConnection \<Rightarrow> TCPConnection" where
  "set_rst_state send_rst c =
     (let seg = TCPSegment_default\<lparr>ts_header :=
            TCPHeader_default\<lparr>th_seqno := TCPSender_next_seqno (tc_sender c), th_rst := True\<rparr>\<rparr>;
          c = (if send_rst then c\<lparr>tc_segments_out := tc_segments_out c @ [seg]\<rparr> else c)
      in
      c\<lparr>tc_sender := (tc_sender c)\<lparr>ss_stream := ByteStream_set_error (ss_stream (tc_sender c))\<rparr>,
        tc_receiver := receiver_set_error (tc_receiver c),
        tc_linger_after_streams_finish := False,
        tc_is_active := False\<rparr>)"

definition TCPConnection_connect :: "TCPConnection \<Rightarrow> TCPConnection res" where
  "TCPConnection_connect c =
     bind_res (TCPSender_fill_window (tc_sender c)) (\<lambda>s.
     Inr (add_ackno_and_window_to_send (c\<lparr>tc_sender := s\<rparr>)))"

definition TCPConnection_write :: "byte list \<Rightarrow> TCPConnection \<Rightarrow> (TCPConnection \<times> size_t) res" where
  "TCPConnection_write data c =
     (let (stream, ret) = ByteStream_write data (ss_stream (tc_sender c)) in
      bind_res (TCPSender_fill_window ((tc_sender c)\<lparr>ss_stream := stream\<rparr>)) (\<lambda>s.
      Inr (add_ackno_and_window_to_send (c\<lparr>tc_sender := s\<rparr>), ret)))"

definition TCPConnection_end_input_stream :: "TCPConnection \<Rightarrow> TCPConnection res" where
  "TCPConnection_end_input_stream c =
     bind_res (TCPSender_fill_window
         ((tc_sender c)\<lparr>ss_stream := ByteStream_end_input (ss_stream (tc_sender c))\<rparr>)) (\<lambda>s.
     Inr (add_ackno_and_window_to_send (c\<lparr>tc_sender := s\<rparr>)))"

definition process_ack :: "TCPSegment \<Rightarrow> TCPConnection \<Rightarrow> (TCPConnection \<times> bool) res" where
  "process_ack seg c =
     (let header = ts_header seg;
          need_empty_ack = TCPSegment_length_in_sequence_space seg > 0
      in
      if th_ack header then
        bind_res (TCPSender_ack_received (th_ackno header) (th_win header) (tc_sender c)) (\<lambda>s.
        Inr (c\<lparr>tc_sender := s\<rparr>, need_empty_ack \<and> tc_segments_out c = []))
      else Inr (c, need_empty_ack))"

definition answer_segment :: "TCPSegment \<Rightarrow> bool \<Rightarrow> TCPConnection \<Rightarrow> TCPConnection res" where
  "answer_segment seg need_empty_ack c =
     (if receiver_state_summary (tc_receiver c) = ReceiverState_SYN_RECV \<and>
         sender_state_summary (tc_sender c) = SenderState_CLOSED
      then TCPConnection_connect c
      else
        let c = (if receiver_state_summary (tc_receiver c) = ReceiverState_FIN_RECV \<and>
                    sender_state_summary (tc_sender c) = SenderState_SYN_ACKED
                 then c\<lparr>tc_linger_after_streams_finish := False\<rparr> else c)
        in
        if \<not> tc_linger_after_streams_finish c \<and>
           receiver_state_summary (tc_receiver c) = ReceiverState_FIN_RECV \<and>
           sender_state_summary (tc_sender c) = SenderState_FIN_ACKED
        then Inr (c\<lparr>tc_is_active := False\<rparr>)
        else
          let keep_alive =
                (case TCPReceiver_ackno (tc_receiver c) of
                   Some ackno \<Rightarrow> TCPSegment_length_in_sequence_space seg = 0 \<and>
                     wi_eq (th_seqno (ts_header seg)) (wi_sub ackno 1)
                 | None \<Rightarrow> False);
              c = (if need_empty_ack \<or> keep_alive
                   then c\<lparr>tc_sender := TCPSender_send_empty_segment (tc_sender c)\<rparr> else c)
          in Inr (add_ackno_and_window_to_send c))"

definition TCPConnection_segment_received :: "TCPSegment \<Rightarrow> TCPConnection \<Rightarrow> TCPConnection res" where
  "TCPConnection_segment_received seg c =
     (let c = c\<lparr>tc_time_since_last_segment_received := 0\<rparr> in
      if th_rst (ts_header seg) then Inr (set_rst_state False c)
      else
        bind_res (TCPReceiver_segment_received seg (tc_receiver c)) (\<lambda>r.
        bind_res (process_ack seg (c\<lparr>tc_receiver := r\<rparr>)) (\<lambda>(c, need_empty_ack).
        answer_segment seg need_empty_ack c)))"

definition TCPConnection_tick :: "size_t \<Rightarrow> TCPConnection \<Rightarrow> TCPConnection" where
  "TCPConnection_tick ms c =
     (let c = c\<lparr>tc_time_since_last_segment_received := tc_time_since_last_segment_received c + ms,
                tc_sender := TCPSender_tick ms (tc_sender c)\<rparr>
      in
      if ss_consecutive_retransmissions_count (tc_sender c) > MAX_RETX_ATTEMPTS then
        set_rst_state True (c\<lparr>tc_sender := (tc_sender c)\<lparr>ss_segments_out := []\<rparr>\<rparr>)
      else
        let c = add_ackno_and_window_to_send c in
        if tc_linger_after_streams_finish c \<and>
           receiver_state_summary (tc_receiver c) = ReceiverState_FIN_RECV \<and>
           sender_state_summary (tc_sender c) = SenderState_FIN_ACKED \<and>
           tc_time_since_last_segment_received c \<ge> 10 * ucast (cfg_rt_timeout (tc_cfg c))
        then c\<lparr>tc_is_active := False, tc_linger_after_streams_finish := False\<rparr>
        else c)"

definition TCPConnection_destroy :: "TCPConnection \<Rightarrow> TCPConnection" where
  "TCPConnection_destroy c = (if tc_is_active c then set_rst_state True c else c)"

definition inbound :: "TCPConnection \<Rightarrow> ByteStream" where
  "inbound c = TCPReceiver_stream_out (tc_receiver c)"

definition set_inbound :: "ByteStream \<Rightarrow> TCPConnection \<Rightarrow> TCPConnection" where
  "set_inbound b c =
     c\<lparr>tc_receiver := (tc_receiver c)\<lparr>tr_reassembler := (tr_reassembler (tc_receiver c))\<lparr>sr_output := b\<rparr>\<rparr>\<rparr>"

section \<open>The invariant of a connection\<close>

definition conn_inv :: "byte list \<Rightarrow> byte list \<Rightarrow> WrappingInt32 \<Rightarrow> nat \<Rightarrow> TCPConnection \<Rightarrow> bool" where
  "conn_inv w whole pisn k c \<longleftrightarrow>
     sender_inv w (tc_sender c) \<and> cc_ok k (tc_sender c) \<and> receiver_inv whole pisn (tc_receiver c) \<and>
     (\<forall>seg \<in> set (tc_segments_out c).
        wire_ok w (ss_isn (tc_sender c)) (ended (tc_sender c)) seg)"

lemma stamp_fields [simp]:
  "th_seqno (ts_header (stamp r seg)) = th_seqno (ts_header seg)"
  "th_syn (ts_header (stamp r seg)) = th_syn (ts_header seg)"
  "th_fin (ts_header (stamp r seg)) = th_fin (ts_header seg)"
  "th_rst (ts_header (stamp r seg)) = th_rst (ts_header seg)"
  "ts_payload (stamp r seg) = ts_payload seg"
  by (simp_all add: stamp_def Let_def split: option.split)

lemma stamp_wire [simp]: "wire_ok w isn over (stamp r seg) = wire_ok w isn over seg"
  by (simp add: wire_ok_def sent_ok_def carries_def stream_pos_def bare_def)

lemma sender_inv_out: "sender_inv w s \<Longrightarrow> sender_inv w (s\<lparr>ss_segments_out := []\<rparr>)"
  by (simp add: sender_inv_def sender_core_def)

lemma add_ok:
  assumes "conn_inv w whole pisn k c"
  shows "conn_inv w whole pisn k (add_ackno_and_window_to_send c)"
  using assms
  by (auto simp: conn_inv_def add_ackno_and_window_to_send_def sender_inv_def sender_core_def cc_ok_def)

lemma stream_ok_error [simp]: "stream_ok w (ByteStream_set_error st) = stream_ok w st"
  by (simp add: stream_ok_def) (simp add: ByteStream_set_error_def)

lemma set_error_fields [simp]:
  "bs_read_cnt (ByteStream_set_error st) = bs_read_cnt st"
  "bs_written_cnt (ByteStream_set_error st) = bs_written_cnt st"
  "bs_capacity (ByteStream_set_error st) = bs_capacity st"
  "bs_input_ended_flag (ByteStream_set_error st) = bs_input_ended_flag st"
  "bs_error (ByteStream_set_error st)"
  by (simp_all add: ByteStream_set_error_def)

lemma sender_error_ok:
  "sender_inv w s \<Longrightarrow> sender_inv w (s\<lparr>ss_stream := ByteStream_set_error (ss_stream s)\<rparr>)"
proof -
  let ?s = "s\<lparr>ss_stream := ByteStream_set_error (ss_stream s)\<rparr>"
  have "numbers_ok w ?s = numbers_ok w s" "flight_ok w ?s = flight_ok w s"
    by (simp_all add: numbers_ok_def flight_ok_def)
  then show "sender_inv w s \<Longrightarrow> sender_inv w ?s" by (simp add: sender_inv_def sender_core_def)
qed

lemma receiver_error_ok:
  assumes "receiver_inv whole isn r"
  shows "receiver_inv whole isn (receiver_set_error r)"
proof -
  have "reassembler_inv whole ((tr_reassembler r)\<lparr>sr_output := ByteStream_set_error (sr_output (tr_reassembler r))\<rparr>)"
    using assms by (simp add: receiver_inv_def reassembler_inv_def output_ok_def eof_ok_def)
  then show ?thesis
    using assms by (simp add: receiver_inv_def receiver_set_error_def TCPReceiver_stream_out_def
        StreamReassembler_stream_out_def)
qed

lemma set_rst_ok:
  assumes "conn_inv w whole pisn k c"
  shows "conn_inv w whole pisn k (set_rst_state send_rst c)"
proof -
  have "wire_ok w isn over (TCPSegment_default\<lparr>ts_header := TCPHeader_default\<lparr>th_seqno := x, th_rst := True\<rparr>\<rparr>)"
    for isn over x
    by (simp add: wire_ok_def bare_def TCPSegment_default_def TCPHeader_default_def)
  then show ?thesis
    using assms sender_error_ok receiver_error_ok
    by (auto simp: conn_inv_def set_rst_state_def Let_def cc_ok_def)
qed

lemma conn_fill_ok:
  assumes "sender_inv w s" and "cc_ok k s" and "receiver_inv whole pisn (tc_receiver c)"
    and "\<forall>seg \<in> set (tc_segments_out c). wire_ok w (ss_isn s) (ended s) seg"
  shows "\<exists>s'. TCPSender_fill_window s = Inr s' \<and> same_config s s' \<and>
    conn_inv w whole pisn k (add_ackno_and_window_to_send (c\<lparr>tc_sender := s'\<rparr>))"
proof -
  obtain s' where s': "TCPSender_fill_window s = Inr s'" "sender_inv w s'" "same_config s s'"
    using fill_window_ok [OF assms(1)] by blast
  then have "conn_inv w whole pisn k (c\<lparr>tc_sender := s'\<rparr>)"
    using assms(2-4) by (simp add: conn_inv_def same_config_def cc_ok_def)
  with s' show ?thesis using add_ok by blast
qed

lemma connect_ok:
  assumes "conn_inv w whole pisn k c"
  shows "\<exists>c'. TCPConnection_connect c = Inr c' \<and> conn_inv w whole pisn k c' \<and>
    ended (tc_sender c') = ended (tc_sender c) \<and> ss_isn (tc_sender c') = ss_isn (tc_sender c) \<and>
    tc_receiver c' = tc_receiver c"
proof -
  obtain s' where "TCPSender_fill_window (tc_sender c) = Inr s'" "same_config (tc_sender c) s'"
    "conn_inv w whole pisn k (add_ackno_and_window_to_send (c\<lparr>tc_sender := s'\<rparr>))"
    using conn_fill_ok [of w "tc_sender c" k whole pisn c] assms by (auto simp: conn_inv_def)
  then show ?thesis
    by (simp add: TCPConnection_connect_def same_config_def add_ackno_and_window_to_send_def)
qed

lemma end_input_ok:
  assumes "conn_inv w whole pisn k c"
  shows "\<exists>c'. TCPConnection_end_input_stream c = Inr c' \<and> conn_inv w whole pisn k c' \<and>
    ended (tc_sender c') \<and> ss_isn (tc_sender c') = ss_isn (tc_sender c) \<and> tc_receiver c' = tc_receiver c"
proof -
  let ?s = "(tc_sender c)\<lparr>ss_stream := ByteStream_end_input (ss_stream (tc_sender c))\<rparr>"
  have "sender_inv w ?s" "cc_ok k ?s" "ended ?s"
    using assms sender_end_ok by (auto simp: conn_inv_def cc_ok_def ByteStream_end_input_def)
  moreover have "\<forall>seg \<in> set (tc_segments_out c). wire_ok w (ss_isn ?s) (ended ?s) seg"
    using assms sent_ok_over \<open>ended ?s\<close> by (fastforce simp: conn_inv_def wire_ok_def)
  ultimately obtain s' where "TCPSender_fill_window ?s = Inr s'" "same_config ?s s'"
    "conn_inv w whole pisn k (add_ackno_and_window_to_send (c\<lparr>tc_sender := s'\<rparr>))"
    using conn_fill_ok [of w ?s k whole pisn c] assms by (auto simp: conn_inv_def)
  then show ?thesis
    using \<open>ended ?s\<close>
    by (simp add: TCPConnection_end_input_stream_def same_config_def add_ackno_and_window_to_send_def)
qed

lemma write_ok:
  assumes inv: "conn_inv w whole pisn k c" and notend: "\<not> ended (tc_sender c)"
    and len: "length w + length data + 2 < 2 ^ 64"
  shows "\<exists>c' n. TCPConnection_write data c = Inr (c', n) \<and>
    conn_inv (w @ take (unat n) data) whole pisn k c' \<and>
    \<not> ended (tc_sender c') \<and> ss_isn (tc_sender c') = ss_isn (tc_sender c) \<and> tc_receiver c' = tc_receiver c"
proof -
  obtain st n where wr: "ByteStream_write data (ss_stream (tc_sender c)) = (st, n)" by fastforce
  let ?s = "(tc_sender c)\<lparr>ss_stream := st\<rparr>" and ?w = "w @ take (unat n) data"
  have s: "sender_inv w (tc_sender c)" using inv by (simp add: conn_inv_def)
  have inv': "sender_inv ?w ?s" by (rule sender_write_ok [OF s notend len wr])
  have "ByteStream_inv (ss_stream (tc_sender c))"
    using s by (simp add: sender_inv_def sender_core_def stream_ok_def)
  then have e: "\<not> bs_input_ended_flag st" using ByteStream_write_contents(7) [OF _ _ wr] len notend by simp
  have "\<forall>seg \<in> set (tc_segments_out c). wire_ok ?w (ss_isn ?s) (ended ?s) seg"
    using inv e notend wire_ok_append by (auto simp: conn_inv_def)
  then obtain s' where "TCPSender_fill_window ?s = Inr s'" "same_config ?s s'"
    "conn_inv ?w whole pisn k (add_ackno_and_window_to_send (c\<lparr>tc_sender := s'\<rparr>))"
    using conn_fill_ok [OF inv', of k whole pisn c] inv by (auto simp: conn_inv_def cc_ok_def)
  then show ?thesis
    using wr e by (simp add: TCPConnection_write_def same_config_def add_ackno_and_window_to_send_def)
qed

lemma process_ack_ok:
  assumes inv: "conn_inv w whole pisn k c" and k: "k < 2 ^ 40"
  shows "\<exists>c' need. process_ack seg c = Inr (c', need) \<and> conn_inv w whole pisn (Suc k) c' \<and>
    ended (tc_sender c') = ended (tc_sender c) \<and> ss_isn (tc_sender c') = ss_isn (tc_sender c) \<and>
    tc_receiver c' = tc_receiver c \<and> tc_segments_out c' = tc_segments_out c"
proof (cases "th_ack (ts_header seg)")
  case False
  then show ?thesis using inv by (auto simp: process_ack_def Let_def conn_inv_def cc_ok_def)
next
  case True
  have s: "sender_inv w (tc_sender c)" "cc_ok k (tc_sender c)" using inv by (auto simp: conn_inv_def)
  obtain s' where "TCPSender_ack_received (th_ackno (ts_header seg)) (th_win (ts_header seg)) (tc_sender c) = Inr s'"
    "sender_inv w s'" "cc_ok (Suc k) s'" "ss_isn s' = ss_isn (tc_sender c)" "ended s' = ended (tc_sender c)"
    using ack_received_ok [OF s k] by blast
  then show ?thesis using True inv by (auto simp: process_ack_def Let_def conn_inv_def)
qed

lemma conn_inv_upd [simp]:
  "conn_inv w whole pisn k (c\<lparr>tc_linger_after_streams_finish := l\<rparr>) = conn_inv w whole pisn k c"
  "conn_inv w whole pisn k (c\<lparr>tc_is_active := a\<rparr>) = conn_inv w whole pisn k c"
  "conn_inv w whole pisn k (c\<lparr>tc_time_since_last_segment_received := t\<rparr>) = conn_inv w whole pisn k c"
  by (simp_all add: conn_inv_def)

lemma empty_segment_ok:
  assumes "conn_inv w whole pisn k c"
  shows "conn_inv w whole pisn k (c\<lparr>tc_sender := TCPSender_send_empty_segment (tc_sender c)\<rparr>)"
  using assms send_empty_ok [of w "tc_sender c"]
  by (auto simp: conn_inv_def cc_ok_def TCPSender_send_empty_segment_def Let_def)

lemma answer_ok:
  assumes inv: "conn_inv w whole pisn k c"
  shows "\<exists>c'. answer_segment seg need c = Inr c' \<and> conn_inv w whole pisn k c' \<and>
    ended (tc_sender c') = ended (tc_sender c) \<and> ss_isn (tc_sender c') = ss_isn (tc_sender c) \<and>
    tc_receiver c' = tc_receiver c"
proof (cases "receiver_state_summary (tc_receiver c) = ReceiverState_SYN_RECV \<and>
    sender_state_summary (tc_sender c) = SenderState_CLOSED")
  case True
  then show ?thesis using connect_ok [OF inv] by (simp add: answer_segment_def)
next
  case False
  define c1 where "c1 = (if receiver_state_summary (tc_receiver c) = ReceiverState_FIN_RECV \<and>
      sender_state_summary (tc_sender c) = SenderState_SYN_ACKED
    then c\<lparr>tc_linger_after_streams_finish := False\<rparr> else c)"
  have c1: "conn_inv w whole pisn k c1" "tc_sender c1 = tc_sender c" "tc_receiver c1 = tc_receiver c"
    using inv by (simp_all add: c1_def)
  define c2 where "c2 = c1\<lparr>tc_sender := TCPSender_send_empty_segment (tc_sender c1)\<rparr>"
  have "conn_inv w whole pisn k c2" unfolding c2_def by (rule empty_segment_ok [OF c1(1)])
  then have "conn_inv w whole pisn k (add_ackno_and_window_to_send c2)"
    "conn_inv w whole pisn k (add_ackno_and_window_to_send c1)" using add_ok c1(1) by blast+
  moreover have "tc_receiver c2 = tc_receiver c" "ended (tc_sender c2) = ended (tc_sender c)"
    "ss_isn (tc_sender c2) = ss_isn (tc_sender c)"
    using c1 by (simp_all add: c2_def TCPSender_send_empty_segment_def Let_def)
  ultimately show ?thesis
    using False c1 unfolding answer_segment_def Let_def c1_def [symmetric] c2_def [symmetric]
    by (auto simp: add_ackno_and_window_to_send_def)
qed

text \<open>Any segment of the peer, a reset included.\<close>

lemma conn_segment_ok:
  assumes inv: "conn_inv w whole pisn k c" and k: "k < 2 ^ 40" and len: "length whole + 1 < 2 ^ 31"
    and seg: "th_rst (ts_header seg) \<or> wire_ok whole pisn over seg"
  shows "\<exists>c'. TCPConnection_segment_received seg c = Inr c' \<and> conn_inv w whole pisn (Suc k) c' \<and>
    ended (tc_sender c') = ended (tc_sender c) \<and> ss_isn (tc_sender c') = ss_isn (tc_sender c) \<and>
    read_idx (tr_reassembler (tc_receiver c')) = read_idx (tr_reassembler (tc_receiver c)) \<and>
    (sr_eof_index (tr_reassembler (tc_receiver c')) = sr_eof_index (tr_reassembler (tc_receiver c)) \<or>
       th_fin (ts_header seg) \<and> \<not> th_rst (ts_header seg)) \<and>
    tr_capacity (tc_receiver c') = tr_capacity (tc_receiver c)"
proof (cases "th_rst (ts_header seg)")
  case True
  have "conn_inv w whole pisn (Suc k) c" using inv by (auto simp: conn_inv_def cc_ok_def)
  then have "conn_inv w whole pisn (Suc k) (set_rst_state False (c\<lparr>tc_time_since_last_segment_received := 0\<rparr>))"
    by (intro set_rst_ok) simp
  with True show ?thesis
    by (simp add: TCPConnection_segment_received_def set_rst_state_def receiver_set_error_def
        TCPReceiver_stream_out_def StreamReassembler_stream_out_def Let_def)
next
  case False
  have r: "receiver_inv whole pisn (tc_receiver c)" using inv by (simp add: conn_inv_def)
  have "(\<exists>a. carries whole pisn seg a) \<or> bare seg"
    using seg False by (auto simp: wire_ok_def sent_ok_def)
  then obtain r' where r': "TCPReceiver_segment_received seg (tc_receiver c) = Inr r'"
    "receiver_inv whole pisn r'" "read_idx (tr_reassembler r') = read_idx (tr_reassembler (tc_receiver c))"
    "sr_eof_index (tr_reassembler r') = sr_eof_index (tr_reassembler (tc_receiver c)) \<or> th_fin (ts_header seg)"
    "tr_capacity r' = tr_capacity (tc_receiver c)"
    using receiver_carries [OF r len] receiver_bare [OF r] by blast
  let ?c1 = "c\<lparr>tc_time_since_last_segment_received := 0, tc_receiver := r'\<rparr>"
  have "conn_inv w whole pisn k ?c1" using inv r'(2) by (simp add: conn_inv_def)
  from process_ack_ok [OF this k, of seg] obtain c2 need where c2: "process_ack seg ?c1 = Inr (c2, need)"
    "conn_inv w whole pisn (Suc k) c2" "ended (tc_sender c2) = ended (tc_sender c)"
    "ss_isn (tc_sender c2) = ss_isn (tc_sender c)" "tc_receiver c2 = r'" by auto
  from answer_ok [OF c2(2)] obtain c3 where c3: "answer_segment seg need c2 = Inr c3"
    "conn_inv w whole pisn (Suc k) c3" "ended (tc_sender c3) = ended (tc_sender c2)"
    "ss_isn (tc_sender c3) = ss_isn (tc_sender c2)" "tc_receiver c3 = tc_receiver c2" by blast
  show ?thesis
    using False r' c2 c3 by (simp add: TCPConnection_segment_received_def Let_def)
qed

lemma conn_tick_ok:
  assumes inv: "conn_inv w whole pisn k c"
  shows "conn_inv w whole pisn k (TCPConnection_tick ms c) \<and>
    ended (tc_sender (TCPConnection_tick ms c)) = ended (tc_sender c) \<and>
    ss_isn (tc_sender (TCPConnection_tick ms c)) = ss_isn (tc_sender c) \<and>
    read_idx (tr_reassembler (tc_receiver (TCPConnection_tick ms c))) = read_idx (tr_reassembler (tc_receiver c)) \<and>
    sr_eof_index (tr_reassembler (tc_receiver (TCPConnection_tick ms c))) = sr_eof_index (tr_reassembler (tc_receiver c)) \<and>
    tr_capacity (tc_receiver (TCPConnection_tick ms c)) = tr_capacity (tc_receiver c)"
proof -
  define c1 where "c1 = c\<lparr>tc_time_since_last_segment_received := tc_time_since_last_segment_received c + ms,
    tc_sender := TCPSender_tick ms (tc_sender c)\<rparr>"
  have s: "sender_inv w (tc_sender c)" "cc_ok k (tc_sender c)" using inv by (auto simp: conn_inv_def)
  have c1: "conn_inv w whole pisn k c1"
    using inv tick_ok [OF s, of ms] by (simp add: c1_def conn_inv_def)
  then have c2: "conn_inv w whole pisn k (c1\<lparr>tc_sender := (tc_sender c1)\<lparr>ss_segments_out := []\<rparr>\<rparr>)"
    using sender_inv_out by (simp add: conn_inv_def cc_ok_def)
  have fields: "ended (tc_sender c1) = ended (tc_sender c)" "ss_isn (tc_sender c1) = ss_isn (tc_sender c)"
    "tc_receiver c1 = tc_receiver c" using tick_ok [OF s, of ms] by (simp_all add: c1_def)
  show ?thesis
    unfolding TCPConnection_tick_def Let_def c1_def [symmetric]
    using set_rst_ok [OF c2, of True] add_ok [OF c1] fields
    by (auto simp: set_rst_state_def Let_def receiver_set_error_def TCPReceiver_stream_out_def
        StreamReassembler_stream_out_def add_ackno_and_window_to_send_def)
qed

lemma conn_new_inv:
  assumes "cfg_recv_capacity cfg \<noteq> 0" and "length whole + unat (cfg_recv_capacity cfg) < 2 ^ 64"
  shows "conn_inv [] whole pisn 0 (TCPConnection_new cfg rnd)"
  using sender_new_inv receiver_new_inv [OF assms] by (simp add: conn_inv_def TCPConnection_new_def)

section \<open>What the names of the states mean\<close>

lemma summary_upd [simp]:
  "sender_state_summary (s\<lparr>ss_segments_out := out\<rparr>) = sender_state_summary s"
  "sender_state_summary (TCPSender_send_empty_segment s) = sender_state_summary s"
  by (simp_all add: sender_state_summary_def TCPSender_send_empty_segment_def Let_def)

lemma state_add [simp]:
  "TCPConnection_state (add_ackno_and_window_to_send c) = TCPConnection_state c"
  by (simp add: TCPConnection_state_def TCPState_of_parts_def add_ackno_and_window_to_send_def)

lemma state_error:
  "TCPState_eq (TCPConnection_state (set_rst_state send_rst c)) (TCPState_of_State RESET)"
  by (simp add: TCPState_eq_def TCPConnection_state_def TCPState_of_parts_def set_rst_state_def Let_def
      sender_state_summary_def receiver_state_summary_def receiver_set_error_def ByteStream_set_error_def
      ByteStream_error_def TCPReceiver_stream_out_def StreamReassembler_stream_out_def)

lemma sender_facts:
  assumes "sender_inv w s"
  shows "ss_next_seqno s = 0 \<longleftrightarrow> \<not> ss_set_syn_flag s"
    and "ss_next_seqno s = ss_bytes_in_flight s \<longleftrightarrow> una s = 0"
    and "ss_set_syn_flag s \<Longrightarrow> ByteStream_eof (ss_stream s) \<Longrightarrow>
      ss_next_seqno s < ByteStream_bytes_written (ss_stream s) + 2 \<longleftrightarrow> \<not> ss_set_fin_flag s"
    and "ss_set_fin_flag s \<Longrightarrow> ByteStream_eof (ss_stream s)"
proof -
  have len: "length w + 2 < 2 ^ 64" and wr: "unat (bs_written_cnt (ss_stream s)) = length w"
    and inv: "ByteStream_inv (ss_stream s)"
    and num: "unat (ss_next_seqno s) = of_bool (ss_set_syn_flag s) + nread s + of_bool (ss_set_fin_flag s)"
      "\<not> ss_set_syn_flag s \<Longrightarrow> nread s = 0 \<and> \<not> ss_set_fin_flag s"
      "ss_set_fin_flag s \<Longrightarrow> ended s \<and> nread s = length w"
    and fl: "unat (ss_bytes_in_flight s) \<le> unat (ss_next_seqno s)"
    using assms by (auto simp: sender_inv_defs)
  have empty: "ByteStream_buffer_empty (ss_stream s) \<longleftrightarrow> nread s = length w"
    using assms by (auto simp: sender_inv_defs ByteStream_buffer_empty_iff)
  show "ss_next_seqno s = 0 \<longleftrightarrow> \<not> ss_set_syn_flag s"
    using num by (cases "ss_set_syn_flag s") (auto simp: unat_eq_zero [symmetric])
  show "ss_next_seqno s = ss_bytes_in_flight s \<longleftrightarrow> una s = 0"
    using fl by (auto simp: word_unat_eq_iff)
  have "unat (ByteStream_bytes_written (ss_stream s) + 2) = length w + 2"
    using wr len by (subst unat_plus_fits) (simp_all add: ByteStream_bytes_written_def)
  then show "ss_next_seqno s < ByteStream_bytes_written (ss_stream s) + 2 \<longleftrightarrow> \<not> ss_set_fin_flag s"
    if "ss_set_syn_flag s" "ByteStream_eof (ss_stream s)"
    using that num empty by (auto simp: word_less_nat_alt ByteStream_eof_def)
  show "ByteStream_eof (ss_stream s)" if "ss_set_fin_flag s"
    using that num empty by (simp add: ByteStream_eof_def)
qed

section \<open>What is queued\<close>

lemma make_segment_queues:
  "make_segment wnd s = Inr (seg, s') \<Longrightarrow>
     ss_outstanding_seg s' = ss_outstanding_seg s \<and> ss_segments_out s' = ss_segments_out s"
  by (auto simp: make_segment_def Let_def bind_res_def split: sum.splits if_splits)

lemma fill_loop_queues:
  "fill_loop fuel wnd s = Inr s' \<Longrightarrow> \<exists>more. ss_outstanding_seg s' = ss_outstanding_seg s @ more \<and>
     ss_segments_out s' = ss_segments_out s @ map snd more"
proof (induction fuel arbitrary: s)
  case (Suc fuel)
  show ?case
  proof (cases "ss_bytes_in_flight s < wnd")
    case True
    with Suc.prems obtain seg s1 where mk: "make_segment wnd s = Inr (seg, s1)"
      by (cases "make_segment wnd s") auto
    show ?thesis
    proof (cases "TCPSegment_length_in_sequence_space seg = 0")
      case True
      then show ?thesis
        using Suc.prems mk \<open>ss_bytes_in_flight s < wnd\<close> make_segment_queues [OF mk] by auto
    next
      case False
      then have "fill_loop fuel wnd (send_segment seg s1) = Inr s'" using Suc.prems mk True by simp
      from Suc.IH [OF this] show ?thesis
        using make_segment_queues [OF mk] by (auto simp: send_segment_def Let_def)
    qed
  qed (use Suc.prems in auto)
qed simp

text \<open>The first call of \<open>connect\<close> always queues something (the SYN).\<close>

lemma connect_queues:
  assumes inv: "conn_inv w whole pisn k c" and closed: "\<not> ss_set_syn_flag (tc_sender c)"
    and con: "TCPConnection_connect c = Inr c'"
  shows "\<exists>more. more \<noteq> [] \<and> tc_segments_out c' = tc_segments_out c @ map (stamp (tc_receiver c)) more"
proof -
  let ?s = "tc_sender c"
  have s: "sender_inv w ?s" "cc_ok k ?s" using inv by (auto simp: conn_inv_def)
  obtain s' where s': "TCPSender_fill_window ?s = Inr s'" "sender_inv w s'"
    "unat (ss_bytes_in_flight s') = max (unat (ss_bytes_in_flight ?s))
      (min (unat (TCPSender_effective_window_size ?s)) (unat (ss_bytes_in_flight ?s) + todo w ?s))"
    using fill_window_ok [OF s(1)] by blast
  obtain more where more: "ss_outstanding_seg s' = ss_outstanding_seg ?s @ more"
    "ss_segments_out s' = ss_segments_out ?s @ map snd more"
    using fill_loop_queues s'(1) unfolding TCPSender_fill_window_def Let_def by blast
  have "0 < unat (TCPSender_effective_window_size ?s)" using s(2) by (intro effective_window) (simp add: cc_ok_def)
  moreover have "0 < todo w ?s" using closed by (simp add: todo_def)
  moreover have z: "ss_bytes_in_flight ?s = 0"
    using sender_facts(1) [OF s(1)] closed s(1)
    by (auto simp: sender_inv_def sender_core_def flight_ok_def unat_eq_zero)
  ultimately have "0 < unat (ss_bytes_in_flight s')" using s'(3) by simp
  moreover have "flight (una ?s) (ss_outstanding_seg ?s) (unat (ss_next_seqno ?s))"
    "flight (una s') (ss_outstanding_seg s') (unat (ss_next_seqno s'))"
    "una s' + unat (ss_bytes_in_flight s') = unat (ss_next_seqno s')"
    using s(1) s'(2) core_fields by (auto simp: sender_inv_def)
  ultimately have "more \<noteq> []"
    using more(1) z sender_facts(1) [OF s(1)] closed flight_Nil_iff by fastforce
  then show ?thesis
    using con s'(1) more(2)
    by (intro exI [of _ "ss_segments_out ?s @ map snd more"])
      (auto simp: TCPConnection_connect_def add_ackno_and_window_to_send_def)
qed

definition answers :: "TCPReceiver \<Rightarrow> TCPSegment \<Rightarrow> bool" where
  "answers r seg \<longleftrightarrow>
     (case TCPReceiver_ackno r of
        Some ackno \<Rightarrow> th_ack (ts_header seg) \<and> th_ackno (ts_header seg) = ackno | None \<Rightarrow> True) \<and>
     unat (th_win (ts_header seg)) = min 65535 (unat (TCPReceiver_window_size r))"

lemma unat_ucast_min: "unat (ucast (min 65535 x) :: u16) = min 65535 (unat x)" for x :: size_t
  by (simp add: unsigned_ucast_eq take_bit_eq_mod unat_min)

lemma stamp_answers: "answers r (stamp r seg)"
proof -
  have "unat (ucast (min 65535 (TCPReceiver_window_size r)) :: u16) = min 65535 (unat (TCPReceiver_window_size r))"
    by (rule unat_ucast_min)
  then show ?thesis by (simp add: answers_def stamp_def Let_def split: option.split)
qed

lemma answer_acks:
  assumes inv: "conn_inv w whole pisn k c" and empty: "tc_segments_out c = []"
    and ans: "answer_segment seg True c = Inr c'"
  shows "tc_receiver c' = tc_receiver c \<and>
    (TCPState_eq (TCPConnection_state c') (TCPState_of_State CLOSED) \<or>
     tc_segments_out c' \<noteq> [] \<and> (\<forall>x \<in> set (tc_segments_out c'). answers (tc_receiver c') x))"
proof (cases "receiver_state_summary (tc_receiver c) = ReceiverState_SYN_RECV \<and>
    sender_state_summary (tc_sender c) = SenderState_CLOSED")
  case True
  then have "ss_next_seqno (tc_sender c) = 0"
    by (auto simp: sender_state_summary_def sender_state_names split: if_splits)
  moreover have "sender_inv w (tc_sender c)" using inv by (simp add: conn_inv_def)
  ultimately have "\<not> ss_set_syn_flag (tc_sender c)" using sender_facts(1) by blast
  moreover have con: "TCPConnection_connect c = Inr c'" using ans True by (simp add: answer_segment_def)
  ultimately obtain more where "more \<noteq> []" "tc_segments_out c' = map (stamp (tc_receiver c)) more"
    using connect_queues [OF inv _ con] empty by auto
  moreover have "tc_receiver c' = tc_receiver c" using connect_ok [OF inv] con by auto
  ultimately show ?thesis by (auto simp: stamp_answers)
next
  case False
  then show ?thesis
    using ans empty stamp_answers
    by (auto simp: answer_segment_def Let_def add_ackno_and_window_to_send_def TCPSender_send_empty_segment_def
        TCPState_eq_def TCPConnection_state_def TCPState_of_parts_def split: if_splits)
qed

section \<open>Properties\<close>

text \<open>The strings by which the code recognises the state of the sender say what they claim to.
  In every state a sender can be in, unless its stream is in error: "no SYN sent" means exactly that
  no SYN was sent; "nothing acknowledged" that a SYN was sent and sequence number 0 is still in
  flight; "FIN sent but not fully acknowledged" that a FIN was sent and bytes are in flight; "fully
  acknowledged" that a FIN was sent and nothing is in flight; and "ongoing" is every other case.\<close>

theorem sender_summary_meaning:
  assumes "sender_inv w s" and "\<not> ByteStream_error (ss_stream s)"
  shows "sender_state_summary s =
    (if \<not> ss_set_syn_flag s then SenderState_CLOSED
     else if una s = 0 then SenderState_SYN_SENT
     else if \<not> ss_set_fin_flag s then SenderState_SYN_ACKED
     else if ss_bytes_in_flight s \<noteq> 0 then SenderState_FIN_SENT
     else SenderState_FIN_ACKED)"
  using assms(2) sender_facts [OF assms(1)] by (auto simp: sender_state_summary_def)

theorem sender_summary_meaning_witness:
  "(let s = TCPSender_new 10 1000 None False 5 in
    sender_inv [] s \<and> \<not> ByteStream_error (ss_stream s) \<and> sender_state_summary s = SenderState_CLOSED)"
proof -
  have "sender_inv [] (TCPSender_new 10 1000 None False 5)" by (rule sender_new_inv)
  moreover have "\<not> ByteStream_error (ss_stream (TCPSender_new 10 1000 None False 5))"
    by (simp add: TCPSender_new_def ByteStream_new_def ByteStream_error_def)
  ultimately show ?thesis
    using sender_summary_meaning [of "[]" "TCPSender_new 10 1000 None False 5"]
    by (simp add: TCPSender_new_def Let_def)
qed


definition small_config :: TCPConfig where
  "small_config = TCPConfig_default\<lparr>cfg_recv_capacity := 4\<rparr>"


text \<open>The queue that is consulted is the connection's own, which still holds what the caller has not
  taken, not the sender's: with an undrained queue the acknowledgment of a data segment is dropped
  even though nothing new is sent.\<close>

lemma ack_suppressed:
  assumes "\<not> th_rst (ts_header seg)" and "th_ack (ts_header seg)"
    and "TCPSegment_length_in_sequence_space seg \<noteq> 0" and "tc_segments_out c \<noteq> []"
    and "TCPReceiver_segment_received seg (tc_receiver c) = Inr r"
    and "TCPSender_ack_received (th_ackno (ts_header seg)) (th_win (ts_header seg)) (tc_sender c) = Inr s"
    and "ss_segments_out s = []" and "sender_state_summary s \<noteq> SenderState_CLOSED"
  shows "\<exists>c'. TCPConnection_segment_received seg c = Inr c' \<and> tc_receiver c' = r \<and>
    tc_segments_out c' = tc_segments_out c"
  using assms
  by (auto simp: TCPConnection_segment_received_def process_ack_def answer_segment_def Let_def
      add_ackno_and_window_to_send_def split: option.split)

text \<open>C33. A segment with RST kills the connection in every state and whatever else it carries, its
  sequence and acknowledgment numbers included: both streams are in error,
  the connection is inactive and does not linger (the official RESET state), nothing is queued in
  answer, and nothing of the segment is delivered.\<close>

theorem rst_aborts:
  assumes "th_rst (ts_header seg)"
  shows "\<exists>c'. TCPConnection_segment_received seg c = Inr c' \<and>
    TCPState_eq (TCPConnection_state c') (TCPState_of_State RESET) \<and>
    tc_segments_out c' = tc_segments_out c \<and>
    ByteStream_contents (TCPReceiver_stream_out (tc_receiver c')) =
      ByteStream_contents (TCPReceiver_stream_out (tc_receiver c)) \<and>
    tr_isn (tc_receiver c') = tr_isn (tc_receiver c)"
proof -
  let ?c = "c\<lparr>tc_time_since_last_segment_received := 0\<rparr>"
  have "TCPConnection_segment_received seg c = Inr (set_rst_state False ?c)"
    using assms by (simp add: TCPConnection_segment_received_def Let_def)
  then show ?thesis
    using state_error [of False ?c]
    by (auto simp: set_rst_state_def Let_def receiver_set_error_def TCPReceiver_stream_out_def
        StreamReassembler_stream_out_def ByteStream_set_error_def ByteStream_contents_def)
qed

theorem rst_aborts_witness:
  "(let seg = TCPSegment_default\<lparr>ts_header := TCPHeader_default\<lparr>th_rst := True\<rparr>\<rparr>;
        c = TCPConnection_new TCPConfig_default 5 in
    th_rst (ts_header seg) \<and>
    (\<exists>c'. TCPConnection_segment_received seg c = Inr c' \<and>
      TCPState_eq (TCPConnection_state c') (TCPState_of_State RESET)))"
  using rst_aborts [of "TCPSegment_default\<lparr>ts_header := TCPHeader_default\<lparr>th_rst := True\<rparr>\<rparr>"
      "TCPConnection_new TCPConfig_default 5"] by (auto simp: Let_def)

text \<open>C34. A connection whose segments are not acknowledged gives up: the tick that makes the count of
  consecutive retransmissions exceed eight withdraws the retransmission and queues exactly one
  segment instead, a RST at the next sequence number without data; the state becomes RESET.\<close>

theorem tick_gives_up:
  assumes "ss_consecutive_retransmissions_count (TCPSender_tick ms (tc_sender c)) > MAX_RETX_ATTEMPTS"
  shows "\<exists>seg. tc_segments_out (TCPConnection_tick ms c) = tc_segments_out c @ [seg] \<and>
    th_rst (ts_header seg) \<and> th_seqno (ts_header seg) = TCPSender_next_seqno (TCPSender_tick ms (tc_sender c)) \<and>
    TCPSegment_length_in_sequence_space seg = 0 \<and>
    TCPState_eq (TCPConnection_state (TCPConnection_tick ms c)) (TCPState_of_State RESET) \<and>
    ss_segments_out (tc_sender (TCPConnection_tick ms c)) = []"
proof -
  let ?s = "TCPSender_tick ms (tc_sender c)"
  let ?c = "c\<lparr>tc_time_since_last_segment_received := tc_time_since_last_segment_received c + ms,
    tc_sender := ?s\<lparr>ss_segments_out := []\<rparr>\<rparr>"
  have "TCPConnection_tick ms c = set_rst_state True ?c"
    using assms by (simp add: TCPConnection_tick_def Let_def)
  then show ?thesis
    using state_error [of True ?c]
    by (auto simp: set_rst_state_def Let_def TCPSender_next_seqno_def TCPSegment_default_def
        TCPHeader_default_def TCPSegment_length_in_sequence_space_def)
qed

definition stubborn_sender :: TCPSender where
  "stubborn_sender = (TCPSender_new 10 1000 None False 5)\<lparr>
     ss_set_syn_flag := True, ss_next_seqno := 1, ss_bytes_in_flight := 1,
     ss_outstanding_seg := [(0, TCPSegment_default\<lparr>ts_header := TCPHeader_default\<lparr>th_syn := True\<rparr>\<rparr>)],
     ss_timer := \<lparr>tm_time_count = 0, tm_time_out = 1000, tm_is_running = True\<rparr>,
     ss_consecutive_retransmissions_count := 8\<rparr>"

theorem tick_gives_up_witness:
  "(let c = (TCPConnection_new TCPConfig_default 5)\<lparr>tc_sender := stubborn_sender\<rparr> in
    ss_consecutive_retransmissions_count (TCPSender_tick 1000 (tc_sender c)) > MAX_RETX_ATTEMPTS \<and>
    (\<exists>seg. tc_segments_out (TCPConnection_tick 1000 c) = tc_segments_out c @ [seg] \<and> th_rst (ts_header seg)))"
proof -
  let ?c = "(TCPConnection_new TCPConfig_default 5)\<lparr>tc_sender := stubborn_sender\<rparr>"
  have "ss_consecutive_retransmissions_count (TCPSender_tick 1000 stubborn_sender) > MAX_RETX_ATTEMPTS"
    by code_simp
  then show ?thesis using tick_gives_up [of 1000 ?c] unfolding Let_def by auto
qed

text \<open>After both streams are finished the closing handshake ends the way RFC 793 has it. If the
  peer's FIN arrives while our stream is ongoing the connection is in CLOSE\_WAIT and will not
  linger. If our FIN is acknowledged when the peer's has already arrived, a connection that need not
  linger is CLOSED at once, sending nothing, and one that must linger is in TIME\_WAIT.\<close>

theorem closing_transitions:
  assumes "answer_segment seg need c = Inr c'" and "tc_is_active c"
    and "receiver_state_summary (tc_receiver c) = ReceiverState_FIN_RECV"
  shows "(sender_state_summary (tc_sender c) = SenderState_SYN_ACKED \<longrightarrow>
      TCPState_eq (TCPConnection_state c') (TCPState_of_State CLOSE_WAIT)) \<and>
    (sender_state_summary (tc_sender c) = SenderState_FIN_ACKED \<and> \<not> tc_linger_after_streams_finish c \<longrightarrow>
      TCPState_eq (TCPConnection_state c') (TCPState_of_State CLOSED) \<and>
      tc_segments_out c' = tc_segments_out c) \<and>
    (sender_state_summary (tc_sender c) = SenderState_FIN_ACKED \<and> tc_linger_after_streams_finish c \<longrightarrow>
      TCPState_eq (TCPConnection_state c') (TCPState_of_State TIME_WAIT))"
proof -
  have "receiver_state_summary (tc_receiver c) \<noteq> ReceiverState_SYN_RECV"
    using assms(3) by (simp add: receiver_state_names)
  moreover have "SenderState_FIN_ACKED \<noteq> SenderState_SYN_ACKED" by (simp add: sender_state_names)
  ultimately show ?thesis
    using assms
    by (auto simp: answer_segment_def Let_def TCPState_eq_def TCPConnection_state_def TCPState_of_parts_def
        add_ackno_and_window_to_send_def split: if_splits)
qed

definition finished_receiver :: TCPReceiver where
  "finished_receiver =
     (let r = TCPReceiver_new 4 in
      r\<lparr>tr_isn := Some (WrappingInt32 9),
        tr_reassembler := (tr_reassembler r)\<lparr>sr_eof_index := 0, sr_output := ByteStream_end_input (ByteStream_new 4)\<rparr>\<rparr>)"

definition finished_sender :: TCPSender where
  "finished_sender = (TCPSender_new 10 1000 None False 5)\<lparr>
     ss_stream := ByteStream_end_input (ByteStream_new 10), ss_set_syn_flag := True, ss_set_fin_flag := True,
     ss_next_seqno := 2\<rparr>"

definition finished_connection :: TCPConnection where
  "finished_connection =
     (TCPConnection_new small_config 5)\<lparr>tc_sender := finished_sender, tc_receiver := finished_receiver\<rparr>"

theorem closing_transitions_witness:
  "(let c = finished_connection\<lparr>tc_linger_after_streams_finish := False\<rparr> in
    tc_is_active c \<and> receiver_state_summary (tc_receiver c) = ReceiverState_FIN_RECV \<and>
    (\<exists>c'. answer_segment TCPSegment_default False c = Inr c' \<and>
      TCPState_eq (TCPConnection_state c') (TCPState_of_State CLOSED)))"
proof -
  let ?c = "finished_connection\<lparr>tc_linger_after_streams_finish := False\<rparr>"
  have a: "tc_is_active ?c" "receiver_state_summary (tc_receiver ?c) = ReceiverState_FIN_RECV"
    "sender_state_summary (tc_sender ?c) = SenderState_FIN_ACKED" "\<not> tc_linger_after_streams_finish ?c"
    by code_simp+
  then obtain c' where c': "answer_segment TCPSegment_default False ?c = Inr c'"
    by (simp add: answer_segment_def Let_def receiver_state_names sender_state_names)
  show ?thesis using closing_transitions [OF c' a(1,2)] a c' unfolding Let_def by blast
qed

text \<open>C35. A connection in TIME\_WAIT stays there, sending nothing, until ten retransmission timeouts
  have passed since the last segment arrived, and the tick that reaches that bound closes it.\<close>

theorem time_wait_lingers:
  assumes inv: "conn_inv w whole pisn k c"
    and tw: "TCPState_eq (TCPConnection_state c) (TCPState_of_State TIME_WAIT)"
    and few: "ss_consecutive_retransmissions_count (tc_sender c) \<le> MAX_RETX_ATTEMPTS"
    and drained: "ss_segments_out (tc_sender c) = []"
  shows "tc_segments_out (TCPConnection_tick ms c) = tc_segments_out c \<and>
    TCPState_eq (TCPConnection_state (TCPConnection_tick ms c))
      (TCPState_of_State
        (if tc_time_since_last_segment_received c + ms \<ge> 10 * ucast (cfg_rt_timeout (tc_cfg c))
         then CLOSED else TIME_WAIT))"
proof -
  have st: "tc_is_active c" "tc_linger_after_streams_finish c"
    "sender_state_summary (tc_sender c) = SenderState_FIN_ACKED"
    "receiver_state_summary (tc_receiver c) = ReceiverState_FIN_RECV"
    using tw by (auto simp: TCPState_eq_def TCPConnection_state_def TCPState_of_parts_def)
  have s: "sender_inv w (tc_sender c)" using inv by (simp add: conn_inv_def)
  have "ss_bytes_in_flight (tc_sender c) = 0"
    using st(3) by (auto simp: sender_state_summary_def sender_state_names split: if_splits)
  then have "\<not> tm_is_running (ss_timer (tc_sender c))" using s by (simp add: sender_inv_def)
  then have "TCPSender_tick ms (tc_sender c) = tc_sender c"
    by (simp add: TCPSender_tick_def Timer_tick_def Timer_check_time_out_def Let_def split: list.split)
  then show ?thesis
    using st few drained
    by (auto simp: TCPConnection_tick_def Let_def TCPState_eq_def TCPConnection_state_def TCPState_of_parts_def
        add_ackno_and_window_to_send_def)
qed

theorem time_wait_lingers_witness:
  "conn_inv [] [] (WrappingInt32 9) 0 finished_connection \<and>
   TCPState_eq (TCPConnection_state finished_connection) (TCPState_of_State TIME_WAIT) \<and>
   TCPState_eq (TCPConnection_state (TCPConnection_tick 9999 finished_connection)) (TCPState_of_State TIME_WAIT) \<and>
   TCPState_eq (TCPConnection_state (TCPConnection_tick 10000 finished_connection)) (TCPState_of_State CLOSED)"
proof -
  have "receiver_inv [] (WrappingInt32 9) (TCPReceiver_new 4)" by (rule receiver_new_inv) simp_all
  then have "receiver_inv [] (WrappingInt32 9) finished_receiver"
    by (simp add: finished_receiver_def Let_def TCPReceiver_new_def StreamReassembler_new_def receiver_inv_def
        reassembler_inv_def output_ok_def eof_ok_def ring_ok_def stored_def slot_def ByteStream_end_input_def
        ByteStream_new_def ByteStream_inv_def ByteStream_contents_def ByteStream_buffer_size_def)
  moreover have "sender_inv [] (TCPSender_new 10 1000 None False 5)" "cc_ok 0 (TCPSender_new 10 1000 None False 5)"
    by (simp_all add: sender_new_inv)
  then have "sender_inv [] finished_sender" "cc_ok 0 finished_sender"
    by (simp_all add: sender_inv_defs cc_ok_def finished_sender_def TCPSender_new_def ByteStream_end_input_def
        ByteStream_new_def ByteStream_inv_def ByteStream_contents_def ByteStream_buffer_size_def)
  ultimately have inv: "conn_inv [] [] (WrappingInt32 9) 0 finished_connection"
    by (simp add: conn_inv_def finished_connection_def TCPConnection_new_def)
  have a: "TCPState_eq (TCPConnection_state finished_connection) (TCPState_of_State TIME_WAIT)"
    "ss_consecutive_retransmissions_count (tc_sender finished_connection) \<le> MAX_RETX_ATTEMPTS"
    "ss_segments_out (tc_sender finished_connection) = []"
    "\<not> tc_time_since_last_segment_received finished_connection + 9999 \<ge> 10 * ucast (cfg_rt_timeout (tc_cfg finished_connection))"
    "tc_time_since_last_segment_received finished_connection + 10000 \<ge> 10 * ucast (cfg_rt_timeout (tc_cfg finished_connection))"
    by code_simp+
  show ?thesis
    using time_wait_lingers [OF inv a(1-3), of 9999] time_wait_lingers [OF inv a(1-3), of 10000] a inv by simp
qed

text \<open>The twelve official states are pairwise distinguishable by the four fields the code compares,
  so a test for a state by \<open>operator==\<close> holds for at most one of them.\<close>

theorem states_distinct: "TCPState_eq (TCPState_of_State a) (TCPState_of_State b) \<longleftrightarrow> a = b"
  by (cases a; cases b) (simp_all add: TCPState_eq_def sender_state_names receiver_state_names)

end
