(* ===== verification/TCPNetwork.thy ===== *)
theory TCPNetwork
  imports TCPConnections "HOL-Library.Sublist"
begin

text \<open>
  Two connections and an adversarial network between them. Every segment that ever left an
  endpoint can be delivered to the other one at any later time, any number of times and in any
  order, or never: the network loses, delays, reorders and duplicates, but does not invent
  segments. The endpoints connect, write, end their stream, read and let time pass as they like.

  The bounds are 2 GiB of data per direction (half of the sequence space, so that a segment
  delayed since the beginning cannot be mistaken for a new one) and \<open>2\<^sup>4\<^sup>0\<close> received segments.
\<close>

section \<open>The system\<close>

record endpoint =
  ep_conn :: TCPConnection
  ep_written :: "byte list"
  ep_got :: "byte list"
  ep_sent :: "TCPSegment list"
  ep_received :: nat

definition endpoint_new :: "TCPConfig \<Rightarrow> u32 \<Rightarrow> endpoint" where
  "endpoint_new cfg rnd =
     \<lparr>ep_conn = TCPConnection_new cfg rnd, ep_written = [], ep_got = [], ep_sent = [], ep_received = 0\<rparr>"

inductive network :: "endpoint \<Rightarrow> endpoint \<Rightarrow> endpoint \<Rightarrow> endpoint \<Rightarrow> bool" for x0 y0 where
  start: "network x0 y0 x0 y0"
| other: "network x0 y0 x y \<Longrightarrow> network x0 y0 y x"
| connects: "network x0 y0 x y \<Longrightarrow> TCPConnection_connect (ep_conn x) = Inr c \<Longrightarrow>
    network x0 y0 (x\<lparr>ep_conn := c\<rparr>) y"
| writes: "network x0 y0 x y \<Longrightarrow> \<not> ended (tc_sender (ep_conn x)) \<Longrightarrow>
    length (ep_written x) + length data + 1 < 2 ^ 31 \<Longrightarrow>
    TCPConnection_write data (ep_conn x) = Inr (c, n) \<Longrightarrow>
    network x0 y0 (x\<lparr>ep_conn := c, ep_written := ep_written x @ take (unat n) data\<rparr>) y"
| ends: "network x0 y0 x y \<Longrightarrow> TCPConnection_end_input_stream (ep_conn x) = Inr c \<Longrightarrow>
    network x0 y0 (x\<lparr>ep_conn := c\<rparr>) y"
| ticks: "network x0 y0 x y \<Longrightarrow> network x0 y0 (x\<lparr>ep_conn := TCPConnection_tick ms (ep_conn x)\<rparr>) y"
| reads: "network x0 y0 x y \<Longrightarrow> ByteStream_read n (inbound (ep_conn x)) = Inr (b, bytes) \<Longrightarrow>
    network x0 y0 (x\<lparr>ep_conn := set_inbound b (ep_conn x), ep_got := ep_got x @ bytes\<rparr>) y"
| emits: "network x0 y0 x y \<Longrightarrow> tc_segments_out (ep_conn x) = seg # rest \<Longrightarrow>
    network x0 y0 (x\<lparr>ep_conn := (ep_conn x)\<lparr>tc_segments_out := rest\<rparr>, ep_sent := ep_sent x @ [seg]\<rparr>) y"
| receives: "network x0 y0 x y \<Longrightarrow> seg \<in> set (ep_sent y) \<Longrightarrow> ep_received x < 2 ^ 40 \<Longrightarrow>
    TCPConnection_segment_received seg (ep_conn x) = Inr c \<Longrightarrow>
    network x0 y0 (x\<lparr>ep_conn := c, ep_received := Suc (ep_received x)\<rparr>) y"

section \<open>The invariant\<close>

abbreviation ep_isn :: "endpoint \<Rightarrow> WrappingInt32" where
  "ep_isn x \<equiv> ss_isn (tc_sender (ep_conn x))"

abbreviation ep_ended :: "endpoint \<Rightarrow> bool" where
  "ep_ended x \<equiv> ended (tc_sender (ep_conn x))"

abbreviation ep_reasm :: "endpoint \<Rightarrow> StreamReassembler" where
  "ep_reasm x \<equiv> tr_reassembler (tc_receiver (ep_conn x))"

definition view :: "endpoint \<Rightarrow> endpoint \<Rightarrow> bool" where
  "view x y \<longleftrightarrow>
     conn_inv (ep_written x) (ep_written y) (ep_isn y) (ep_received x) (ep_conn x) \<and>
     (\<forall>seg \<in> set (ep_sent x). wire_ok (ep_written x) (ep_isn x) (ep_ended x) seg) \<and>
     ep_got x = take (read_idx (ep_reasm x)) (ep_written y) \<and>
     (sr_eof_index (ep_reasm x) \<noteq> uint64_max \<longrightarrow> ep_ended y) \<and>
     length (ep_written x) + 1 < 2 ^ 31 \<and> unat (tr_capacity (tc_receiver (ep_conn x))) < 2 ^ 63"

definition net_inv :: "endpoint \<Rightarrow> endpoint \<Rightarrow> bool" where
  "net_inv x y \<longleftrightarrow> view x y \<and> view y x"

lemma wire_ok_over: "wire_ok w isn over seg \<Longrightarrow> (over \<Longrightarrow> over') \<Longrightarrow> wire_ok w isn over' seg"
  unfolding wire_ok_def by (cases over'; cases over) (auto dest: sent_ok_over)

text \<open>A step of \<open>x\<close> that keeps what \<open>y\<close> sees of it.\<close>

lemma net_step:
  assumes inv: "net_inv x y"
    and c: "conn_inv (ep_written x) (ep_written y) (ep_isn y) k c"
    and isn: "ss_isn (tc_sender c) = ep_isn x" and e: "ep_ended x \<Longrightarrow> ended (tc_sender c)"
    and rd: "read_idx (tr_reassembler (tc_receiver c)) = read_idx (ep_reasm x)"
    and eof: "sr_eof_index (tr_reassembler (tc_receiver c)) \<noteq> uint64_max \<longrightarrow> ep_ended y"
    and cap: "tr_capacity (tc_receiver c) = tr_capacity (tc_receiver (ep_conn x))"
  shows "net_inv (x\<lparr>ep_conn := c, ep_received := k\<rparr>) y"
proof -
  have "wire_ok (ep_written x) (ep_isn x) (ended (tc_sender c)) seg" if "seg \<in> set (ep_sent x)" for seg
  proof -
    have "wire_ok (ep_written x) (ep_isn x) (ep_ended x) seg"
      using inv that by (simp add: net_inv_def view_def)
    then show ?thesis using e by (rule wire_ok_over)
  qed
  then show ?thesis
    using assms by (auto simp: net_inv_def view_def)
qed

lemma net_inv_write:
  assumes inv: "net_inv x y" and notend: "\<not> ep_ended x"
    and len: "length (ep_written x) + length data + 1 < 2 ^ 31"
    and wr: "TCPConnection_write data (ep_conn x) = Inr (c, n)"
  shows "net_inv (x\<lparr>ep_conn := c, ep_written := ep_written x @ take (unat n) data\<rparr>) y"
proof -
  let ?w = "ep_written x @ take (unat n) data"
  have cx: "conn_inv (ep_written x) (ep_written y) (ep_isn y) (ep_received x) (ep_conn x)"
    using inv by (simp add: net_inv_def view_def)
  have len2: "length (ep_written x) + length data + 2 < 2 ^ 64" using len by simp
  have c: "conn_inv ?w (ep_written y) (ep_isn y) (ep_received x) c" "\<not> ended (tc_sender c)"
    "ss_isn (tc_sender c) = ep_isn x" "tc_receiver c = tc_receiver (ep_conn x)"
    using write_ok [OF cx notend len2] wr by auto
  have "length ?w + 1 < 2 ^ 31" using len by simp
  moreover have "\<forall>seg \<in> set (ep_sent x). wire_ok ?w (ep_isn x) False seg"
    using inv notend wire_ok_append by (auto simp: net_inv_def view_def)
  ultimately have "view (x\<lparr>ep_conn := c, ep_written := ?w\<rparr>) y"
    using inv c by (simp add: net_inv_def view_def)
  moreover have "view y (x\<lparr>ep_conn := c, ep_written := ?w\<rparr>)"
  proof -
    have y: "conn_inv (ep_written y) (ep_written x) (ep_isn x) (ep_received y) (ep_conn y)"
      and eof: "sr_eof_index (ep_reasm y) = uint64_max"
      and cap: "unat (tr_capacity (tc_receiver (ep_conn y))) < 2 ^ 63"
      and got: "ep_got y = take (read_idx (ep_reasm y)) (ep_written x)"
      using inv notend by (auto simp: net_inv_def view_def)
    have r: "receiver_inv (ep_written x) (ep_isn x) (tc_receiver (ep_conn y))" using y by (simp add: conn_inv_def)
    have "receiver_inv ?w (ep_isn x) (tc_receiver (ep_conn y))"
      using len cap by (intro receiver_inv_append [OF r eof]) simp
    moreover have "read_idx (ep_reasm y) \<le> length (ep_written x)"
      using r by (auto simp: receiver_inv_def reassembler_inv_def output_ok_def)
    ultimately show ?thesis
      using inv y c eof got by (simp add: net_inv_def view_def conn_inv_def)
  qed
  ultimately show ?thesis by (simp add: net_inv_def)
qed

lemma net_inv_read:
  assumes inv: "net_inv x y" and rd: "ByteStream_read n (inbound (ep_conn x)) = Inr (b, bytes)"
  shows "net_inv (x\<lparr>ep_conn := set_inbound b (ep_conn x), ep_got := ep_got x @ bytes\<rparr>) y"
proof -
  have r: "receiver_inv (ep_written y) (ep_isn y) (tc_receiver (ep_conn x))"
    using inv by (simp add: net_inv_def view_def conn_inv_def)
  have "receiver_inv (ep_written y) (ep_isn y)
      ((tc_receiver (ep_conn x))\<lparr>tr_reassembler := (ep_reasm x)\<lparr>sr_output := b\<rparr>\<rparr>)"
    and "take (unat (bs_read_cnt b)) (ep_written y) = take (read_idx (ep_reasm x)) (ep_written y) @ bytes"
    using receiver_read_ok [OF r, of n] rd by (auto simp: inbound_def)
  then show ?thesis
    using inv by (simp add: net_inv_def view_def set_inbound_def conn_inv_def)
qed

lemma net_inv_receive:
  assumes inv: "net_inv x y" and seg: "seg \<in> set (ep_sent y)" and k: "ep_received x < 2 ^ 40"
  shows "\<exists>c. TCPConnection_segment_received seg (ep_conn x) = Inr c \<and>
    net_inv (x\<lparr>ep_conn := c, ep_received := Suc (ep_received x)\<rparr>) y"
proof -
  have cx: "conn_inv (ep_written x) (ep_written y) (ep_isn y) (ep_received x) (ep_conn x)"
    and len: "length (ep_written y) + 1 < 2 ^ 31"
    and wire: "wire_ok (ep_written y) (ep_isn y) (ep_ended y) seg"
    and eof: "sr_eof_index (ep_reasm x) \<noteq> uint64_max \<longrightarrow> ep_ended y"
    using inv seg by (auto simp: net_inv_def view_def)
  have fin: "th_fin (ts_header seg) \<Longrightarrow> ep_ended y"
    using wire by (auto simp: wire_ok_def sent_ok_def bare_def)
  obtain c where c: "TCPConnection_segment_received seg (ep_conn x) = Inr c"
    "conn_inv (ep_written x) (ep_written y) (ep_isn y) (Suc (ep_received x)) c"
    "ended (tc_sender c) = ep_ended x" "ss_isn (tc_sender c) = ep_isn x"
    "read_idx (tr_reassembler (tc_receiver c)) = read_idx (ep_reasm x)"
    "sr_eof_index (tr_reassembler (tc_receiver c)) = sr_eof_index (ep_reasm x) \<or> th_fin (ts_header seg)"
    "tr_capacity (tc_receiver c) = tr_capacity (tc_receiver (ep_conn x))"
    using conn_segment_ok [OF cx k len disjI2 [OF wire]] by blast
  then have "net_inv (x\<lparr>ep_conn := c, ep_received := Suc (ep_received x)\<rparr>) y"
    using eof fin by (intro net_step [OF inv]) auto
  with c(1) show ?thesis by blast
qed

definition config_ok :: "TCPConfig \<Rightarrow> bool" where
  "config_ok cfg \<longleftrightarrow> 0 < unat (cfg_recv_capacity cfg) \<and> unat (cfg_recv_capacity cfg) < 2 ^ 63"

lemma view_new:
  assumes "config_ok cfg"
  shows "view (endpoint_new cfg rnd) (endpoint_new cfg' rnd')"
proof -
  let ?x = "endpoint_new cfg rnd" and ?y = "endpoint_new cfg' rnd'"
  have "cfg_recv_capacity cfg \<noteq> 0" "unat (cfg_recv_capacity cfg) < 2 ^ 64"
    using assms by (auto simp: config_ok_def)
  then have "conn_inv [] [] (ep_isn ?y) 0 (TCPConnection_new cfg rnd)" by (intro conn_new_inv) simp_all
  moreover have "tc_receiver (TCPConnection_new cfg rnd) = TCPReceiver_new (cfg_recv_capacity cfg)"
    by (simp add: TCPConnection_new_def)
  ultimately show ?thesis
    using assms by (simp add: view_def endpoint_new_def config_ok_def TCPReceiver_new_def StreamReassembler_new_def)
qed

lemma network_inv:
  assumes "network (endpoint_new cfg rnd) (endpoint_new cfg' rnd') x y"
    and "config_ok cfg" and "config_ok cfg'"
  shows "net_inv x y"
  using assms(1)
proof induction
  case start
  then show ?case using view_new assms(2,3) by (simp add: net_inv_def)
next
  case (other x y)
  then show ?case by (simp add: net_inv_def)
next
  case (connects x y c)
  have cx: "conn_inv (ep_written x) (ep_written y) (ep_isn y) (ep_received x) (ep_conn x)"
    and eof: "sr_eof_index (ep_reasm x) \<noteq> uint64_max \<longrightarrow> ep_ended y"
    using connects.IH by (auto simp: net_inv_def view_def)
  have "net_inv (x\<lparr>ep_conn := c, ep_received := ep_received x\<rparr>) y"
    using connect_ok [OF cx] connects(2) eof by (intro net_step [OF connects.IH]) auto
  then show ?case by simp
next
  case (writes x y data c n)
  then show ?case by (intro net_inv_write) auto
next
  case (ends x y c)
  have cx: "conn_inv (ep_written x) (ep_written y) (ep_isn y) (ep_received x) (ep_conn x)"
    and eof: "sr_eof_index (ep_reasm x) \<noteq> uint64_max \<longrightarrow> ep_ended y"
    using ends.IH by (auto simp: net_inv_def view_def)
  have "net_inv (x\<lparr>ep_conn := c, ep_received := ep_received x\<rparr>) y"
    using end_input_ok [OF cx] ends(2) eof by (intro net_step [OF ends.IH]) auto
  then show ?case by simp
next
  case (ticks x y ms)
  have cx: "conn_inv (ep_written x) (ep_written y) (ep_isn y) (ep_received x) (ep_conn x)"
    and eof: "sr_eof_index (ep_reasm x) \<noteq> uint64_max \<longrightarrow> ep_ended y"
    using ticks.IH by (auto simp: net_inv_def view_def)
  have "net_inv (x\<lparr>ep_conn := TCPConnection_tick ms (ep_conn x), ep_received := ep_received x\<rparr>) y"
    using conn_tick_ok [OF cx, of ms] eof by (intro net_step [OF ticks.IH]) auto
  then show ?case by simp
next
  case (reads x y n b bytes)
  then show ?case by (intro net_inv_read) auto
next
  case (emits x y seg rest)
  then show ?case by (auto simp: net_inv_def view_def conn_inv_def)
next
  case (receives x y seg c)
  then show ?case using net_inv_receive [of x y seg] by auto
qed

section \<open>Runs, executably\<close>

datatype net_act = Connect | Write "byte list" | End | Tick size_t | Read size_t | Emit | Receive nat | Other

fun net_do :: "net_act \<Rightarrow> endpoint \<times> endpoint \<Rightarrow> (endpoint \<times> endpoint) option" where
  "net_do Connect (x, y) =
     (case TCPConnection_connect (ep_conn x) of Inr c \<Rightarrow> Some (x\<lparr>ep_conn := c\<rparr>, y) | Inl _ \<Rightarrow> None)"
| "net_do (Write data) (x, y) =
     (if \<not> ep_ended x \<and> int (length (ep_written x) + length data + 1) < 2 ^ 31 then
        (case TCPConnection_write data (ep_conn x) of
           Inr (c, n) \<Rightarrow> Some (x\<lparr>ep_conn := c, ep_written := ep_written x @ take (unat n) data\<rparr>, y)
         | Inl _ \<Rightarrow> None)
      else None)"
| "net_do End (x, y) =
     (case TCPConnection_end_input_stream (ep_conn x) of
        Inr c \<Rightarrow> Some (x\<lparr>ep_conn := c\<rparr>, y) | Inl _ \<Rightarrow> None)"
| "net_do (Tick ms) (x, y) = Some (x\<lparr>ep_conn := TCPConnection_tick ms (ep_conn x)\<rparr>, y)"
| "net_do (Read n) (x, y) =
     (case ByteStream_read n (inbound (ep_conn x)) of
        Inr (b, bytes) \<Rightarrow>
          Some (x\<lparr>ep_conn := set_inbound b (ep_conn x), ep_got := ep_got x @ bytes\<rparr>, y)
      | Inl _ \<Rightarrow> None)"
| "net_do Emit (x, y) =
     (case tc_segments_out (ep_conn x) of
        seg # rest \<Rightarrow>
          Some (x\<lparr>ep_conn := (ep_conn x)\<lparr>tc_segments_out := rest\<rparr>, ep_sent := ep_sent x @ [seg]\<rparr>, y)
      | [] \<Rightarrow> None)"
| "net_do (Receive i) (x, y) =
     (if i < length (ep_sent y) \<and> int (ep_received x) < 2 ^ 40 then
        (case TCPConnection_segment_received (ep_sent y ! i) (ep_conn x) of
           Inr c \<Rightarrow> Some (x\<lparr>ep_conn := c, ep_received := Suc (ep_received x)\<rparr>, y) | Inl _ \<Rightarrow> None)
      else None)"
| "net_do Other (x, y) = Some (y, x)"

fun net_run :: "net_act list \<Rightarrow> endpoint \<times> endpoint \<Rightarrow> (endpoint \<times> endpoint) option" where
  "net_run [] p = Some p"
| "net_run (a # acts) p = (case net_do a p of Some q \<Rightarrow> net_run acts q | None \<Rightarrow> None)"

lemma net_do_network: "network x0 y0 x y \<Longrightarrow> net_do a (x, y) = Some (x', y') \<Longrightarrow> network x0 y0 x' y'"
  by (cases a) (auto split: sum.splits list.splits if_splits intro: network.intros network.receives [OF _ nth_mem])

lemma net_run_network:
  "network x0 y0 x y \<Longrightarrow> net_run acts (x, y) = Some (x', y') \<Longrightarrow> network x0 y0 x' y'"
proof (induction acts arbitrary: x y)
  case (Cons a acts)
  then obtain x1 y1 where "net_do a (x, y) = Some (x1, y1)" "net_run acts (x1, y1) = Some (x', y')"
    by (cases "net_do a (x, y)") auto
  then show ?case
    using net_do_network [OF Cons.prems(1)] Cons.IH by blast
qed simp

text \<open>The demonstration run: a handshake in which the first SYN is lost and retransmitted, then two
  one-byte writes whose segments arrive in the wrong order and twice, then the end of the stream.\<close>

definition demo_config :: "u32 \<Rightarrow> TCPConfig" where
  "demo_config isn =
     \<lparr>cfg_rt_timeout = 1000, cfg_recv_capacity = 4, cfg_send_capacity = 4,
      cfg_fixed_isn = Some (WrappingInt32 isn), cfg_congestion_control = False\<rparr>"

definition demo_start :: "endpoint \<times> endpoint" where
  "demo_start = (endpoint_new (demo_config 7) 0, endpoint_new (demo_config (- 1)) 0)"

definition demo_handshake :: "net_act list" where
  "demo_handshake =
     [Connect, Emit, Tick 1000, Emit, Other, Receive 1, Emit, Other, Receive 0, Emit, Other, Receive 2]"

definition demo_transfer :: "net_act list" where
  "demo_transfer =
     [Other, Write [104], Emit, Write [105], Emit, End, Emit,
      Other, Receive 4, Receive 3, Receive 4, Receive 5, Read 2]"

section \<open>Properties\<close>

lemma view_delivered:
  assumes "view x y"
  shows "ep_got x @ ByteStream_contents (inbound (ep_conn x)) = take (cur_idx (ep_reasm x)) (ep_written y)"
proof -
  have "ByteStream_contents (inbound (ep_conn x)) =
      drop (read_idx (ep_reasm x)) (take (cur_idx (ep_reasm x)) (ep_written y))"
    and le: "read_idx (ep_reasm x) \<le> cur_idx (ep_reasm x)"
    using assms by (simp_all add: view_def conn_inv_def receiver_inv_def reassembler_inv_def output_ok_def
        inbound_def TCPReceiver_stream_out_def StreamReassembler_stream_out_def)
  moreover have "ep_got x = take (read_idx (ep_reasm x)) (take (cur_idx (ep_reasm x)) (ep_written y))"
    using assms le by (simp add: view_def min_def)
  ultimately show ?thesis by (metis append_take_drop_id)
qed

lemma view_complete:
  assumes v: "view x y" and v': "view y x" and e: "bs_input_ended_flag (inbound (ep_conn x))"
  shows "cur_idx (ep_reasm x) = length (ep_written y) \<and> ep_ended y"
proof -
  have r: "eof_ok (ep_written y) (ep_reasm x)" "cur_idx (ep_reasm x) \<le> length (ep_written y)"
    and eof: "sr_eof_index (ep_reasm x) \<noteq> uint64_max \<Longrightarrow> ep_ended y"
    using v by (auto simp: view_def conn_inv_def receiver_inv_def reassembler_inv_def output_ok_def)
  have "length (ep_written y) < 2 ^ 31" using v' by (simp add: view_def)
  then have "sr_eof_index (ep_reasm x) \<noteq> uint64_max"
    using r e by (auto simp: eof_ok_def inbound_def TCPReceiver_stream_out_def StreamReassembler_stream_out_def
        unat_uint64_max)
  then show ?thesis
    using r e eof by (auto simp: eof_ok_def inbound_def TCPReceiver_stream_out_def StreamReassembler_stream_out_def)
qed

text \<open>C1. Two connections joined by a network that loses, delays, duplicates and reorders segments, with
  less than 2 GiB written in each direction, at most \<open>2 ^ 40\<close> segments received on each side and no write
  after the end of a stream: at every moment, what one application has read, followed by what it could read now, is a prefix of what
  the other application has written. When the inbound stream is marked as ended, it is everything the
  peer wrote, and the peer did end its stream.\<close>

theorem network_transparent:
  assumes "network (endpoint_new cfg rnd) (endpoint_new cfg' rnd') x y"
    and "config_ok cfg" and "config_ok cfg'"
  shows "prefix (ep_got x @ ByteStream_contents (inbound (ep_conn x))) (ep_written y) \<and>
    (ByteStream_input_ended (inbound (ep_conn x)) \<longrightarrow>
      ep_got x @ ByteStream_contents (inbound (ep_conn x)) = ep_written y \<and> ep_ended y)"
proof -
  have "view x y" "view y x" using network_inv [OF assms] by (simp_all add: net_inv_def)
  then show ?thesis
    using view_delivered [of x y] view_complete [of x y] by (auto simp: take_is_prefix ByteStream_input_ended_def)
qed

theorem network_transparent_witness:
  "\<exists>x y. net_run (demo_handshake @ demo_transfer) demo_start = Some (x, y) \<and>
     ep_got x = [104, 105] \<and> prefix (ep_got x @ ByteStream_contents (inbound (ep_conn x))) (ep_written y) \<and>
     ByteStream_eof (inbound (ep_conn x))"
proof -
  have "case net_run (demo_handshake @ demo_transfer) demo_start of
      Some (x, y) \<Rightarrow> ep_got x = [104, 105] \<and> ByteStream_eof (inbound (ep_conn x)) | None \<Rightarrow> False"
    by code_simp
  then obtain x y where run: "net_run (demo_handshake @ demo_transfer) demo_start = Some (x, y)"
    and xy: "ep_got x = [104, 105]" "ByteStream_eof (inbound (ep_conn x))"
    by (cases "net_run (demo_handshake @ demo_transfer) demo_start") auto
  have "network (endpoint_new (demo_config 7) 0) (endpoint_new (demo_config (- 1)) 0) x y"
    using net_run_network [OF network.start] run by (simp add: demo_start_def)
  then have "prefix (ep_got x @ ByteStream_contents (inbound (ep_conn x))) (ep_written y)"
    using network_transparent [of "demo_config 7" 0 "demo_config (- 1)" 0 x y]
    by (simp add: config_ok_def demo_config_def)
  with run xy show ?thesis by blast
qed

text \<open>C7. In such a network no operation of a connection throws: connecting, ending the stream,
  writing (within the bound on the stream), reading, and receiving any segment the peer has ever sent
  all return.\<close>

theorem network_never_throws:
  assumes net: "network (endpoint_new cfg rnd) (endpoint_new cfg' rnd') x y"
    and "config_ok cfg" and "config_ok cfg'"
  shows "(\<exists>c. TCPConnection_connect (ep_conn x) = Inr c) \<and>
    (\<exists>c. TCPConnection_end_input_stream (ep_conn x) = Inr c) \<and>
    (\<not> ep_ended x \<and> length (ep_written x) + length data + 1 < 2 ^ 31 \<longrightarrow>
      (\<exists>c n. TCPConnection_write data (ep_conn x) = Inr (c, n))) \<and>
    (\<exists>b bytes. ByteStream_read n (inbound (ep_conn x)) = Inr (b, bytes)) \<and>
    (seg \<in> set (ep_sent y) \<and> ep_received x < 2 ^ 40 \<longrightarrow>
      (\<exists>c. TCPConnection_segment_received seg (ep_conn x) = Inr c))"
proof (intro conjI impI)
  have inv: "net_inv x y" by (rule network_inv [OF assms])
  then have c: "conn_inv (ep_written x) (ep_written y) (ep_isn y) (ep_received x) (ep_conn x)"
    by (simp add: net_inv_def view_def)
  then have r: "receiver_inv (ep_written y) (ep_isn y) (tc_receiver (ep_conn x))" by (simp add: conn_inv_def)
  show "\<exists>c. TCPConnection_connect (ep_conn x) = Inr c" using connect_ok [OF c] by blast
  show "\<exists>c. TCPConnection_end_input_stream (ep_conn x) = Inr c" using end_input_ok [OF c] by blast
  show "\<exists>c n. TCPConnection_write data (ep_conn x) = Inr (c, n)"
    if "\<not> ep_ended x \<and> length (ep_written x) + length data + 1 < 2 ^ 31"
    using write_ok [OF c, of data] that by auto
  show "\<exists>b bytes. ByteStream_read n (inbound (ep_conn x)) = Inr (b, bytes)"
    using receiver_read_ok [OF r, of n] unfolding inbound_def by blast
  show "\<exists>c. TCPConnection_segment_received seg (ep_conn x) = Inr c"
    if "seg \<in> set (ep_sent y) \<and> ep_received x < 2 ^ 40"
    using net_inv_receive [OF inv] that by blast
qed

theorem network_never_throws_witness:
  "\<exists>x y. net_run demo_handshake demo_start = Some (x, y) \<and>
     (\<exists>c n. TCPConnection_write [104, 105] (ep_conn x) = Inr (c, n)) \<and>
     (\<exists>c. TCPConnection_segment_received (last (ep_sent y)) (ep_conn x) = Inr c)"
proof -
  have "case net_run demo_handshake demo_start of
      Some (x, y) \<Rightarrow> \<not> ep_ended x \<and> ep_written x = [] \<and> ep_sent y \<noteq> [] \<and> int (ep_received x) < 2 ^ 40
    | None \<Rightarrow> False"
    by code_simp
  then obtain x y where run: "net_run demo_handshake demo_start = Some (x, y)"
    and xy: "\<not> ep_ended x" "ep_written x = []" "ep_sent y \<noteq> []" "ep_received x < 2 ^ 40"
    by (cases "net_run demo_handshake demo_start") auto
  have "network (endpoint_new (demo_config 7) 0) (endpoint_new (demo_config (- 1)) 0) x y"
    using net_run_network [OF network.start] run by (simp add: demo_start_def)
  moreover have "config_ok (demo_config 7)" "config_ok (demo_config (- 1))"
    by (simp_all add: config_ok_def demo_config_def)
  ultimately have "(\<exists>c n. TCPConnection_write [104, 105] (ep_conn x) = Inr (c, n)) \<and>
      (\<exists>c. TCPConnection_segment_received (last (ep_sent y)) (ep_conn x) = Inr c)"
    using network_never_throws [of "demo_config 7" 0 "demo_config (- 1)" 0 x y "[104, 105]" 0 "last (ep_sent y)"] xy
    by simp
  with run show ?thesis by blast
qed

end
