(* ===== verification/IPv4Datagrams.thy ===== *)
theory IPv4Datagrams
  imports TCPSegments
begin

text \<open>
  \<^verbatim>\<open>libsponge/tcp_helpers/ipv4_header.*\<close> and \<^verbatim>\<open>ipv4_datagram.*\<close>: the Internet datagram and its
  wire format. The properties are the round trip through the wire and the exact answers of both
  parsers on arbitrary bytes; the two parsers disagree, because \<^verbatim>\<open>IPv4Datagram::parse\<close> does not look
  at what \<^verbatim>\<open>IPv4Header::parse\<close> returns.
\<close>

section \<open>IPv4Header\<close>

record IPv4Header =
  ih_ver :: u8
  ih_hlen :: u8
  ih_tos :: u8
  ih_len :: u16
  ih_id :: u16
  ih_df :: bool
  ih_mf :: bool
  ih_offset :: u16
  ih_ttl :: u8
  ih_proto :: u8
  ih_cksum :: u16
  ih_src :: u32
  ih_dst :: u32

definition IPv4Header_LENGTH :: size_t where "IPv4Header_LENGTH = 20"
definition DEFAULT_TTL :: u8 where "DEFAULT_TTL = 128"
definition PROTO_TCP :: u8 where "PROTO_TCP = 6"
definition PROTO_ICMP :: u8 where "PROTO_ICMP = 1"

definition IPv4Header_default :: IPv4Header where
  "IPv4Header_default =
     \<lparr>ih_ver = 4, ih_hlen = ucast (IPv4Header_LENGTH div 4), ih_tos = 0, ih_len = 0, ih_id = 0, ih_df = True,
      ih_mf = False, ih_offset = 0, ih_ttl = DEFAULT_TTL, ih_proto = PROTO_TCP, ih_cksum = 0,
      ih_src = 0, ih_dst = 0\<rparr>"

definition IPv4Header_parse_fields :: "IPv4Header parser" where
  "IPv4Header_parse_fields =
     parser_bind NetParser_u8 (\<lambda>first_byte.
     parser_bind NetParser_u8 (\<lambda>tos.
     parser_bind NetParser_u16 (\<lambda>len.
     parser_bind NetParser_u16 (\<lambda>ident.
     parser_bind NetParser_u16 (\<lambda>fo_val.
     parser_bind NetParser_u8 (\<lambda>ttl.
     parser_bind NetParser_u8 (\<lambda>proto.
     parser_bind NetParser_u16 (\<lambda>cksum.
     parser_bind NetParser_u32 (\<lambda>src.
     parser_bind NetParser_u32 (\<lambda>dst.
     parser_return
       \<lparr>ih_ver = drop_bit 4 first_byte, ih_hlen = first_byte AND 0x0f, ih_tos = tos, ih_len = len,
        ih_id = ident, ih_df = (fo_val AND 0x4000 \<noteq> 0), ih_mf = (fo_val AND 0x2000 \<noteq> 0),
        ih_offset = fo_val AND 0x1fff, ih_ttl = ttl, ih_proto = proto, ih_cksum = cksum,
        ih_src = src, ih_dst = dst\<rparr>))))))))))"

definition IPv4Header_parse :: "IPv4Header \<Rightarrow> (ParseResult \<times> IPv4Header) parser" where
  "IPv4Header_parse header p =
     (let original = np_buffer p;
          data_size = Buffer_size (np_buffer p)
      in
      if data_size < IPv4Header_LENGTH then Inr ((PacketTooShort, header), p)
      else
        bind_res (IPv4Header_parse_fields p) (\<lambda>(h, p).
        if data_size < 4 * ucast (ih_hlen h) then Inr ((PacketTooShort, h), p)
        else if ih_ver h \<noteq> 4 then Inr ((WrongIPVersion, h), p)
        else if ih_hlen h < 5 then Inr ((HeaderTooShort, h), p)
        else if data_size \<noteq> ucast (ih_len h) then Inr ((TruncatedPacket, h), p)
        else
          bind_res (NetParser_remove_prefix (ucast (ih_hlen h) * 4 - IPv4Header_LENGTH) p) (\<lambda>(_, p).
          if NetParser_error p then Inr ((np_error p, h), p)
          else
            let check = InternetChecksum_add (take (4 * unat (ih_hlen h)) (Buffer_str original))
                  (InternetChecksum_new 0)
            in
            if InternetChecksum_value check \<noteq> 0 then Inr ((BadChecksum, h), p)
            else Inr ((NoError, h), p))))"

definition IPv4Header_first_byte :: "IPv4Header \<Rightarrow> u8" where
  "IPv4Header_first_byte h = push_bit 4 (ih_ver h) OR (ih_hlen h AND 0xf)"

definition IPv4Header_fo_val :: "IPv4Header \<Rightarrow> u16" where
  "IPv4Header_fo_val h =
     (if ih_df h then 0x4000 else 0) OR (if ih_mf h then 0x2000 else 0) OR (ih_offset h AND 0x1fff)"

definition IPv4Header_serialize :: "IPv4Header \<Rightarrow> byte list res" where
  "IPv4Header_serialize h =
     (if ih_ver h \<noteq> 4 then Inl (Runtime_error ''wrong IP version'')
      else if 4 * ucast (ih_hlen h) < IPv4Header_LENGTH then Inl (Runtime_error ''IP header too short'')
      else
        let ret = NetUnparser_u8 [] (IPv4Header_first_byte h);
            ret = NetUnparser_u8 ret (ih_tos h);
            ret = NetUnparser_u16 ret (ih_len h);
            ret = NetUnparser_u16 ret (ih_id h);
            ret = NetUnparser_u16 ret (IPv4Header_fo_val h);
            ret = NetUnparser_u8 ret (ih_ttl h);
            ret = NetUnparser_u8 ret (ih_proto h);
            ret = NetUnparser_u16 ret (ih_cksum h);
            ret = NetUnparser_u32 ret (ih_src h);
            ret = NetUnparser_u32 ret (ih_dst h)
        in Inr (string_resize (4 * unat (ih_hlen h)) ret))"

definition IPv4Header_payload_length :: "IPv4Header \<Rightarrow> u16" where
  "IPv4Header_payload_length h = ih_len h - 4 * ucast (ih_hlen h)"

definition IPv4Header_pseudo_cksum :: "IPv4Header \<Rightarrow> u32" where
  "IPv4Header_pseudo_cksum h =
     (let pcksum = drop_bit 16 (ih_src h) + (ih_src h AND 0xffff);
          pcksum = pcksum + (drop_bit 16 (ih_dst h) + (ih_dst h AND 0xffff));
          pcksum = pcksum + ucast (ih_proto h);
          pcksum = pcksum + ucast (IPv4Header_payload_length h)
      in pcksum)"

section \<open>IPv4Datagram\<close>

record IPv4Datagram =
  id_header :: IPv4Header
  id_payload :: BufferList

definition IPv4Datagram_default :: IPv4Datagram where
  "IPv4Datagram_default = \<lparr>id_header = IPv4Header_default, id_payload = []\<rparr>"

definition IPv4Datagram_parse :: "Buffer \<Rightarrow> IPv4Datagram \<Rightarrow> (ParseResult \<times> IPv4Datagram) res" where
  "IPv4Datagram_parse buffer d =
     bind_res (IPv4Header_parse (id_header d) (NetParser_new buffer)) (\<lambda>((_, h), p).
     let d = \<lparr>id_header = h, id_payload = BufferList_of_Buffer (np_buffer p)\<rparr> in
     if BufferList_size (id_payload d) \<noteq> ucast (IPv4Header_payload_length h) then Inr (PacketTooShort, d)
     else Inr (np_error p, d))"

definition IPv4Datagram_serialize :: "IPv4Datagram \<Rightarrow> BufferList res" where
  "IPv4Datagram_serialize d =
     (if BufferList_size (id_payload d) \<noteq> ucast (IPv4Header_payload_length (id_header d))
      then Inl (Runtime_error ''IPv4Datagram::serialize: payload is wrong size'')
      else
        let header_out = (id_header d)\<lparr>ih_cksum := 0\<rparr> in
        bind_res (IPv4Header_serialize header_out) (\<lambda>header_zero_checksum.
        let check = InternetChecksum_add header_zero_checksum (InternetChecksum_new 0);
            header_out = header_out\<lparr>ih_cksum := InternetChecksum_value check\<rparr>
        in
        bind_res (IPv4Header_serialize header_out) (\<lambda>header_string.
        let ret = BufferList_append [] (BufferList_of_string header_string);
            ret = BufferList_append ret (id_payload d)
        in Inr ret)))"

section \<open>The wire format of the header\<close>

lemma bit_and_numerals:
  "(w :: u16) AND 0x4000 \<noteq> 0 \<longleftrightarrow> bit w 14" "(w :: u16) AND 0x2000 \<noteq> 0 \<longleftrightarrow> bit w 13"
  using and_exp_eq_0_iff_not_bit [of w 14] and_exp_eq_0_iff_not_bit [of w 13] by simp_all

lemma and_masks: "(w :: u16) AND 0x1fff = take_bit 13 w" "(b :: u8) AND 0xf = take_bit 4 b"
  by (simp_all add: take_bit_eq_mask mask_eq_exp_minus_1)

lemma fo_val_fields:
  "IPv4Header_fo_val h AND 0x4000 \<noteq> 0 \<longleftrightarrow> ih_df h"
  "IPv4Header_fo_val h AND 0x2000 \<noteq> 0 \<longleftrightarrow> ih_mf h"
  "unat (ih_offset h) < 2 ^ 13 \<Longrightarrow> IPv4Header_fo_val h AND 0x1fff = ih_offset h"
proof -
  let ?o = "ih_offset h"
  show "IPv4Header_fo_val h AND 0x4000 \<noteq> 0 \<longleftrightarrow> ih_df h" "IPv4Header_fo_val h AND 0x2000 \<noteq> 0 \<longleftrightarrow> ih_mf h"
    unfolding bit_and_numerals by (auto simp: IPv4Header_fo_val_def and_masks bit_simps)
  assume "unat ?o < 2 ^ 13"
  then have "take_bit 13 ?o = ?o" by (simp add: word_unat_eq_iff unsigned_take_bit_eq take_bit_nat_eq_self)
  then show "IPv4Header_fo_val h AND 0x1fff = ?o"
    by (auto simp: IPv4Header_fo_val_def and_masks)
qed

lemma first_byte_fields:
  assumes "ih_ver h = 4" and "unat (ih_hlen h) < 16"
  shows "drop_bit 4 (IPv4Header_first_byte h) = 4" "IPv4Header_first_byte h AND 0x0f = ih_hlen h"
proof -
  have "take_bit 4 (ih_hlen h) = ih_hlen h"
    using assms(2) by (simp add: word_unat_eq_iff unsigned_take_bit_eq take_bit_nat_eq_self)
  then show "IPv4Header_first_byte h AND 0x0f = ih_hlen h"
    using assms(1) by (simp add: IPv4Header_first_byte_def and_masks)
  show "drop_bit 4 (IPv4Header_first_byte h) = 4"
    using assms(1) by (simp add: IPv4Header_first_byte_def and_masks drop_bit_take_bit)
qed

text \<open>The ten bytes before the checksum field, the eight after it, and the options as zeros.\<close>

definition ip_prefix :: "IPv4Header \<Rightarrow> byte list" where
  "ip_prefix h =
     NetUnparser_u8 [] (IPv4Header_first_byte h) @ NetUnparser_u8 [] (ih_tos h) @
     NetUnparser_u16 [] (ih_len h) @ NetUnparser_u16 [] (ih_id h) @
     NetUnparser_u16 [] (IPv4Header_fo_val h) @ NetUnparser_u8 [] (ih_ttl h) @ NetUnparser_u8 [] (ih_proto h)"

definition ip_addresses :: "IPv4Header \<Rightarrow> byte list" where
  "ip_addresses h = NetUnparser_u32 [] (ih_src h) @ NetUnparser_u32 [] (ih_dst h)"

definition ip_suffix :: "IPv4Header \<Rightarrow> byte list" where
  "ip_suffix h = ip_addresses h @ replicate (4 * unat (ih_hlen h) - 20) 0"

lemma ip_parts [simp]:
  "length (ip_prefix h) = 10" "length (ip_addresses h) = 8"
  "ip_prefix (h\<lparr>ih_cksum := c\<rparr>) = ip_prefix h" "ip_suffix (h\<lparr>ih_cksum := c\<rparr>) = ip_suffix h"
  by (simp_all add: ip_prefix_def ip_addresses_def ip_suffix_def IPv4Header_first_byte_def IPv4Header_fo_val_def)

lemma ip_suffix_length: "5 \<le> unat (ih_hlen h) \<Longrightarrow> 12 + length (ip_suffix h) = 4 * unat (ih_hlen h)"
  by (simp add: ip_suffix_def)

lemma hlen_words: "unat (4 * ucast (b :: u8) :: size_t) = 4 * unat b" "unat (ucast b * 4 :: size_t) = 4 * unat b"
proof -
  have "unat b < 256" using unat_lt8 [of b] by (simp del: unat_lt8)
  moreover have "unat (ucast b :: size_t) = unat b" by (rule unat_ucast_up) simp
  ultimately show "unat (4 * ucast b :: size_t) = 4 * unat b" "unat (ucast b * 4 :: size_t) = 4 * unat b"
    by (simp_all add: unat_word_ariths del: unat_lt8)
qed

lemma hlen_skip: "5 \<le> unat b \<Longrightarrow> unat (ucast (b :: u8) * 4 - IPv4Header_LENGTH) = 4 * unat b - 20"
  by (subst unat_sub) (simp_all add: hlen_words IPv4Header_LENGTH_def word_le_nat_alt)

lemma ip_header_serialize_eq:
  assumes "ih_ver h = 4" and "5 \<le> unat (ih_hlen h)"
  shows "IPv4Header_serialize h = Inr (ip_prefix h @ NetUnparser_u16 [] (ih_cksum h) @ ip_suffix h)"
proof -
  have "\<not> 4 * ucast (ih_hlen h) < IPv4Header_LENGTH"
    using assms(2) by (simp add: word_less_nat_alt hlen_words IPv4Header_LENGTH_def)
  moreover have "string_resize (4 * unat (ih_hlen h)) (xs @ ys) = xs @ ys @ replicate (4 * unat (ih_hlen h) - 20) 0"
    if "length xs + length ys = 20" for xs ys
    using assms(2) that by (simp add: string_resize_def)
  ultimately show ?thesis
    using assms(1)
    by (simp add: IPv4Header_serialize_def Let_def unparse_append [where s = "_ @ _"]
        unparse_append [where s = "NetUnparser_u8 [] _"] ip_prefix_def ip_suffix_def ip_addresses_def)
qed

lemma ip_parse_fields_ok:
  assumes "ih_ver h = 4" and "unat (ih_hlen h) < 16" and "unat (ih_offset h) < 2 ^ 13"
  shows "parse_ok IPv4Header_parse_fields
    (ip_prefix h @ NetUnparser_u16 [] (ih_cksum h) @ ip_addresses h @ rest) h rest"
  unfolding IPv4Header_parse_fields_def ip_prefix_def ip_addresses_def append_assoc
  by (rule parse_ok_bind, rule parse_ok_ints)+
    (use first_byte_fields [OF assms(1,2)] fo_val_fields [of h] assms parse_ok_return [of h rest] in
      \<open>cases h, simp\<close>)

lemma u16_at:
  assumes "k + 2 \<le> length s"
  shows "\<exists>v. parse_ok NetParser_u16 (drop k s) v (drop (k + 2) s) \<and>
    unat v = 256 * unat (s ! k) + unat (s ! (k + 1))"
proof -
  obtain v where v: "drop k s = NetUnparser_u16 [] v @ drop 2 (drop k s)"
    "parse_ok NetParser_u16 (drop k s) v (drop 2 (drop k s))"
    by (rule c16.dec_any [of "drop k s"]) (use assms in auto)
  have "drop k s = s ! k # s ! (k + 1) # drop (k + 2) s"
    using assms by (simp add: Cons_nth_drop_Suc)
  then have "NetUnparser_u16 [] v = [s ! k, s ! (k + 1)]"
    using v(1) arg_cong [of _ _ "take 2"] by fastforce
  then have "unat v = 256 * unat (s ! k) + unat (s ! (k + 1))"
    using word_sum_u16 [of v] by simp
  with v(2) show ?thesis by (auto simp: add.commute)
qed

text \<open>The fields of arbitrary bytes that the parsers decide on.\<close>

definition wire_ver :: "byte list \<Rightarrow> nat" where "wire_ver s = unat (s ! 0) div 16"
definition wire_hlen :: "byte list \<Rightarrow> nat" where "wire_hlen s = unat (s ! 0) mod 16"
definition wire_len :: "byte list \<Rightarrow> nat" where "wire_len s = 256 * unat (s ! 2) + unat (s ! 3)"

lemma low_nibble: "unat ((b :: u8) AND 0x0f) = unat b mod 16"
  by (simp add: and_masks unsigned_take_bit_eq) (simp add: take_bit_eq_mod)

lemma ip_parse_fields_any:
  assumes "20 \<le> length s"
  shows "\<exists>h. parse_ok IPv4Header_parse_fields s h (drop 20 s) \<and> unat (ih_ver h) = wire_ver s \<and>
    unat (ih_hlen h) = wire_hlen s \<and> unat (ih_len h) = wire_len s"
proof -
  note at8 = u8_at [where s = s] and at16 = c16.dec_at [where s = s] and at32 = c32.dec_at [where s = s]
  have "0 < length s" using assms by linarith
  then have "parse_ok NetParser_u8 s (s ! 0) (drop 1 s)" using at8 [of 0] by simp
  moreover have "parse_ok NetParser_u8 (drop 1 s) (s ! 1) (drop 2 s)"
    using at8 [of 1] assms by (simp add: numeral_2_eq_2)
  moreover obtain len where "parse_ok NetParser_u16 (drop 2 s) len (drop 4 s)" and len: "unat len = wire_len s"
    using u16_at [of 2 s] assms by (auto simp: wire_len_def)
  moreover obtain i f where "parse_ok NetParser_u16 (drop 4 s) i (drop 6 s)"
    "parse_ok NetParser_u16 (drop 6 s) f (drop 8 s)"
    using at16 [of 4] at16 [of 6] assms by auto
  moreover have "parse_ok NetParser_u8 (drop 8 s) (s ! 8) (drop 9 s)"
    "parse_ok NetParser_u8 (drop 9 s) (s ! 9) (drop 10 s)"
    using at8 [of 8] at8 [of 9] assms by simp_all
  moreover obtain c src dst where "parse_ok NetParser_u16 (drop 10 s) c (drop 12 s)"
    "parse_ok NetParser_u32 (drop 12 s) src (drop 16 s)" "parse_ok NetParser_u32 (drop 16 s) dst (drop 20 s)"
    using at16 [of 10] at32 [of 12] at32 [of 16] assms by auto
  ultimately have "\<exists>h. parse_ok IPv4Header_parse_fields s h (drop 20 s) \<and> ih_ver h = drop_bit 4 (s ! 0) \<and>
      ih_hlen h = s ! 0 AND 0x0f \<and> ih_len h = len"
    unfolding IPv4Header_parse_fields_def
    by - (rule exI, rule conjI, (rule parse_ok_bind, assumption)+, rule parse_ok_return, simp)
  then obtain h where "parse_ok IPv4Header_parse_fields s h (drop 20 s)" "ih_ver h = drop_bit 4 (s ! 0)"
      "ih_hlen h = s ! 0 AND 0x0f" "ih_len h = len" by blast
  then show ?thesis
    using len by (intro exI [of _ h]) (simp add: wire_ver_def wire_hlen_def high_nibble low_nibble)
qed

definition ip_verdict :: "byte list \<Rightarrow> ParseResult" where
  "ip_verdict s =
     (if length s < 20 \<or> length s < 4 * wire_hlen s then PacketTooShort
      else if wire_ver s \<noteq> 4 then WrongIPVersion
      else if wire_hlen s < 5 then HeaderTooShort
      else if length s \<noteq> wire_len s then TruncatedPacket
      else if checksum_of 0 (take (4 * wire_hlen s) s) \<noteq> 0 then BadChecksum
      else NoError)"

definition ip_consumed :: "byte list \<Rightarrow> nat" where
  "ip_consumed s =
     (if length s < 20 then 0
      else if ip_verdict s = NoError \<or> ip_verdict s = BadChecksum then 4 * wire_hlen s else 20)"

definition header_of_wire :: "IPv4Header \<Rightarrow> byte list \<Rightarrow> bool" where
  "header_of_wire h s \<longleftrightarrow>
     unat (ih_ver h) = wire_ver s \<and> unat (ih_hlen h) = wire_hlen s \<and> unat (ih_len h) = wire_len s"

lemma ip_header_parse_long:
  assumes at: "parser_at p s" and long: "20 \<le> length s"
  shows "\<exists>h p'. IPv4Header_parse old p = Inr ((ip_verdict s, h), p') \<and>
    parser_at p' (drop (ip_consumed s) s) \<and> header_of_wire h s \<and>
    (\<forall>h'. parse_ok IPv4Header_parse_fields s h' (drop 20 s) \<longrightarrow> h' = h)"
proof -
  have wf: "Buffer_wf (np_buffer p)" and str: "np_str p = s" using at by (auto simp: parser_at_def)
  have size: "unat (Buffer_size (np_buffer p)) = length s"
    using at by (rule parser_at_size)
  obtain h where "parse_ok IPv4Header_parse_fields s h (drop 20 s)" and hw: "header_of_wire h s"
    using ip_parse_fields_any [OF long] by (auto simp: header_of_wire_def)
  then obtain p1 where 1: "IPv4Header_parse_fields p = Inr (h, p1)" "parser_at p1 (drop 20 s)"
    using at by (auto simp: parse_ok_def)
  have only: "\<forall>h'. parse_ok IPv4Header_parse_fields s h' (drop 20 s) \<longrightarrow> h' = h"
    using 1(1) at by (fastforce simp: parse_ok_def)
  have words: "Buffer_size (np_buffer p) < IPv4Header_LENGTH \<longleftrightarrow> False"
    "Buffer_size (np_buffer p) < 4 * ucast (ih_hlen h) \<longleftrightarrow> length s < 4 * wire_hlen s"
    "ih_ver h \<noteq> 4 \<longleftrightarrow> wire_ver s \<noteq> 4" "ih_hlen h < 5 \<longleftrightarrow> wire_hlen s < 5"
    "Buffer_size (np_buffer p) \<noteq> ucast (ih_len h) \<longleftrightarrow> length s \<noteq> wire_len s"
    using size hw long unat_ucast_up [of "ih_len h", where 'b = 64]
    by (simp_all add: word_less_nat_alt word_unat_eq_iff hlen_words IPv4Header_LENGTH_def header_of_wire_def)
  show ?thesis
  proof (cases "length s < 4 * wire_hlen s \<or> wire_ver s \<noteq> 4 \<or> wire_hlen s < 5 \<or> length s \<noteq> wire_len s")
    case True
    then have "ip_verdict s \<noteq> NoError \<and> ip_verdict s \<noteq> BadChecksum" by (auto simp: ip_verdict_def)
    then have "ip_consumed s = 20" using long by (simp add: ip_consumed_def)
    with True 1 hw long only show ?thesis
      by (simp add: IPv4Header_parse_def Let_def words) (auto simp: ip_verdict_def)
  next
    case False
    let ?n = "ucast (ih_hlen h) * 4 - IPv4Header_LENGTH"
    have n: "unat ?n = 4 * wire_hlen s - 20" using hlen_skip [of "ih_hlen h"] hw False by (simp add: header_of_wire_def)
    have "drop 20 s = take (unat ?n) (drop 20 s) @ drop (4 * wire_hlen s) s"
      using False n append_take_drop_id [of "4 * wire_hlen s - 20" "drop 20 s"] by (simp del: append_take_drop_id)
    moreover have "4 * wire_hlen s - 20 \<le> length (drop 20 s)" using False by (simp add: diff_le_mono)
    then have "length (take (unat ?n) (drop 20 s)) = unat ?n" using n by simp
    ultimately obtain p2 where 2: "NetParser_remove_prefix ?n p1 = Inr ((), p2)" "parser_at p2 (drop (4 * wire_hlen s) s)"
      using remove_prefix_ok [of "take (unat ?n) (drop 20 s)" ?n "drop (4 * wire_hlen s) s"] 1(2)
      by (auto simp: parse_ok_def)
    have "ip_consumed s = 4 * wire_hlen s" using False long by (simp add: ip_consumed_def ip_verdict_def)
    moreover have "ip_verdict s = (if checksum_of 0 (take (4 * wire_hlen s) s) \<noteq> 0 then BadChecksum else NoError)"
      using False long by (simp add: ip_verdict_def)
    moreover have "np_error p2 = NoError" using 2(2) by (simp add: parser_at_def)
    ultimately show ?thesis
      using False 1 2 hw str only
      by (simp add: IPv4Header_parse_def Let_def words NetParser_error_def checksum_of_def header_of_wire_def)
  qed
qed

lemma ip_header_parse_short:
  assumes "parser_at p s" and "length s < 20"
  shows "IPv4Header_parse old p = Inr ((PacketTooShort, old), p)"
proof -
  have "unat (Buffer_size (np_buffer p)) = length s"
    using assms(1) by (rule parser_at_size)
  then have "Buffer_size (np_buffer p) < IPv4Header_LENGTH"
    using assms(2) by (simp add: word_less_nat_alt IPv4Header_LENGTH_def)
  then show ?thesis by (simp add: IPv4Header_parse_def Let_def)
qed

lemma datagram_parse_any:
  assumes "Buffer_wf b"
  shows "\<exists>r d'. IPv4Datagram_parse b d = Inr (r, d')"
proof -
  have at: "parser_at (NetParser_new b) (Buffer_str b)" by (rule parser_at_new_buffer [OF assms])
  obtain r h p where "IPv4Header_parse (id_header d) (NetParser_new b) = Inr ((r, h), p)"
    using ip_header_parse_short [OF at] ip_header_parse_long [OF at] by (metis not_less)
  then show ?thesis by (simp add: IPv4Datagram_parse_def Let_def)
qed

lemma pseudo_cksum_bound: "unat (IPv4Header_pseudo_cksum h) < 2 ^ 20"
proof -
  have half: "unat (drop_bit 16 (w :: u32) + (w AND 0xffff)) \<le> 131070" for w
  proof -
    have "unat w div 65536 < 65536" using unat_lt32 [of w] by (simp del: unat_lt32 add: div_less_iff_less_mult)
    moreover have "unat w mod 65536 < 65536" by simp
    ultimately show ?thesis unfolding fold_carry_unat by linarith
  qed
  have "unat (a + b) \<le> m + n" if "unat a \<le> m" "unat b \<le> n" for a b :: u32 and m n
    using that mod_less_eq_dividend [of "unat a + unat b" "2 ^ 32"] by (simp add: unat_word_ariths)
  note add = this
  have "unat (ucast (ih_proto h) :: u32) \<le> 255"
    using unat_ucast_up [of "ih_proto h", where 'b = 32] unat_lt8 [of "ih_proto h"] by (simp del: unat_lt8)
  moreover have "unat (ucast (IPv4Header_payload_length h) :: u32) \<le> 65535"
    using unat_ucast_up [of "IPv4Header_payload_length h", where 'b = 32] unat_lt16 [of "IPv4Header_payload_length h"]
    by (simp del: unat_lt16)
  ultimately have "unat (IPv4Header_pseudo_cksum h) \<le> 131070 + 131070 + 255 + 65535"
    unfolding IPv4Header_pseudo_cksum_def Let_def by (intro add half)
  then show ?thesis by simp
qed

section \<open>Serialising and parsing a datagram\<close>

definition datagram_ok :: "IPv4Datagram \<Rightarrow> bool" where
  "datagram_ok d \<longleftrightarrow>
     ih_ver (id_header d) = 4 \<and> 5 \<le> unat (ih_hlen (id_header d)) \<and> unat (ih_hlen (id_header d)) < 16 \<and>
     unat (ih_offset (id_header d)) < 2 ^ 13 \<and>
     unat (ih_len (id_header d)) =
       4 * unat (ih_hlen (id_header d)) + length (BufferList_concatenate (id_payload d))"

definition datagram_wire :: "IPv4Datagram \<Rightarrow> byte list" where
  "datagram_wire d =
     (let h = id_header d; c = checksum_of 0 (ip_prefix h @ NetUnparser_u16 [] 0 @ ip_suffix h) in
      ip_prefix h @ NetUnparser_u16 [] c @ ip_suffix h @ BufferList_concatenate (id_payload d))"

lemma ok_payload_length:
  assumes "datagram_ok d"
  shows "unat (IPv4Header_payload_length (id_header d)) = length (BufferList_concatenate (id_payload d))"
proof -
  let ?h = "id_header d"
  have "unat (ucast (ih_hlen ?h) :: u16) = unat (ih_hlen ?h)" by (rule unat_ucast_up) simp
  then have "unat (4 * ucast (ih_hlen ?h) :: u16) = 4 * unat (ih_hlen ?h)"
    using assms by (simp add: unat_word_ariths datagram_ok_def)
  then show ?thesis
    using assms unfolding IPv4Header_payload_length_def
    by (subst unat_sub) (simp_all add: word_le_nat_alt datagram_ok_def)
qed

lemma datagram_serialize_eq:
  assumes "datagram_ok d"
  shows "\<exists>bl. IPv4Datagram_serialize d = Inr bl \<and> BufferList_concatenate bl = datagram_wire d"
proof -
  let ?h = "id_header d"
  define c where "c = checksum_of 0 (ip_prefix ?h @ NetUnparser_u16 [] 0 @ ip_suffix ?h)"
  have ser: "IPv4Header_serialize (?h\<lparr>ih_cksum := x\<rparr>) =
      Inr (ip_prefix ?h @ NetUnparser_u16 [] x @ ip_suffix ?h)" for x
    using ip_header_serialize_eq [of "?h\<lparr>ih_cksum := x\<rparr>"] assms by (simp add: datagram_ok_def)
  have "length (BufferList_concatenate (id_payload d)) < 2 ^ 64"
    using assms unat_lt16 [of "ih_len ?h"] by (simp add: datagram_ok_def del: unat_lt16)
  then have "BufferList_size (id_payload d) = ucast (IPv4Header_payload_length ?h)"
    using ok_payload_length [OF assms] unat_ucast_up [of "IPv4Header_payload_length ?h", where 'b = 64]
    by (simp add: BufferList_size_eq word_unat_eq_iff)
  then have "IPv4Datagram_serialize d =
      Inr (Buffer_of_string (ip_prefix ?h @ NetUnparser_u16 [] c @ ip_suffix ?h) # id_payload d)"
    using ser [of 0] ser [of c]
    by (simp add: IPv4Datagram_serialize_def Let_def BufferList_of_string_def BufferList_of_Buffer_def
        c_def checksum_of_def)
  then show ?thesis by (simp add: datagram_wire_def c_def Let_def BufferList_concatenate_eq)
qed

lemma wire_parse:
  assumes ok: "datagram_ok d" and at: "parser_at p (datagram_wire d)"
  shows "\<exists>c p'. IPv4Header_parse old p = Inr ((NoError, (id_header d)\<lparr>ih_cksum := c\<rparr>), p') \<and>
    parser_at p' (BufferList_concatenate (id_payload d))"
proof -
  let ?h = "id_header d" and ?pay = "BufferList_concatenate (id_payload d)"
  define c where "c = checksum_of 0 (ip_prefix ?h @ NetUnparser_u16 [] 0 @ ip_suffix ?h)"
  define s where "s = datagram_wire d"
  have h: "ih_ver ?h = 4" "5 \<le> unat (ih_hlen ?h)" "unat (ih_hlen ?h) < 16" "unat (ih_offset ?h) < 2 ^ 13"
    "unat (ih_len ?h) = 4 * unat (ih_hlen ?h) + length ?pay" using ok by (auto simp: datagram_ok_def)
  have s: "s = (ip_prefix ?h @ NetUnparser_u16 [] c @ ip_suffix ?h) @ ?pay"
    by (simp add: s_def c_def datagram_wire_def Let_def)
  have hd: "length (ip_prefix ?h @ NetUnparser_u16 [] x @ ip_suffix ?h) = 4 * unat (ih_hlen ?h)" for x
    using ip_suffix_length [OF h(2)] by simp
  then have len: "length s = unat (ih_len ?h)" using h(5) s by simp
  have "drop 20 s = replicate (4 * unat (ih_hlen ?h) - 20) 0 @ ?pay" by (simp add: s ip_suffix_def)
  then have fields: "parse_ok IPv4Header_parse_fields s (?h\<lparr>ih_cksum := c\<rparr>) (drop 20 s)"
    using ip_parse_fields_ok [of "?h\<lparr>ih_cksum := c\<rparr>" "drop 20 s"] h by (simp add: s ip_suffix_def ip_addresses_def)
  have long: "20 \<le> length s" using len h by simp
  obtain h' p' where p': "IPv4Header_parse old p = Inr ((ip_verdict s, h'), p')"
    "parser_at p' (drop (ip_consumed s) s)" "header_of_wire h' s" "?h\<lparr>ih_cksum := c\<rparr> = h'"
    using ip_header_parse_long [OF at [folded s_def] long, of old] fields by blast
  then have w: "wire_ver s = 4" "wire_hlen s = unat (ih_hlen ?h)" "wire_len s = length s"
    using h(1) len by (auto simp: header_of_wire_def)
  have "summable 0 (ip_prefix ?h @ NetUnparser_u16 [] 0 @ ip_suffix ?h)"
    using hd h(3) by (simp add: summable_def)
  then have "checksum_of 0 (ip_prefix ?h @ NetUnparser_u16 [] c @ ip_suffix ?h) = 0"
    by (rule checksum_insert) (simp_all add: c_def)
  moreover have "take (4 * unat (ih_hlen ?h)) s = ip_prefix ?h @ NetUnparser_u16 [] c @ ip_suffix ?h"
    unfolding s using hd [of c] by simp
  ultimately have "ip_verdict s = NoError" using w h len by (simp add: ip_verdict_def)
  moreover from this have "drop (ip_consumed s) s = ?pay"
    using long w s hd [of c] by (simp add: ip_consumed_def)
  ultimately show ?thesis using p' by auto
qed

lemma datagram_parse_buffer:
  assumes ok: "datagram_ok d" and wf: "Buffer_wf b" and s: "Buffer_str b = datagram_wire d"
  shows "\<exists>c b'. IPv4Datagram_parse b old = Inr (NoError, \<lparr>id_header = (id_header d)\<lparr>ih_cksum := c\<rparr>, id_payload = [b']\<rparr>) \<and>
    Buffer_wf b' \<and> Buffer_str b' = BufferList_concatenate (id_payload d)"
proof -
  let ?pay = "BufferList_concatenate (id_payload d)"
  have fits: "length ?pay < 2 ^ 64"
    using ok unat_lt16 [of "ih_len (id_header d)"] by (auto simp: datagram_ok_def simp del: unat_lt16)
  obtain c p where p: "IPv4Header_parse (id_header old) (NetParser_new b) =
      Inr ((NoError, (id_header d)\<lparr>ih_cksum := c\<rparr>), p)" "parser_at p ?pay"
    using wire_parse [OF ok] parser_at_new_buffer [OF wf] s by metis
  have "BufferList_size (BufferList_of_Buffer (np_buffer p)) =
      ucast (IPv4Header_payload_length ((id_header d)\<lparr>ih_cksum := c\<rparr>))"
    using p(2) fits ok_payload_length [OF ok]
      unat_ucast_up [of "IPv4Header_payload_length (id_header d)", where 'b = 64]
    by (simp add: BufferList_size_eq BufferList_of_Buffer_def BufferList_concatenate_eq parser_at_def
        word_unat_eq_iff IPv4Header_payload_length_def)
  then have "IPv4Datagram_parse b old =
      Inr (NoError, \<lparr>id_header = (id_header d)\<lparr>ih_cksum := c\<rparr>, id_payload = [np_buffer p]\<rparr>)"
    using p by (simp add: IPv4Datagram_parse_def Let_def BufferList_of_Buffer_def parser_at_def)
  then show ?thesis using p(2) by (auto simp: parser_at_def)
qed

lemma datagram_parse_wire:
  assumes "datagram_ok d" and "Buffer_wf b" and "Buffer_str b = datagram_wire d"
  shows "\<exists>d' c. IPv4Datagram_parse b old = Inr (NoError, d') \<and> id_header d' = (id_header d)\<lparr>ih_cksum := c\<rparr> \<and>
    BufferList_concatenate (id_payload d') = BufferList_concatenate (id_payload d)"
  using datagram_parse_buffer [OF assms, of old] by (auto simp: BufferList_concatenate_eq)

section \<open>Properties\<close>

text \<open>C36. An Internet datagram survives the wire. Serialising a datagram with version 4, a legal header
  length, a fragment offset of 13 bits and a total length that matches its payload does not throw;
  the header parser, which checks the header checksum, accepts the bytes, and parsing them as a datagram
  reports no error and returns the same header, up to the checksum field, and the same payload.\<close>

theorem datagram_roundtrip:
  assumes "datagram_ok d"
  shows "\<exists>bl d' c. IPv4Datagram_serialize d = Inr bl \<and>
    (\<exists>p. IPv4Header_parse (id_header old) (NetParser_new (Buffer_of_string (BufferList_concatenate bl))) =
       Inr ((NoError, id_header d'), p)) \<and>
    IPv4Datagram_parse (Buffer_of_string (BufferList_concatenate bl)) old = Inr (NoError, d') \<and>
    id_header d' = (id_header d)\<lparr>ih_cksum := c\<rparr> \<and>
    BufferList_concatenate (id_payload d') = BufferList_concatenate (id_payload d)"
proof -
  let ?b = "Buffer_of_string (datagram_wire d)"
  obtain bl where bl: "IPv4Datagram_serialize d = Inr bl" "BufferList_concatenate bl = datagram_wire d"
    using datagram_serialize_eq [OF assms] by blast
  have "length (datagram_wire d) < 2 ^ 64"
    using assms ip_suffix_length [of "id_header d"] unat_lt16 [of "ih_len (id_header d)"]
    by (auto simp: datagram_ok_def datagram_wire_def Let_def simp del: unat_lt16)
  then have wf: "Buffer_wf ?b" by simp
  obtain d' c where d': "IPv4Datagram_parse ?b old = Inr (NoError, d')" "id_header d' = (id_header d)\<lparr>ih_cksum := c\<rparr>"
    "BufferList_concatenate (id_payload d') = BufferList_concatenate (id_payload d)"
    using datagram_parse_wire [OF assms wf, of old] by auto
  obtain c' p where p: "IPv4Header_parse (id_header old) (NetParser_new ?b) = Inr ((NoError, (id_header d)\<lparr>ih_cksum := c'\<rparr>), p)"
    using wire_parse [OF assms] parser_at_new_buffer [OF wf] by (metis Buffer_str_of_string)
  then have "id_header d' = (id_header d)\<lparr>ih_cksum := c'\<rparr>"
    using d'(1) by (auto simp: IPv4Datagram_parse_def Let_def split: if_splits)
  then show ?thesis using bl d' p by auto
qed

definition demo_datagram :: IPv4Datagram where
  "demo_datagram =
     \<lparr>id_header = IPv4Header_default\<lparr>ih_len := 23, ih_src := 0x0A000001, ih_dst := 0xC0A80002\<rparr>,
      id_payload = [Buffer_of_string [7], Buffer_of_string [8, 9]]\<rparr>"

lemma demo_datagram_ok: "datagram_ok demo_datagram"
  by (simp add: datagram_ok_def demo_datagram_def IPv4Header_default_def IPv4Header_LENGTH_def
      BufferList_concatenate_eq)

theorem datagram_roundtrip_witness:
  "datagram_ok demo_datagram \<and>
   (\<exists>bl d' c. IPv4Datagram_serialize demo_datagram = Inr bl \<and>
      IPv4Datagram_parse (Buffer_of_string (BufferList_concatenate bl)) IPv4Datagram_default = Inr (NoError, d') \<and>
      id_header d' = (id_header demo_datagram)\<lparr>ih_cksum := c\<rparr> \<and> BufferList_concatenate (id_payload d') = [7, 8, 9])"
proof -
  have ok: "datagram_ok demo_datagram" by (rule demo_datagram_ok)
  then show ?thesis
    using datagram_roundtrip [OF ok, of IPv4Datagram_default]
    by (simp add: demo_datagram_def BufferList_concatenate_eq) blast
qed

text \<open>What \<^verbatim>\<open>IPv4Header::parse\<close> answers on arbitrary bytes. It never throws, and checks in this
  order: fewer than 20 bytes, or fewer than the header length field says (\<^verbatim>\<open>PacketTooShort\<close>), a
  version other than 4, a header length below 5 words, a total length that differs from the number of
  bytes present, a wrong checksum over the header with its options. When it accepts, exactly the
  header has been consumed.\<close>

theorem ip_header_parse_result:
  assumes "Buffer_wf b"
  shows "\<exists>h p. IPv4Header_parse old (NetParser_new b) = Inr ((ip_verdict (Buffer_str b), h), p) \<and>
    (ip_verdict (Buffer_str b) = NoError \<longrightarrow>
       np_error p = NoError \<and> np_str p = drop (4 * wire_hlen (Buffer_str b)) (Buffer_str b))"
proof (cases "length (Buffer_str b) < 20")
  case True
  then have "ip_verdict (Buffer_str b) = PacketTooShort" by (simp add: ip_verdict_def)
  with True show ?thesis
    using ip_header_parse_short [OF parser_at_new_buffer [OF assms]] by simp
next
  case False
  then show ?thesis
    using ip_header_parse_long [OF parser_at_new_buffer [OF assms], of old]
    by (auto simp: parser_at_def ip_consumed_def)
qed

definition broken_datagram :: "byte list" where
  "broken_datagram = [0x45, 0, 0, 21, 0, 0, 0, 0, 64, 6, 0x12, 0x34, 0, 0, 0, 0, 0, 0, 0, 0, 99]"

theorem ip_header_parse_result_witness:
  "Buffer_wf (Buffer_of_string broken_datagram) \<and>
   (\<exists>h p. IPv4Header_parse IPv4Header_default (NetParser_new (Buffer_of_string broken_datagram)) =
      Inr ((BadChecksum, h), p))"
proof -
  have "ip_verdict broken_datagram = BadChecksum" by code_simp
  moreover have wf: "Buffer_wf (Buffer_of_string broken_datagram)" by (simp add: broken_datagram_def)
  ultimately show ?thesis using ip_header_parse_result [OF wf, of IPv4Header_default] by auto
qed

text \<open>C37. What \<^verbatim>\<open>IPv4Datagram::parse\<close> answers on fewer than 64 KiB of arbitrary bytes. It never throws, and
  answers \<^verbatim>\<open>NoError\<close> exactly when there are 20 bytes and what is left after those that the header parser
  consumed is as long as the two length fields say (modulo 65536), and \<^verbatim>\<open>PacketTooShort\<close> otherwise. The header
  parser consumes the header with its options when it accepts it or rejects only its checksum, and 20
  bytes when it rejects it for another reason; its verdict is dropped otherwise. So a wrong checksum
  never makes a difference, and a wrong version makes one only when the header has options.\<close>

theorem datagram_parse_result:
  assumes "Buffer_wf b" and "length (Buffer_str b) < 2 ^ 16"
  shows "\<exists>d. IPv4Datagram_parse b IPv4Datagram_default =
    Inr (if 20 \<le> length (Buffer_str b) \<and>
            length (Buffer_str b) - ip_consumed (Buffer_str b) =
              (wire_len (Buffer_str b) + 65536 - 4 * wire_hlen (Buffer_str b)) mod 65536
         then NoError else PacketTooShort, d)"
proof (cases "length (Buffer_str b) < 20")
  case True
  have "IPv4Header_parse IPv4Header_default (NetParser_new b) =
      Inr ((PacketTooShort, IPv4Header_default), NetParser_new b)"
    by (rule ip_header_parse_short [OF parser_at_new_buffer [OF assms(1)] True])
  moreover have "unat (ucast (IPv4Header_payload_length IPv4Header_default) :: size_t) = 65516"
    by (simp add: IPv4Header_payload_length_def IPv4Header_default_def IPv4Header_LENGTH_def)
  then have "BufferList_size (BufferList_of_Buffer b) \<noteq> ucast (IPv4Header_payload_length IPv4Header_default)"
    using True by (auto simp: BufferList_size_eq BufferList_concatenate_eq BufferList_of_Buffer_def word_unat_eq_iff)
  ultimately show ?thesis
    using True by (simp add: IPv4Datagram_parse_def IPv4Datagram_default_def NetParser_new_def)
next
  case False
  let ?s = "Buffer_str b"
  obtain h p where p: "IPv4Header_parse IPv4Header_default (NetParser_new b) = Inr ((ip_verdict ?s, h), p)"
    "parser_at p (drop (ip_consumed ?s) ?s)" "header_of_wire h ?s"
    using ip_header_parse_long [OF parser_at_new_buffer [OF assms(1)], of IPv4Header_default] False by force
  have "unat (ucast (ih_hlen h) :: u16) = wire_hlen ?s"
    using p(3) unat_ucast_up [of "ih_hlen h", where 'b = 16] by (simp add: header_of_wire_def)
  moreover have "wire_hlen ?s < 16" by (simp add: wire_hlen_def)
  ultimately have "unat (4 * ucast (ih_hlen h) :: u16) = 4 * wire_hlen ?s" by (simp add: unat_word_ariths)
  moreover have "(wire_len ?s + 65536 - 4 * wire_hlen ?s) mod 65536 = wire_len ?s - 4 * wire_hlen ?s"
    if "4 * wire_hlen ?s \<le> wire_len ?s"
  proof -
    have "wire_len ?s < 65536" using p(3) unat_lt16 [of "ih_len h"] by (simp add: header_of_wire_def del: unat_lt16)
    moreover have "wire_len ?s + 65536 - 4 * wire_hlen ?s = (wire_len ?s - 4 * wire_hlen ?s) + 65536"
      using that by simp
    ultimately show ?thesis by (simp only: mod_add_self2) simp
  qed
  ultimately have "unat (IPv4Header_payload_length h) = (wire_len ?s + 65536 - 4 * wire_hlen ?s) mod 65536"
    using p(3) \<open>wire_hlen ?s < 16\<close>
    by (simp add: IPv4Header_payload_length_def unat_sub_if_size word_size header_of_wire_def)
  moreover have "length ?s - ip_consumed ?s < 2 ^ 64" using assms(2) by simp
  ultimately have "BufferList_size (BufferList_of_Buffer (np_buffer p)) = ucast (IPv4Header_payload_length h) \<longleftrightarrow>
      length ?s - ip_consumed ?s = (wire_len ?s + 65536 - 4 * wire_hlen ?s) mod 65536"
    using p(2) unat_ucast_up [of "IPv4Header_payload_length h", where 'b = 64]
    by (simp add: word_unat_eq_iff BufferList_size_eq BufferList_concatenate_eq BufferList_of_Buffer_def parser_at_def)
  then show ?thesis
    using False p by (simp add: IPv4Datagram_parse_def IPv4Datagram_default_def parser_at_def Let_def)
qed

theorem datagram_parse_result_witness:
  "Buffer_wf (Buffer_of_string broken_datagram) \<and> length broken_datagram < 2 ^ 16 \<and>
   ip_verdict broken_datagram = BadChecksum \<and>
   (\<exists>d. IPv4Datagram_parse (Buffer_of_string broken_datagram) IPv4Datagram_default = Inr (NoError, d))"
proof -
  have v: "ip_verdict broken_datagram = BadChecksum" by code_simp
  have wf: "Buffer_wf (Buffer_of_string broken_datagram)" "length broken_datagram < 2 ^ 16"
    by (simp_all add: broken_datagram_def)
  have "20 \<le> length broken_datagram" "length broken_datagram - ip_consumed broken_datagram =
      (wire_len broken_datagram + 65536 - 4 * wire_hlen broken_datagram) mod 65536"
    using v by (simp_all add: ip_consumed_def broken_datagram_def wire_len_def wire_hlen_def)
  then show ?thesis
    using datagram_parse_result [of "Buffer_of_string broken_datagram"] wf v by simp
qed

end
