(* ===== verification/EthernetFrames.thy ===== *)
theory EthernetFrames
  imports Parser
begin

text \<open>
  \<^verbatim>\<open>libsponge/tcp_helpers/ethernet_header.*\<close> and \<^verbatim>\<open>ethernet_frame.*\<close>: Ethernet frames and their
  wire format. An Ethernet address, \<^verbatim>\<open>std::array<uint8_t, 6>\<close>, is a list of six bytes.
\<close>

section \<open>Data and operations\<close>

type_synonym EthernetAddress = "byte list"

abbreviation eth_ok :: "EthernetAddress \<Rightarrow> bool" where
  "eth_ok a \<equiv> length a = 6"

definition ETHERNET_BROADCAST :: EthernetAddress where
  "ETHERNET_BROADCAST = [0xff, 0xff, 0xff, 0xff, 0xff, 0xff]"

record EthernetHeader =
  eh_dst :: EthernetAddress
  eh_src :: EthernetAddress
  eh_type :: u16

definition EthernetHeader_LENGTH :: size_t where "EthernetHeader_LENGTH = 14"
definition TYPE_IPv4 :: u16 where "TYPE_IPv4 = 0x800"
definition TYPE_ARP :: u16 where "TYPE_ARP = 0x806"

fun NetParser_bytes :: "nat \<Rightarrow> byte list parser" where
  "NetParser_bytes 0 = parser_return []"
| "NetParser_bytes (Suc n) =
     parser_bind NetParser_u8 (\<lambda>b. parser_bind (NetParser_bytes n) (\<lambda>bs. parser_return (b # bs)))"

definition NetUnparser_bytes :: "byte list \<Rightarrow> byte list \<Rightarrow> byte list" where
  "NetUnparser_bytes s bytes = foldl NetUnparser_u8 s bytes"

definition EthernetHeader_parse :: "EthernetHeader \<Rightarrow> (ParseResult \<times> EthernetHeader) parser" where
  "EthernetHeader_parse header p =
     (if Buffer_size (np_buffer p) < EthernetHeader_LENGTH then Inr ((PacketTooShort, header), p)
      else
        parser_bind (NetParser_bytes 6) (\<lambda>dst.
        parser_bind (NetParser_bytes 6) (\<lambda>src.
        parser_bind NetParser_u16 (\<lambda>type p.
        Inr ((np_error p, \<lparr>eh_dst = dst, eh_src = src, eh_type = type\<rparr>), p)))) p)"

definition EthernetHeader_serialize :: "EthernetHeader \<Rightarrow> byte list" where
  "EthernetHeader_serialize h =
     (let ret = NetUnparser_bytes [] (eh_dst h);
          ret = NetUnparser_bytes ret (eh_src h);
          ret = NetUnparser_u16 ret (eh_type h)
      in ret)"

record EthernetFrame =
  ef_header :: EthernetHeader
  ef_payload :: BufferList

definition EthernetFrame_default :: EthernetFrame where
  "EthernetFrame_default =
     \<lparr>ef_header = \<lparr>eh_dst = replicate 6 0, eh_src = replicate 6 0, eh_type = 0\<rparr>, ef_payload = []\<rparr>"

definition EthernetFrame_parse :: "Buffer \<Rightarrow> EthernetFrame \<Rightarrow> (ParseResult \<times> EthernetFrame) res" where
  "EthernetFrame_parse buffer f =
     bind_res (EthernetHeader_parse (ef_header f) (NetParser_new buffer)) (\<lambda>((_, h), p).
     Inr (np_error p, \<lparr>ef_header = h, ef_payload = BufferList_of_Buffer (np_buffer p)\<rparr>))"

definition EthernetFrame_serialize :: "EthernetFrame \<Rightarrow> BufferList" where
  "EthernetFrame_serialize f =
     (let ret = BufferList_append [] (BufferList_of_string (EthernetHeader_serialize (ef_header f)));
          ret = BufferList_append ret (ef_payload f)
      in ret)"

definition hex_digit :: "nat \<Rightarrow> char" where
  "hex_digit n = ''0123456789abcdef'' ! n"

definition hex_byte :: "byte \<Rightarrow> string" where
  "hex_byte b = [hex_digit (unat b div 16), hex_digit (unat b mod 16)]"

fun EthernetAddress_to_string :: "EthernetAddress \<Rightarrow> string" where
  "EthernetAddress_to_string [] = ''''"
| "EthernetAddress_to_string [b] = hex_byte b"
| "EthernetAddress_to_string (b # bs) = hex_byte b @ '':'' @ EthernetAddress_to_string bs"

section \<open>Reading and writing byte arrays\<close>

lemma bytes_parse_ok: "parse_ok (NetParser_bytes (length bs)) (bs @ rest) bs rest"
proof (induction bs)
  case Nil
  show ?case by (simp add: parse_ok_return)
next
  case (Cons b bs)
  have "parse_ok NetParser_u8 (b # bs @ rest) b (bs @ rest)"
    using u8_at [of 0 "b # bs @ rest"] by simp
  then show ?case
    using Cons by (auto intro!: parse_ok_bind parse_ok_return)
qed

lemma bytes6_ok: "length bs = 6 \<Longrightarrow> parse_ok (NetParser_bytes 6) (bs @ rest) bs rest"
  using bytes_parse_ok [of bs rest] by simp

lemma u8_snoc: "NetUnparser_u8 s b = s @ [b]"
  using unparse_append(1) [of s b] by (simp add: unparse_u8)

lemma bytes_unparse [simp]: "NetUnparser_bytes s bs = s @ bs"
  unfolding NetUnparser_bytes_def by (induction bs arbitrary: s) (simp_all add: u8_snoc)

lemma bytes_any:
  assumes "k + n \<le> length s"
  shows "parse_ok (NetParser_bytes n) (drop k s) (take n (drop k s)) (drop (k + n) s)"
proof -
  have "drop k s = take n (drop k s) @ drop (k + n) s"
    using append_take_drop_id [of n "drop k s"] by (simp add: add.commute)
  moreover have "length (take n (drop k s)) = n" using assms by simp
  ultimately show ?thesis using bytes_parse_ok [of "take n (drop k s)" "drop (k + n) s"] by metis
qed

section \<open>Frames on the wire\<close>

lemma ethernet_header_parse_ok:
  assumes at: "parser_at p (EthernetHeader_serialize h @ rest)" and ok: "eth_ok (eh_dst h)" "eth_ok (eh_src h)"
  shows "\<exists>p'. EthernetHeader_parse old p = Inr ((NoError, h), p') \<and> parser_at p' rest"
proof -
  let ?read = "parser_bind (NetParser_bytes 6) (\<lambda>dst. parser_bind (NetParser_bytes 6) (\<lambda>src.
    parser_bind NetParser_u16 (\<lambda>type p. Inr ((np_error p, \<lparr>eh_dst = dst, eh_src = src, eh_type = type\<rparr>), p))))"
  have ser: "EthernetHeader_serialize h = eh_dst h @ eh_src h @ NetUnparser_u16 [] (eh_type h)"
    using unparse_append(2) [of "eh_dst h @ eh_src h"] by (simp add: EthernetHeader_serialize_def Let_def)
  have "unat (Buffer_size (np_buffer p)) = length (EthernetHeader_serialize h @ rest)"
    using at by (rule parser_at_size)
  then have "\<not> Buffer_size (np_buffer p) < EthernetHeader_LENGTH"
    using ok ser by (simp add: word_less_nat_alt EthernetHeader_LENGTH_def)
  moreover have "parse_ok ?read (EthernetHeader_serialize h @ rest) (NoError, h) rest"
    unfolding ser append_assoc
    by (rule parse_ok_bind, rule bytes6_ok, rule ok(1), rule parse_ok_bind, rule bytes6_ok, rule ok(2),
        rule parse_ok_bind, rule parse_ok_ints) (simp add: parse_ok_def parser_at_def)
  ultimately show ?thesis using at by (auto simp: EthernetHeader_parse_def parse_ok_def)
qed

lemma ethernet_header_parse_any:
  assumes at: "parser_at p s"
  shows "\<exists>r h p'. EthernetHeader_parse old p = Inr ((r, h), p') \<and> np_error p' = NoError \<and>
    (if length s < 14 then r = PacketTooShort \<and> h = old \<and> np_str p' = s
     else r = NoError \<and> eh_dst h = take 6 s \<and> eh_src h = take 6 (drop 6 s) \<and> np_str p' = drop 14 s)"
proof (cases "length s < 14")
  case True
  have "unat (Buffer_size (np_buffer p)) = length s"
    using at by (rule parser_at_size)
  then have "Buffer_size (np_buffer p) < EthernetHeader_LENGTH"
    using True by (simp add: word_less_nat_alt EthernetHeader_LENGTH_def)
  then show ?thesis using True at by (simp add: EthernetHeader_parse_def parser_at_def)
next
  case False
  obtain t where t: "drop 12 s = NetUnparser_u16 [] t @ drop 14 s"
    by (rule c16.dec_any [of "drop 12 s"]) (use False in auto)
  let ?h = "\<lparr>eh_dst = take 6 s, eh_src = take 6 (drop 6 s), eh_type = t\<rparr>"
  have "s = take 6 s @ take 6 (drop 6 s) @ drop 12 s"
    using append_take_drop_id [of 6 s] append_take_drop_id [of 6 "drop 6 s"] by (simp del: append_take_drop_id)
  then have "s = EthernetHeader_serialize ?h @ drop 14 s"
    using t unparse_append(2) [of "take 6 s @ take 6 (drop 6 s)" t]
    by (simp add: EthernetHeader_serialize_def Let_def)
  then obtain p' where "EthernetHeader_parse old p = Inr ((NoError, ?h), p')" "parser_at p' (drop 14 s)"
    using ethernet_header_parse_ok [of p ?h "drop 14 s" old] at False by auto
  with False show ?thesis by (auto simp: parser_at_def)
qed

definition on_wire :: "EthernetFrame \<Rightarrow> byte list" where
  "on_wire f = BufferList_concatenate (EthernetFrame_serialize f)"

lemma frame_wire:
  assumes "eth_ok (eh_dst (ef_header f))" and "eth_ok (eh_src (ef_header f))"
    and "14 + length (BufferList_concatenate (ef_payload f)) < 2 ^ 64"
  shows "\<exists>b. EthernetFrame_parse (Buffer_of_string (on_wire f)) old =
      Inr (NoError, \<lparr>ef_header = ef_header f, ef_payload = [b]\<rparr>) \<and>
    Buffer_wf b \<and> Buffer_str b = BufferList_concatenate (ef_payload f)"
proof -
  let ?s = "EthernetHeader_serialize (ef_header f) @ BufferList_concatenate (ef_payload f)"
  have wire: "on_wire f = ?s"
    by (simp add: on_wire_def EthernetFrame_serialize_def Let_def BufferList_of_string_def BufferList_of_Buffer_def
        BufferList_concatenate_eq)
  have "length (EthernetHeader_serialize (ef_header f)) = 14"
    using assms(1,2) unparse_append(2) [of "eh_dst (ef_header f) @ eh_src (ef_header f)"]
    by (simp add: EthernetHeader_serialize_def Let_def)
  then have "parser_at (NetParser_new (Buffer_of_string ?s)) ?s" using assms(3) by (intro parser_at_new) simp
  from ethernet_header_parse_ok [OF this assms(1,2), of "ef_header old"] show ?thesis
    unfolding wire by (auto simp: EthernetFrame_parse_def parser_at_def BufferList_of_Buffer_def)
qed

section \<open>Properties\<close>

text \<open>An Ethernet frame survives the wire: parsing what a frame serialises to reports no error and
  returns the same header and the same payload bytes.\<close>

theorem ethernet_roundtrip:
  assumes "eth_ok (eh_dst (ef_header f))" and "eth_ok (eh_src (ef_header f))"
    and "14 + length (BufferList_concatenate (ef_payload f)) < 2 ^ 64"
  shows "\<exists>f'. EthernetFrame_parse (Buffer_of_string (BufferList_concatenate (EthernetFrame_serialize f))) old =
      Inr (NoError, f') \<and>
    ef_header f' = ef_header f \<and>
    BufferList_concatenate (ef_payload f') = BufferList_concatenate (ef_payload f)"
  using frame_wire [OF assms, of old] by (auto simp: on_wire_def BufferList_concatenate_eq)

theorem ethernet_roundtrip_witness:
  "(let f = \<lparr>ef_header = \<lparr>eh_dst = ETHERNET_BROADCAST, eh_src = [2, 0, 0, 0, 0, 1], eh_type = TYPE_ARP\<rparr>,
             ef_payload = [Buffer_of_string [1, 2]]\<rparr>
    in \<exists>f'. EthernetFrame_parse (Buffer_of_string (BufferList_concatenate (EthernetFrame_serialize f)))
         EthernetFrame_default = Inr (NoError, f') \<and> ef_header f' = ef_header f \<and>
       BufferList_concatenate (ef_payload f') = [1, 2])"
  using ethernet_roundtrip [of "\<lparr>ef_header = \<lparr>eh_dst = ETHERNET_BROADCAST, eh_src = [2, 0, 0, 0, 0, 1],
      eh_type = TYPE_ARP\<rparr>, ef_payload = [Buffer_of_string [1, 2]]\<rparr>" EthernetFrame_default]
  by (simp add: ETHERNET_BROADCAST_def BufferList_concatenate_eq)

text \<open>\<^verbatim>\<open>EthernetFrame::parse\<close> never reports an error: on fewer than 14 bytes it drops the
  \<^verbatim>\<open>PacketTooShort\<close> of the header parser, keeps whatever header the object had before, takes all the
  bytes as payload and answers \<^verbatim>\<open>NoError\<close>.\<close>

theorem ethernet_parse_never_fails:
  assumes "Buffer_wf b"
  shows "\<exists>f'. EthernetFrame_parse b f = Inr (NoError, f') \<and>
    (if length (Buffer_str b) < 14
     then ef_header f' = ef_header f \<and> BufferList_concatenate (ef_payload f') = Buffer_str b
     else eh_dst (ef_header f') = take 6 (Buffer_str b) \<and>
       BufferList_concatenate (ef_payload f') = drop 14 (Buffer_str b))"
  using ethernet_header_parse_any [OF parser_at_new_buffer [OF assms], of "ef_header f"]
  by (auto simp: EthernetFrame_parse_def BufferList_of_Buffer_def BufferList_concatenate_eq split: if_splits)

theorem ethernet_parse_never_fails_witness:
  "Buffer_wf (Buffer_of_string [1, 2, 3]) \<and>
   (\<exists>f'. EthernetFrame_parse (Buffer_of_string [1, 2, 3]) EthernetFrame_default = Inr (NoError, f') \<and>
      BufferList_concatenate (ef_payload f') = [1, 2, 3])"
  using ethernet_parse_never_fails [of "Buffer_of_string [1, 2, 3]" EthernetFrame_default] by auto

end
