(* ===== verification/ARPMessages.thy ===== *)
theory ARPMessages
  imports EthernetFrames
begin

text \<open>
  \<^verbatim>\<open>libsponge/tcp_helpers/arp_message.*\<close>: messages of the Address Resolution Protocol. The parser
  accepts exactly the messages the serialiser produces, and ignores bytes after them (an Ethernet
  frame may be padded).
\<close>

section \<open>Data and operations\<close>

record ARPMessage =
  arp_hardware_type :: u16
  arp_protocol_type :: u16
  arp_hardware_address_size :: u8
  arp_protocol_address_size :: u8
  arp_opcode :: u16
  arp_sender_ethernet_address :: EthernetAddress
  arp_sender_ip_address :: u32
  arp_target_ethernet_address :: EthernetAddress
  arp_target_ip_address :: u32

definition ARPMessage_LENGTH :: size_t where "ARPMessage_LENGTH = 28"
definition TYPE_ETHERNET :: u16 where "TYPE_ETHERNET = 1"
definition OPCODE_REQUEST :: u16 where "OPCODE_REQUEST = 1"
definition OPCODE_REPLY :: u16 where "OPCODE_REPLY = 2"

definition ARPMessage_default :: ARPMessage where
  "ARPMessage_default =
     \<lparr>arp_hardware_type = TYPE_ETHERNET, arp_protocol_type = TYPE_IPv4, arp_hardware_address_size = 6,
      arp_protocol_address_size = 4, arp_opcode = 0, arp_sender_ethernet_address = replicate 6 0,
      arp_sender_ip_address = 0, arp_target_ethernet_address = replicate 6 0, arp_target_ip_address = 0\<rparr>"

definition ARPMessage_supported :: "ARPMessage \<Rightarrow> bool" where
  "ARPMessage_supported m \<longleftrightarrow>
     arp_hardware_type m = TYPE_ETHERNET \<and> arp_protocol_type m = TYPE_IPv4 \<and>
     arp_hardware_address_size m = 6 \<and> arp_protocol_address_size m = 4 \<and>
     (arp_opcode m = OPCODE_REQUEST \<or> arp_opcode m = OPCODE_REPLY)"

definition ARPMessage_parse_types :: "ARPMessage \<Rightarrow> ARPMessage parser" where
  "ARPMessage_parse_types m =
     parser_bind NetParser_u16 (\<lambda>hardware_type.
     parser_bind NetParser_u16 (\<lambda>protocol_type.
     parser_bind NetParser_u8 (\<lambda>hardware_address_size.
     parser_bind NetParser_u8 (\<lambda>protocol_address_size.
     parser_bind NetParser_u16 (\<lambda>opcode.
     parser_return (m\<lparr>arp_hardware_type := hardware_type, arp_protocol_type := protocol_type,
       arp_hardware_address_size := hardware_address_size,
       arp_protocol_address_size := protocol_address_size, arp_opcode := opcode\<rparr>))))))"

definition ARPMessage_parse_addresses :: "ARPMessage \<Rightarrow> ARPMessage parser" where
  "ARPMessage_parse_addresses m =
     parser_bind (NetParser_bytes 6) (\<lambda>sender_ethernet_address.
     parser_bind NetParser_u32 (\<lambda>sender_ip_address.
     parser_bind (NetParser_bytes 6) (\<lambda>target_ethernet_address.
     parser_bind NetParser_u32 (\<lambda>target_ip_address.
     parser_return (m\<lparr>arp_sender_ethernet_address := sender_ethernet_address,
       arp_sender_ip_address := sender_ip_address, arp_target_ethernet_address := target_ethernet_address,
       arp_target_ip_address := target_ip_address\<rparr>)))))"

definition ARPMessage_parse :: "Buffer \<Rightarrow> ARPMessage \<Rightarrow> (ParseResult \<times> ARPMessage) res" where
  "ARPMessage_parse buffer m =
     (let p = NetParser_new buffer in
      if Buffer_size (np_buffer p) < ARPMessage_LENGTH then Inr (PacketTooShort, m)
      else
        bind_res (ARPMessage_parse_types m p) (\<lambda>(m, p).
        if \<not> ARPMessage_supported m then Inr (Unsupported, m)
        else bind_res (ARPMessage_parse_addresses m p) (\<lambda>(m, p). Inr (np_error p, m))))"

definition ARPMessage_serialize :: "ARPMessage \<Rightarrow> byte list res" where
  "ARPMessage_serialize m =
     (if \<not> ARPMessage_supported m
      then Inl (Runtime_error ''ARPMessage::serialize(): unsupported field combination (must be Ethernet/IP, and request or reply)'')
      else
        let ret = NetUnparser_u16 [] (arp_hardware_type m);
            ret = NetUnparser_u16 ret (arp_protocol_type m);
            ret = NetUnparser_u8 ret (arp_hardware_address_size m);
            ret = NetUnparser_u8 ret (arp_protocol_address_size m);
            ret = NetUnparser_u16 ret (arp_opcode m);
            ret = NetUnparser_bytes ret (arp_sender_ethernet_address m);
            ret = NetUnparser_u32 ret (arp_sender_ip_address m);
            ret = NetUnparser_bytes ret (arp_target_ethernet_address m);
            ret = NetUnparser_u32 ret (arp_target_ip_address m)
        in Inr ret)"

section \<open>The wire format\<close>

definition arp_types :: "ARPMessage \<Rightarrow> byte list" where
  "arp_types m =
     NetUnparser_u16 [] (arp_hardware_type m) @ NetUnparser_u16 [] (arp_protocol_type m) @
     NetUnparser_u8 [] (arp_hardware_address_size m) @ NetUnparser_u8 [] (arp_protocol_address_size m) @
     NetUnparser_u16 [] (arp_opcode m)"

definition arp_addresses :: "ARPMessage \<Rightarrow> byte list" where
  "arp_addresses m =
     arp_sender_ethernet_address m @ NetUnparser_u32 [] (arp_sender_ip_address m) @
     arp_target_ethernet_address m @ NetUnparser_u32 [] (arp_target_ip_address m)"

definition arp_ok :: "ARPMessage \<Rightarrow> bool" where
  "arp_ok m \<longleftrightarrow> eth_ok (arp_sender_ethernet_address m) \<and> eth_ok (arp_target_ethernet_address m)"

lemma arp_types_length [simp]: "length (arp_types m) = 8"
  by (simp add: arp_types_def)

lemma arp_addresses_length [simp]: "arp_ok m \<Longrightarrow> length (arp_addresses m) = 20"
  by (simp add: arp_addresses_def arp_ok_def)

lemma arp_serialize_eq:
  "ARPMessage_supported m \<Longrightarrow> ARPMessage_serialize m = Inr (arp_types m @ arp_addresses m)"
  by (simp add: ARPMessage_serialize_def Let_def unparse_append [where s = "_ @ _"]
      unparse_append [where s = "NetUnparser_u16 [] _"] arp_types_def arp_addresses_def)

lemma arp_types_ok:
  "parse_ok (ARPMessage_parse_types m0) (arp_types m @ rest)
     (m0\<lparr>arp_hardware_type := arp_hardware_type m, arp_protocol_type := arp_protocol_type m,
       arp_hardware_address_size := arp_hardware_address_size m,
       arp_protocol_address_size := arp_protocol_address_size m, arp_opcode := arp_opcode m\<rparr>) rest"
  unfolding ARPMessage_parse_types_def arp_types_def append_assoc
  by (rule parse_ok_bind, rule parse_ok_ints)+ (rule parse_ok_return)

lemma arp_addresses_ok:
  assumes "arp_ok m"
  shows "parse_ok (ARPMessage_parse_addresses m0) (arp_addresses m @ rest)
     (m0\<lparr>arp_sender_ethernet_address := arp_sender_ethernet_address m,
       arp_sender_ip_address := arp_sender_ip_address m,
       arp_target_ethernet_address := arp_target_ethernet_address m,
       arp_target_ip_address := arp_target_ip_address m\<rparr>) rest"
  using assms unfolding ARPMessage_parse_addresses_def arp_addresses_def append_assoc arp_ok_def
  by - (rule parse_ok_bind, rule bytes6_ok, simp, rule parse_ok_bind, rule parse_ok_ints,
      rule parse_ok_bind, rule bytes6_ok, simp, rule parse_ok_bind, rule parse_ok_ints, rule parse_ok_return)

lemma arp_parse_wire:
  assumes ok: "arp_ok m" and wf: "Buffer_wf b" and s: "Buffer_str b = arp_types m @ arp_addresses m @ rest"
  shows "\<exists>m'. ARPMessage_parse b m0 = Inr (if ARPMessage_supported m then NoError else Unsupported, m') \<and>
    (ARPMessage_supported m \<longrightarrow> m' = m)"
proof -
  have at: "parser_at (NetParser_new b) (arp_types m @ arp_addresses m @ rest)"
    using parser_at_new_buffer [OF wf] s by simp
  have "\<not> Buffer_size (np_buffer (NetParser_new b)) < ARPMessage_LENGTH"
    using parser_at_size [OF at] ok by (simp add: word_less_nat_alt ARPMessage_LENGTH_def)
  note long = this
  let ?m1 = "m0\<lparr>arp_hardware_type := arp_hardware_type m, arp_protocol_type := arp_protocol_type m,
       arp_hardware_address_size := arp_hardware_address_size m,
       arp_protocol_address_size := arp_protocol_address_size m, arp_opcode := arp_opcode m\<rparr>"
  obtain p1 where p1: "ARPMessage_parse_types m0 (NetParser_new b) = Inr (?m1, p1)"
    "parser_at p1 (arp_addresses m @ rest)"
    using arp_types_ok [of m0 m] at unfolding parse_ok_def by blast
  have sup: "ARPMessage_supported ?m1 \<longleftrightarrow> ARPMessage_supported m" by (simp add: ARPMessage_supported_def)
  obtain p2 where p2: "ARPMessage_parse_addresses ?m1 p1 = Inr (m, p2)" "parser_at p2 rest"
    using arp_addresses_ok [OF ok, of ?m1 rest] p1(2) unfolding parse_ok_def by (cases m) auto
  show ?thesis
    using long p1(1) p2 sup by (auto simp: ARPMessage_parse_def Let_def parser_at_def)
qed

lemma arp_wire_any:
  assumes "28 \<le> length s"
  obtains m where "s = arp_types m @ arp_addresses m @ drop 28 s" and "arp_ok m"
proof -
  have cut: "drop k s = take n (drop k s) @ drop (k + n) s" for k n
    using append_take_drop_id [of n "drop k s"] by (simp add: add.commute)
  obtain a where a: "s = NetUnparser_u16 [] a @ drop 2 s"
    by (rule c16.dec_any [of s]) (use assms in auto)
  obtain b where b: "drop 2 s = NetUnparser_u16 [] b @ drop 4 s"
    by (rule c16.dec_any [of "drop 2 s"]) (use assms in auto)
  obtain c where c: "drop 4 s = NetUnparser_u8 [] c @ drop 5 s"
    by (rule c8.dec_any [of "drop 4 s"]) (use assms in auto)
  obtain d where d: "drop 5 s = NetUnparser_u8 [] d @ drop 6 s"
    by (rule c8.dec_any [of "drop 5 s"]) (use assms in auto)
  obtain e where e: "drop 6 s = NetUnparser_u16 [] e @ drop 8 s"
    by (rule c16.dec_any [of "drop 6 s"]) (use assms in auto)
  obtain f where f: "drop 14 s = NetUnparser_u32 [] f @ drop 18 s"
    by (rule c32.dec_any [of "drop 14 s"]) (use assms in auto)
  obtain g where g: "drop 24 s = NetUnparser_u32 [] g @ drop 28 s"
    by (rule c32.dec_any [of "drop 24 s"]) (use assms in auto)
  let ?m = "\<lparr>arp_hardware_type = a, arp_protocol_type = b, arp_hardware_address_size = c,
    arp_protocol_address_size = d, arp_opcode = e, arp_sender_ethernet_address = take 6 (drop 8 s),
    arp_sender_ip_address = f, arp_target_ethernet_address = take 6 (drop 18 s), arp_target_ip_address = g\<rparr>"
  have "s = arp_types ?m @ drop 8 s"
    unfolding arp_types_def append_assoc by (simp del: append_eq_append_conv add: e [symmetric] d [symmetric] c [symmetric] b [symmetric] a [symmetric])
  moreover have "drop 8 s = arp_addresses ?m @ drop 28 s"
    using cut [of 8 6] cut [of 18 6]
    unfolding arp_addresses_def append_assoc by (simp del: append_eq_append_conv append_take_drop_id add: g [symmetric] f [symmetric])
  ultimately have "s = arp_types ?m @ arp_addresses ?m @ drop 28 s" by simp
  moreover have "arp_ok ?m" using assms by (simp add: arp_ok_def)
  ultimately show ?thesis by (rule that)
qed

lemma arp_parse_any:
  assumes "Buffer_wf b"
  shows "\<exists>r m. ARPMessage_parse b m0 = Inr (r, m) \<and>
    (r = PacketTooShort \<longleftrightarrow> length (Buffer_str b) < 28) \<and>
    (r = NoError \<longrightarrow> arp_ok m \<and> ARPMessage_supported m) \<and>
    (r = NoError \<longrightarrow> (\<exists>s rest. ARPMessage_serialize m = Inr s \<and> Buffer_str b = s @ rest)) \<and>
    (r \<noteq> NoError \<longrightarrow> r = PacketTooShort \<or> r = Unsupported \<and>
       \<not> (\<exists>m s rest. arp_ok m \<and> ARPMessage_serialize m = Inr s \<and> Buffer_str b = s @ rest))"
proof (cases "length (Buffer_str b) < 28")
  case True
  then have "Buffer_size (np_buffer (NetParser_new b)) < ARPMessage_LENGTH"
    using parser_at_size [OF parser_at_new_buffer [OF assms]]
    by (simp add: word_less_nat_alt ARPMessage_LENGTH_def)
  with True show ?thesis by (simp add: ARPMessage_parse_def Let_def)
next
  case False
  then obtain m where m: "Buffer_str b = arp_types m @ arp_addresses m @ drop 28 (Buffer_str b)" "arp_ok m"
    using arp_wire_any [of "Buffer_str b"] by auto
  obtain m' where m': "ARPMessage_parse b m0 = Inr (if ARPMessage_supported m then NoError else Unsupported, m')"
    "ARPMessage_supported m \<longrightarrow> m' = m" using arp_parse_wire [OF m(2) assms m(1)] by blast
  have only: "ARPMessage_supported m"
    if m2: "arp_ok m2" "ARPMessage_serialize m2 = Inr s" "Buffer_str b = s @ rest" for m2 s rest
  proof -
    have sup: "ARPMessage_supported m2" using m2(2) by (auto simp: ARPMessage_serialize_def split: if_splits)
    then have "Buffer_str b = arp_types m2 @ arp_addresses m2 @ rest"
      using m2(2,3) arp_serialize_eq [OF sup] by simp
    from arp_parse_wire [OF m2(1) assms this] show ?thesis using m'(1) sup by (auto split: if_splits)
  qed
  show ?thesis
  proof (cases "ARPMessage_supported m")
    case True
    have "Buffer_str b = (arp_types m @ arp_addresses m) @ drop 28 (Buffer_str b)" using m(1) by simp
    then have "\<exists>s rest. ARPMessage_serialize m = Inr s \<and> Buffer_str b = s @ rest"
      using arp_serialize_eq [OF True] by blast
    with True m' m(2) False show ?thesis by simp
  next
    case False
    then show ?thesis using m'(1) only \<open>\<not> length (Buffer_str b) < 28\<close> by fastforce
  qed
qed

section \<open>Properties\<close>

text \<open>What \<^verbatim>\<open>ARPMessage::parse\<close> answers on arbitrary bytes. It never throws. Below 28 bytes it
  answers \<^verbatim>\<open>PacketTooShort\<close>; it answers \<^verbatim>\<open>NoError\<close> exactly when the bytes start with what
  \<^verbatim>\<open>serialize\<close> writes for the message it returns (what follows is ignored), and \<^verbatim>\<open>Unsupported\<close> on
  everything else.\<close>

theorem arp_parse_result:
  assumes "Buffer_wf b"
  shows "\<exists>r m. ARPMessage_parse b m0 = Inr (r, m) \<and>
    (r = PacketTooShort \<longleftrightarrow> length (Buffer_str b) < 28) \<and>
    (r = NoError \<longrightarrow> (\<exists>s rest. ARPMessage_serialize m = Inr s \<and> Buffer_str b = s @ rest)) \<and>
    (r \<noteq> NoError \<longrightarrow> r = PacketTooShort \<or> r = Unsupported \<and>
       \<not> (\<exists>m s rest. arp_ok m \<and> ARPMessage_serialize m = Inr s \<and> Buffer_str b = s @ rest))"
  using arp_parse_any [OF assms, of m0] by blast

theorem arp_parse_result_witness:
  "Buffer_wf (Buffer_of_string (replicate 28 0)) \<and>
   (\<exists>r m. ARPMessage_parse (Buffer_of_string (replicate 28 0)) ARPMessage_default = Inr (r, m) \<and> r \<noteq> PacketTooShort)"
  using arp_parse_result [of "Buffer_of_string (replicate 28 0)" ARPMessage_default] by auto

text \<open>An ARP message survives the wire: every supported message serialises without an exception,
  and parsing the bytes, with any padding after them, gives it back.\<close>

theorem arp_roundtrip:
  assumes "ARPMessage_supported m" and "arp_ok m" and "28 + length pad < 2 ^ 64"
  shows "\<exists>s. ARPMessage_serialize m = Inr s \<and>
    ARPMessage_parse (Buffer_of_string (s @ pad)) m0 = Inr (NoError, m)"
proof -
  have "Buffer_wf (Buffer_of_string (arp_types m @ arp_addresses m @ pad))"
    using assms(2,3) by simp
  from arp_parse_wire [OF assms(2) this, of pad m0] show ?thesis
    using arp_serialize_eq [OF assms(1)] assms(1) by auto
qed

theorem arp_roundtrip_witness:
  "(let m = ARPMessage_default\<lparr>arp_opcode := OPCODE_REPLY, arp_sender_ip_address := 0x0A000001\<rparr> in
    ARPMessage_supported m \<and> arp_ok m \<and>
    (\<exists>s. ARPMessage_serialize m = Inr s \<and>
      ARPMessage_parse (Buffer_of_string (s @ [0, 0])) ARPMessage_default = Inr (NoError, m)))"
proof -
  let ?m = "ARPMessage_default\<lparr>arp_opcode := OPCODE_REPLY, arp_sender_ip_address := 0x0A000001\<rparr>"
  have "ARPMessage_supported ?m" "arp_ok ?m"
    by (simp_all add: ARPMessage_supported_def ARPMessage_default_def arp_ok_def)
  then show ?thesis using arp_roundtrip [of ?m "[0, 0]" ARPMessage_default] by simp
qed

end
