(* ===== verification/ICMPMessages.thy ===== *)
theory ICMPMessages
  imports Checksum
begin

text \<open>
  \<^verbatim>\<open>libsponge/tcp_helpers/icmp_message.*\<close>: the subset of ICMP the router uses, echo requests and
  replies and the two error messages.
\<close>

section \<open>Data and operations\<close>

definition TYPE_ECHO_REPLY :: u8 where "TYPE_ECHO_REPLY = 0"
definition TYPE_DESTINATION_UNREACHABLE :: u8 where "TYPE_DESTINATION_UNREACHABLE = 3"
definition TYPE_ECHO_REQUEST :: u8 where "TYPE_ECHO_REQUEST = 8"
definition TYPE_TIME_EXCEEDED :: u8 where "TYPE_TIME_EXCEEDED = 11"

definition ICMPMessage_MIN_LENGTH :: size_t where "ICMPMessage_MIN_LENGTH = 4"
definition ICMPMessage_ECHO_LENGTH :: size_t where "ICMPMessage_ECHO_LENGTH = 8"

record ICMPMessage =
  im_type :: u8
  im_code :: u8
  im_cksum :: u16
  im_identifier :: u16
  im_sequence_number :: u16
  im_payload :: "byte list"

definition ICMPMessage_default :: ICMPMessage where
  "ICMPMessage_default =
     \<lparr>im_type = 0, im_code = 0, im_cksum = 0, im_identifier = 0, im_sequence_number = 0, im_payload = []\<rparr>"

definition is_echo :: "u8 \<Rightarrow> bool" where
  "is_echo type \<longleftrightarrow> type = TYPE_ECHO_REQUEST \<or> type = TYPE_ECHO_REPLY"

definition ICMPMessage_parse_head :: "ICMPMessage \<Rightarrow> ICMPMessage parser" where
  "ICMPMessage_parse_head m =
     parser_bind NetParser_u8 (\<lambda>type.
     parser_bind NetParser_u8 (\<lambda>code.
     parser_bind NetParser_u16 (\<lambda>cksum.
     parser_return (m\<lparr>im_type := type, im_code := code, im_cksum := cksum\<rparr>))))"

definition ICMPMessage_parse_echo :: "ICMPMessage \<Rightarrow> ICMPMessage parser" where
  "ICMPMessage_parse_echo m =
     parser_bind NetParser_u16 (\<lambda>identifier.
     parser_bind NetParser_u16 (\<lambda>sequence_number.
     parser_return (m\<lparr>im_identifier := identifier, im_sequence_number := sequence_number\<rparr>)))"

definition ICMPMessage_parse :: "Buffer \<Rightarrow> ICMPMessage \<Rightarrow> (ParseResult \<times> ICMPMessage) res" where
  "ICMPMessage_parse buffer m =
     (let p = NetParser_new buffer in
      if Buffer_size (np_buffer p) < ICMPMessage_MIN_LENGTH then Inr (PacketTooShort, m)
      else
        bind_res (ICMPMessage_parse_head m p) (\<lambda>(m, p).
        if is_echo (im_type m) then
          if Buffer_size (np_buffer p) < ICMPMessage_ECHO_LENGTH - ICMPMessage_MIN_LENGTH
          then Inr (PacketTooShort, m)
          else
            bind_res (ICMPMessage_parse_echo m p) (\<lambda>(m, p).
            Inr (np_error p, m\<lparr>im_payload := np_str p\<rparr>))
        else
          let m = m\<lparr>im_identifier := 0, im_sequence_number := 0\<rparr> in
          if Buffer_size (np_buffer p) \<ge> 4 then
            bind_res (NetParser_remove_prefix 4 p) (\<lambda>(_, p).
            Inr (np_error p, m\<lparr>im_payload := np_str p\<rparr>))
          else Inr (np_error p, m\<lparr>im_payload := np_str p\<rparr>)))"

definition ICMPMessage_write :: "u16 \<Rightarrow> ICMPMessage \<Rightarrow> byte list" where
  "ICMPMessage_write cksum m =
     (let s = NetUnparser_u8 [] (im_type m);
          s = NetUnparser_u8 s (im_code m);
          s = NetUnparser_u16 s cksum;
          s = (if is_echo (im_type m)
               then NetUnparser_u16 (NetUnparser_u16 s (im_identifier m)) (im_sequence_number m)
               else NetUnparser_u32 s 0)
      in s @ im_payload m)"

definition ICMPMessage_compute_checksum :: "ICMPMessage \<Rightarrow> u16" where
  "ICMPMessage_compute_checksum m =
     InternetChecksum_value (InternetChecksum_add (ICMPMessage_write 0 m) (InternetChecksum_new 0))"

definition ICMPMessage_serialize :: "ICMPMessage \<Rightarrow> byte list" where
  "ICMPMessage_serialize m = ICMPMessage_write (ICMPMessage_compute_checksum m) m"

section \<open>The wire format\<close>

definition icmp_rest :: "ICMPMessage \<Rightarrow> byte list" where
  "icmp_rest m =
     (if is_echo (im_type m)
      then NetUnparser_u16 [] (im_identifier m) @ NetUnparser_u16 [] (im_sequence_number m)
      else NetUnparser_u32 [] 0)"

lemma icmp_rest_length [simp]: "length (icmp_rest m) = 4"
  by (simp add: icmp_rest_def)

lemma icmp_write_eq:
  "ICMPMessage_write c m =
     (NetUnparser_u8 [] (im_type m) @ NetUnparser_u8 [] (im_code m)) @ NetUnparser_u16 [] c @ icmp_rest m @ im_payload m"
  by (simp add: ICMPMessage_write_def Let_def icmp_rest_def unparse_append [where s = "_ @ _"]
      unparse_append [where s = "NetUnparser_u8 [] _"] unparse_append [where s = "NetUnparser_u16 [] _"])

lemma icmp_checksum_valid:
  assumes "8 + length (im_payload m) < 2 ^ 16"
  shows "checksum_of 0 (ICMPMessage_serialize m) = 0"
  unfolding ICMPMessage_serialize_def icmp_write_eq
proof (rule checksum_insert)
  show "summable 0 ((NetUnparser_u8 [] (im_type m) @ NetUnparser_u8 [] (im_code m)) @ NetUnparser_u16 [] 0 @
      icmp_rest m @ im_payload m)" using assms by (simp add: summable_def)
  show "ICMPMessage_compute_checksum m = checksum_of 0 ((NetUnparser_u8 [] (im_type m) @
      NetUnparser_u8 [] (im_code m)) @ NetUnparser_u16 [] 0 @ icmp_rest m @ im_payload m)"
    by (simp add: ICMPMessage_compute_checksum_def checksum_of_def icmp_write_eq)
qed simp

lemma icmp_head_ok:
  "parse_ok (ICMPMessage_parse_head m0)
     (NetUnparser_u8 [] t @ NetUnparser_u8 [] c @ NetUnparser_u16 [] k @ rest)
     (m0\<lparr>im_type := t, im_code := c, im_cksum := k\<rparr>) rest"
  unfolding ICMPMessage_parse_head_def
  by (rule parse_ok_bind, rule parse_ok_ints)+ (rule parse_ok_return)

lemma icmp_echo_ok:
  "parse_ok (ICMPMessage_parse_echo m0) (NetUnparser_u16 [] i @ NetUnparser_u16 [] n @ rest)
     (m0\<lparr>im_identifier := i, im_sequence_number := n\<rparr>) rest"
  unfolding ICMPMessage_parse_echo_def
  by (rule parse_ok_bind, rule parse_ok_ints)+ (rule parse_ok_return)

lemma icmp_parse_wire:
  assumes wf: "Buffer_wf b"
    and s: "Buffer_str b = NetUnparser_u8 [] (im_type m) @ NetUnparser_u8 [] (im_code m) @
      NetUnparser_u16 [] (im_cksum m) @ icmp_rest m @ im_payload m"
  shows "ICMPMessage_parse b m0 =
    Inr (NoError, if is_echo (im_type m) then m else m\<lparr>im_identifier := 0, im_sequence_number := 0\<rparr>)"
proof -
  let ?p = "NetParser_new b"
  have at: "parser_at ?p (NetUnparser_u8 [] (im_type m) @ NetUnparser_u8 [] (im_code m) @
      NetUnparser_u16 [] (im_cksum m) @ icmp_rest m @ im_payload m)"
    using parser_at_new_buffer [OF wf] s by simp
  have long: "\<not> Buffer_size (np_buffer ?p) < ICMPMessage_MIN_LENGTH"
    using parser_at_size [OF at] by (simp add: word_less_nat_alt ICMPMessage_MIN_LENGTH_def)
  let ?m1 = "m0\<lparr>im_type := im_type m, im_code := im_code m, im_cksum := im_cksum m\<rparr>"
  obtain p1 where p1: "ICMPMessage_parse_head m0 ?p = Inr (?m1, p1)" "parser_at p1 (icmp_rest m @ im_payload m)"
    using icmp_head_ok at unfolding parse_ok_def by blast
  have four: "\<not> Buffer_size (np_buffer p1) < 4"
    using parser_at_size [OF p1(2)] by (simp add: word_less_nat_alt)
  show ?thesis
  proof (cases "is_echo (im_type m)")
    case True
    then have "parser_at p1 (NetUnparser_u16 [] (im_identifier m) @ NetUnparser_u16 [] (im_sequence_number m) @ im_payload m)"
      using p1(2) by (simp add: icmp_rest_def)
    then obtain p2 where "ICMPMessage_parse_echo ?m1 p1 =
        Inr (?m1\<lparr>im_identifier := im_identifier m, im_sequence_number := im_sequence_number m\<rparr>, p2)"
      "parser_at p2 (im_payload m)"
      using icmp_echo_ok unfolding parse_ok_def by blast
    with True long four p1(1) show ?thesis
      by (simp add: ICMPMessage_parse_def Let_def parser_at_def ICMPMessage_ECHO_LENGTH_def ICMPMessage_MIN_LENGTH_def)
  next
    case False
    obtain p2 where "NetParser_remove_prefix 4 p1 = Inr ((), p2)" "parser_at p2 (im_payload m)"
      using remove_prefix_ok [of "icmp_rest m" 4 "im_payload m"] p1(2) by (auto simp: parse_ok_def)
    with False long four p1(1) show ?thesis
      by (simp add: ICMPMessage_parse_def Let_def parser_at_def not_less)
  qed
qed

definition icmp_verdict :: "byte list \<Rightarrow> ParseResult" where
  "icmp_verdict s =
     (if length s < 4 \<or> is_echo (s ! 0) \<and> length s < 8 then PacketTooShort else NoError)"

lemma icmp_parse_any:
  assumes "Buffer_wf b"
  shows "\<exists>m. ICMPMessage_parse b m0 = Inr (icmp_verdict (Buffer_str b), m) \<and>
    (icmp_verdict (Buffer_str b) = NoError \<longrightarrow> im_type m = Buffer_str b ! 0 \<and>
       im_payload m = drop (if length (Buffer_str b) < 8 then 4 else 8) (Buffer_str b))"
proof (cases "length (Buffer_str b) < 4")
  case True
  then have "Buffer_size (np_buffer (NetParser_new b)) < ICMPMessage_MIN_LENGTH"
    using parser_at_size [OF parser_at_new_buffer [OF assms]]
    by (simp add: word_less_nat_alt ICMPMessage_MIN_LENGTH_def)
  with True show ?thesis by (simp add: ICMPMessage_parse_def Let_def icmp_verdict_def)
next
  case False
  let ?s = "Buffer_str b" and ?p = "NetParser_new b"
  have at: "parser_at ?p ?s" by (rule parser_at_new_buffer [OF assms])
  have long: "\<not> Buffer_size (np_buffer ?p) < ICMPMessage_MIN_LENGTH"
    using parser_at_size [OF at] False by (simp add: word_less_nat_alt ICMPMessage_MIN_LENGTH_def)
  obtain k where k: "drop 2 ?s = NetUnparser_u16 [] k @ drop 4 ?s"
    by (rule c16.dec_any [of "drop 2 ?s"]) (use False in auto)
  have "?s = ?s ! 0 # ?s ! 1 # drop 2 ?s"
    using False by (cases ?s; cases "tl ?s") (auto simp: numeral_2_eq_2)
  then have "?s = NetUnparser_u8 [] (?s ! 0) @ NetUnparser_u8 [] (?s ! 1) @ NetUnparser_u16 [] k @ drop 4 ?s"
    using k by (simp add: unparse_u8)
  then obtain m p where p: "ICMPMessage_parse_head m0 ?p = Inr (m, p)" "parser_at p (drop 4 ?s)" "im_type m = ?s ! 0"
    using icmp_head_ok [of m0 "?s ! 0" "?s ! 1" k "drop 4 ?s"] at unfolding parse_ok_def by fastforce
  have size: "Buffer_size (np_buffer p) < 4 \<longleftrightarrow> length ?s < 8"
    using parser_at_size [OF p(2)] False by (auto simp: word_less_nat_alt)
  show ?thesis
  proof (cases "length ?s < 8")
    case True
    have "np_error p = NoError" "np_str p = drop 4 ?s" using p(2) by (simp_all add: parser_at_def)
    with True show ?thesis
      using long p(1,3) size False
      by (auto simp: icmp_verdict_def ICMPMessage_parse_def Let_def not_le [symmetric] ICMPMessage_ECHO_LENGTH_def ICMPMessage_MIN_LENGTH_def)
  next
    case nine: False
    obtain i n where "drop 4 ?s = NetUnparser_u16 [] i @ NetUnparser_u16 [] n @ drop 8 ?s"
    proof -
      obtain i where i: "drop 4 ?s = NetUnparser_u16 [] i @ drop 6 ?s"
        by (rule c16.dec_any [of "drop 4 ?s"]) (use nine in auto)
      obtain n where n: "drop 6 ?s = NetUnparser_u16 [] n @ drop 8 ?s"
        by (rule c16.dec_any [of "drop 6 ?s"]) (use nine in auto)
      show thesis using that i n by simp
    qed
    then obtain m2 p2 where p2: "ICMPMessage_parse_echo m p = Inr (m2, p2)" "np_error p2 = NoError" "im_type m2 = ?s ! 0" "np_str p2 = drop 8 ?s"
      using p(3) icmp_echo_ok [of m i n "drop 8 ?s"] p(2) unfolding parse_ok_def parser_at_def by fastforce
    have "drop 4 ?s = take 4 (drop 4 ?s) @ drop 8 ?s"
      using append_take_drop_id [of 4 "drop 4 ?s"] by (simp del: append_take_drop_id)
    then obtain p3 where "NetParser_remove_prefix 4 p = Inr ((), p3)" "np_error p3 = NoError" "np_str p3 = drop 8 ?s"
      using remove_prefix_ok [of "take 4 (drop 4 ?s)" 4 "drop 8 ?s"] p(2) nine
      unfolding parse_ok_def parser_at_def by fastforce
    with p2 show ?thesis
      using long p(1,3) size nine
      by (auto simp: icmp_verdict_def ICMPMessage_parse_def Let_def not_less ICMPMessage_ECHO_LENGTH_def ICMPMessage_MIN_LENGTH_def)
  qed
qed

section \<open>Properties\<close>

text \<open>An ICMP message survives the wire. What \<^verbatim>\<open>serialize\<close> writes has a valid checksum, and
  parsing it gives the message back with the checksum filled in; for the error types, whose second
  word is unused, the identifier and the sequence number come back as 0.\<close>

theorem icmp_roundtrip:
  assumes "8 + length (im_payload m) < 2 ^ 16"
  shows "checksum_of 0 (ICMPMessage_serialize m) = 0 \<and>
    ICMPMessage_parse (Buffer_of_string (ICMPMessage_serialize m)) m0 =
      Inr (NoError, (if is_echo (im_type m) then m else m\<lparr>im_identifier := 0, im_sequence_number := 0\<rparr>)
        \<lparr>im_cksum := ICMPMessage_compute_checksum m\<rparr>)"
proof
  show "checksum_of 0 (ICMPMessage_serialize m) = 0" by (rule icmp_checksum_valid [OF assms])
  let ?m = "m\<lparr>im_cksum := ICMPMessage_compute_checksum m\<rparr>" and ?s = "ICMPMessage_serialize m"
  have "?s = NetUnparser_u8 [] (im_type ?m) @ NetUnparser_u8 [] (im_code ?m) @
      NetUnparser_u16 [] (im_cksum ?m) @ icmp_rest ?m @ im_payload ?m"
    by (simp add: ICMPMessage_serialize_def icmp_write_eq icmp_rest_def)
  moreover from this have "Buffer_wf (Buffer_of_string ?s)" using assms by simp
  ultimately show "ICMPMessage_parse (Buffer_of_string ?s) m0 =
      Inr (NoError, (if is_echo (im_type m) then m else m\<lparr>im_identifier := 0, im_sequence_number := 0\<rparr>)
        \<lparr>im_cksum := ICMPMessage_compute_checksum m\<rparr>)"
    using icmp_parse_wire [of "Buffer_of_string ?s" ?m m0] by simp
qed

theorem icmp_roundtrip_witness:
  "(let m = \<lparr>im_type = TYPE_ECHO_REQUEST, im_code = 0, im_cksum = 0, im_identifier = 7,
             im_sequence_number = 1, im_payload = [1, 2, 3]\<rparr>
    in 8 + length (im_payload m) < 2 ^ 16 \<and> checksum_of 0 (ICMPMessage_serialize m) = 0 \<and>
       ICMPMessage_parse (Buffer_of_string (ICMPMessage_serialize m)) ICMPMessage_default =
         Inr (NoError, m\<lparr>im_cksum := ICMPMessage_compute_checksum m\<rparr>))"
  using icmp_roundtrip [of "\<lparr>im_type = TYPE_ECHO_REQUEST, im_code = 0, im_cksum = 0, im_identifier = 7,
      im_sequence_number = 1, im_payload = [1, 2, 3]\<rparr>" ICMPMessage_default]
  by (simp add: is_echo_def)

text \<open>\<^verbatim>\<open>ICMPMessage::parse\<close> does not verify the checksum: whether it accepts depends only on the
  number of bytes and the type, 4 bytes in general and 8 for echo messages. What
  follows the header is the payload.\<close>

theorem icmp_parse_result:
  assumes "Buffer_wf b"
  shows "\<exists>m. ICMPMessage_parse b m0 = Inr (icmp_verdict (Buffer_str b), m) \<and>
    (icmp_verdict (Buffer_str b) = NoError \<longrightarrow> im_type m = Buffer_str b ! 0 \<and>
       im_payload m = drop (if length (Buffer_str b) < 8 then 4 else 8) (Buffer_str b))"
  by (rule icmp_parse_any [OF assms])

theorem icmp_parse_result_witness:
  "Buffer_wf (Buffer_of_string [3, 0, 0xde, 0xad]) \<and>
   (\<exists>m. ICMPMessage_parse (Buffer_of_string [3, 0, 0xde, 0xad]) ICMPMessage_default = Inr (NoError, m))"
  using icmp_parse_result [of "Buffer_of_string [3, 0, 0xde, 0xad]" ICMPMessage_default]
  by (auto simp: icmp_verdict_def is_echo_def TYPE_ECHO_REQUEST_def TYPE_ECHO_REPLY_def)

end
