(* ===== verification/Addresses.thy ===== *)
theory Addresses
  imports Parser
begin

text \<open>
  \<^verbatim>\<open>libsponge/util/address.*\<close>: socket addresses. \<^verbatim>\<open>sockaddr_storage\<close> is 128 bytes; a
  \<^verbatim>\<open>sockaddr_in\<close> occupies the first 16 of them: the family in host byte order (little endian), the
  port and the IPv4 address in network byte order, and padding. Name resolution is a service of the
  system: \<^verbatim>\<open>getaddrinfo\<close> and \<^verbatim>\<open>getnameinfo\<close> are the two fields of the record \<open>libc\<close>, an argument of the
  definitions that use them. The decimal conversions \<^verbatim>\<open>to_string\<close> and \<^verbatim>\<open>stoi\<close> are modelled.
\<close>

section \<open>Data and operations\<close>

record Address =
  ad_size :: u32
  ad_storage :: "byte list"

definition sockaddr_storage_size :: nat where "sockaddr_storage_size = 128"
definition sockaddr_in_size :: nat where "sockaddr_in_size = 16"
definition AF_INET :: "byte list" where "AF_INET = [2, 0]"

definition Address_of_sockaddr :: "byte list \<Rightarrow> size_t \<Rightarrow> Address res" where
  "Address_of_sockaddr addr len =
     (if len > of_nat sockaddr_storage_size then Inl (Runtime_error ''invalid sockaddr size'')
      else if length addr < unat len then Inl (Undefined_behaviour ''memcpy past the end'')
      else Inr \<lparr>ad_size = ucast len,
        ad_storage = take (unat len) addr @ drop (unat len) (replicate sockaddr_storage_size 0)\<rparr>)"

record libc =
  lc_getaddrinfo :: "string \<Rightarrow> string \<Rightarrow> int \<times> int \<Rightarrow> exn + (byte list \<times> size_t) list"
  lc_getnameinfo :: "byte list \<Rightarrow> u32 \<Rightarrow> exn + (string \<times> string)"

definition make_hints :: "int \<Rightarrow> int \<Rightarrow> int \<times> int" where
  "make_hints ai_flags ai_family = (ai_flags, ai_family)"

definition AI_ALL :: int where "AI_ALL = 0x10"
definition AI_NUMERIC :: int where "AI_NUMERIC = 0x404"
definition INET :: int where "INET = 2"

definition Address_resolve :: "libc \<Rightarrow> string \<Rightarrow> string \<Rightarrow> int \<times> int \<Rightarrow> Address res" where
  "Address_resolve L node service hints =
     bind_res (lc_getaddrinfo L node service hints) (\<lambda>results.
     case results of
       [] \<Rightarrow> Inl (Runtime_error ''getaddrinfo returned successfully but with no results'')
     | (ai_addr, ai_addrlen) # _ \<Rightarrow> Address_of_sockaddr ai_addr ai_addrlen)"

text \<open>\<^verbatim>\<open>getaddrinfo\<close> answers with a list, one entry for each kind of socket; only the first entry counts.\<close>

definition first_result :: "'a list res \<Rightarrow> 'a \<Rightarrow> bool" where
  "first_result r x \<longleftrightarrow> (case r of Inr (y # _) \<Rightarrow> y = x | _ \<Rightarrow> False)"

lemma first_resultE: "first_result r x \<Longrightarrow> (\<And>rest. r = Inr (x # rest) \<Longrightarrow> thesis) \<Longrightarrow> thesis"
  by (auto simp: first_result_def split: sum.splits list.splits)

definition digit :: "nat \<Rightarrow> char" where "digit n = char_of (48 + n)"

fun to_string :: "nat \<Rightarrow> string" where
  "to_string n = (if n < 10 then [digit n] else to_string (n div 10) @ [digit (n mod 10)])"

declare to_string.simps [simp del]

fun read_digits :: "nat \<Rightarrow> string \<Rightarrow> nat" where
  "read_digits acc [] = acc"
| "read_digits acc (c # cs) =
     (let d = of_char c :: nat in if 48 \<le> d \<and> d \<le> 57 then read_digits (10 * acc + (d - 48)) cs else acc)"

definition stoi :: "string \<Rightarrow> int res" where
  "stoi s =
     (let is_digit = (\<lambda>c. 48 \<le> (of_char c :: nat) \<and> (of_char c :: nat) \<le> 57);
          t = dropWhile (\<lambda>c. c \<in> set '' '' \<or> (9 \<le> (of_char c :: nat) \<and> (of_char c :: nat) \<le> 13)) s;
          neg = (t \<noteq> [] \<and> hd t = CHR ''-'');
          u = (if t \<noteq> [] \<and> hd t \<in> set ''+-'' then tl t else t);
          n = int (read_digits 0 u);
          v = (if neg then - n else n)
      in
      if u = [] \<or> \<not> is_digit (hd u) then Inl (Invalid_argument ''stoi'')
      else if v < - (2 ^ 31) \<or> 2 ^ 31 \<le> v then Inl (Out_of_range ''stoi'')
      else Inr v)"

definition Address_of_hostname :: "libc \<Rightarrow> string \<Rightarrow> string \<Rightarrow> Address res" where
  "Address_of_hostname L hostname service = Address_resolve L hostname service (make_hints AI_ALL INET)"

definition Address_of_ip_port :: "libc \<Rightarrow> string \<Rightarrow> u16 \<Rightarrow> Address res" where
  "Address_of_ip_port L ip port = Address_resolve L ip (to_string (unat port)) (make_hints AI_NUMERIC INET)"

definition Address_ipv4_numeric :: "Address \<Rightarrow> u32 res" where
  "Address_ipv4_numeric a =
     (if take 2 (ad_storage a) \<noteq> AF_INET \<or> ad_size a \<noteq> of_nat sockaddr_in_size
      then Inl (Runtime_error ''ipv4_numeric called on non-IPV4 address'')
      else Inr (foldl be_step 0 (take 4 (drop 4 (take (unat (ad_size a)) (ad_storage a))))))"

definition Address_from_ipv4_numeric :: "u32 \<Rightarrow> Address res" where
  "Address_from_ipv4_numeric ip_address =
     Address_of_sockaddr (AF_INET @ [0, 0] @ NetUnparser_u32 [] ip_address @ replicate 8 0)
       (of_nat sockaddr_in_size)"

definition Address_eq :: "Address \<Rightarrow> Address \<Rightarrow> bool" where
  "Address_eq a b \<longleftrightarrow>
     ad_size a = ad_size b \<and>
     take (unat (ad_size a)) (ad_storage a) = take (unat (ad_size a)) (ad_storage b)"

definition Address_ip_port :: "libc \<Rightarrow> Address \<Rightarrow> (string \<times> u16) res" where
  "Address_ip_port L a =
     bind_res (lc_getnameinfo L (ad_storage a) (ad_size a)) (\<lambda>(ip, port).
     bind_res (stoi port) (\<lambda>n. Inr (ip, of_int n)))"

definition Address_ip :: "libc \<Rightarrow> Address \<Rightarrow> string res" where
  "Address_ip L a = bind_res (Address_ip_port L a) (\<lambda>(ip, _). Inr ip)"

definition Address_port :: "libc \<Rightarrow> Address \<Rightarrow> u16 res" where
  "Address_port L a = bind_res (Address_ip_port L a) (\<lambda>(_, port). Inr port)"

definition Address_to_string :: "libc \<Rightarrow> Address \<Rightarrow> string res" where
  "Address_to_string L a =
     bind_res (Address_ip_port L a) (\<lambda>(ip, port). Inr (ip @ '':'' @ to_string (unat port)))"

section \<open>Decimal numbers\<close>

lemma of_char_digit [simp]: "n < 10 \<Longrightarrow> of_char (digit n) = 48 + n"
  by (simp add: digit_def)

lemma read_digits_append:
  "list_all (\<lambda>c. 48 \<le> (of_char c :: nat) \<and> (of_char c :: nat) \<le> 57) xs \<Longrightarrow>
     read_digits acc (xs @ ys) = read_digits (read_digits acc xs) ys"
  by (induction xs arbitrary: acc) (simp_all add: Let_def)

lemma to_string_digits:
  "list_all (\<lambda>c. 48 \<le> (of_char c :: nat) \<and> (of_char c :: nat) \<le> 57) (to_string n) \<and> to_string n \<noteq> [] \<and>
     read_digits 0 (to_string n) = n"
proof (induction n rule: to_string.induct)
  case (1 n)
  show ?case
  proof (cases "n < 10")
    case True
    then show ?thesis by (subst (1 2 3) to_string.simps) (simp add: Let_def)
  next
    case False
    with 1 show ?thesis
      by (subst (1 2 3) to_string.simps) (simp add: read_digits_append Let_def)
  qed
qed

lemma stoi_to_string:
  assumes "n < 2 ^ 31"
  shows "stoi (to_string n) = Inr (int n)"
proof -
  obtain c cs where s: "to_string n = c # cs" using to_string_digits [of n] by (cases "to_string n") auto
  then have c: "48 \<le> (of_char c :: nat)" "(of_char c :: nat) \<le> 57" using to_string_digits [of n] by auto
  then have "c \<noteq> CHR '' ''" "c \<noteq> CHR ''+''" "c \<noteq> CHR ''-''" by auto
  moreover have "int n < 2 ^ 31" using assms by simp
  ultimately show ?thesis
    using c s to_string_digits [of n] by (simp add: stoi_def Let_def)
qed

section \<open>IPv4 addresses\<close>

definition ipv4_address :: "u32 \<Rightarrow> Address" where
  "ipv4_address ip =
     \<lparr>ad_size = 16, ad_storage = [2, 0, 0, 0] @ NetUnparser_u32 [] ip @ replicate 120 0\<rparr>"

lemma from_ipv4_numeric_eq [simp]: "Address_from_ipv4_numeric ip = Inr (ipv4_address ip)"
  by (simp add: Address_from_ipv4_numeric_def Address_of_sockaddr_def sockaddr_storage_size_def
      sockaddr_in_size_def AF_INET_def ipv4_address_def replicate_add [symmetric])

lemma be_fold_u32: "foldl be_step 0 (NetUnparser_u32 [] ip) = ip"
  by (simp add: NetUnparser_u32_def unparse_int_eq be_fold_all [where n = 4])

lemma ipv4_numeric_address [simp]: "Address_ipv4_numeric (ipv4_address ip) = Inr ip"
  by (simp add: Address_ipv4_numeric_def ipv4_address_def AF_INET_def sockaddr_in_size_def be_fold_u32)

section \<open>Properties\<close>

text \<open>Converting a 32-bit IPv4 address to an \<^verbatim>\<open>Address\<close> never throws and loses nothing: the
  conversion back gives the same number, and two such addresses are equal under \<^verbatim>\<open>operator==\<close>
  exactly when the numbers are.\<close>

theorem address_ipv4_roundtrip:
  "\<exists>a b. Address_from_ipv4_numeric ip = Inr a \<and> Address_from_ipv4_numeric ip' = Inr b \<and>
     Address_ipv4_numeric a = Inr ip \<and> (Address_eq a b \<longleftrightarrow> ip = ip')"
proof -
  have "Address_eq (ipv4_address ip) (ipv4_address ip') \<longleftrightarrow> ip = ip'"
    by (auto simp: Address_eq_def ipv4_address_def c32.enc_inj)
  then show ?thesis by simp
qed

end
