(* ===== verification/NetworkInterfaces.thy ===== *)
theory NetworkInterfaces
  imports IPv4Datagrams ARPMessages Addresses
begin

text \<open>
  \<^verbatim>\<open>libsponge/network_interface.*\<close>: the interface between Internet datagrams and Ethernet frames,
  with its ARP table, its pending ARP requests and the datagrams that wait for an answer. The hash
  tables are maps; iterating over one of them treats every entry alike, so the order does not
  matter. The operations are polymorphic in the record extension, so that the derived class
  \<^verbatim>\<open>AsyncNetworkInterface\<close> of the router inherits them. What an operation had already changed when an
  exception leaves it is not modelled.
\<close>

section \<open>State and operations\<close>

record ARPEntry =
  ae_eth_addr :: EthernetAddress
  ae_ttl :: size_t

record NetworkInterface =
  ni_ethernet_address :: EthernetAddress
  ni_ip_address :: Address
  ni_frames_out :: "EthernetFrame list"
  ni_arp_table :: "u32 \<rightharpoonup> ARPEntry"
  ni_waiting_arp_response_ip_addr :: "u32 \<rightharpoonup> size_t"
  ni_waiting_internet_datagrams :: "u32 \<rightharpoonup> (Address \<times> IPv4Datagram) list"

definition ARP_ENTRY_TTL_MS :: u32 where "ARP_ENTRY_TTL_MS = 30 * 1000"
definition ARP_RESPONSE_TTL_MS :: u32 where "ARP_RESPONSE_TTL_MS = 5 * 1000"

definition NetworkInterface_new :: "EthernetAddress \<Rightarrow> Address \<Rightarrow> NetworkInterface" where
  "NetworkInterface_new ethernet_address ip_address =
     \<lparr>ni_ethernet_address = ethernet_address, ni_ip_address = ip_address, ni_frames_out = [],
      ni_arp_table = Map.empty, ni_waiting_arp_response_ip_addr = Map.empty,
      ni_waiting_internet_datagrams = Map.empty\<rparr>"

definition NetworkInterface_send ::
    "EthernetAddress \<Rightarrow> u16 \<Rightarrow> BufferList \<Rightarrow> 'a NetworkInterface_scheme \<Rightarrow> 'a NetworkInterface_scheme" where
  "NetworkInterface_send dst type payload n =
     n\<lparr>ni_frames_out := ni_frames_out n @
         [\<lparr>ef_header = \<lparr>eh_dst = dst, eh_src = ni_ethernet_address n, eh_type = type\<rparr>,
           ef_payload = payload\<rparr>]\<rparr>"

definition NetworkInterface_request_arp ::
    "u32 \<Rightarrow> 'a NetworkInterface_scheme \<Rightarrow> 'a NetworkInterface_scheme res" where
  "NetworkInterface_request_arp next_hop_ip n =
     bind_res (Address_ipv4_numeric (ni_ip_address n)) (\<lambda>my_ip.
     let arp_msg = ARPMessage_default\<lparr>arp_opcode := OPCODE_REQUEST,
           arp_sender_ethernet_address := ni_ethernet_address n,
           arp_target_ethernet_address := replicate 6 0,
           arp_sender_ip_address := my_ip, arp_target_ip_address := next_hop_ip\<rparr>
     in
     bind_res (ARPMessage_serialize arp_msg) (\<lambda>s.
     let n = NetworkInterface_send ETHERNET_BROADCAST TYPE_ARP (BufferList_of_string s) n in
     Inr (n\<lparr>ni_waiting_arp_response_ip_addr :=
              (ni_waiting_arp_response_ip_addr n)(next_hop_ip \<mapsto> ucast ARP_RESPONSE_TTL_MS)\<rparr>)))"

definition NetworkInterface_send_datagram ::
    "IPv4Datagram \<Rightarrow> Address \<Rightarrow> 'a NetworkInterface_scheme \<Rightarrow> 'a NetworkInterface_scheme res" where
  "NetworkInterface_send_datagram dgram next_hop n =
     bind_res (Address_ipv4_numeric next_hop) (\<lambda>next_hop_ip.
     case ni_arp_table n next_hop_ip of
       Some entry \<Rightarrow>
         bind_res (IPv4Datagram_serialize dgram) (\<lambda>payload.
         Inr (NetworkInterface_send (ae_eth_addr entry) TYPE_IPv4 payload n))
     | None \<Rightarrow>
         bind_res
           (if ni_waiting_arp_response_ip_addr n next_hop_ip = None
            then NetworkInterface_request_arp next_hop_ip n else Inr n) (\<lambda>n.
         let waiting = (case ni_waiting_internet_datagrams n next_hop_ip of Some l \<Rightarrow> l | None \<Rightarrow> []) in
         Inr (n\<lparr>ni_waiting_internet_datagrams :=
                  (ni_waiting_internet_datagrams n)(next_hop_ip \<mapsto> waiting @ [(next_hop, dgram)])\<rparr>)))"

fun send_waiting ::
    "EthernetAddress \<Rightarrow> (Address \<times> IPv4Datagram) list \<Rightarrow> 'a NetworkInterface_scheme \<Rightarrow> 'a NetworkInterface_scheme res" where
  "send_waiting dst [] n = Inr n"
| "send_waiting dst ((next_hop, dgram) # rest) n =
     bind_res (IPv4Datagram_serialize dgram) (\<lambda>payload.
     send_waiting dst rest (NetworkInterface_send dst TYPE_IPv4 payload n))"

definition NetworkInterface_reply_arp ::
    "ARPMessage \<Rightarrow> u32 \<Rightarrow> 'a NetworkInterface_scheme \<Rightarrow> 'a NetworkInterface_scheme res" where
  "NetworkInterface_reply_arp arp_msg my_ip n =
     (if arp_opcode arp_msg = OPCODE_REQUEST \<and> arp_target_ip_address arp_msg = my_ip then
        let arp_reply = ARPMessage_default\<lparr>arp_opcode := OPCODE_REPLY,
              arp_sender_ethernet_address := ni_ethernet_address n,
              arp_target_ethernet_address := arp_sender_ethernet_address arp_msg,
              arp_sender_ip_address := my_ip, arp_target_ip_address := arp_sender_ip_address arp_msg\<rparr>
        in
        bind_res (ARPMessage_serialize arp_reply) (\<lambda>s.
        Inr (NetworkInterface_send (arp_sender_ethernet_address arp_msg) TYPE_ARP (BufferList_of_string s) n))
      else Inr n)"

definition NetworkInterface_learn ::
    "ARPMessage \<Rightarrow> 'a NetworkInterface_scheme \<Rightarrow> 'a NetworkInterface_scheme res" where
  "NetworkInterface_learn arp_msg n =
     (let src_ip = arp_sender_ip_address arp_msg;
          n = n\<lparr>ni_arp_table := (ni_arp_table n)(src_ip \<mapsto>
                  \<lparr>ae_eth_addr = arp_sender_ethernet_address arp_msg, ae_ttl = ucast ARP_ENTRY_TTL_MS\<rparr>)\<rparr>
      in
      case ni_waiting_internet_datagrams n src_ip of
        None \<Rightarrow> Inr n
      | Some waiting \<Rightarrow>
          bind_res (send_waiting (arp_sender_ethernet_address arp_msg) waiting n) (\<lambda>n.
          Inr (n\<lparr>ni_waiting_internet_datagrams := (ni_waiting_internet_datagrams n)(src_ip := None)\<rparr>)))"

definition NetworkInterface_recv_frame ::
    "EthernetFrame \<Rightarrow> 'a NetworkInterface_scheme \<Rightarrow> ('a NetworkInterface_scheme \<times> IPv4Datagram option) res" where
  "NetworkInterface_recv_frame frame n =
     (let dst = eh_dst (ef_header frame); type = eh_type (ef_header frame) in
      if dst \<noteq> ETHERNET_BROADCAST \<and> dst \<noteq> ni_ethernet_address n then Inr (n, None)
      else if type = TYPE_IPv4 then
        bind_res (BufferList_to_Buffer (ef_payload frame)) (\<lambda>buffer.
        bind_res (IPv4Datagram_parse buffer IPv4Datagram_default) (\<lambda>(result, ret).
        Inr (n, if result = NoError then Some ret else None)))
      else if type = TYPE_ARP then
        bind_res (BufferList_to_Buffer (ef_payload frame)) (\<lambda>buffer.
        bind_res (ARPMessage_parse buffer ARPMessage_default) (\<lambda>(result, arp_msg).
        if result \<noteq> NoError then Inr (n, None)
        else
          bind_res (Address_ipv4_numeric (ni_ip_address n)) (\<lambda>my_ip.
          bind_res (NetworkInterface_reply_arp arp_msg my_ip n) (\<lambda>n.
          bind_res (NetworkInterface_learn arp_msg n) (\<lambda>n. Inr (n, None))))))
      else Inr (n, None))"

definition arp_entry_tick :: "size_t \<Rightarrow> ARPEntry option \<Rightarrow> ARPEntry option" where
  "arp_entry_tick ms e =
     (case e of None \<Rightarrow> None
      | Some entry \<Rightarrow> if ae_ttl entry \<le> ms then None else Some (entry\<lparr>ae_ttl := ae_ttl entry - ms\<rparr>))"

definition waiting_tick :: "size_t \<Rightarrow> size_t option \<Rightarrow> size_t option" where
  "waiting_tick ms t =
     (case t of None \<Rightarrow> None | Some ttl \<Rightarrow> if ttl \<le> ms then None else Some (ttl - ms))"

definition waiting_datagrams_tick :: "size_t \<Rightarrow> size_t option \<Rightarrow> 'l option \<Rightarrow> 'l option" where
  "waiting_datagrams_tick ms t datagrams =
     (case t of None \<Rightarrow> datagrams | Some ttl \<Rightarrow> if ttl \<le> ms then None else datagrams)"

definition NetworkInterface_tick :: "size_t \<Rightarrow> 'a NetworkInterface_scheme \<Rightarrow> 'a NetworkInterface_scheme" where
  "NetworkInterface_tick ms n =
     n\<lparr>ni_arp_table := (\<lambda>ip. arp_entry_tick ms (ni_arp_table n ip)),
       ni_waiting_internet_datagrams := (\<lambda>ip.
         waiting_datagrams_tick ms (ni_waiting_arp_response_ip_addr n ip) (ni_waiting_internet_datagrams n ip)),
       ni_waiting_arp_response_ip_addr := (\<lambda>ip. waiting_tick ms (ni_waiting_arp_response_ip_addr n ip))\<rparr>"

section \<open>The invariant\<close>

definition iface_inv :: "'a NetworkInterface_scheme \<Rightarrow> bool" where
  "iface_inv n \<longleftrightarrow>
     eth_ok (ni_ethernet_address n) \<and> (\<exists>ip. Address_ipv4_numeric (ni_ip_address n) = Inr ip) \<and>
     (\<forall>ip l. ni_waiting_internet_datagrams n ip = Some l \<longrightarrow>
        ni_arp_table n ip = None \<and> (\<exists>t. ni_waiting_arp_response_ip_addr n ip = Some t)) \<and>
     (\<forall>ip e. ni_arp_table n ip = Some e \<longrightarrow> 0 < unat (ae_ttl e) \<and> unat (ae_ttl e) \<le> 30000 \<and> eth_ok (ae_eth_addr e)) \<and>
     (\<forall>ip t. ni_waiting_arp_response_ip_addr n ip = Some t \<longrightarrow> 0 < unat t \<and> unat t \<le> 5000) \<and>
     (\<forall>ip l. ni_waiting_internet_datagrams n ip = Some l \<longrightarrow> (\<forall>(h, d) \<in> set l. datagram_ok d))"

definition wire_of :: "IPv4Datagram \<Rightarrow> BufferList" where
  "wire_of d = (case IPv4Datagram_serialize d of Inr bl \<Rightarrow> bl | Inl _ \<Rightarrow> [])"

definition frame_from :: "'a NetworkInterface_scheme \<Rightarrow> EthernetAddress \<Rightarrow> u16 \<Rightarrow> BufferList \<Rightarrow> EthernetFrame" where
  "frame_from n dst type payload =
     \<lparr>ef_header = \<lparr>eh_dst = dst, eh_src = ni_ethernet_address n, eh_type = type\<rparr>, ef_payload = payload\<rparr>"

lemma send_eq: "NetworkInterface_send dst type payload n =
    n\<lparr>ni_frames_out := ni_frames_out n @ [frame_from n dst type payload]\<rparr>"
  by (simp add: NetworkInterface_send_def frame_from_def)

lemma frame_from_upd [simp]:
  "frame_from (n\<lparr>ni_frames_out := x\<rparr>) = frame_from n"
  "frame_from (n\<lparr>ni_arp_table := t\<rparr>) = frame_from n"
  by (simp_all add: frame_from_def fun_eq_iff)

lemma serialize_wire: "datagram_ok d \<Longrightarrow> IPv4Datagram_serialize d = Inr (wire_of d)"
  using datagram_serialize_eq [of d] by (auto simp: wire_of_def)

lemma send_waiting_eq:
  "\<forall>(h, d) \<in> set l. datagram_ok d \<Longrightarrow> send_waiting dst l n =
     Inr (n\<lparr>ni_frames_out := ni_frames_out n @ map (\<lambda>(h, d). frame_from n dst TYPE_IPv4 (wire_of d)) l\<rparr>)"
proof (induction l arbitrary: n)
  case (Cons x l)
  then show ?case by (cases x) (simp add: serialize_wire send_eq case_prod_beta)
qed simp

lemma iface_new_inv:
  assumes "eth_ok a" and "Address_ipv4_numeric ip = Inr i"
  shows "iface_inv (NetworkInterface_new a ip)"
  using assms by (simp add: iface_inv_def NetworkInterface_new_def)

lemma ttl_values [simp]:
  "unat (ucast ARP_ENTRY_TTL_MS :: size_t) = 30000" "unat (ucast ARP_RESPONSE_TTL_MS :: size_t) = 5000"
  by (simp_all add: ARP_ENTRY_TTL_MS_def ARP_RESPONSE_TTL_MS_def)

definition request_for :: "'a NetworkInterface_scheme \<Rightarrow> u32 \<Rightarrow> ARPMessage" where
  "request_for n ip =
     ARPMessage_default\<lparr>arp_opcode := OPCODE_REQUEST, arp_sender_ethernet_address := ni_ethernet_address n,
       arp_target_ethernet_address := replicate 6 0,
       arp_sender_ip_address := projr (Address_ipv4_numeric (ni_ip_address n)), arp_target_ip_address := ip\<rparr>"

lemma request_arp_ok:
  assumes "iface_inv n"
  shows "\<exists>s. ARPMessage_serialize (request_for n ip) = Inr s \<and>
    NetworkInterface_request_arp ip n =
      Inr (n\<lparr>ni_frames_out := ni_frames_out n @ [frame_from n ETHERNET_BROADCAST TYPE_ARP (BufferList_of_string s)],
             ni_waiting_arp_response_ip_addr :=
               (ni_waiting_arp_response_ip_addr n)(ip \<mapsto> ucast ARP_RESPONSE_TTL_MS)\<rparr>)"
proof -
  have "ARPMessage_supported (request_for n ip)"
    by (simp add: ARPMessage_supported_def request_for_def ARPMessage_default_def)
  then obtain s where "ARPMessage_serialize (request_for n ip) = Inr s" using arp_serialize_eq by blast
  moreover obtain my where "Address_ipv4_numeric (ni_ip_address n) = Inr my"
    using assms by (auto simp: iface_inv_def)
  ultimately show ?thesis
    by (simp add: NetworkInterface_request_arp_def request_for_def Let_def send_eq)
qed

definition waiting_for :: "'a NetworkInterface_scheme \<Rightarrow> u32 \<Rightarrow> (Address \<times> IPv4Datagram) list" where
  "waiting_for n ip = (case ni_waiting_internet_datagrams n ip of Some l \<Rightarrow> l | None \<Rightarrow> [])"

lemma iface_inv_queue:
  assumes inv: "iface_inv n" and d: "datagram_ok d" and miss: "ni_arp_table n ip = None"
    and p: "ni_waiting_arp_response_ip_addr n ip \<noteq> None"
  shows "iface_inv (n\<lparr>ni_waiting_internet_datagrams :=
    (ni_waiting_internet_datagrams n)(ip \<mapsto> waiting_for n ip @ [(hop, d)])\<rparr>)"
proof -
  have "\<forall>(h, d) \<in> set (waiting_for n ip). datagram_ok d"
    using inv by (cases "ni_waiting_internet_datagrams n ip") (auto simp: iface_inv_def waiting_for_def)
  then show ?thesis using inv d miss p by (auto simp: iface_inv_def dom_def)
qed

lemma iface_inv_frames: "iface_inv (n\<lparr>ni_frames_out := x\<rparr>) = iface_inv n"
  by (simp add: iface_inv_def)

lemma iface_inv_pending:
  "iface_inv n \<Longrightarrow> iface_inv (n\<lparr>ni_waiting_arp_response_ip_addr :=
     (ni_waiting_arp_response_ip_addr n)(ip \<mapsto> ucast ARP_RESPONSE_TTL_MS)\<rparr>)"
  by (auto simp: iface_inv_def)

lemma send_datagram_ok:
  assumes inv: "iface_inv n" and d: "datagram_ok d" and hop: "Address_ipv4_numeric hop = Inr ip"
  shows "\<exists>n'. NetworkInterface_send_datagram d hop n = Inr n' \<and> iface_inv n' \<and>
    (case ni_arp_table n ip of
       Some e \<Rightarrow> n' = n\<lparr>ni_frames_out := ni_frames_out n @ [frame_from n (ae_eth_addr e) TYPE_IPv4 (wire_of d)]\<rparr>
     | None \<Rightarrow>
         waiting_for n' ip = waiting_for n ip @ [(hop, d)] \<and>
         (if ni_waiting_arp_response_ip_addr n ip = None
          then (\<exists>s. ARPMessage_serialize (request_for n ip) = Inr s \<and>
            ni_frames_out n' = ni_frames_out n @ [frame_from n ETHERNET_BROADCAST TYPE_ARP (BufferList_of_string s)])
          else ni_frames_out n' = ni_frames_out n))"
proof (cases "ni_arp_table n ip")
  case (Some e)
  then show ?thesis
    using inv hop serialize_wire [OF d]
    by (simp add: NetworkInterface_send_datagram_def send_eq iface_inv_frames)
next
  case miss: None
  define n1 where "n1 = (if ni_waiting_arp_response_ip_addr n ip = None
    then projr (NetworkInterface_request_arp ip n) else n)"
  obtain s where s: "ARPMessage_serialize (request_for n ip) = Inr s" "NetworkInterface_request_arp ip n =
      Inr (n\<lparr>ni_frames_out := ni_frames_out n @ [frame_from n ETHERNET_BROADCAST TYPE_ARP (BufferList_of_string s)],
             ni_waiting_arp_response_ip_addr :=
               (ni_waiting_arp_response_ip_addr n)(ip \<mapsto> ucast ARP_RESPONSE_TTL_MS)\<rparr>)"
    using request_arp_ok [OF inv] by blast
  have n1: "iface_inv n1" "ni_arp_table n1 ip = None" "ni_waiting_arp_response_ip_addr n1 ip \<noteq> None"
    "waiting_for n1 ip = waiting_for n ip"
    using inv miss s(2) iface_inv_pending [of "n\<lparr>ni_frames_out := x\<rparr>" ip for x]
    by (auto simp: n1_def iface_inv_frames waiting_for_def)
  have "NetworkInterface_send_datagram d hop n = Inr (n1\<lparr>ni_waiting_internet_datagrams :=
      (ni_waiting_internet_datagrams n1)(ip \<mapsto> waiting_for n1 ip @ [(hop, d)])\<rparr>)"
    using hop miss s(2) by (simp add: NetworkInterface_send_datagram_def n1_def waiting_for_def)
  with iface_inv_queue [OF n1(1) d n1(2,3)] show ?thesis
    using miss n1(4) s by (simp add: waiting_for_def n1_def)
qed

lemma send_datagram_keeps:
  "NetworkInterface_send_datagram d hop n = Inr n' \<Longrightarrow>
     ni_ethernet_address n' = ni_ethernet_address n \<and> ni_ip_address n' = ni_ip_address n"
  by (auto simp: NetworkInterface_send_datagram_def NetworkInterface_request_arp_def NetworkInterface_send_def
      Let_def bind_res_def split: sum.splits option.splits if_splits)

lemma send_waiting_keeps:
  "send_waiting dst l n = Inr n' \<Longrightarrow>
     ni_ethernet_address n' = ni_ethernet_address n \<and> ni_ip_address n' = ni_ip_address n"
proof (induction l arbitrary: n)
  case (Cons x l)
  obtain h d where "x = (h, d)" by (cases x)
  with Cons.prems obtain p where "send_waiting dst l (NetworkInterface_send dst TYPE_IPv4 p n) = Inr n'"
    by (auto simp: bind_res_Inr_iff)
  from Cons.IH [OF this] show ?case by (simp add: NetworkInterface_send_def)
qed simp

lemma recv_frame_keeps:
  "NetworkInterface_recv_frame f n = Inr (n', r) \<Longrightarrow>
     ni_ethernet_address n' = ni_ethernet_address n \<and> ni_ip_address n' = ni_ip_address n"
  by (auto simp: NetworkInterface_recv_frame_def NetworkInterface_reply_arp_def NetworkInterface_learn_def
      NetworkInterface_send_def Let_def bind_res_Inr_iff dest!: send_waiting_keeps
      split: if_splits option.splits)

lemma reply_arp_ok:
  assumes inv: "iface_inv n"
  shows "\<exists>reply. NetworkInterface_reply_arp m my n = Inr (n\<lparr>ni_frames_out := ni_frames_out n @ reply\<rparr>) \<and>
    (if arp_opcode m = OPCODE_REQUEST \<and> arp_target_ip_address m = my
     then \<exists>s. reply = [frame_from n (arp_sender_ethernet_address m) TYPE_ARP (BufferList_of_string s)] \<and>
       ARPMessage_serialize (ARPMessage_default\<lparr>arp_opcode := OPCODE_REPLY,
         arp_sender_ethernet_address := ni_ethernet_address n,
         arp_target_ethernet_address := arp_sender_ethernet_address m,
         arp_sender_ip_address := my, arp_target_ip_address := arp_sender_ip_address m\<rparr>) = Inr s
     else reply = [])"
proof (cases "arp_opcode m = OPCODE_REQUEST \<and> arp_target_ip_address m = my")
  case True
  let ?r = "ARPMessage_default\<lparr>arp_opcode := OPCODE_REPLY, arp_sender_ethernet_address := ni_ethernet_address n,
    arp_target_ethernet_address := arp_sender_ethernet_address m, arp_sender_ip_address := my,
    arp_target_ip_address := arp_sender_ip_address m\<rparr>"
  have "ARPMessage_supported ?r" by (simp add: ARPMessage_supported_def ARPMessage_default_def)
  then obtain s where "ARPMessage_serialize ?r = Inr s" using arp_serialize_eq by blast
  with True show ?thesis by (simp add: NetworkInterface_reply_arp_def Let_def send_eq)
next
  case False
  then show ?thesis by (intro exI [of _ "[]"]) (auto simp: NetworkInterface_reply_arp_def)
qed

lemma learn_ok:
  assumes inv: "iface_inv n" and m: "eth_ok (arp_sender_ethernet_address m)"
  shows "\<exists>n'. NetworkInterface_learn m n = Inr n' \<and> iface_inv n' \<and>
    ni_frames_out n' = ni_frames_out n @
      map (\<lambda>(h, d). frame_from n (arp_sender_ethernet_address m) TYPE_IPv4 (wire_of d))
        (waiting_for n (arp_sender_ip_address m)) \<and>
    ni_waiting_internet_datagrams n' = (ni_waiting_internet_datagrams n)(arp_sender_ip_address m := None) \<and>
    ni_arp_table n' = (ni_arp_table n)(arp_sender_ip_address m \<mapsto>
      \<lparr>ae_eth_addr = arp_sender_ethernet_address m, ae_ttl = ucast ARP_ENTRY_TTL_MS\<rparr>)"
proof -
  let ?ip = "arp_sender_ip_address m" and ?eth = "arp_sender_ethernet_address m"
  define n1 where "n1 = n\<lparr>ni_arp_table := (ni_arp_table n)(?ip \<mapsto> \<lparr>ae_eth_addr = ?eth, ae_ttl = ucast ARP_ENTRY_TTL_MS\<rparr>)\<rparr>"
  have n1: "ni_waiting_internet_datagrams n1 = ni_waiting_internet_datagrams n" "ni_frames_out n1 = ni_frames_out n"
    "frame_from n1 = frame_from n" by (simp_all add: n1_def)
  have inv': "iface_inv (n1\<lparr>ni_frames_out := x, ni_waiting_internet_datagrams := (ni_waiting_internet_datagrams n)(?ip := None)\<rparr>)" for x
    using inv m by (auto simp: n1_def iface_inv_def)
  show ?thesis
  proof (cases "ni_waiting_internet_datagrams n ?ip")
    case None
    then have same: "(ni_waiting_internet_datagrams n)(?ip := None) = ni_waiting_internet_datagrams n" by auto
    have "NetworkInterface_learn m n = Inr n1"
      using None by (simp add: NetworkInterface_learn_def Let_def n1_def)
    moreover have "iface_inv n1" using inv m None by (auto simp: n1_def iface_inv_def)
    ultimately show ?thesis using None same n1 by (simp add: waiting_for_def) (simp add: n1_def)
  next
    case (Some l)
    then have "\<forall>(h, d) \<in> set l. datagram_ok d" using inv by (auto simp: iface_inv_def)
    from send_waiting_eq [OF this, of ?eth n1]
    have "NetworkInterface_learn m n = Inr (n1\<lparr>ni_frames_out := ni_frames_out n @
        map (\<lambda>(h, d). frame_from n ?eth TYPE_IPv4 (wire_of d)) l,
        ni_waiting_internet_datagrams := (ni_waiting_internet_datagrams n)(?ip := None)\<rparr>)"
      using Some n1 by (simp add: NetworkInterface_learn_def Let_def n1_def [symmetric])
    with inv' Some show ?thesis by (simp add: waiting_for_def) (simp add: n1_def)
  qed
qed

lemma recv_frame_ok:
  assumes inv: "iface_inv n" and pl: "ef_payload f = [b]" "Buffer_wf b"
  shows "\<exists>n' r. NetworkInterface_recv_frame f n = Inr (n', r) \<and> iface_inv n'"
proof -
  have buf: "BufferList_to_Buffer (ef_payload f) = Inr b" by (simp add: pl BufferList_to_Buffer_def)
  obtain my where my: "Address_ipv4_numeric (ni_ip_address n) = Inr my" using inv by (auto simp: iface_inv_def)
  obtain r m where arp: "ARPMessage_parse b ARPMessage_default = Inr (r, m)" "r = NoError \<longrightarrow> arp_ok m"
    using arp_parse_any [OF pl(2), of ARPMessage_default] by blast
  obtain r' d where ip: "IPv4Datagram_parse b IPv4Datagram_default = Inr (r', d)"
    using datagram_parse_any [OF pl(2)] by blast
  obtain reply where rep: "NetworkInterface_reply_arp m my n = Inr (n\<lparr>ni_frames_out := ni_frames_out n @ reply\<rparr>)"
    using reply_arp_ok [OF inv] by blast
  obtain n' where "r = NoError \<longrightarrow>
      NetworkInterface_learn m (n\<lparr>ni_frames_out := ni_frames_out n @ reply\<rparr>) = Inr n' \<and> iface_inv n'"
    using learn_ok [of "n\<lparr>ni_frames_out := ni_frames_out n @ reply\<rparr>" m] inv arp(2)
    by (auto simp: iface_inv_frames arp_ok_def)
  then show ?thesis
    using inv buf my arp ip rep by (simp add: NetworkInterface_recv_frame_def Let_def)
qed

lemma tick_inv:
  assumes "iface_inv n"
  shows "iface_inv (NetworkInterface_tick ms n)"
proof -
  have sub: "unat (t - ms) = unat t - unat ms" if "\<not> t \<le> ms" for t
    using that by (intro unat_sub) simp
  have entry: "0 < unat (ae_ttl e') \<and> unat (ae_ttl e') \<le> 30000 \<and> eth_ok (ae_eth_addr e')"
    if "arp_entry_tick ms (ni_arp_table n ip) = Some e'" for ip e'
  proof (cases "ni_arp_table n ip")
    case (Some e)
    then have "unat (ae_ttl e) \<le> 30000 \<and> eth_ok (ae_eth_addr e)" using assms by (simp add: iface_inv_def)
    then show ?thesis using that Some by (auto simp: arp_entry_tick_def sub word_le_nat_alt split: if_splits)
  qed (use that in \<open>simp add: arp_entry_tick_def\<close>)
  have pending: "0 < unat t \<and> unat t \<le> 5000"
    if "waiting_tick ms (ni_waiting_arp_response_ip_addr n ip) = Some t" for ip t
  proof (cases "ni_waiting_arp_response_ip_addr n ip")
    case (Some u)
    then have "unat u \<le> 5000" using assms by (simp add: iface_inv_def)
    then show ?thesis using that Some by (auto simp: waiting_tick_def sub word_le_nat_alt split: if_splits)
  qed (use that in \<open>simp add: waiting_tick_def\<close>)
  have queued: "ni_waiting_internet_datagrams n ip = Some l \<and> arp_entry_tick ms (ni_arp_table n ip) = None \<and>
      (\<exists>t. waiting_tick ms (ni_waiting_arp_response_ip_addr n ip) = Some t)"
    if "ni_waiting_internet_datagrams (NetworkInterface_tick ms n) ip = Some l" for ip l
  proof (cases "ni_waiting_arp_response_ip_addr n ip")
    case None
    with that assms show ?thesis by (force simp: NetworkInterface_tick_def iface_inv_def waiting_datagrams_tick_def)
  next
    case (Some t)
    with that assms show ?thesis
      by (auto simp: NetworkInterface_tick_def iface_inv_def arp_entry_tick_def waiting_tick_def
          waiting_datagrams_tick_def split: if_splits)
  qed
  have same: "ni_arp_table (NetworkInterface_tick ms n) ip = arp_entry_tick ms (ni_arp_table n ip)"
    "ni_waiting_arp_response_ip_addr (NetworkInterface_tick ms n) ip =
       waiting_tick ms (ni_waiting_arp_response_ip_addr n ip)"
    "ni_ethernet_address (NetworkInterface_tick ms n) = ni_ethernet_address n"
    "ni_ip_address (NetworkInterface_tick ms n) = ni_ip_address n" for ip
    by (simp_all add: NetworkInterface_tick_def)
  have "eth_ok (ni_ethernet_address n) \<and> (\<exists>ip. Address_ipv4_numeric (ni_ip_address n) = Inr ip)"
    and ok: "ni_waiting_internet_datagrams n ip = Some l \<Longrightarrow> \<forall>(h, d) \<in> set l. datagram_ok d" for ip l
    using assms by (auto simp: iface_inv_def)
  then show ?thesis
    unfolding iface_inv_def same by (intro conjI allI impI) (use queued entry pending ok in \<open>blast+\<close>)
qed

section \<open>Sequences of operations\<close>

datatype iface_op = Send_datagram IPv4Datagram u32 | Recv_frame EthernetFrame | Elapse size_t | Pop_frame

fun iface_step :: "iface_op \<Rightarrow> NetworkInterface \<Rightarrow> NetworkInterface res" where
  "iface_step (Send_datagram d ip) n = NetworkInterface_send_datagram d (ipv4_address ip) n"
| "iface_step (Recv_frame f) n = bind_res (NetworkInterface_recv_frame f n) (\<lambda>(n, _). Inr n)"
| "iface_step (Elapse ms) n = Inr (NetworkInterface_tick ms n)"
| "iface_step Pop_frame n = Inr (n\<lparr>ni_frames_out := tl (ni_frames_out n)\<rparr>)"

fun iface_op_ok :: "iface_op \<Rightarrow> bool" where
  "iface_op_ok (Send_datagram d ip) \<longleftrightarrow> datagram_ok d"
| "iface_op_ok (Recv_frame f) \<longleftrightarrow> (case ef_payload f of [b] \<Rightarrow> Buffer_wf b | _ \<Rightarrow> False)"
| "iface_op_ok (Elapse ms) \<longleftrightarrow> True"
| "iface_op_ok Pop_frame \<longleftrightarrow> True"

interpretation iface_life: op_machine iface_step iface_op_ok iface_inv
proof unfold_locales
  fix n :: NetworkInterface and x
  assume inv: "iface_inv n" and ok: "iface_op_ok x"
  show "\<exists>n'. iface_step x n = Inr n' \<and> iface_inv n'"
  proof (cases x)
    case (Send_datagram d ip)
    with ok show ?thesis
      using send_datagram_ok [OF inv _ ipv4_numeric_address, of d ip] by auto
  next
    case (Recv_frame f)
    then obtain b where "ef_payload f = [b]" "Buffer_wf b" using ok by (auto split: list.splits)
    from recv_frame_ok [OF inv this] Recv_frame show ?thesis by auto
  qed (use inv tick_inv in \<open>simp_all add: iface_inv_frames\<close>)
qed

section \<open>Time\<close>

lemma word_sub_le: "a + b < a \<or> \<not> t \<le> a \<Longrightarrow> unat a + unat b < 2 ^ 64 \<Longrightarrow> t - a \<le> b \<longleftrightarrow> t \<le> a + b"
  for a b t :: size_t
proof -
  assume "a + b < a \<or> \<not> t \<le> a" and fits: "unat a + unat b < 2 ^ 64"
  then have sum: "unat (a + b) = unat a + unat b" by (simp add: unat_plus_fits)
  then have "\<not> t \<le> a" using \<open>a + b < a \<or> \<not> t \<le> a\<close> by (auto simp: word_less_nat_alt)
  then have "unat (t - a) = unat t - unat a" by (intro unat_sub) simp
  then show ?thesis using sum \<open>\<not> t \<le> a\<close> by (auto simp: word_le_nat_alt)
qed

lemma le_sum: "t \<le> a \<Longrightarrow> unat a + unat b < 2 ^ 64 \<Longrightarrow> t \<le> a + b" for a b t :: size_t
  by (simp add: word_le_nat_alt unat_plus_fits)

lemma tick_tick:
  assumes "unat a + unat b < 2 ^ 64"
  shows "NetworkInterface_tick b (NetworkInterface_tick a n) = NetworkInterface_tick (a + b) n"
proof -
  have "arp_entry_tick b (arp_entry_tick a e) = arp_entry_tick (a + b) e" for e
    using le_sum [OF _ assms] word_sub_le [OF _ assms]
    by (auto simp: arp_entry_tick_def diff_diff_eq split: option.splits)
  moreover have w: "waiting_tick b (waiting_tick a t) = waiting_tick (a + b) t" for t
    using le_sum [OF _ assms] word_sub_le [OF _ assms]
    by (auto simp: waiting_tick_def diff_diff_eq split: option.splits)
  moreover have "waiting_datagrams_tick b (waiting_tick a t) (waiting_datagrams_tick a t l) =
      waiting_datagrams_tick (a + b) t l" for t and l :: "(Address \<times> IPv4Datagram) list option"
    using le_sum [OF _ assms] word_sub_le [OF _ assms]
    by (cases t) (auto simp: waiting_tick_def waiting_datagrams_tick_def)
  ultimately show ?thesis by (simp add: NetworkInterface_tick_def)
qed

definition ticks :: "size_t list \<Rightarrow> 'a NetworkInterface_scheme \<Rightarrow> 'a NetworkInterface_scheme" where
  "ticks mss n = foldl (\<lambda>n ms. NetworkInterface_tick ms n) n mss"

lemma ticks_eq:
  assumes "unat a + sum_list (map unat mss) < 2 ^ 64"
  shows "ticks mss (NetworkInterface_tick a n) = NetworkInterface_tick (a + sum_list mss) n"
  using assms
proof (induction mss arbitrary: a)
  case (Cons b mss)
  have "unat (a + b) = unat a + unat b" using Cons.prems by (simp add: unat_plus_fits)
  then show ?case
    using Cons.IH [of "a + b"] Cons.prems tick_tick [of a b n] by (simp add: ticks_def add.assoc)
qed (simp add: ticks_def)

lemma sum_list_unat:
  "unat a + sum_list (map unat mss) < 2 ^ 64 \<Longrightarrow> unat (a + sum_list mss) = unat a + sum_list (map unat mss)"
  for a :: size_t
proof (induction mss arbitrary: a)
  case (Cons b mss)
  have "unat (a + b) = unat a + unat b" using Cons.prems by (simp add: unat_plus_fits)
  then show ?case using Cons.IH [of "a + b"] Cons.prems by (simp add: add.assoc)
qed simp

lemma tick_expires:
  assumes inv: "iface_inv n"
  shows "5000 \<le> unat ms \<Longrightarrow> ni_waiting_arp_response_ip_addr (NetworkInterface_tick ms n) = Map.empty"
    and "5000 \<le> unat ms \<Longrightarrow> ni_waiting_internet_datagrams (NetworkInterface_tick ms n) = Map.empty"
    and "30000 \<le> unat ms \<Longrightarrow> ni_arp_table (NetworkInterface_tick ms n) = Map.empty"
proof -
  have p: "ni_waiting_arp_response_ip_addr n ip = Some t \<Longrightarrow> unat t \<le> 5000" for ip t
    using inv by (simp add: iface_inv_def)
  have e: "ni_arp_table n ip = Some x \<Longrightarrow> unat (ae_ttl x) \<le> 30000" for ip x
    using inv by (simp add: iface_inv_def)
  have q: "ni_waiting_internet_datagrams n ip = Some l \<Longrightarrow> \<exists>t. ni_waiting_arp_response_ip_addr n ip = Some t" for ip l
    using inv by (simp add: iface_inv_def)
  show "ni_waiting_arp_response_ip_addr (NetworkInterface_tick ms n) = Map.empty" if "5000 \<le> unat ms"
  proof
    fix ip
    show "ni_waiting_arp_response_ip_addr (NetworkInterface_tick ms n) ip = None"
      using p [of ip] that
      by (cases "ni_waiting_arp_response_ip_addr n ip")
        (simp_all add: NetworkInterface_tick_def waiting_tick_def word_le_nat_alt)
  qed
  show "ni_waiting_internet_datagrams (NetworkInterface_tick ms n) = Map.empty" if "5000 \<le> unat ms"
  proof
    fix ip
    show "ni_waiting_internet_datagrams (NetworkInterface_tick ms n) ip = None"
      using p [of ip] q [of ip] that
      by (cases "ni_waiting_arp_response_ip_addr n ip"; cases "ni_waiting_internet_datagrams n ip")
        (simp_all add: NetworkInterface_tick_def waiting_datagrams_tick_def word_le_nat_alt)
  qed
  show "ni_arp_table (NetworkInterface_tick ms n) = Map.empty" if "30000 \<le> unat ms"
  proof
    fix ip
    show "ni_arp_table (NetworkInterface_tick ms n) ip = None"
      using e [of ip] that
      by (cases "ni_arp_table n ip") (simp_all add: NetworkInterface_tick_def arp_entry_tick_def word_le_nat_alt)
  qed
qed

section \<open>Resolving an address and delivering\<close>

lemma recv_arp:
  assumes inv: "iface_inv n" and my: "Address_ipv4_numeric (ni_ip_address n) = Inr my"
    and dst: "eh_dst (ef_header f) = ETHERNET_BROADCAST \<or> eh_dst (ef_header f) = ni_ethernet_address n"
    and type: "eh_type (ef_header f) = TYPE_ARP" and pl: "ef_payload f = [b]"
    and m: "ARPMessage_parse b ARPMessage_default = Inr (NoError, m)" "eth_ok (arp_sender_ethernet_address m)"
  shows "\<exists>n' reply. NetworkInterface_recv_frame f n = Inr (n', None) \<and> iface_inv n' \<and>
    ni_frames_out n' = ni_frames_out n @ reply @
      map (\<lambda>(h, d). frame_from n (arp_sender_ethernet_address m) TYPE_IPv4 (wire_of d))
        (waiting_for n (arp_sender_ip_address m)) \<and>
    (if arp_opcode m = OPCODE_REQUEST \<and> arp_target_ip_address m = my
     then \<exists>s. reply = [frame_from n (arp_sender_ethernet_address m) TYPE_ARP (BufferList_of_string s)] \<and>
       ARPMessage_serialize (ARPMessage_default\<lparr>arp_opcode := OPCODE_REPLY,
         arp_sender_ethernet_address := ni_ethernet_address n,
         arp_target_ethernet_address := arp_sender_ethernet_address m,
         arp_sender_ip_address := my, arp_target_ip_address := arp_sender_ip_address m\<rparr>) = Inr s
     else reply = []) \<and>
    ni_waiting_internet_datagrams n' = (ni_waiting_internet_datagrams n)(arp_sender_ip_address m := None) \<and>
    ni_arp_table n' = (ni_arp_table n)(arp_sender_ip_address m \<mapsto>
      \<lparr>ae_eth_addr = arp_sender_ethernet_address m, ae_ttl = ucast ARP_ENTRY_TTL_MS\<rparr>)"
proof -
  have types: "TYPE_ARP \<noteq> TYPE_IPv4" by (simp add: TYPE_ARP_def TYPE_IPv4_def)
  obtain reply where rep: "NetworkInterface_reply_arp m my n = Inr (n\<lparr>ni_frames_out := ni_frames_out n @ reply\<rparr>)"
    "if arp_opcode m = OPCODE_REQUEST \<and> arp_target_ip_address m = my
     then \<exists>s. reply = [frame_from n (arp_sender_ethernet_address m) TYPE_ARP (BufferList_of_string s)] \<and>
       ARPMessage_serialize (ARPMessage_default\<lparr>arp_opcode := OPCODE_REPLY,
         arp_sender_ethernet_address := ni_ethernet_address n,
         arp_target_ethernet_address := arp_sender_ethernet_address m,
         arp_sender_ip_address := my, arp_target_ip_address := arp_sender_ip_address m\<rparr>) = Inr s
     else reply = []"
    using reply_arp_ok [OF inv, of m my] by blast
  let ?n = "n\<lparr>ni_frames_out := ni_frames_out n @ reply\<rparr>"
  have "iface_inv ?n" using inv by (simp add: iface_inv_frames)
  from learn_ok [OF this m(2)] obtain n' where n': "NetworkInterface_learn m ?n = Inr n'" "iface_inv n'"
    "ni_frames_out n' = ni_frames_out ?n @
      map (\<lambda>(h, d). frame_from ?n (arp_sender_ethernet_address m) TYPE_IPv4 (wire_of d))
        (waiting_for ?n (arp_sender_ip_address m))"
    "ni_waiting_internet_datagrams n' = (ni_waiting_internet_datagrams ?n)(arp_sender_ip_address m := None)"
    "ni_arp_table n' = (ni_arp_table ?n)(arp_sender_ip_address m \<mapsto>
      \<lparr>ae_eth_addr = arp_sender_ethernet_address m, ae_ttl = ucast ARP_ENTRY_TTL_MS\<rparr>)" by blast
  have "NetworkInterface_recv_frame f n = Inr (n', None)"
    using dst type types pl m(1) my rep(1) n'(1)
    by (auto simp: NetworkInterface_recv_frame_def Let_def BufferList_to_Buffer_def)
  then show ?thesis
    using n' rep(2) by (intro exI [of _ n'] exI [of _ reply]) (simp add: waiting_for_def)
qed

lemma arp_frame_wire:
  assumes "arp_ok m" and "ARPMessage_serialize m = Inr s" and "eth_ok dst" and "iface_inv n"
  shows "\<exists>b. EthernetFrame_parse (Buffer_of_string (on_wire (frame_from n dst TYPE_ARP (BufferList_of_string s)))) old =
      Inr (NoError, \<lparr>ef_header = \<lparr>eh_dst = dst, eh_src = ni_ethernet_address n, eh_type = TYPE_ARP\<rparr>, ef_payload = [b]\<rparr>) \<and>
    ARPMessage_parse b ARPMessage_default = Inr (NoError, m)"
proof -
  let ?f = "frame_from n dst TYPE_ARP (BufferList_of_string s)"
  have sup: "ARPMessage_supported m" using assms(2) by (auto simp: ARPMessage_serialize_def split: if_splits)
  then have s: "s = arp_types m @ arp_addresses m" using assms(2) arp_serialize_eq by simp
  have pay: "BufferList_concatenate (ef_payload ?f) = s"
    by (simp add: frame_from_def BufferList_concatenate_eq BufferList_of_string_def BufferList_of_Buffer_def)
  have "eth_ok (eh_dst (ef_header ?f))" "eth_ok (eh_src (ef_header ?f))"
    using assms(3,4) by (simp_all add: frame_from_def iface_inv_def)
  from frame_wire [OF this, of old] pay s assms(1) obtain b where
    b: "EthernetFrame_parse (Buffer_of_string (on_wire ?f)) old = Inr (NoError, \<lparr>ef_header = ef_header ?f, ef_payload = [b]\<rparr>)"
    "Buffer_wf b" "Buffer_str b = s" by auto
  have "ARPMessage_parse b ARPMessage_default = Inr (NoError, m)"
    using arp_parse_wire [OF assms(1) b(2), of "[]" ARPMessage_default] b(3) s sup by auto
  with b(1) show ?thesis by (auto simp: frame_from_def)
qed

definition single_payload :: "IPv4Datagram \<Rightarrow> byte list \<Rightarrow> bool" where
  "single_payload d s \<longleftrightarrow> (\<exists>b. id_payload d = [b] \<and> Buffer_wf b \<and> Buffer_str b = s)"

lemma single_payload_concatenate: "single_payload d s \<Longrightarrow> BufferList_concatenate (id_payload d) = s"
  by (auto simp: single_payload_def BufferList_concatenate_eq)

lemma ip_frame_wire:
  assumes d: "datagram_ok d" and "eth_ok dst" and "iface_inv n"
  shows "\<exists>b d' c. EthernetFrame_parse (Buffer_of_string (on_wire (frame_from n dst TYPE_IPv4 (wire_of d)))) old =
      Inr (NoError, \<lparr>ef_header = \<lparr>eh_dst = dst, eh_src = ni_ethernet_address n, eh_type = TYPE_IPv4\<rparr>, ef_payload = [b]\<rparr>) \<and>
    IPv4Datagram_parse b IPv4Datagram_default = Inr (NoError, d') \<and>
    id_header d' = (id_header d)\<lparr>ih_cksum := c\<rparr> \<and> single_payload d' (BufferList_concatenate (id_payload d))"
proof -
  let ?f = "frame_from n dst TYPE_IPv4 (wire_of d)"
  have pay: "BufferList_concatenate (ef_payload ?f) = datagram_wire d"
    using datagram_serialize_eq [OF d] serialize_wire [OF d] by (auto simp: frame_from_def)
  have len: "14 + length (datagram_wire d) < 2 ^ 64"
    using d ip_suffix_length [of "id_header d"] unat_lt16 [of "ih_len (id_header d)"]
    by (auto simp: datagram_ok_def datagram_wire_def Let_def simp del: unat_lt16)
  have "eth_ok (eh_dst (ef_header ?f))" "eth_ok (eh_src (ef_header ?f))"
    using assms(2,3) by (simp_all add: frame_from_def iface_inv_def)
  from frame_wire [OF this, of old] pay len obtain b where
    b: "EthernetFrame_parse (Buffer_of_string (on_wire ?f)) old = Inr (NoError, \<lparr>ef_header = ef_header ?f, ef_payload = [b]\<rparr>)"
    "Buffer_wf b" "Buffer_str b = datagram_wire d" by auto
  from datagram_parse_buffer [OF d b(2,3), of IPv4Datagram_default] b(1) show ?thesis
    by (auto simp: frame_from_def single_payload_def)
qed

lemma arp_exchange:
  assumes x: "iface_inv x" "Address_ipv4_numeric (ni_ip_address x) = Inr ipx" "ni_frames_out x = []"
    and y: "iface_inv y" "Address_ipv4_numeric (ni_ip_address y) = Inr ipy" "ni_frames_out y = []"
    and fresh: "ni_arp_table x ipy = None" "ni_waiting_arp_response_ip_addr x ipy = None" "waiting_for y ipx = []"
    and d: "datagram_ok d"
  shows "\<exists>x1 f1 g1 y1 f2 g2 x2 f3 g3 y2 d' c.
    NetworkInterface_send_datagram d (ipv4_address ipy) x = Inr x1 \<and> ni_frames_out x1 = [f1] \<and>
    EthernetFrame_parse (Buffer_of_string (on_wire f1)) EthernetFrame_default = Inr (NoError, g1) \<and>
    NetworkInterface_recv_frame g1 y = Inr (y1, None) \<and> ni_frames_out y1 = [f2] \<and>
    EthernetFrame_parse (Buffer_of_string (on_wire f2)) EthernetFrame_default = Inr (NoError, g2) \<and>
    NetworkInterface_recv_frame g2 (x1\<lparr>ni_frames_out := []\<rparr>) = Inr (x2, None) \<and> ni_frames_out x2 = [f3] \<and>
    EthernetFrame_parse (Buffer_of_string (on_wire f3)) EthernetFrame_default = Inr (NoError, g3) \<and>
    NetworkInterface_recv_frame g3 (y1\<lparr>ni_frames_out := []\<rparr>) = Inr (y2, Some d') \<and> ni_frames_out y2 = [] \<and>
    id_header d' = (id_header d)\<lparr>ih_cksum := c\<rparr> \<and> single_payload d' (BufferList_concatenate (id_payload d))"
proof -
  let ?ex = "ni_ethernet_address x" and ?ey = "ni_ethernet_address y"
  have eth: "eth_ok ?ex" "eth_ok ?ey" "eth_ok ETHERNET_BROADCAST"
    using x(1) y(1) by (simp_all add: iface_inv_def ETHERNET_BROADCAST_def)
  have "waiting_for x ipy = []" using x(1) fresh(2) by (auto simp: iface_inv_def waiting_for_def split: option.splits)
  then obtain x1 s1 where x1: "NetworkInterface_send_datagram d (ipv4_address ipy) x = Inr x1" "iface_inv x1"
    "waiting_for x1 ipy = [(ipv4_address ipy, d)]" "ARPMessage_serialize (request_for x ipy) = Inr s1"
    "ni_frames_out x1 = [frame_from x ETHERNET_BROADCAST TYPE_ARP (BufferList_of_string s1)]"
    using send_datagram_ok [OF x(1) d ipv4_numeric_address, of ipy] fresh x(3) by auto
  have keep: "ni_ethernet_address x1 = ?ex" "Address_ipv4_numeric (ni_ip_address x1) = Inr ipx"
    using send_datagram_keeps [OF x1(1)] x(2) by simp_all
  have req: "arp_ok (request_for x ipy)" "arp_sender_ethernet_address (request_for x ipy) = ?ex"
    "arp_sender_ip_address (request_for x ipy) = ipx" "arp_opcode (request_for x ipy) = OPCODE_REQUEST"
    "arp_target_ip_address (request_for x ipy) = ipy"
    using eth(1) x(2) by (simp_all add: request_for_def arp_ok_def)
  obtain b1 where g1: "EthernetFrame_parse (Buffer_of_string (on_wire
        (frame_from x ETHERNET_BROADCAST TYPE_ARP (BufferList_of_string s1)))) EthernetFrame_default =
      Inr (NoError, \<lparr>ef_header = \<lparr>eh_dst = ETHERNET_BROADCAST, eh_src = ?ex, eh_type = TYPE_ARP\<rparr>, ef_payload = [b1]\<rparr>)"
    (is "_ = Inr (NoError, ?g1)") "ARPMessage_parse b1 ARPMessage_default = Inr (NoError, request_for x ipy)"
    using arp_frame_wire [OF req(1) x1(4) eth(3) x(1), of EthernetFrame_default] by blast
  let ?rep = "ARPMessage_default\<lparr>arp_opcode := OPCODE_REPLY, arp_sender_ethernet_address := ?ey,
    arp_target_ethernet_address := ?ex, arp_sender_ip_address := ipy, arp_target_ip_address := ipx\<rparr>"
  obtain y1 s2 where y1: "NetworkInterface_recv_frame ?g1 y = Inr (y1, None)" "iface_inv y1"
    "ni_frames_out y1 = [frame_from y ?ex TYPE_ARP (BufferList_of_string s2)]"
    "ARPMessage_serialize ?rep = Inr s2" "ni_ethernet_address y1 = ?ey"
  proof -
    have "\<exists>y1 reply. NetworkInterface_recv_frame ?g1 y = Inr (y1, None) \<and> iface_inv y1 \<and>
        ni_frames_out y1 = reply \<and>
        (\<exists>s. reply = [frame_from y ?ex TYPE_ARP (BufferList_of_string s)] \<and> ARPMessage_serialize ?rep = Inr s)"
      using recv_arp [OF y(1,2), of ?g1 b1 "request_for x ipy"] g1(2) req eth(1) fresh(3) y(3) by simp blast
    with that show thesis using recv_frame_keeps by blast
  qed
  have "arp_ok ?rep" using eth by (simp add: arp_ok_def)
  from arp_frame_wire [OF this y1(4) eth(1) y(1), of EthernetFrame_default] obtain b2 where
    g2: "EthernetFrame_parse (Buffer_of_string (on_wire (frame_from y ?ex TYPE_ARP (BufferList_of_string s2))))
        EthernetFrame_default =
      Inr (NoError, \<lparr>ef_header = \<lparr>eh_dst = ?ex, eh_src = ?ey, eh_type = TYPE_ARP\<rparr>, ef_payload = [b2]\<rparr>)"
    (is "_ = Inr (NoError, ?g2)") "ARPMessage_parse b2 ARPMessage_default = Inr (NoError, ?rep)" by blast
  let ?x1 = "x1\<lparr>ni_frames_out := []\<rparr>"
  have inv1: "iface_inv ?x1" using x1(2) by (simp add: iface_inv_frames)
  have my1: "Address_ipv4_numeric (ni_ip_address ?x1) = Inr ipx" using keep by simp
  obtain x2 where x2: "NetworkInterface_recv_frame ?g2 ?x1 = Inr (x2, None)"
    "ni_frames_out x2 = [frame_from ?x1 ?ey TYPE_IPv4 (wire_of d)]"
    using recv_arp [OF inv1 my1, of ?g2 b2 ?rep] g2(2) keep eth(2) x1(3)
    by (auto simp: OPCODE_REQUEST_def OPCODE_REPLY_def waiting_for_def)
  obtain b3 d' c where g3: "EthernetFrame_parse (Buffer_of_string (on_wire (frame_from ?x1 ?ey TYPE_IPv4 (wire_of d))))
        EthernetFrame_default =
      Inr (NoError, \<lparr>ef_header = \<lparr>eh_dst = ?ey, eh_src = ?ex, eh_type = TYPE_IPv4\<rparr>, ef_payload = [b3]\<rparr>)"
    (is "_ = Inr (NoError, ?g3)") "IPv4Datagram_parse b3 IPv4Datagram_default = Inr (NoError, d')"
    "id_header d' = (id_header d)\<lparr>ih_cksum := c\<rparr>"
    "single_payload d' (BufferList_concatenate (id_payload d))"
    using ip_frame_wire [OF d eth(2) inv1, of EthernetFrame_default] keep(1) by auto
  have "NetworkInterface_recv_frame ?g3 (y1\<lparr>ni_frames_out := []\<rparr>) = Inr (y1\<lparr>ni_frames_out := []\<rparr>, Some d')"
    "ni_frames_out (y1\<lparr>ni_frames_out := []\<rparr>) = []"
    using y1(5) g3(2) by (simp_all add: NetworkInterface_recv_frame_def Let_def BufferList_to_Buffer_def)
  with x1(1,5) g1(1) y1(1,3) g2(1) x2 g3(1,3,4) show ?thesis by blast
qed

section \<open>Properties\<close>

text \<open>C28. Whatever sequence of datagrams to send, frames to receive and ticks a fresh interface
  processes, nothing throws (as long as the datagrams given to it are well formed and a received
  frame holds one buffer), and its tables stay consistent: a datagram waits only for an address that
  is not in the ARP table and for which a request is pending; every entry of the ARP table has
  between 1 and 30000 ms to live and every pending request between 1 and 5000.\<close>

theorem interface_invariant:
  assumes "eth_ok a" and "list_all iface_op_ok ops"
  shows "\<exists>n. run_ops iface_step ops (NetworkInterface_new a (ipv4_address ip)) = Inr n \<and> iface_inv n"
proof (rule iface_life.run_ok [OF _ assms(2)])
  show "iface_inv (NetworkInterface_new a (ipv4_address ip))"
    using iface_new_inv [OF assms(1)] ipv4_numeric_address by blast
qed

theorem interface_invariant_witness:
  "(let ops = [Send_datagram demo_datagram 0x0A000002, Elapse 4000, Send_datagram demo_datagram 0x0A000003,
               Recv_frame \<lparr>ef_header = \<lparr>eh_dst = ETHERNET_BROADCAST, eh_src = [2, 0, 0, 0, 0, 9], eh_type = TYPE_ARP\<rparr>,
                 ef_payload = [Buffer_of_string (replicate 28 0)]\<rparr>, Elapse 1000, Pop_frame]
    in list_all iface_op_ok ops \<and>
       (\<exists>n. run_ops iface_step ops (NetworkInterface_new [2, 0, 0, 0, 0, 1] (ipv4_address 0x0A000001)) = Inr n \<and>
          iface_inv n))"
proof -
  let ?ops = "[Send_datagram demo_datagram 0x0A000002, Elapse 4000, Send_datagram demo_datagram 0x0A000003,
    Recv_frame \<lparr>ef_header = \<lparr>eh_dst = ETHERNET_BROADCAST, eh_src = [2, 0, 0, 0, 0, 9], eh_type = TYPE_ARP\<rparr>,
      ef_payload = [Buffer_of_string (replicate 28 0)]\<rparr>, Elapse 1000, Pop_frame]"
  have "list_all iface_op_ok ?ops" by (simp add: demo_datagram_ok)
  then show ?thesis
    using interface_invariant [of "[2, 0, 0, 0, 0, 1]" ?ops "0x0A000001"] unfolding Let_def by simp
qed

text \<open>What \<^verbatim>\<open>send_datagram\<close> does. If the next hop is in the ARP table, it queues exactly one IPv4
  frame, with the datagram's bytes, for the hardware address of the entry. Otherwise the datagram
  joins the end of the queue for that next hop, and an ARP request for it is broadcast exactly if
  none is pending.\<close>

theorem send_datagram_behaviour:
  assumes "iface_inv n" and "datagram_ok d" and "Address_ipv4_numeric hop = Inr ip"
  shows "\<exists>n'. NetworkInterface_send_datagram d hop n = Inr n' \<and>
    (case ni_arp_table n ip of
       Some e \<Rightarrow> n' = n\<lparr>ni_frames_out := ni_frames_out n @ [frame_from n (ae_eth_addr e) TYPE_IPv4 (wire_of d)]\<rparr>
     | None \<Rightarrow>
         waiting_for n' ip = waiting_for n ip @ [(hop, d)] \<and>
         (if ni_waiting_arp_response_ip_addr n ip = None
          then (\<exists>s. ARPMessage_serialize (request_for n ip) = Inr s \<and>
            ni_frames_out n' = ni_frames_out n @ [frame_from n ETHERNET_BROADCAST TYPE_ARP (BufferList_of_string s)])
          else ni_frames_out n' = ni_frames_out n))"
  using send_datagram_ok [OF assms] by blast

theorem send_datagram_behaviour_witness:
  "(let n = NetworkInterface_new [2, 0, 0, 0, 0, 1] (ipv4_address 0x0A000001) in
    iface_inv n \<and> datagram_ok demo_datagram \<and> Address_ipv4_numeric (ipv4_address 0x0A000002) = Inr 0x0A000002 \<and>
    (\<exists>n' s. NetworkInterface_send_datagram demo_datagram (ipv4_address 0x0A000002) n = Inr n' \<and>
       ni_frames_out n' = [frame_from n ETHERNET_BROADCAST TYPE_ARP (BufferList_of_string s)]))"
proof -
  let ?n = "NetworkInterface_new [2, 0, 0, 0, 0, 1] (ipv4_address 0x0A000001)"
  have inv: "iface_inv ?n" by (rule iface_new_inv) simp_all
  show ?thesis
    using send_datagram_behaviour [OF inv demo_datagram_ok ipv4_numeric_address, of "0x0A000002"] inv demo_datagram_ok
    unfolding Let_def by (auto simp: NetworkInterface_new_def)
qed

text \<open>What an accepted ARP message does. A request for the interface's own address is answered
  with one reply to the asker; every message, also one for somebody else, teaches the interface its
  sender's address for 30 s; and the datagrams that waited for the sender are then sent to it, all of
  them, in the order in which they were given, and wait no longer.\<close>

theorem arp_learn_and_flush:
  assumes "iface_inv n" and "Address_ipv4_numeric (ni_ip_address n) = Inr my"
    and "eh_dst (ef_header f) = ETHERNET_BROADCAST \<or> eh_dst (ef_header f) = ni_ethernet_address n"
    and "eh_type (ef_header f) = TYPE_ARP" and "ef_payload f = [b]"
    and "ARPMessage_parse b ARPMessage_default = Inr (NoError, m)" and "eth_ok (arp_sender_ethernet_address m)"
  shows "\<exists>n' reply. NetworkInterface_recv_frame f n = Inr (n', None) \<and>
    ni_frames_out n' = ni_frames_out n @ reply @
      map (\<lambda>(h, d). frame_from n (arp_sender_ethernet_address m) TYPE_IPv4 (wire_of d))
        (waiting_for n (arp_sender_ip_address m)) \<and>
    (if arp_opcode m = OPCODE_REQUEST \<and> arp_target_ip_address m = my
     then \<exists>s. reply = [frame_from n (arp_sender_ethernet_address m) TYPE_ARP (BufferList_of_string s)] \<and>
       ARPMessage_serialize (ARPMessage_default\<lparr>arp_opcode := OPCODE_REPLY,
         arp_sender_ethernet_address := ni_ethernet_address n,
         arp_target_ethernet_address := arp_sender_ethernet_address m,
         arp_sender_ip_address := my, arp_target_ip_address := arp_sender_ip_address m\<rparr>) = Inr s
     else reply = []) \<and>
    waiting_for n' (arp_sender_ip_address m) = [] \<and>
    ni_arp_table n' (arp_sender_ip_address m) =
      Some \<lparr>ae_eth_addr = arp_sender_ethernet_address m, ae_ttl = ucast ARP_ENTRY_TTL_MS\<rparr>"
proof -
  obtain n' reply where n': "NetworkInterface_recv_frame f n = Inr (n', None)"
    "ni_frames_out n' = ni_frames_out n @ reply @
      map (\<lambda>(h, d). frame_from n (arp_sender_ethernet_address m) TYPE_IPv4 (wire_of d))
        (waiting_for n (arp_sender_ip_address m))"
    "if arp_opcode m = OPCODE_REQUEST \<and> arp_target_ip_address m = my
     then \<exists>s. reply = [frame_from n (arp_sender_ethernet_address m) TYPE_ARP (BufferList_of_string s)] \<and>
       ARPMessage_serialize (ARPMessage_default\<lparr>arp_opcode := OPCODE_REPLY,
         arp_sender_ethernet_address := ni_ethernet_address n,
         arp_target_ethernet_address := arp_sender_ethernet_address m,
         arp_sender_ip_address := my, arp_target_ip_address := arp_sender_ip_address m\<rparr>) = Inr s
     else reply = []"
    "ni_waiting_internet_datagrams n' = (ni_waiting_internet_datagrams n)(arp_sender_ip_address m := None)"
    "ni_arp_table n' = (ni_arp_table n)(arp_sender_ip_address m \<mapsto>
      \<lparr>ae_eth_addr = arp_sender_ethernet_address m, ae_ttl = ucast ARP_ENTRY_TTL_MS\<rparr>)"
    using recv_arp [OF assms] by blast
  then show ?thesis by (intro exI [of _ n'] exI [of _ reply]) (simp add: waiting_for_def)
qed

definition demo_reply :: ARPMessage where
  "demo_reply = ARPMessage_default\<lparr>arp_opcode := OPCODE_REPLY, arp_sender_ethernet_address := [2, 0, 0, 0, 0, 2],
     arp_sender_ip_address := 0x0A000002\<rparr>"

theorem arp_learn_and_flush_witness:
  "\<exists>n s n' reply. NetworkInterface_send_datagram demo_datagram (ipv4_address 0x0A000002)
       (NetworkInterface_new [2, 0, 0, 0, 0, 1] (ipv4_address 0x0A000001)) = Inr n \<and>
     ARPMessage_serialize demo_reply = Inr s \<and>
     NetworkInterface_recv_frame
       \<lparr>ef_header = \<lparr>eh_dst = [2, 0, 0, 0, 0, 1], eh_src = [2, 0, 0, 0, 0, 2], eh_type = TYPE_ARP\<rparr>,
        ef_payload = [Buffer_of_string s]\<rparr> n = Inr (n', None) \<and>
     ni_frames_out n' = ni_frames_out n @ reply @ [frame_from n [2, 0, 0, 0, 0, 2] TYPE_IPv4 (wire_of demo_datagram)]"
proof -
  let ?n0 = "NetworkInterface_new [2, 0, 0, 0, 0, 1] (ipv4_address 0x0A000001)"
  have inv0: "iface_inv ?n0" by (rule iface_new_inv) simp_all
  have new: "ni_arp_table ?n0 = Map.empty" "waiting_for ?n0 0x0A000002 = []"
    by (simp_all add: NetworkInterface_new_def waiting_for_def)
  obtain n where n: "NetworkInterface_send_datagram demo_datagram (ipv4_address 0x0A000002) ?n0 = Inr n" "iface_inv n"
    "waiting_for n 0x0A000002 = [(ipv4_address 0x0A000002, demo_datagram)]"
    using send_datagram_ok [OF inv0 demo_datagram_ok ipv4_numeric_address, of "0x0A000002"] new by auto
  have n1: "ni_ethernet_address n = [2, 0, 0, 0, 0, 1]" "Address_ipv4_numeric (ni_ip_address n) = Inr 0x0A000001"
    using n(1) send_datagram_keeps [OF n(1)] by (simp_all add: NetworkInterface_new_def)
  have m: "ARPMessage_supported demo_reply" "arp_ok demo_reply"
    by (simp_all add: demo_reply_def ARPMessage_supported_def ARPMessage_default_def arp_ok_def)
  let ?s = "arp_types demo_reply @ arp_addresses demo_reply"
  have s: "ARPMessage_serialize demo_reply = Inr ?s" by (rule arp_serialize_eq [OF m(1)])
  have "Buffer_wf (Buffer_of_string ?s)" using m(2) by simp
  then have p: "ARPMessage_parse (Buffer_of_string ?s) ARPMessage_default = Inr (NoError, demo_reply)"
    using arp_parse_wire [OF m(2), of "Buffer_of_string ?s" "[]" ARPMessage_default] m(1) by auto
  let ?f = "\<lparr>ef_header = \<lparr>eh_dst = [2, 0, 0, 0, 0, 1], eh_src = [2, 0, 0, 0, 0, 2], eh_type = TYPE_ARP\<rparr>,
    ef_payload = [Buffer_of_string ?s]\<rparr>"
  have d: "arp_sender_ethernet_address demo_reply = [2, 0, 0, 0, 0, 2]" "arp_sender_ip_address demo_reply = 0x0A000002"
    by (simp_all add: demo_reply_def)
  obtain n' reply where "NetworkInterface_recv_frame ?f n = Inr (n', None)"
    "ni_frames_out n' = ni_frames_out n @ reply @ [frame_from n [2, 0, 0, 0, 0, 2] TYPE_IPv4 (wire_of demo_datagram)]"
    using arp_learn_and_flush [OF n(2) n1(2), of ?f "Buffer_of_string ?s" demo_reply] n1(1) n(3) p d by auto
  with n(1) s show ?thesis by blast
qed

text \<open>C27. Nothing waits for ever, and it does not matter how time is cut into ticks. After ticks that
  add up to 5 s or more no datagram waits and no request is pending; after 30 s the ARP table is
  empty.\<close>

theorem waiting_expires:
  assumes inv: "iface_inv n" and fits: "sum_list (map unat mss) < 2 ^ 64"
  shows "(5000 \<le> sum_list (map unat mss) \<longrightarrow>
      ni_waiting_internet_datagrams (ticks mss n) = Map.empty \<and>
      ni_waiting_arp_response_ip_addr (ticks mss n) = Map.empty) \<and>
    (30000 \<le> sum_list (map unat mss) \<longrightarrow> ni_arp_table (ticks mss n) = Map.empty)"
proof (cases mss)
  case (Cons a rest)
  then have f: "unat a + sum_list (map unat rest) < 2 ^ 64" using fits by simp
  have "ticks mss n = NetworkInterface_tick (a + sum_list rest) n"
    using ticks_eq [OF f, of n] Cons by (simp add: ticks_def)
  moreover have "unat (a + sum_list rest) = sum_list (map unat mss)" using sum_list_unat [OF f] Cons by simp
  ultimately show ?thesis using tick_expires [OF inv, of "a + sum_list rest"] by simp
qed simp

theorem waiting_expires_witness:
  "\<exists>n. NetworkInterface_send_datagram demo_datagram (ipv4_address 0x0A000002)
       (NetworkInterface_new [2, 0, 0, 0, 0, 1] (ipv4_address 0x0A000001)) = Inr n \<and>
     waiting_for n 0x0A000002 \<noteq> [] \<and> ni_waiting_internet_datagrams (ticks [3000, 2000] n) = Map.empty"
proof -
  let ?n0 = "NetworkInterface_new [2, 0, 0, 0, 0, 1] (ipv4_address 0x0A000001)"
  have inv0: "iface_inv ?n0" by (rule iface_new_inv) simp_all
  have "ni_arp_table ?n0 = Map.empty" by (simp add: NetworkInterface_new_def)
  then obtain n where n: "NetworkInterface_send_datagram demo_datagram (ipv4_address 0x0A000002) ?n0 = Inr n"
    "iface_inv n" "waiting_for n 0x0A000002 \<noteq> []"
    using send_datagram_ok [OF inv0 demo_datagram_ok ipv4_numeric_address, of "0x0A000002"] by auto
  then show ?thesis using waiting_expires [OF n(2), of "[3000, 2000]"] by auto
qed

text \<open>C10. Two interfaces on one Ethernet. The first sends a datagram to the address of the second, which
  it does not know; every frame travels as bytes. The broadcast request makes the second interface
  answer; the answer makes the first send the waiting datagram; and the second hands up a datagram
  with the same header, up to the checksum, and the same payload.\<close>

theorem arp_delivers:
  assumes x: "iface_inv x" "Address_ipv4_numeric (ni_ip_address x) = Inr ipx" "ni_frames_out x = []"
    and y: "iface_inv y" "Address_ipv4_numeric (ni_ip_address y) = Inr ipy" "ni_frames_out y = []"
    and fresh: "ni_arp_table x ipy = None" "ni_waiting_arp_response_ip_addr x ipy = None" "waiting_for y ipx = []"
    and d: "datagram_ok d"
  shows "\<exists>x1 f1 g1 y1 f2 g2 x2 f3 g3 y2 d' c.
    NetworkInterface_send_datagram d (ipv4_address ipy) x = Inr x1 \<and> ni_frames_out x1 = [f1] \<and>
    EthernetFrame_parse (Buffer_of_string (on_wire f1)) EthernetFrame_default = Inr (NoError, g1) \<and>
    NetworkInterface_recv_frame g1 y = Inr (y1, None) \<and> ni_frames_out y1 = [f2] \<and>
    EthernetFrame_parse (Buffer_of_string (on_wire f2)) EthernetFrame_default = Inr (NoError, g2) \<and>
    NetworkInterface_recv_frame g2 (x1\<lparr>ni_frames_out := []\<rparr>) = Inr (x2, None) \<and> ni_frames_out x2 = [f3] \<and>
    EthernetFrame_parse (Buffer_of_string (on_wire f3)) EthernetFrame_default = Inr (NoError, g3) \<and>
    NetworkInterface_recv_frame g3 (y1\<lparr>ni_frames_out := []\<rparr>) = Inr (y2, Some d') \<and>
    id_header d' = (id_header d)\<lparr>ih_cksum := c\<rparr> \<and>
    BufferList_concatenate (id_payload d') = BufferList_concatenate (id_payload d)"
  using arp_exchange [OF x y fresh d] single_payload_concatenate by blast

theorem arp_delivers_witness:
  "(let x = NetworkInterface_new [2, 0, 0, 0, 0, 1] (ipv4_address 0x0A000001);
        y = NetworkInterface_new [2, 0, 0, 0, 0, 2] (ipv4_address 0x0A000002)
    in iface_inv x \<and> iface_inv y \<and> datagram_ok demo_datagram \<and>
       (\<exists>x1 f1. NetworkInterface_send_datagram demo_datagram (ipv4_address 0x0A000002) x = Inr x1 \<and>
          ni_frames_out x1 = [f1]))"
proof -
  let ?x = "NetworkInterface_new [2, 0, 0, 0, 0, 1] (ipv4_address 0x0A000001)"
  let ?y = "NetworkInterface_new [2, 0, 0, 0, 0, 2] (ipv4_address 0x0A000002)"
  have inv: "iface_inv ?x" "iface_inv ?y" by (rule iface_new_inv; simp)+
  have f: "Address_ipv4_numeric (ni_ip_address ?x) = Inr 0x0A000001" "ni_frames_out ?x = []"
    "Address_ipv4_numeric (ni_ip_address ?y) = Inr 0x0A000002" "ni_frames_out ?y = []"
    "ni_arp_table ?x 0x0A000002 = None" "ni_waiting_arp_response_ip_addr ?x 0x0A000002 = None"
    "waiting_for ?y 0x0A000001 = []"
    by (simp_all add: NetworkInterface_new_def waiting_for_def)
  show ?thesis
    using arp_delivers [OF inv(1) f(1,2) inv(2) f(3-7) demo_datagram_ok] inv demo_datagram_ok
    unfolding Let_def by blast
qed

end
