(* ===== verification/RoutingTries.thy ===== *)
theory RoutingTries
  imports Addresses "HOL-Library.Sublist"
begin

text \<open>
  \<^verbatim>\<open>struct RouteEntry\<close> and \<^verbatim>\<open>class RoutingTrie\<close> of \<^verbatim>\<open>libsponge/router.hh\<close>: the routing table as a binary
  trie. An owning pointer to a node that may be null is an option. The property is the equivalence
  of the look-up in the trie with a linear scan of the routes in the order they were added.
\<close>

section \<open>Data and operations\<close>

record RouteEntry =
  re_route_prefix :: u32
  re_prefix_length :: u8
  re_next_hop :: "Address option"
  re_interface_num :: size_t

datatype TrieNode =
  TrieNode (child0: "TrieNode option") (child1: "TrieNode option") (node_route: "RouteEntry option")

definition TrieNode_new :: TrieNode where
  "TrieNode_new = TrieNode None None None"

definition direction :: "u32 \<Rightarrow> u8 \<Rightarrow> bool" where
  "direction addr b \<longleftrightarrow> (drop_bit (31 - unat b) addr) AND 1 \<noteq> 0"

definition child :: "bool \<Rightarrow> TrieNode \<Rightarrow> TrieNode option" where
  "child dir node = (if dir then child1 node else child0 node)"

definition set_child :: "bool \<Rightarrow> TrieNode \<Rightarrow> TrieNode \<Rightarrow> TrieNode" where
  "set_child dir c node =
     (if dir then TrieNode (child0 node) (Some c) (node_route node)
      else TrieNode (Some c) (child1 node) (node_route node))"

definition set_route :: "RouteEntry \<Rightarrow> TrieNode \<Rightarrow> TrieNode" where
  "set_route entry node = TrieNode (child0 node) (child1 node) (Some entry)"

lemma unat_succ: "b < len \<Longrightarrow> unat (b + 1) = Suc (unat b)" for b len :: u8
proof -
  assume "b < len"
  then have "Suc (unat b) < 256" using unat_lt8 [of len] by (simp add: word_less_nat_alt del: unat_lt8)
  then show ?thesis by (simp add: unat_word_ariths)
qed

lemma u8_step: "b < len \<Longrightarrow> unat len - unat (b + 1) < unat len - unat b" for b len :: u8
  using unat_succ [of b len] by (simp add: word_less_nat_alt)

function navigate :: "u32 \<Rightarrow> u8 \<Rightarrow> (TrieNode \<Rightarrow> TrieNode) \<Rightarrow> u8 \<Rightarrow> TrieNode \<Rightarrow> TrieNode res" where
  "navigate route_prefix prefix_length f b node =
     (if b < prefix_length then
        if unat b > 31 then Inl (Undefined_behaviour ''shift by a negative amount'')
        else
          let dir = direction route_prefix b;
              next = (case child dir node of Some n \<Rightarrow> n | None \<Rightarrow> TrieNode_new)
          in
          bind_res (navigate route_prefix prefix_length f (b + 1) next) (\<lambda>n.
          Inr (set_child dir n node))
      else Inr (f node))"
  by pat_completeness auto
termination
  by (relation "measure (\<lambda>(p, len, f, b, node). unat len - unat b)") (simp_all add: u8_step)

declare navigate.simps [simp del]

definition RoutingTrie_insert :: "RouteEntry \<Rightarrow> TrieNode \<Rightarrow> TrieNode res" where
  "RoutingTrie_insert entry root =
     navigate (re_route_prefix entry) (re_prefix_length entry) (set_route entry) 0 root"

function match_loop :: "u32 \<Rightarrow> u8 \<Rightarrow> TrieNode \<Rightarrow> RouteEntry option \<Rightarrow> RouteEntry option" where
  "match_loop dst b node best_match =
     (if b < 32 then
        case child (direction dst b) node of
          None \<Rightarrow> best_match
        | Some n \<Rightarrow> match_loop dst (b + 1) n (if node_route n \<noteq> None then node_route n else best_match)
      else best_match)"
  by pat_completeness auto
termination
  by (relation "measure (\<lambda>(dst, b, node, best). unat (32 :: u8) - unat b)") (use u8_step [of _ 32] in simp_all)

declare match_loop.simps [simp del]

definition RoutingTrie_longest_prefix_match :: "u32 \<Rightarrow> TrieNode \<Rightarrow> RouteEntry option" where
  "RoutingTrie_longest_prefix_match dst root = match_loop dst 0 root (node_route root)"

section \<open>The table as a list of routes\<close>

definition matches :: "RouteEntry \<Rightarrow> u32 \<Rightarrow> bool" where
  "matches e dst \<longleftrightarrow>
     drop_bit (32 - unat (re_prefix_length e)) (re_route_prefix e) =
     drop_bit (32 - unat (re_prefix_length e)) dst"

definition better :: "u32 \<Rightarrow> RouteEntry option \<Rightarrow> RouteEntry \<Rightarrow> RouteEntry option" where
  "better dst best e =
     (if matches e dst \<and>
         (case best of None \<Rightarrow> True | Some b \<Rightarrow> re_prefix_length b \<le> re_prefix_length e)
      then Some e else best)"

definition scan_routes :: "RouteEntry list \<Rightarrow> u32 \<Rightarrow> RouteEntry option" where
  "scan_routes es dst = foldl (better dst) None es"

fun insert_all :: "RouteEntry list \<Rightarrow> TrieNode \<Rightarrow> TrieNode res" where
  "insert_all [] root = Inr root"
| "insert_all (e # es) root = bind_res (RoutingTrie_insert e root) (insert_all es)"

section \<open>Paths\<close>

definition bits_from :: "u32 \<Rightarrow> nat \<Rightarrow> nat \<Rightarrow> bool list" where
  "bits_from addr i n = map (\<lambda>k. bit addr (31 - k)) [i..<n]"

definition path_of :: "RouteEntry \<Rightarrow> bool list" where
  "path_of e = bits_from (re_route_prefix e) 0 (unat (re_prefix_length e))"

fun ins :: "bool list \<Rightarrow> RouteEntry \<Rightarrow> TrieNode \<Rightarrow> TrieNode" where
  "ins [] e node = set_route e node"
| "ins (d # ds) e node =
     set_child d (ins ds e (case child d node of Some n \<Rightarrow> n | None \<Rightarrow> TrieNode_new)) node"

fun lookup :: "TrieNode \<Rightarrow> bool list \<Rightarrow> RouteEntry option" where
  "lookup node [] = node_route node"
| "lookup node (d # ds) =
     (case child d node of
        None \<Rightarrow> node_route node
      | Some n \<Rightarrow> (case lookup n ds of Some e \<Rightarrow> Some e | None \<Rightarrow> node_route node))"

fun at_path :: "TrieNode \<Rightarrow> bool list \<Rightarrow> RouteEntry option" where
  "at_path node [] = node_route node"
| "at_path node (d # ds) = (case child d node of None \<Rightarrow> None | Some n \<Rightarrow> at_path n ds)"

definition trie_ok :: "bool list \<Rightarrow> TrieNode \<Rightarrow> bool" where
  "trie_ok ps node \<longleftrightarrow> (\<forall>ds e. at_path node ds = Some e \<longrightarrow> path_of e = ps @ ds)"

lemma child_set [simp]:
  "child d (set_child d' c n) = (if d = d' then Some c else child d n)"
  "node_route (set_child d c n) = node_route n"
  "child d (set_route e n) = child d n" "node_route (set_route e n) = Some e"
  "child d TrieNode_new = None" "node_route TrieNode_new = None"
  by (simp_all add: child_def set_child_def set_route_def TrieNode_new_def)

lemma direction_bit: "direction addr b \<longleftrightarrow> bit addr (31 - unat b)"
proof -
  have "drop_bit (31 - unat b) addr AND 1 = of_bool (odd (drop_bit (31 - unat b) addr))" by (rule and_one_eq [unfolded mod_2_eq_odd])
  then show ?thesis by (simp add: direction_def bit_iff_odd_drop_bit)
qed

lemma bits_from_Cons: "i < n \<Longrightarrow> bits_from addr i n = bit addr (31 - i) # bits_from addr (Suc i) n"
  by (simp add: bits_from_def upt_rec)

lemma navigate_ins:
  assumes "unat len \<le> 32"
  shows "navigate p len (set_route e) b node = Inr (ins (bits_from p (unat b) (unat len)) e node)"
  using assms
proof (induction p len "set_route e" b node rule: navigate.induct)
  case (1 p len b node)
  show ?case
  proof (cases "b < len")
    case True
    then have lt: "unat b < unat len" by (simp add: word_less_nat_alt)
    let ?next = "case child (direction p b) node of Some n \<Rightarrow> n | None \<Rightarrow> TrieNode_new"
    have "navigate p len (set_route e) (b + 1) ?next = Inr (ins (bits_from p (Suc (unat b)) (unat len)) e ?next)"
      using 1(1) [OF True _ refl refl] lt 1(2) unat_succ [OF True] by auto
    then show ?thesis
      using True lt 1(2) by (subst navigate.simps) (simp add: Let_def bits_from_Cons direction_bit)
  next
    case False
    then have "bits_from p (unat b) (unat len) = []" by (simp add: bits_from_def word_less_nat_alt)
    with False show ?thesis by (subst navigate.simps) simp
  qed
qed

lemma lookup_route: "lookup node ds = None \<Longrightarrow> node_route node = None"
  by (cases ds) (auto split: option.splits)

lemma match_loop_lookup:
  "node_route node \<noteq> None \<longrightarrow> best = node_route node \<Longrightarrow> match_loop dst b node best =
     (case lookup node (bits_from dst (unat b) 32) of Some e \<Rightarrow> Some e | None \<Rightarrow> best)"
proof (induction dst b node best rule: match_loop.induct)
  case (1 dst b node best)
  show ?case
  proof (cases "b < 32")
    case False
    then have "bits_from dst (unat b) 32 = []" by (simp add: bits_from_def word_less_nat_alt)
    with False 1(2) show ?thesis by (subst match_loop.simps) (auto split: option.split)
  next
    case True
    then have "bits_from dst (unat b) 32 = direction dst b # bits_from dst (unat (b + 1)) 32"
      using unat_succ [OF True] by (subst bits_from_Cons) (simp_all add: word_less_nat_alt direction_bit)
    with True 1 show ?thesis
      by (subst match_loop.simps) (auto split: option.splits dest: lookup_route)
  qed
qed

lemma longest_prefix_match_lookup:
  "RoutingTrie_longest_prefix_match dst root = lookup root (bits_from dst 0 32)"
  using match_loop_lookup [of root "node_route root" dst 0] lookup_route [of root "bits_from dst 0 32"]
  by (auto simp: RoutingTrie_longest_prefix_match_def split: option.splits)

section \<open>Inserting and looking up\<close>

lemma lookup_at_path: "lookup node ds = Some e \<Longrightarrow> \<exists>k. k \<le> length ds \<and> at_path node (take k ds) = Some e"
proof (induction node ds rule: lookup.induct)
  case (2 node d ds)
  show ?case
  proof (cases "child d node")
    case (Some n)
    show ?thesis
    proof (cases "lookup n ds")
      case None
      then show ?thesis using 2(2) Some by (intro exI [of _ 0]) simp
    next
      case (Some e')
      then obtain k where "k \<le> length ds" "at_path n (take k ds) = Some e"
        using 2 \<open>child d node = Some n\<close> by auto
      then show ?thesis using \<open>child d node = Some n\<close> by (intro exI [of _ "Suc k"]) simp
    qed
  qed (use 2(2) in \<open>auto intro: exI [of _ 0]\<close>)
qed simp

lemma trie_ok_child: "trie_ok ps node \<Longrightarrow> child d node = Some n \<Longrightarrow> trie_ok (ps @ [d]) n"
  unfolding trie_ok_def
proof (intro allI impI)
  fix ds e
  assume all: "\<forall>ds e. at_path node ds = Some e \<longrightarrow> path_of e = ps @ ds"
    and c: "child d node = Some n" and "at_path n ds = Some e"
  then have "at_path node (d # ds) = Some e" by simp
  with all have "path_of e = ps @ d # ds" by blast
  then show "path_of e = (ps @ [d]) @ ds" by simp
qed

lemma trie_ok_new: "trie_ok ps TrieNode_new"
  unfolding trie_ok_def
proof (intro allI impI)
  fix ds e assume "at_path TrieNode_new ds = Some e"
  then show "path_of e = ps @ ds" by (cases ds) simp_all
qed

lemma trie_ok_next: "trie_ok ps node \<Longrightarrow> trie_ok (ps @ [d]) (case child d node of Some n \<Rightarrow> n | None \<Rightarrow> TrieNode_new)"
  using trie_ok_child trie_ok_new by (auto split: option.split)

lemma lookup_path:
  assumes "trie_ok ps node" and "lookup node ds = Some e"
  shows "\<exists>k. k \<le> length ds \<and> path_of e = ps @ take k ds"
  using lookup_at_path [OF assms(2)] assms(1) by (auto simp: trie_ok_def)

lemma at_path_ins: "at_path (ins p e node) ds = (if ds = p then Some e else at_path node ds)"
proof (induction p e node arbitrary: ds rule: ins.induct)
  case (1 e node)
  show ?case by (cases ds) auto
next
  case (2 d p e node)
  have "at_path TrieNode_new xs = None" for xs by (cases xs) simp_all
  with 2 show ?case by (cases ds) (auto split: option.split)
qed

lemma trie_ok_ins: "trie_ok ps node \<Longrightarrow> path_of e = ps @ p \<Longrightarrow> trie_ok ps (ins p e node)"
  by (simp add: trie_ok_def at_path_ins)

lemma lookup_ins:
  assumes "trie_ok ps node" and "path_of e = ps @ p"
  shows "lookup (ins p e node) ds =
    (if prefix p ds \<and> (case lookup node ds of None \<Rightarrow> True | Some b \<Rightarrow> length (path_of b) \<le> length (path_of e))
     then Some e else lookup node ds)"
  using assms
proof (induction p arbitrary: ps node ds)
  case Nil
  show ?case
  proof (cases ds)
    case Nil
    then show ?thesis using \<open>trie_ok ps node\<close> \<open>path_of e = ps @ []\<close> lookup_path [of ps node "[]"]
      by (auto split: option.split)
  next
    case (Cons d ds')
    show ?thesis
    proof (cases "child d node")
      case None
      then show ?thesis using Cons Nil.prems lookup_path [of ps node "[]"] by (auto split: option.split)
    next
      case (Some n)
      show ?thesis
      proof (cases "lookup n ds'")
        case (Some b)
        then have "length (path_of b) > length ps"
          using lookup_path [OF trie_ok_child [OF Nil.prems(1) \<open>child d node = Some n\<close>] Some] by auto
        then show ?thesis using Some Cons \<open>child d node = Some n\<close> Nil.prems(2) by simp
      next
        case None
        then show ?thesis
          using Cons \<open>child d node = Some n\<close> Nil.prems lookup_path [of ps node "[]"] by (auto split: option.split)
      qed
    qed
  qed
next
  case (Cons d p)
  let ?n = "case child d node of Some n \<Rightarrow> n | None \<Rightarrow> TrieNode_new"
  have ok: "trie_ok (ps @ [d]) ?n" "path_of e = (ps @ [d]) @ p"
    using trie_ok_next [OF Cons.prems(1)] Cons.prems(2) by simp_all
  note IH = Cons.IH [OF ok]
  have root: "node_route node = Some b \<Longrightarrow> length (path_of b) \<le> length (path_of e)" for b
    using lookup_path [OF Cons.prems(1), of "[]" b] Cons.prems(2) by auto
  have new: "lookup TrieNode_new xs = None" for xs by (cases xs) simp_all
  show ?case
  proof (cases ds)
    case (Cons d' ds')
    then show ?thesis
      using IH [of ds'] root new by (cases "d' = d"; cases "child d node") (auto split: option.splits)
  qed simp
qed

section \<open>The trie and the list of routes\<close>

lemma length_path_of [simp]: "length (path_of e) = unat (re_prefix_length e)"
  by (simp add: path_of_def bits_from_def)

lemma prefix_bits_from:
  assumes "n \<le> 32"
  shows "prefix (bits_from p 0 n) (bits_from d 0 32) \<longleftrightarrow> (\<forall>k < n. bit p (31 - k) = bit d (31 - k))"
proof -
  have "take n (bits_from d 0 32) = bits_from d 0 n"
    using assms by (simp add: bits_from_def take_map take_upt)
  moreover have "prefix xs ys \<longleftrightarrow> take (length xs) ys = xs" for xs ys :: "bool list"
    by (metis append_eq_conv_conj prefix_def take_is_prefix)
  ultimately have "prefix (bits_from p 0 n) (bits_from d 0 32) \<longleftrightarrow> bits_from d 0 n = bits_from p 0 n"
    by (simp add: bits_from_def)
  then show ?thesis by (auto simp: bits_from_def)
qed

lemma drop_bit_prefix:
  fixes p d :: u32
  assumes "n \<le> 32"
  shows "drop_bit (32 - n) p = drop_bit (32 - n) d \<longleftrightarrow> (\<forall>k < n. bit p (31 - k) = bit d (31 - k))"
proof
  assume eq: "drop_bit (32 - n) p = drop_bit (32 - n) d"
  show "\<forall>k < n. bit p (31 - k) = bit d (31 - k)"
  proof (intro allI impI)
    fix k assume "k < n"
    then have k: "31 - k = 32 - n + (n - 1 - k)" using assms by simp
    have "bit (drop_bit (32 - n) x) (n - 1 - k) = bit x (31 - k)" for x :: u32
      by (simp only: bit_drop_bit_eq comp_apply k)
    from this [of p] this [of d] show "bit p (31 - k) = bit d (31 - k)" by (simp only: eq)
  qed
next
  assume all: "\<forall>k < n. bit p (31 - k) = bit d (31 - k)"
  have "bit p (32 - n + i) = bit d (32 - n + i)" for i
  proof (cases "i < n")
    case True
    then have "32 - n + i = 31 - (n - 1 - i)" "n - 1 - i < n" using assms by simp_all
    then show ?thesis using all by metis
  next
    case False
    then have "\<not> bit p (32 - n + i)" "\<not> bit d (32 - n + i)"
      using assms bit_imp_le_length [of p "32 - n + i"] bit_imp_le_length [of d "32 - n + i"] by auto
    then show ?thesis by simp
  qed
  then show "drop_bit (32 - n) p = drop_bit (32 - n) d"
    by (intro bit_eqI) (simp add: bit_drop_bit_eq)
qed

lemma matches_prefix:
  "unat (re_prefix_length e) \<le> 32 \<Longrightarrow> matches e dst \<longleftrightarrow> prefix (path_of e) (bits_from dst 0 32)"
  by (simp add: matches_def path_of_def drop_bit_prefix prefix_bits_from)

lemma insert_better:
  assumes "trie_ok [] t" and "unat (re_prefix_length e) \<le> 32"
  shows "\<exists>t'. RoutingTrie_insert e t = Inr t' \<and> trie_ok [] t' \<and>
    (\<forall>dst. RoutingTrie_longest_prefix_match dst t' = better dst (RoutingTrie_longest_prefix_match dst t) e)"
proof (intro exI conjI allI)
  show "RoutingTrie_insert e t = Inr (ins (path_of e) e t)"
    using assms(2) by (simp add: RoutingTrie_insert_def navigate_ins path_of_def)
  show "trie_ok [] (ins (path_of e) e t)" by (rule trie_ok_ins [OF assms(1)]) simp
  show "RoutingTrie_longest_prefix_match dst (ins (path_of e) e t) =
      better dst (RoutingTrie_longest_prefix_match dst t) e" for dst
    using lookup_ins [OF assms(1), of e "path_of e" "bits_from dst 0 32"] matches_prefix [OF assms(2)]
    by (cases "lookup t (bits_from dst 0 32)") (simp_all add: longest_prefix_match_lookup better_def word_le_nat_alt)
qed

lemma insert_all_scan:
  assumes "trie_ok [] t" and "list_all (\<lambda>e. re_prefix_length e \<le> 32) es"
  shows "\<exists>t'. insert_all es t = Inr t' \<and> trie_ok [] t' \<and> (\<forall>dst. RoutingTrie_longest_prefix_match dst t' =
    foldl (better dst) (RoutingTrie_longest_prefix_match dst t) es)"
  using assms
proof (induction es arbitrary: t)
  case (Cons e es)
  then obtain t1 where "RoutingTrie_insert e t = Inr t1" "trie_ok [] t1" "\<And>dst.
      RoutingTrie_longest_prefix_match dst t1 = better dst (RoutingTrie_longest_prefix_match dst t) e"
    using insert_better [of t e] by (auto simp: word_le_nat_alt)
  moreover from Cons.IH [OF this(2)] Cons.prems(2) obtain t' where "insert_all es t1 = Inr t'" "trie_ok [] t'"
    "\<And>dst. RoutingTrie_longest_prefix_match dst t' = foldl (better dst) (RoutingTrie_longest_prefix_match dst t1) es"
    by auto
  ultimately show ?case by simp
qed simp

lemma match_new: "RoutingTrie_longest_prefix_match dst TrieNode_new = None"
  by (simp add: longest_prefix_match_lookup bits_from_Cons)

lemma scan_routes_mem: "scan_routes es dst = Some e \<Longrightarrow> e \<in> set es"
proof (induction es rule: rev_induct)
  case (snoc x es)
  then show ?case by (auto simp: scan_routes_def better_def split: if_splits)
qed (simp add: scan_routes_def)

text \<open>
  C4. The routing table is a correct longest-prefix match. After any sequence of routes with prefix
  lengths of at most 32 bits has been inserted, no insertion has failed, and the look-up of every
  destination gives what a linear scan of the routes gives: the matching route with the longest
  prefix, the later one where two have the same prefix.
\<close>
theorem longest_prefix_match_correct:
  assumes "list_all (\<lambda>e. re_prefix_length e \<le> 32) es"
  shows "\<exists>t. insert_all es TrieNode_new = Inr t \<and>
    (\<forall>dst. RoutingTrie_longest_prefix_match dst t = scan_routes es dst)"
  using insert_all_scan [OF trie_ok_new assms] by (auto simp: scan_routes_def match_new)

definition demo_routes :: "RouteEntry list" where
  "demo_routes =
     [\<lparr>re_route_prefix = 0, re_prefix_length = 0, re_next_hop = None, re_interface_num = 0\<rparr>,
      \<lparr>re_route_prefix = 0x0A000000, re_prefix_length = 8, re_next_hop = None, re_interface_num = 1\<rparr>,
      \<lparr>re_route_prefix = 0x0A010000, re_prefix_length = 16, re_next_hop = None, re_interface_num = 2\<rparr>,
      \<lparr>re_route_prefix = 0x0A010203, re_prefix_length = 32, re_next_hop = None, re_interface_num = 3\<rparr>]"

theorem longest_prefix_match_correct_witness:
  "\<exists>t. insert_all demo_routes TrieNode_new = Inr t \<and>
     map_option re_interface_num (RoutingTrie_longest_prefix_match 0x0A010203 t) = Some 3 \<and>
     map_option re_interface_num (RoutingTrie_longest_prefix_match 0x0A01FFFF t) = Some 2 \<and>
     map_option re_interface_num (RoutingTrie_longest_prefix_match 0x0AFFFFFF t) = Some 1 \<and>
     map_option re_interface_num (RoutingTrie_longest_prefix_match 0xC0A80001 t) = Some 0"
proof -
  have scan: "map_option re_interface_num (scan_routes demo_routes 0x0A010203) = Some 3"
    "map_option re_interface_num (scan_routes demo_routes 0x0A01FFFF) = Some 2"
    "map_option re_interface_num (scan_routes demo_routes 0x0AFFFFFF) = Some 1"
    "map_option re_interface_num (scan_routes demo_routes 0xC0A80001) = Some 0"
    by code_simp+
  have "list_all (\<lambda>e. re_prefix_length e \<le> 32) demo_routes" by code_simp
  from longest_prefix_match_correct [OF this] scan show ?thesis by auto
qed

end
