(* ===== verification/Routers.thy ===== *)
theory Routers
  imports NetworkInterfaces RoutingTries ICMPMessages
begin

text \<open>
  \<^verbatim>\<open>libsponge/router.*\<close>: the router on top of its network interfaces and its routing table. An
  interface with a queue of received datagrams extends the record of \<^verbatim>\<open>NetworkInterface\<close>, the way the
  class derives from it. A reference to an interface is its index, and a method called through the
  reference writes the interface back. The messages printed on \<^verbatim>\<open>cerr\<close> are left out.
\<close>

section \<open>AsyncNetworkInterface\<close>

record AsyncNetworkInterface = NetworkInterface +
  ai_datagrams_out :: "IPv4Datagram list"

definition AsyncNetworkInterface_new :: "NetworkInterface \<Rightarrow> AsyncNetworkInterface" where
  "AsyncNetworkInterface_new n =
     \<lparr>ni_ethernet_address = ni_ethernet_address n, ni_ip_address = ni_ip_address n,
      ni_frames_out = ni_frames_out n, ni_arp_table = ni_arp_table n,
      ni_waiting_arp_response_ip_addr = ni_waiting_arp_response_ip_addr n,
      ni_waiting_internet_datagrams = ni_waiting_internet_datagrams n, ai_datagrams_out = []\<rparr>"

definition AsyncNetworkInterface_recv_frame ::
    "EthernetFrame \<Rightarrow> AsyncNetworkInterface \<Rightarrow> AsyncNetworkInterface res" where
  "AsyncNetworkInterface_recv_frame frame a =
     bind_res (NetworkInterface_recv_frame frame a) (\<lambda>(a, optional_dgram).
     case optional_dgram of
       Some dgram \<Rightarrow> Inr (a\<lparr>ai_datagrams_out := ai_datagrams_out a @ [dgram]\<rparr>)
     | None \<Rightarrow> Inr a)"

section \<open>Router\<close>

record Router =
  ro_interfaces :: "AsyncNetworkInterface list"
  ro_route_table :: TrieNode
  ro_icmp_enabled :: bool

definition Router_new :: Router where
  "Router_new = \<lparr>ro_interfaces = [], ro_route_table = TrieNode_new, ro_icmp_enabled = False\<rparr>"

definition Router_add_interface :: "AsyncNetworkInterface \<Rightarrow> Router \<Rightarrow> Router \<times> size_t" where
  "Router_add_interface a r =
     (let r = r\<lparr>ro_interfaces := ro_interfaces r @ [a]\<rparr> in (r, sz (ro_interfaces r) - 1))"

definition Router_interface :: "size_t \<Rightarrow> Router \<Rightarrow> AsyncNetworkInterface res" where
  "Router_interface N r =
     (if N < sz (ro_interfaces r) then Inr (ro_interfaces r ! unat N) else Inl (Out_of_range ''vector::at''))"

definition Router_set_icmp_enabled :: "bool \<Rightarrow> Router \<Rightarrow> Router" where
  "Router_set_icmp_enabled enabled r = r\<lparr>ro_icmp_enabled := enabled\<rparr>"

definition Router_add_route :: "u32 \<Rightarrow> u8 \<Rightarrow> Address option \<Rightarrow> size_t \<Rightarrow> Router \<Rightarrow> Router res" where
  "Router_add_route route_prefix prefix_length next_hop interface_num r =
     bind_res
       (RoutingTrie_insert \<lparr>re_route_prefix = route_prefix, re_prefix_length = prefix_length,
          re_next_hop = next_hop, re_interface_num = interface_num\<rparr> (ro_route_table r)) (\<lambda>t.
     Inr (r\<lparr>ro_route_table := t\<rparr>))"

definition Router_send_datagram :: "size_t \<Rightarrow> IPv4Datagram \<Rightarrow> Address \<Rightarrow> Router \<Rightarrow> Router res" where
  "Router_send_datagram N dgram next_hop r =
     bind_res (Router_interface N r) (\<lambda>a.
     bind_res (NetworkInterface_send_datagram dgram next_hop a) (\<lambda>a.
     Inr (r\<lparr>ro_interfaces := (ro_interfaces r)[unat N := a]\<rparr>)))"

definition icmp_datagram :: "u32 \<Rightarrow> u32 \<Rightarrow> ICMPMessage \<Rightarrow> IPv4Datagram" where
  "icmp_datagram src dst m =
     (let serialized = ICMPMessage_serialize m in
      \<lparr>id_header = (id_header IPv4Datagram_default)\<lparr>ih_src := src, ih_dst := dst, ih_proto := PROTO_ICMP,
         ih_ttl := DEFAULT_TTL, ih_len := ucast (IPv4Header_LENGTH + sz serialized)\<rparr>,
       id_payload = BufferList_of_Buffer (Buffer_of_string serialized)\<rparr>)"

definition Router_send_icmp :: "u8 \<Rightarrow> u8 \<Rightarrow> IPv4Datagram \<Rightarrow> size_t \<Rightarrow> Address \<Rightarrow> Router \<Rightarrow> Router res" where
  "Router_send_icmp type code dgram_original interface_num next_hop r =
     bind_res (IPv4Datagram_serialize dgram_original) (\<lambda>bl.
     let original_serialized = BufferList_concatenate bl;
         icmp = ICMPMessage_default\<lparr>im_type := type, im_code := code,
           im_payload := take (unat (min (sz original_serialized) (IPv4Header_LENGTH + 8))) original_serialized\<rparr>
     in
     bind_res
       (if sz (ro_interfaces r) > interface_num
        then bind_res (Router_interface interface_num r) (\<lambda>a. Address_ipv4_numeric (ni_ip_address a))
        else Inr 0) (\<lambda>src.
     let icmp_dgram = icmp_datagram src (ih_src (id_header dgram_original)) icmp in
     if sz (ro_interfaces r) > interface_num then Router_send_datagram interface_num icmp_dgram next_hop r
     else Inr r))"

fun own_interface :: "u32 \<Rightarrow> nat \<Rightarrow> AsyncNetworkInterface list \<Rightarrow> nat option res" where
  "own_interface ip_dst i [] = Inr None"
| "own_interface ip_dst i (a # as) =
     bind_res (Address_ipv4_numeric (ni_ip_address a)) (\<lambda>ip.
     if ip_dst = ip then Inr (Some i) else own_interface ip_dst (Suc i) as)"

definition Router_own_icmp :: "nat \<Rightarrow> IPv4Datagram \<Rightarrow> Router \<Rightarrow> Router res" where
  "Router_own_icmp i dgram r =
     bind_res (ICMPMessage_parse (Buffer_of_string (BufferList_concatenate (id_payload dgram)))
       ICMPMessage_default) (\<lambda>(result, icmp).
     if result \<noteq> NoError then Inr r
     else if im_type icmp = TYPE_ECHO_REQUEST then
       let reply = ICMPMessage_default\<lparr>im_type := TYPE_ECHO_REPLY, im_code := 0,
             im_identifier := im_identifier icmp, im_sequence_number := im_sequence_number icmp,
             im_payload := im_payload icmp\<rparr>;
           reply_dgram = icmp_datagram (ih_dst (id_header dgram)) (ih_src (id_header dgram)) reply
       in
       bind_res (Address_from_ipv4_numeric (ih_src (id_header dgram))) (\<lambda>next_hop.
       Router_send_datagram (of_nat i) reply_dgram next_hop r)
     else Inr r)"

definition Router_forward :: "RouteEntry \<Rightarrow> IPv4Datagram \<Rightarrow> Router \<Rightarrow> Router res" where
  "Router_forward best_match dgram r =
     (let dgram' = dgram\<lparr>id_header := (id_header dgram)\<lparr>ih_ttl := ih_ttl (id_header dgram) - 1\<rparr>\<rparr> in
      case re_next_hop best_match of
        Some hop \<Rightarrow> Router_send_datagram (re_interface_num best_match) dgram' hop r
      | None \<Rightarrow>
          bind_res (Router_interface (re_interface_num best_match) r) (\<lambda>_.
          bind_res (Address_from_ipv4_numeric (ih_dst (id_header dgram))) (\<lambda>hop.
          Router_send_datagram (re_interface_num best_match) dgram' hop r)))"

definition Router_look_up_and_forward :: "IPv4Datagram \<Rightarrow> Router \<Rightarrow> Router res" where
  "Router_look_up_and_forward dgram r =
     (let h = id_header dgram in
      case RoutingTrie_longest_prefix_match (ih_dst h) (ro_route_table r) of
        None \<Rightarrow>
          if ro_icmp_enabled r then
            bind_res (Address_from_ipv4_numeric (ih_src h)) (\<lambda>next_hop.
            Router_send_icmp TYPE_DESTINATION_UNREACHABLE 0 dgram 0 next_hop r)
          else Inr r
      | Some best_match \<Rightarrow>
          if ih_ttl h \<le> 1 then
            if ro_icmp_enabled r then
              bind_res (Address_from_ipv4_numeric (ih_src h)) (\<lambda>next_hop.
              Router_send_icmp TYPE_TIME_EXCEEDED 0 dgram (re_interface_num best_match) next_hop r)
            else Inr r
          else Router_forward best_match dgram r)"

definition Router_route_one_datagram :: "IPv4Datagram \<Rightarrow> Router \<Rightarrow> Router res" where
  "Router_route_one_datagram dgram r =
     bind_res
       (if ih_proto (id_header dgram) = PROTO_ICMP
        then own_interface (ih_dst (id_header dgram)) 0 (ro_interfaces r) else Inr None) (\<lambda>own.
     case own of
       Some i \<Rightarrow> Router_own_icmp i dgram r
     | None \<Rightarrow> Router_look_up_and_forward dgram r)"

definition pop_datagram :: "nat \<Rightarrow> Router \<Rightarrow> Router" where
  "pop_datagram i r =
     r\<lparr>ro_interfaces := (ro_interfaces r)[i := (ro_interfaces r ! i)
         \<lparr>ai_datagrams_out := tl (ai_datagrams_out (ro_interfaces r ! i))\<rparr>]\<rparr>"

definition queues :: "Router \<Rightarrow> IPv4Datagram list list" where
  "queues r = map ai_datagrams_out (ro_interfaces r)"

subsection \<open>Routing a datagram leaves the queues alone\<close>

lemma send_datagram_queue:
  "NetworkInterface_send_datagram d hop a = Inr a' \<Longrightarrow> ai_datagrams_out a' = ai_datagrams_out a"
  by (auto simp: NetworkInterface_send_datagram_def NetworkInterface_request_arp_def NetworkInterface_send_def
      Let_def bind_res_Inr_iff split: option.splits if_splits)

lemma map_update_same: "f x = f (xs ! i) \<Longrightarrow> map f (xs[i := x]) = map f xs"
  by (metis list_update_id map_update)

lemma Router_send_queues: "Router_send_datagram N d hop r = Inr r' \<Longrightarrow> queues r' = queues r"
  by (auto simp: Router_send_datagram_def Router_interface_def bind_res_Inr_iff queues_def
      dest!: send_datagram_queue split: if_splits intro!: map_update_same)

lemma route_one_queues: "Router_route_one_datagram d r = Inr r' \<Longrightarrow> queues r' = queues r"
  by (auto simp: Router_route_one_datagram_def Router_own_icmp_def Router_look_up_and_forward_def Router_forward_def
      Router_send_icmp_def Let_def bind_res_Inr_iff split: option.splits if_splits dest: Router_send_queues)

lemma pop_shorter:
  assumes "queues r' = queues r" and "i < length (ro_interfaces r)"
    and "ai_datagrams_out (ro_interfaces r ! i) = d # ds"
  shows "length (ai_datagrams_out (ro_interfaces (pop_datagram i r') ! i)) <
    length (ai_datagrams_out (ro_interfaces r ! i))"
proof -
  have len: "length (ro_interfaces r') = length (ro_interfaces r)"
    using assms(1) by (metis length_map queues_def)
  moreover have "ai_datagrams_out (ro_interfaces r' ! i) = d # ds"
    using assms len by (metis nth_map queues_def)
  ultimately show ?thesis using assms by (simp add: pop_datagram_def)
qed

function Router_route_queue :: "nat \<Rightarrow> Router \<Rightarrow> Router res" where
  "Router_route_queue i r =
     (if i < length (ro_interfaces r) then
        case ai_datagrams_out (ro_interfaces r ! i) of
          [] \<Rightarrow> Inr r
        | dgram # _ \<Rightarrow> bind_res (Router_route_one_datagram dgram r) (\<lambda>r. Router_route_queue i (pop_datagram i r))
      else Inr r)"
  by pat_completeness auto
termination
  by (relation "measure (\<lambda>(i, r). length (ai_datagrams_out (ro_interfaces r ! i)))")
    (auto dest!: route_one_queues dest: pop_shorter)

declare Router_route_queue.simps [simp del]

fun Router_route_from :: "nat list \<Rightarrow> Router \<Rightarrow> Router res" where
  "Router_route_from [] r = Inr r"
| "Router_route_from (i # is) r = bind_res (Router_route_queue i r) (Router_route_from is)"

definition Router_route :: "Router \<Rightarrow> Router res" where
  "Router_route r = Router_route_from [0..<length (ro_interfaces r)] r"

subsection \<open>What a call leaves behind when it throws\<close>

text \<open>
  \<^verbatim>\<open>route_one_datagram\<close> takes the front of the queue by reference, so the time to live it has counted
  down stays in the queue when sending throws. Nothing else has changed by then: the datagram is popped
  after the call, and an interface serialises before it changes. \<open>Router_route_run\<close> is \<^verbatim>\<open>route\<close> with the
  router that is left and the exception, if there is one.
\<close>

definition datagram_left :: "IPv4Datagram \<Rightarrow> Router \<Rightarrow> IPv4Datagram" where
  "datagram_left dgram r =
     (case (if ih_proto (id_header dgram) = PROTO_ICMP
            then own_interface (ih_dst (id_header dgram)) 0 (ro_interfaces r) else Inr None) of
        Inr None \<Rightarrow>
          (case RoutingTrie_longest_prefix_match (ih_dst (id_header dgram)) (ro_route_table r) of
             None \<Rightarrow> dgram
           | Some _ \<Rightarrow>
               if ih_ttl (id_header dgram) \<le> 1 then dgram
               else dgram\<lparr>id_header := (id_header dgram)\<lparr>ih_ttl := ih_ttl (id_header dgram) - 1\<rparr>\<rparr>)
      | _ \<Rightarrow> dgram)"

definition set_front :: "nat \<Rightarrow> IPv4Datagram \<Rightarrow> Router \<Rightarrow> Router" where
  "set_front i dgram r =
     r\<lparr>ro_interfaces := (ro_interfaces r)[i := (ro_interfaces r ! i)
         \<lparr>ai_datagrams_out := dgram # tl (ai_datagrams_out (ro_interfaces r ! i))\<rparr>]\<rparr>"

function Router_route_queue_run :: "nat \<Rightarrow> Router \<Rightarrow> Router \<times> exn option" where
  "Router_route_queue_run i r =
     (if i < length (ro_interfaces r) then
        case ai_datagrams_out (ro_interfaces r ! i) of
          [] \<Rightarrow> (r, None)
        | dgram # _ \<Rightarrow>
            (case Router_route_one_datagram dgram r of
               Inr r' \<Rightarrow> Router_route_queue_run i (pop_datagram i r')
             | Inl e \<Rightarrow> (set_front i (datagram_left dgram r) r, Some e))
      else (r, None))"
  by pat_completeness auto
termination
  by (relation "measure (\<lambda>(i, r). length (ai_datagrams_out (ro_interfaces r ! i)))")
    (auto dest!: route_one_queues dest: pop_shorter)

declare Router_route_queue_run.simps [simp del]

fun Router_route_from_run :: "nat list \<Rightarrow> Router \<Rightarrow> Router \<times> exn option" where
  "Router_route_from_run [] r = (r, None)"
| "Router_route_from_run (i # is) r =
     (case Router_route_queue_run i r of
        (r, None) \<Rightarrow> Router_route_from_run is r
      | (r, Some e) \<Rightarrow> (r, Some e))"

definition Router_route_run :: "Router \<Rightarrow> Router \<times> exn option" where
  "Router_route_run r = Router_route_from_run [0..<length (ro_interfaces r)] r"

definition result_of :: "'a \<times> exn option \<Rightarrow> 'a res" where
  "result_of x = (case x of (r, None) \<Rightarrow> Inr r | (_, Some e) \<Rightarrow> Inl e)"

lemma result_of_simps [simp]: "result_of (r, None) = Inr r" "result_of (r, Some e) = Inl e"
  by (simp_all add: result_of_def)

lemma route_queue_run: "result_of (Router_route_queue_run i r) = Router_route_queue i r"
proof (induction i r rule: Router_route_queue_run.induct)
  case (1 i r)
  then show ?case
    by (subst Router_route_queue_run.simps, subst Router_route_queue.simps) (auto split: list.split sum.split)
qed

lemma route_from_run: "result_of (Router_route_from_run is r) = Router_route_from is r"
proof (induction "is" arbitrary: r)
  case (Cons i "is")
  have "Router_route_queue i r = result_of (Router_route_queue_run i r)" by (simp add: route_queue_run)
  with Cons show ?case by (auto split: prod.split option.split)
qed simp

lemma route_run: "result_of (Router_route_run r) = Router_route r"
  by (simp add: Router_route_run_def Router_route_def route_from_run)

lemma queue_run_empty: "ai_datagrams_out (ro_interfaces r ! i) = [] \<Longrightarrow> Router_route_queue_run i r = (r, None)"
  by (simp add: Router_route_queue_run.simps)

lemma from_run_empty:
  "\<forall>j \<in> set js. ai_datagrams_out (ro_interfaces r ! j) = [] \<Longrightarrow>
     Router_route_from_run (js @ is) r = Router_route_from_run is r"
  by (induction js) (simp_all add: queue_run_empty)

text \<open>The first datagram that is routed is the front of the first queue that is not empty.\<close>

lemma route_run_first:
  assumes "i < length (ro_interfaces r)" and "\<forall>j < i. ai_datagrams_out (ro_interfaces r ! j) = []"
  shows "Router_route_run r =
    (case Router_route_queue_run i r of
       (r', None) \<Rightarrow> Router_route_from_run [Suc i..<length (ro_interfaces r)] r'
     | (r', Some e) \<Rightarrow> (r', Some e))"
proof -
  have "[0..<length (ro_interfaces r)] = [0..<i] @ i # [Suc i..<length (ro_interfaces r)]"
    using upt_add_eq_append [of 0 i "length (ro_interfaces r) - i"] assms(1) by (simp add: upt_conv_Cons)
  then show ?thesis using from_run_empty [of "[0..<i]" r] assms(2) by (simp add: Router_route_run_def)
qed

section \<open>The invariant\<close>

definition route_ok :: "nat \<Rightarrow> RouteEntry \<Rightarrow> bool" where
  "route_ok n e \<longleftrightarrow> unat (re_interface_num e) < n \<and>
     (\<forall>hop. re_next_hop e = Some hop \<longrightarrow> (\<exists>ip. Address_ipv4_numeric hop = Inr ip))"

definition router_inv :: "Router \<Rightarrow> bool" where
  "router_inv r \<longleftrightarrow>
     fits (ro_interfaces r) \<and>
     (\<forall>a \<in> set (ro_interfaces r). iface_inv a \<and> list_all datagram_ok (ai_datagrams_out a)) \<and>
     (\<forall>ds e. at_path (ro_route_table r) ds = Some e \<longrightarrow> route_ok (length (ro_interfaces r)) e)"

lemma router_inv_interface:
  "router_inv r \<Longrightarrow> i < length (ro_interfaces r) \<Longrightarrow> iface_inv (ro_interfaces r ! i)"
  by (simp add: router_inv_def)

lemma router_inv_update:
  assumes "router_inv r" and "iface_inv a" and "list_all datagram_ok (ai_datagrams_out a)"
  shows "router_inv (r\<lparr>ro_interfaces := (ro_interfaces r)[i := a]\<rparr>)"
  using assms set_update_subset_insert [of "ro_interfaces r" i a] by (fastforce simp: router_inv_def)

lemma router_inv_match:
  assumes "router_inv r" and "RoutingTrie_longest_prefix_match dst (ro_route_table r) = Some e"
  shows "route_ok (length (ro_interfaces r)) e"
  using assms lookup_at_path by (fastforce simp: router_inv_def longest_prefix_match_lookup)

lemma Router_interface_at:
  "fits (ro_interfaces r) \<Longrightarrow> unat N < length (ro_interfaces r) \<Longrightarrow>
     Router_interface N r = Inr (ro_interfaces r ! unat N) \<and> N < sz (ro_interfaces r)"
  by (simp add: Router_interface_def word_less_nat_alt)

lemma Router_send_ok:
  assumes inv: "router_inv r" and N: "unat N < length (ro_interfaces r)" and d: "datagram_ok d"
    and hop: "Address_ipv4_numeric hop = Inr ip"
  shows "\<exists>a. NetworkInterface_send_datagram d hop (ro_interfaces r ! unat N) = Inr a \<and>
    Router_send_datagram N d hop r = Inr (r\<lparr>ro_interfaces := (ro_interfaces r)[unat N := a]\<rparr>) \<and>
    router_inv (r\<lparr>ro_interfaces := (ro_interfaces r)[unat N := a]\<rparr>)"
proof -
  let ?a = "ro_interfaces r ! unat N"
  obtain a where a: "NetworkInterface_send_datagram d hop ?a = Inr a" "iface_inv a"
    using send_datagram_ok [OF router_inv_interface [OF inv N] d hop] by blast
  moreover have "list_all datagram_ok (ai_datagrams_out a)"
    using send_datagram_queue [OF a(1)] inv N by (simp add: router_inv_def)
  moreover have "Router_interface N r = Inr ?a"
    using Router_interface_at [OF _ N] inv by (simp add: router_inv_def)
  ultimately show ?thesis using router_inv_update [OF inv] by (simp add: Router_send_datagram_def)
qed

lemma icmp_serialize_length [simp]: "length (ICMPMessage_serialize m) = 8 + length (im_payload m)"
  by (simp add: ICMPMessage_serialize_def icmp_write_eq)

lemma icmp_datagram_ok:
  assumes "28 + length (im_payload m) < 2 ^ 16"
  shows "datagram_ok (icmp_datagram src dst m)"
proof -
  have "unat (ucast (IPv4Header_LENGTH + sz (ICMPMessage_serialize m)) :: u16) = 28 + length (im_payload m)"
    using assms by (simp add: IPv4Header_LENGTH_def sz_def unsigned_ucast_eq unat_word_ariths unat_of_nat take_bit_nat_def)
  then show ?thesis
    using assms
    by (simp add: datagram_ok_def icmp_datagram_def Let_def IPv4Datagram_default_def IPv4Header_default_def
        IPv4Header_LENGTH_def BufferList_of_Buffer_def BufferList_concatenate_eq)
qed

definition own_index :: "u32 \<Rightarrow> Router \<Rightarrow> nat option" where
  "own_index ip r = find (\<lambda>i. Address_ipv4_numeric (ni_ip_address (ro_interfaces r ! i)) = Inr ip)
     [0..<length (ro_interfaces r)]"

lemma own_interface_find:
  assumes "\<forall>a \<in> set as. iface_inv a"
  shows "own_interface ip i as =
    Inr (find (\<lambda>k. Address_ipv4_numeric (ni_ip_address (as ! (k - i))) = Inr ip) [i..<i + length as])"
  using assms
proof (induction as arbitrary: i)
  case (Cons a as)
  obtain x where x: "Address_ipv4_numeric (ni_ip_address a) = Inr x" using Cons.prems by (auto simp: iface_inv_def)
  have "find (\<lambda>k. Address_ipv4_numeric (ni_ip_address (as ! (k - Suc i))) = Inr ip) [Suc i..<Suc i + length as] =
      find (\<lambda>k. Address_ipv4_numeric (ni_ip_address ((a # as) ! (k - i))) = Inr ip) [Suc i..<Suc i + length as]"
    by (rule find_cong) (auto simp: nth_Cons')
  moreover have "[i..<i + length (a # as)] = i # [Suc i..<Suc i + length as]" by (simp add: upt_rec [of i] del: upt_Suc)
  ultimately show ?case
    using x Cons.IH [of "Suc i"] Cons.prems by (auto simp del: upt_Suc)
qed simp

lemma own_interface_index:
  "router_inv r \<Longrightarrow> own_interface ip 0 (ro_interfaces r) = Inr (own_index ip r)"
  by (subst own_interface_find) (auto simp: router_inv_def own_index_def)

lemma own_index_lt: "own_index ip r = Some i \<Longrightarrow> i < length (ro_interfaces r)"
  by (auto simp: own_index_def find_Some_iff)


definition same_setup :: "Router \<Rightarrow> Router \<Rightarrow> bool" where
  "same_setup r r' \<longleftrightarrow>
     ro_route_table r' = ro_route_table r \<and> ro_icmp_enabled r' = ro_icmp_enabled r \<and>
     map ni_ip_address (ro_interfaces r') = map ni_ip_address (ro_interfaces r) \<and>
     map ni_ethernet_address (ro_interfaces r') = map ni_ethernet_address (ro_interfaces r)"

lemma same_setup_refl [simp]: "same_setup r r"
  by (simp add: same_setup_def)

lemma same_setup_trans: "same_setup r r' \<Longrightarrow> same_setup r' r'' \<Longrightarrow> same_setup r r''"
  by (simp add: same_setup_def)

lemma same_setup_length: "same_setup r r' \<Longrightarrow> length (ro_interfaces r') = length (ro_interfaces r)"
  unfolding same_setup_def by (metis length_map)

lemma Router_send_total:
  assumes "router_inv r" "unat N < length (ro_interfaces r)" "datagram_ok d" "Address_ipv4_numeric hop = Inr ip"
  shows "\<exists>r'. Router_send_datagram N d hop r = Inr r' \<and> router_inv r' \<and> same_setup r r'"
proof -
  obtain a where a: "NetworkInterface_send_datagram d hop (ro_interfaces r ! unat N) = Inr a"
    "Router_send_datagram N d hop r = Inr (r\<lparr>ro_interfaces := (ro_interfaces r)[unat N := a]\<rparr>)"
    "router_inv (r\<lparr>ro_interfaces := (ro_interfaces r)[unat N := a]\<rparr>)"
    using Router_send_ok [OF assms] by blast
  then show ?thesis using send_datagram_keeps [OF a(1)] by (simp add: same_setup_def map_update_same)
qed

lemma payload_short: "datagram_ok d \<Longrightarrow> 20 + length (BufferList_concatenate (id_payload d)) < 2 ^ 16"
  using unat_lt16 [of "ih_len (id_header d)"] by (simp add: datagram_ok_def del: unat_lt16)

definition echo_reply :: "IPv4Datagram \<Rightarrow> ICMPMessage \<Rightarrow> IPv4Datagram" where
  "echo_reply d m =
     icmp_datagram (ih_dst (id_header d)) (ih_src (id_header d))
       (ICMPMessage_default\<lparr>im_type := TYPE_ECHO_REPLY, im_code := 0, im_identifier := im_identifier m,
          im_sequence_number := im_sequence_number m, im_payload := im_payload m\<rparr>)"

lemma Router_own_icmp_cases:
  assumes d: "datagram_ok d"
  shows "Router_own_icmp i d r = Inr r \<or> (\<exists>m. Router_own_icmp i d r =
    Router_send_datagram (of_nat i) (echo_reply d m) (ipv4_address (ih_src (id_header d))) r \<and>
    datagram_ok (echo_reply d m))"
proof -
  let ?s = "BufferList_concatenate (id_payload d)"
  have "Buffer_wf (Buffer_of_string ?s)" using payload_short [OF d] by simp
  then obtain m where m: "ICMPMessage_parse (Buffer_of_string ?s) ICMPMessage_default = Inr (icmp_verdict ?s, m)"
    "icmp_verdict ?s = NoError \<Longrightarrow> im_type m = ?s ! 0"
    "icmp_verdict ?s = NoError \<Longrightarrow> im_payload m = drop (if length ?s < 8 then 4 else 8) ?s"
    using icmp_parse_any [of "Buffer_of_string ?s" ICMPMessage_default] by auto
  show ?thesis
  proof (cases "icmp_verdict ?s = NoError \<and> im_type m = TYPE_ECHO_REQUEST")
    case True
    then have "is_echo (?s ! 0)" using m(2) by (simp add: is_echo_def)
    with True have "8 \<le> length ?s" by (auto simp: icmp_verdict_def split: if_splits)
    with True m(3) have "28 + length (im_payload m) < 2 ^ 16" using payload_short [OF d] by simp
    then have "datagram_ok (echo_reply d m)" unfolding echo_reply_def by (intro icmp_datagram_ok) simp
    with True m(1) show ?thesis
      by (intro disjI2 exI [of _ m]) (simp add: Router_own_icmp_def Let_def echo_reply_def)
  next
    case False
    with m(1) show ?thesis by (auto simp: Router_own_icmp_def Let_def)
  qed
qed

lemma Router_own_icmp_total:
  assumes "router_inv r" and "i < length (ro_interfaces r)" and "datagram_ok d"
  shows "\<exists>r'. Router_own_icmp i d r = Inr r' \<and> router_inv r' \<and> same_setup r r'"
proof -
  have "unat (of_nat i :: size_t) = i" using assms(1,2) by (simp add: router_inv_def unat_of_nat)
  with assms(2) have "unat (of_nat i :: size_t) < length (ro_interfaces r)" by simp
  then show ?thesis
    using Router_own_icmp_cases [OF assms(3), of i r] assms(1)
      Router_send_total [OF assms(1) _ _ ipv4_numeric_address] by (metis same_setup_refl)
qed

definition icmp_error :: "u32 \<Rightarrow> u8 \<Rightarrow> IPv4Datagram \<Rightarrow> IPv4Datagram" where
  "icmp_error src type d =
     icmp_datagram src (ih_src (id_header d))
       (ICMPMessage_default\<lparr>im_type := type, im_code := 0, im_payload := take 28 (datagram_wire d)\<rparr>)"

lemma datagram_wire_fits: "datagram_ok d \<Longrightarrow> length (datagram_wire d) < 2 ^ 17"
  using ip_suffix_length [of "id_header d"] payload_short [of d]
  by (simp add: datagram_wire_def Let_def datagram_ok_def)

lemma Router_send_icmp_eq:
  assumes inv: "router_inv r" and d: "datagram_ok d"
  shows "Router_send_icmp type 0 d N hop r =
    (if unat N < length (ro_interfaces r)
     then Router_send_datagram N
       (icmp_error (projr (Address_ipv4_numeric (ni_ip_address (ro_interfaces r ! unat N)))) type d) hop r
     else Inr r)"
proof -
  obtain bl where bl: "IPv4Datagram_serialize d = Inr bl" "BufferList_concatenate bl = datagram_wire d"
    using datagram_serialize_eq [OF d] by blast
  have "take (unat (min (sz (datagram_wire d)) (IPv4Header_LENGTH + 8))) (datagram_wire d) = take 28 (datagram_wire d)"
    using datagram_wire_fits [OF d] by (simp add: min_def word_le_nat_alt IPv4Header_LENGTH_def)
  moreover have "N < sz (ro_interfaces r) \<longleftrightarrow> unat N < length (ro_interfaces r)"
    using inv by (simp add: router_inv_def sz_less_iff)
  moreover have "\<exists>ip. Address_ipv4_numeric (ni_ip_address (ro_interfaces r ! unat N)) = Inr ip"
    if "unat N < length (ro_interfaces r)" using router_inv_interface [OF inv that] by (simp add: iface_inv_def)
  ultimately show ?thesis
    using bl inv Router_interface_at [of r N]
    by (auto simp: Router_send_icmp_def Let_def icmp_error_def router_inv_def)
qed

lemma icmp_error_ok: "datagram_ok (icmp_error src type d)"
  unfolding icmp_error_def by (rule icmp_datagram_ok) simp

lemma Router_send_icmp_total:
  assumes "router_inv r" and "datagram_ok d" and "Address_ipv4_numeric hop = Inr ip"
  shows "\<exists>r'. Router_send_icmp type 0 d N hop r = Inr r' \<and> router_inv r' \<and> same_setup r r'"
  using Router_send_icmp_eq [OF assms(1,2)] Router_send_total [OF assms(1) _ icmp_error_ok assms(3)] assms(1)
  by simp


lemma Router_forward_eq:
  assumes inv: "router_inv r" and e: "route_ok (length (ro_interfaces r)) e"
  shows "Router_forward e d r = Router_send_datagram (re_interface_num e)
    (d\<lparr>id_header := (id_header d)\<lparr>ih_ttl := ih_ttl (id_header d) - 1\<rparr>\<rparr>)
    (case re_next_hop e of Some hop \<Rightarrow> hop | None \<Rightarrow> ipv4_address (ih_dst (id_header d))) r"
proof -
  have "Router_interface (re_interface_num e) r = Inr (ro_interfaces r ! unat (re_interface_num e))"
    using Router_interface_at [of r "re_interface_num e"] inv e by (simp add: router_inv_def route_ok_def)
  then show ?thesis by (simp add: Router_forward_def Let_def split: option.split)
qed

lemma datagram_ok_ttl [simp]: "datagram_ok (d\<lparr>id_header := (id_header d)\<lparr>ih_ttl := t\<rparr>\<rparr>) = datagram_ok d"
  by (simp add: datagram_ok_def)

lemma Router_forward_total:
  assumes "router_inv r" and "route_ok (length (ro_interfaces r)) e" and "datagram_ok d"
  shows "\<exists>r'. Router_forward e d r = Inr r' \<and> router_inv r' \<and> same_setup r r'"
proof -
  obtain ip where "Address_ipv4_numeric (case re_next_hop e of Some hop \<Rightarrow> hop
      | None \<Rightarrow> ipv4_address (ih_dst (id_header d))) = Inr ip"
    using assms(2) by (cases "re_next_hop e") (auto simp: route_ok_def)
  then show ?thesis
    using Router_send_total [OF assms(1)] assms by (simp add: Router_forward_eq [OF assms(1,2)] route_ok_def)
qed

lemma look_up_and_forward_total:
  assumes "router_inv r" and "datagram_ok d"
  shows "\<exists>r'. Router_look_up_and_forward d r = Inr r' \<and> router_inv r' \<and> same_setup r r'"
  using Router_send_icmp_total [OF assms ipv4_numeric_address] Router_forward_total [OF assms(1) _ assms(2)]
    router_inv_match [OF assms(1)] assms(1)
  by (simp add: Router_look_up_and_forward_def Let_def split: option.split)

lemma route_one_total:
  assumes "router_inv r" and "datagram_ok d"
  shows "\<exists>r'. Router_route_one_datagram d r = Inr r' \<and> router_inv r' \<and> same_setup r r'"
  using Router_own_icmp_total [OF assms(1) own_index_lt assms(2)] look_up_and_forward_total [OF assms]
    own_interface_index [OF assms(1)]
  by (simp add: Router_route_one_datagram_def split: option.split)

section \<open>Draining the queues\<close>

lemma pop_inv:
  assumes "router_inv r" and "i < length (ro_interfaces r)"
  shows "router_inv (pop_datagram i r)"
  unfolding pop_datagram_def
proof (rule router_inv_update [OF assms(1)])
  let ?a = "ro_interfaces r ! i"
  show "iface_inv (?a\<lparr>ai_datagrams_out := tl (ai_datagrams_out ?a)\<rparr>)"
    using router_inv_interface [OF assms] by (simp add: iface_inv_def)
  have "list_all datagram_ok (ai_datagrams_out ?a)" using assms by (simp add: router_inv_def)
  then show "list_all datagram_ok (ai_datagrams_out (?a\<lparr>ai_datagrams_out := tl (ai_datagrams_out ?a)\<rparr>))"
    by (cases "ai_datagrams_out ?a") simp_all
qed

lemma pop_setup: "same_setup r (pop_datagram i r)"
  by (simp add: same_setup_def pop_datagram_def map_update_same)

lemma pop_queues: "i < length (ro_interfaces r) \<Longrightarrow> queues (pop_datagram i r) = (queues r)[i := tl (queues r ! i)]"
  by (simp add: queues_def pop_datagram_def map_update)

lemma route_queue_drains:
  assumes "router_inv r"
  shows "\<exists>r'. Router_route_queue i r = Inr r' \<and> router_inv r' \<and> same_setup r r' \<and> queues r' = (queues r)[i := []]"
  using assms
proof (induction i r rule: Router_route_queue.induct)
  case (1 i r)
  show ?case
  proof (cases "i < length (ro_interfaces r)")
    case False
    with "1.prems" show ?thesis
      by (subst Router_route_queue.simps) (simp add: queues_def list_update_beyond)
  next
    case lt: True
    show ?thesis
    proof (cases "ai_datagrams_out (ro_interfaces r ! i)")
      case Nil
      then have "(queues r)[i := []] = queues r" using lt by (metis list_update_id nth_map queues_def)
      with lt Nil "1.prems" show ?thesis by (subst Router_route_queue.simps) simp
    next
      case (Cons d ds)
      then have "datagram_ok d" using "1.prems" lt by (auto simp: router_inv_def dest!: nth_mem)
      then obtain r1 where r1: "Router_route_one_datagram d r = Inr r1" "router_inv r1" "same_setup r r1"
        using route_one_total [OF "1.prems"] by blast
      have lt1: "i < length (ro_interfaces r1)" using lt same_setup_length [OF r1(3)] by simp
      obtain r' where r': "Router_route_queue i (pop_datagram i r1) = Inr r'" "router_inv r'"
        "same_setup (pop_datagram i r1) r'" "queues r' = (queues (pop_datagram i r1))[i := []]"
        using "1.IH" [OF lt Cons r1(1) pop_inv [OF r1(2) lt1]] by blast
      have "same_setup r r'" using same_setup_trans [OF same_setup_trans [OF r1(3) pop_setup] r'(3)] .
      then show ?thesis
        using lt Cons r1(1) r'(1,2,4) route_one_queues [OF r1(1)] pop_queues [OF lt1]
        by (subst Router_route_queue.simps) simp
    qed
  qed
qed

lemma route_from_drains:
  assumes "router_inv r"
  shows "\<exists>r'. Router_route_from is r = Inr r' \<and> router_inv r' \<and> same_setup r r' \<and>
    queues r' = foldl (\<lambda>qs i. qs[i := []]) (queues r) is"
  using assms
proof (induction "is" arbitrary: r)
  case (Cons i "is")
  obtain r1 where r1: "Router_route_queue i r = Inr r1" "router_inv r1" "same_setup r r1" "queues r1 = (queues r)[i := []]"
    using route_queue_drains [OF Cons.prems] by blast
  from Cons.IH [OF r1(2)] r1 show ?case using same_setup_trans [OF r1(3)] by auto
qed simp

lemma clear_all: "foldl (\<lambda>qs i. qs[i := []]) qs [0..<length qs] = replicate (length qs) []"
proof -
  have "n \<le> length qs \<Longrightarrow> foldl (\<lambda>qs i. qs[i := []]) qs [0..<n] = replicate n [] @ drop n qs" for n
  proof (induction n)
    case (Suc n)
    then have "drop n qs = qs ! n # drop (Suc n) qs" by (simp add: Cons_nth_drop_Suc)
    with Suc show ?case by (simp add: list_update_append replicate_append_same [symmetric])
  qed simp
  from this [of "length qs"] show ?thesis by simp
qed

lemma route_drains:
  assumes "router_inv r"
  shows "\<exists>r'. Router_route r = Inr r' \<and> router_inv r' \<and> same_setup r r' \<and>
    queues r' = replicate (length (ro_interfaces r)) []"
  using route_from_drains [OF assms, of "[0..<length (ro_interfaces r)]"] clear_all [of "queues r"]
  by (simp add: Router_route_def) (simp add: queues_def)


section \<open>Properties\<close>

lemma route_one_not_own:
  assumes "router_inv r" and "ih_proto (id_header d) \<noteq> PROTO_ICMP \<or> own_index (ih_dst (id_header d)) r = None"
  shows "Router_route_one_datagram d r = Router_look_up_and_forward d r"
  using assms own_interface_index [OF assms(1)] by (auto simp: Router_route_one_datagram_def)

definition next_hop_of :: "RouteEntry \<Rightarrow> u32 \<Rightarrow> Address" where
  "next_hop_of e dst = (case re_next_hop e of Some hop \<Rightarrow> hop | None \<Rightarrow> ipv4_address dst)"

lemma Router_send_resolved:
  assumes inv: "router_inv r" and N: "unat N < length (ro_interfaces r)" and d: "datagram_ok d"
    and hop: "Address_ipv4_numeric hop = Inr ip" and arp: "ni_arp_table (ro_interfaces r ! unat N) ip = Some entry"
  shows "Router_send_datagram N d hop r =
    (let a = ro_interfaces r ! unat N in Inr (r\<lparr>ro_interfaces := (ro_interfaces r)[unat N :=
       a\<lparr>ni_frames_out := ni_frames_out a @ [frame_from a (ae_eth_addr entry) TYPE_IPv4 (wire_of d)]\<rparr>]\<rparr>))"
  using Router_send_ok [OF inv N d hop] send_datagram_ok [OF router_inv_interface [OF inv N] d hop] arp
  by (auto simp: Let_def)

lemma wire_of_parses:
  assumes "datagram_ok d"
  shows "\<exists>d' c. IPv4Datagram_parse (Buffer_of_string (BufferList_concatenate (wire_of d))) old = Inr (NoError, d') \<and>
    id_header d' = (id_header d)\<lparr>ih_cksum := c\<rparr> \<and>
    BufferList_concatenate (id_payload d') = BufferList_concatenate (id_payload d)"
proof -
  have "BufferList_concatenate (wire_of d) = datagram_wire d"
    using datagram_serialize_eq [OF assms] serialize_wire [OF assms] by auto
  then show ?thesis
    using datagram_parse_wire [OF assms, of "Buffer_of_string (datagram_wire d)"] datagram_wire_fits [OF assms]
    by simp
qed

section \<open>Reachable routers\<close>

lemma at_path_insert:
  assumes "RoutingTrie_insert e t = Inr t'" and "unat (re_prefix_length e) \<le> 32" and "at_path t' ds = Some x"
  shows "x = e \<or> at_path t ds = Some x"
  using assms by (auto simp: RoutingTrie_insert_def navigate_ins at_path_ins split: if_splits)

lemma add_interface_inv:
  assumes "router_inv r" and "iface_inv a" and "list_all datagram_ok (ai_datagrams_out a)"
    and "Suc (length (ro_interfaces r)) < 2 ^ 64"
  shows "router_inv (fst (Router_add_interface a r))"
  using assms by (fastforce simp: router_inv_def Router_add_interface_def Let_def route_ok_def)

lemma add_route_inv:
  assumes "router_inv r" and "len \<le> 32" and "unat N < length (ro_interfaces r)"
    and "\<forall>a. hop = Some a \<longrightarrow> (\<exists>ip. Address_ipv4_numeric a = Inr ip)"
  shows "\<exists>r'. Router_add_route p len hop N r = Inr r' \<and> router_inv r'"
proof -
  let ?e = "\<lparr>re_route_prefix = p, re_prefix_length = len, re_next_hop = hop, re_interface_num = N\<rparr>"
  have len: "unat (re_prefix_length ?e) \<le> 32" using assms(2) by (simp add: word_le_nat_alt)
  then obtain t where t: "RoutingTrie_insert ?e (ro_route_table r) = Inr t"
    using navigate_ins by (simp add: RoutingTrie_insert_def)
  have "route_ok (length (ro_interfaces r)) x" if "at_path t ds = Some x" for ds x
    using at_path_insert [OF t len that] assms(1,3,4) by (auto simp: router_inv_def route_ok_def)
  then show ?thesis using t assms(1) by (simp add: Router_add_route_def router_inv_def)
qed

definition frame_good :: "EthernetFrame \<Rightarrow> bool" where
  "frame_good f \<longleftrightarrow> (\<exists>b. ef_payload f = [b] \<and> Buffer_wf b \<and>
     (eh_type (ef_header f) = TYPE_IPv4 \<longrightarrow> (\<exists>d. datagram_ok d \<and> Buffer_str b = datagram_wire d)))"

lemma send_waiting_queue: "send_waiting dst l a = Inr a' \<Longrightarrow> ai_datagrams_out a' = ai_datagrams_out a"
proof (induction l arbitrary: a)
  case (Cons x l)
  obtain h d where "x = (h, d)" by (cases x)
  with Cons.prems obtain p where "send_waiting dst l (NetworkInterface_send dst TYPE_IPv4 p a) = Inr a'"
    by (auto simp: bind_res_Inr_iff)
  from Cons.IH [OF this] show ?case by (simp add: NetworkInterface_send_def)
qed simp

lemma recv_frame_queue:
  "NetworkInterface_recv_frame f a = Inr (a', x) \<Longrightarrow> ai_datagrams_out a' = ai_datagrams_out a"
  by (auto simp: NetworkInterface_recv_frame_def NetworkInterface_reply_arp_def NetworkInterface_learn_def
      NetworkInterface_send_def Let_def bind_res_Inr_iff dest!: send_waiting_queue
      split: if_splits option.splits)

lemma recv_frame_datagram:
  assumes "frame_good f" and "NetworkInterface_recv_frame f a = Inr (a', Some d)"
  shows "datagram_ok d"
proof -
  obtain b where b: "ef_payload f = [b]" "Buffer_wf b" "eh_type (ef_header f) = TYPE_IPv4"
    "IPv4Datagram_parse b IPv4Datagram_default = Inr (NoError, d)"
    using assms
    by (auto simp: frame_good_def NetworkInterface_recv_frame_def Let_def bind_res_Inr_iff BufferList_to_Buffer_def
        split: if_splits)
  then obtain d0 where d0: "datagram_ok d0" "Buffer_str b = datagram_wire d0" using assms(1) by (auto simp: frame_good_def)
  from datagram_parse_wire [OF d0(1) b(2) d0(2), of IPv4Datagram_default] b(4) d0(1)
  show ?thesis by (auto simp: datagram_ok_def)
qed

definition Router_receive :: "nat \<Rightarrow> EthernetFrame \<Rightarrow> Router \<Rightarrow> Router res" where
  "Router_receive i f r =
     bind_res (Router_interface (of_nat i) r) (\<lambda>a.
     bind_res (AsyncNetworkInterface_recv_frame f a) (\<lambda>a.
     Inr (r\<lparr>ro_interfaces := (ro_interfaces r)[i := a]\<rparr>)))"

lemma receive_inv:
  assumes inv: "router_inv r" and i: "i < length (ro_interfaces r)" and f: "frame_good f"
  shows "\<exists>r'. Router_receive i f r = Inr r' \<and> router_inv r'"
proof -
  let ?a = "ro_interfaces r ! i"
  have "unat (of_nat i :: size_t) = i" using inv i by (simp add: router_inv_def unat_of_nat)
  then have a: "Router_interface (of_nat i) r = Inr ?a"
    using Router_interface_at [of r "of_nat i"] inv i by (simp add: router_inv_def)
  obtain b where b: "ef_payload f = [b]" "Buffer_wf b" using f by (auto simp: frame_good_def)
  obtain a' x where x: "NetworkInterface_recv_frame f ?a = Inr (a', x)" "iface_inv a'"
    using recv_frame_ok [OF router_inv_interface [OF inv i] b] by blast
  let ?a' = "case x of Some d \<Rightarrow> a'\<lparr>ai_datagrams_out := ai_datagrams_out a' @ [d]\<rparr> | None \<Rightarrow> a'"
  have "AsyncNetworkInterface_recv_frame f ?a = Inr ?a'"
    using x(1) by (simp add: AsyncNetworkInterface_recv_frame_def split: option.split)
  moreover have "iface_inv ?a'" using x(2) by (simp add: iface_inv_def split: option.split)
  moreover have "list_all datagram_ok (ai_datagrams_out ?a')"
    using recv_frame_queue [OF x(1)] recv_frame_datagram [OF f] x(1) inv i
    by (auto simp: router_inv_def split: option.split)
  ultimately show ?thesis using a router_inv_update [OF inv] by (simp add: Router_receive_def)
qed

definition Router_elapse :: "nat \<Rightarrow> size_t \<Rightarrow> Router \<Rightarrow> Router" where
  "Router_elapse i ms r =
     r\<lparr>ro_interfaces := (ro_interfaces r)[i := NetworkInterface_tick ms (ro_interfaces r ! i)]\<rparr>"

lemma elapse_inv:
  assumes "router_inv r" and "i < length (ro_interfaces r)"
  shows "router_inv (Router_elapse i ms r)"
  using router_inv_update [OF assms(1) tick_inv [OF router_inv_interface [OF assms]]] assms
  by (simp add: Router_elapse_def router_inv_def NetworkInterface_tick_def)

inductive router_reach :: "Router \<Rightarrow> bool" where
  reach_new: "router_reach Router_new"
| reach_interface: "router_reach r \<Longrightarrow> eth_ok eth \<Longrightarrow> Suc (length (ro_interfaces r)) < 2 ^ 64 \<Longrightarrow>
    router_reach (fst (Router_add_interface (AsyncNetworkInterface_new (NetworkInterface_new eth (ipv4_address ip))) r))"
| reach_route: "router_reach r \<Longrightarrow> len \<le> 32 \<Longrightarrow> unat N < length (ro_interfaces r) \<Longrightarrow>
    Router_add_route p len (map_option ipv4_address hop) N r = Inr r' \<Longrightarrow> router_reach r'"
| reach_icmp: "router_reach r \<Longrightarrow> router_reach (Router_set_icmp_enabled b r)"
| reach_receive: "router_reach r \<Longrightarrow> i < length (ro_interfaces r) \<Longrightarrow> frame_good f \<Longrightarrow>
    Router_receive i f r = Inr r' \<Longrightarrow> router_reach r'"
| reach_elapse: "router_reach r \<Longrightarrow> i < length (ro_interfaces r) \<Longrightarrow> router_reach (Router_elapse i ms r)"
| reach_pass: "router_reach r \<Longrightarrow> Router_route r = Inr r' \<Longrightarrow> router_reach r'"

lemma async_new_inv: "eth_ok eth \<Longrightarrow> iface_inv (AsyncNetworkInterface_new (NetworkInterface_new eth (ipv4_address ip)))"
  by (simp add: iface_inv_def AsyncNetworkInterface_new_def NetworkInterface_new_def)

lemma at_path_new [simp]: "at_path TrieNode_new ds = None"
  by (cases ds) simp_all

lemma router_reach_inv: "router_reach r \<Longrightarrow> router_inv r"
proof (induction rule: router_reach.induct)
  case reach_new
  show ?case by (simp add: router_inv_def Router_new_def)
next
  case (reach_interface r eth ip)
  then show ?case
    using add_interface_inv [OF reach_interface.IH async_new_inv] by (simp add: AsyncNetworkInterface_new_def)
next
  case (reach_route r len N p hop r')
  have "\<forall>a. map_option ipv4_address hop = Some a \<longrightarrow> (\<exists>ip. Address_ipv4_numeric a = Inr ip)" by auto
  from add_route_inv [OF reach_route.IH reach_route.hyps(2,3) this, of p] reach_route.hyps(4)
  show ?case by simp
next
  case (reach_icmp r b)
  then show ?case by (simp add: router_inv_def Router_set_icmp_enabled_def)
next
  case (reach_receive r i f r')
  then show ?case using receive_inv [OF reach_receive.IH] by fastforce
next
  case (reach_elapse r i ms)
  then show ?case by (simp add: elapse_inv)
next
  case (reach_pass r r')
  then show ?case using route_drains [OF reach_pass.IH] by auto
qed

section \<open>A router to evaluate\<close>

definition demo_side :: "EthernetAddress \<Rightarrow> u32 \<Rightarrow> AsyncNetworkInterface" where
  "demo_side eth ip = AsyncNetworkInterface_new (NetworkInterface_new eth (ipv4_address ip))"

definition demo_route :: RouteEntry where
  "demo_route = \<lparr>re_route_prefix = 0xC0A80000, re_prefix_length = 16, re_next_hop = None, re_interface_num = 1\<rparr>"

definition demo_router :: Router where
  "demo_router =
     \<lparr>ro_interfaces =
        [demo_side [2, 0, 0, 0, 0, 1] 0x0A0000FE,
         (demo_side [2, 0, 0, 0, 0, 2] 0xC0A80001)
           \<lparr>ni_arp_table := [0xC0A80002 \<mapsto> \<lparr>ae_eth_addr = [2, 0, 0, 0, 0, 3], ae_ttl = 30000\<rparr>]\<rparr>],
      ro_route_table = ins (path_of demo_route) demo_route TrieNode_new, ro_icmp_enabled = True\<rparr>"

lemma demo_router_inv: "router_inv demo_router"
proof -
  have "at_path (ins (path_of demo_route) demo_route TrieNode_new) ds = Some e \<Longrightarrow> e = demo_route" for ds e
    by (simp add: at_path_ins split: if_splits)
  then have "route_ok (Suc (Suc 0)) e" if "at_path (ins (path_of demo_route) demo_route TrieNode_new) ds = Some e" for ds e
    using that by (fastforce simp: demo_route_def route_ok_def)
  then show ?thesis
    by (simp add: router_inv_def demo_router_def demo_side_def AsyncNetworkInterface_new_def NetworkInterface_new_def
        iface_inv_def)
qed

lemma demo_router_table: "insert_all [demo_route] TrieNode_new = Inr (ro_route_table demo_router)"
  by (simp add: RoutingTrie_insert_def navigate_ins path_of_def demo_router_def demo_route_def)

lemma demo_router_own:
  "own_index 0xC0A80002 demo_router = None" "own_index 0x0A0000FE demo_router = Some 0"
  by (simp_all add: own_index_def demo_router_def demo_side_def AsyncNetworkInterface_new_def NetworkInterface_new_def
      upt_rec)

lemma demo_datagram_fields:
  "ih_dst (id_header demo_datagram) = 0xC0A80002" "ih_src (id_header demo_datagram) = 0x0A000001"
  "ih_ttl (id_header demo_datagram) = 128" "ih_proto (id_header demo_datagram) = 6"
  by (simp_all add: demo_datagram_def IPv4Header_default_def DEFAULT_TTL_def PROTO_TCP_def)

section \<open>The properties of the router\<close>

text \<open>
  C18. \<^verbatim>\<open>route\<close> ends, throws nothing and leaves no datagram behind. Take any router built by adding
  interfaces and routes (of at most 32 bits, through existing interfaces), fed with frames whose IPv4
  payloads are well formed, with time passing and earlier calls of \<^verbatim>\<open>route\<close> in any order. The next call
  returns with every queue of received datagrams empty, and the routing table and the addresses of
  the interfaces are what they were.
\<close>
theorem router_route_drains:
  assumes "router_reach r"
  shows "\<exists>r'. Router_route r = Inr r' \<and> router_reach r' \<and> same_setup r r' \<and>
    map ai_datagrams_out (ro_interfaces r') = replicate (length (ro_interfaces r)) []"
  using route_drains [OF router_reach_inv [OF assms]] reach_pass [OF assms] by (auto simp: queues_def)

theorem router_route_drains_witness:
  "\<exists>r r'. router_reach r \<and> map ai_datagrams_out (ro_interfaces r) \<noteq> [[]] \<and> Router_route r = Inr r' \<and>
     map ai_datagrams_out (ro_interfaces r') = [[]]"
proof -
  let ?r0 = "fst (Router_add_interface (demo_side [2, 0, 0, 0, 0, 1] 0x0A0000FE) Router_new)"
  let ?f = "\<lparr>ef_header = \<lparr>eh_dst = [2, 0, 0, 0, 0, 1], eh_src = [2, 0, 0, 0, 0, 3], eh_type = TYPE_IPv4\<rparr>,
    ef_payload = [Buffer_of_string (datagram_wire demo_datagram)]\<rparr>"
  have r0: "router_reach ?r0" unfolding demo_side_def
    by (rule reach_interface [OF reach_new]) (simp_all add: Router_new_def)
  have ifs: "ro_interfaces ?r0 = [demo_side [2, 0, 0, 0, 0, 1] 0x0A0000FE]"
    by (simp add: Router_add_interface_def Router_new_def)
  have b: "Buffer_wf (Buffer_of_string (datagram_wire demo_datagram))"
    using datagram_wire_fits [OF demo_datagram_ok] by simp
  then have f: "frame_good ?f" using demo_datagram_ok by (auto simp: frame_good_def)
  obtain r1 where r1: "Router_receive 0 ?f ?r0 = Inr r1"
    using receive_inv [OF router_reach_inv [OF r0] _ f, of 0] ifs by auto
  then have reach: "router_reach r1" using reach_receive [OF r0 _ f r1] ifs by simp
  obtain d where "IPv4Datagram_parse (Buffer_of_string (datagram_wire demo_datagram)) IPv4Datagram_default = Inr (NoError, d)"
    using datagram_parse_wire [OF demo_datagram_ok b] by auto
  then have "map ai_datagrams_out (ro_interfaces r1) = [[d]]"
    using r1 ifs
    by (auto simp: Router_receive_def Router_interface_def AsyncNetworkInterface_recv_frame_def demo_side_def sz_def
        NetworkInterface_recv_frame_def BufferList_to_Buffer_def AsyncNetworkInterface_new_def NetworkInterface_new_def)
  then have "map ai_datagrams_out (ro_interfaces r1) \<noteq> [[]]" "length (ro_interfaces r1) = 1"
    by (simp, metis length_map list.size(3) list.size(4) add_0 One_nat_def)
  with router_route_drains [OF reach] reach show ?thesis by auto
qed

text \<open>
  C8. A datagram for another host, with a time to live above 1, is forwarded along the longest matching
  route. Only the interface of the route changes. When its ARP table knows the next hop, exactly one
  frame leaves: it goes to the Ethernet address of the next hop, and its payload parses without error to
  the datagram with a time to live one less. When it does not, that datagram is put behind those that
  wait for the next hop, and one ARP request for it is broadcast, unless one is pending already.
\<close>
theorem router_forwards:
  assumes "router_inv r" and "datagram_ok d"
    and "list_all (\<lambda>e. re_prefix_length e \<le> 32) es" "insert_all es TrieNode_new = Inr (ro_route_table r)"
    and "ih_proto (id_header d) \<noteq> PROTO_ICMP \<or> own_index (ih_dst (id_header d)) r = None"
    and "scan_routes es (ih_dst (id_header d)) = Some e" and "1 < ih_ttl (id_header d)"
    and "a = ro_interfaces r ! unat (re_interface_num e)"
    and "Address_ipv4_numeric (next_hop_of e (ih_dst (id_header d))) = Inr ip"
  shows "\<exists>a'. Router_route_one_datagram d r =
      Inr (r\<lparr>ro_interfaces := (ro_interfaces r)[unat (re_interface_num e) := a']\<rparr>) \<and>
    (case ni_arp_table a ip of
       Some entry \<Rightarrow> \<exists>f d' c. a' = a\<lparr>ni_frames_out := ni_frames_out a @ [f]\<rparr> \<and>
         ef_header f = \<lparr>eh_dst = ae_eth_addr entry, eh_src = ni_ethernet_address a, eh_type = TYPE_IPv4\<rparr> \<and>
         IPv4Datagram_parse (Buffer_of_string (BufferList_concatenate (ef_payload f))) IPv4Datagram_default =
           Inr (NoError, d') \<and>
         id_header d' = (id_header d)\<lparr>ih_ttl := ih_ttl (id_header d) - 1, ih_cksum := c\<rparr> \<and>
         BufferList_concatenate (id_payload d') = BufferList_concatenate (id_payload d)
     | None \<Rightarrow>
         waiting_for a' ip = waiting_for a ip @ [(next_hop_of e (ih_dst (id_header d)),
           d\<lparr>id_header := (id_header d)\<lparr>ih_ttl := ih_ttl (id_header d) - 1\<rparr>\<rparr>)] \<and>
         (if ni_waiting_arp_response_ip_addr a ip = None
          then \<exists>s. ARPMessage_serialize (request_for a ip) = Inr s \<and>
            ni_frames_out a' = ni_frames_out a @ [frame_from a ETHERNET_BROADCAST TYPE_ARP (BufferList_of_string s)]
          else ni_frames_out a' = ni_frames_out a))"
proof -
  let ?d = "d\<lparr>id_header := (id_header d)\<lparr>ih_ttl := ih_ttl (id_header d) - 1\<rparr>\<rparr>"
  let ?hop = "next_hop_of e (ih_dst (id_header d))"
  have m: "RoutingTrie_longest_prefix_match (ih_dst (id_header d)) (ro_route_table r) = Some e"
    using insert_all_scan [OF trie_ok_new assms(3)] assms(4,6)
    by (auto simp: scan_routes_def match_new)
  note e = router_inv_match [OF assms(1) m]
  then have N: "unat (re_interface_num e) < length (ro_interfaces r)" by (simp add: route_ok_def)
  have ok: "datagram_ok ?d" using assms(2) by simp
  obtain a' where a': "NetworkInterface_send_datagram ?d ?hop a = Inr a'"
    "Router_send_datagram (re_interface_num e) ?d ?hop r =
      Inr (r\<lparr>ro_interfaces := (ro_interfaces r)[unat (re_interface_num e) := a']\<rparr>)"
    using Router_send_ok [OF assms(1) N ok assms(9)] assms(8) by blast
  have "Router_route_one_datagram d r = Router_send_datagram (re_interface_num e) ?d ?hop r"
    using route_one_not_own [OF assms(1,5)] m assms(7) Router_forward_eq [OF assms(1) e]
    by (simp add: Router_look_up_and_forward_def Let_def not_le [symmetric] next_hop_of_def)
  then have "Router_route_one_datagram d r =
      Inr (r\<lparr>ro_interfaces := (ro_interfaces r)[unat (re_interface_num e) := a']\<rparr>)" using a'(2) by simp
  moreover have sent: "case ni_arp_table a ip of
      Some x \<Rightarrow> a' = a\<lparr>ni_frames_out := ni_frames_out a @ [frame_from a (ae_eth_addr x) TYPE_IPv4 (wire_of ?d)]\<rparr>
    | None \<Rightarrow> waiting_for a' ip = waiting_for a ip @ [(?hop, ?d)] \<and>
        (if ni_waiting_arp_response_ip_addr a ip = None
         then \<exists>s. ARPMessage_serialize (request_for a ip) = Inr s \<and>
           ni_frames_out a' = ni_frames_out a @ [frame_from a ETHERNET_BROADCAST TYPE_ARP (BufferList_of_string s)]
         else ni_frames_out a' = ni_frames_out a)"
    using send_datagram_ok [OF router_inv_interface [OF assms(1) N] ok assms(9)] a'(1) unfolding assms(8) [symmetric]
    by (elim exE conjE) simp
  moreover obtain d' c where "IPv4Datagram_parse (Buffer_of_string (BufferList_concatenate (wire_of ?d)))
      IPv4Datagram_default = Inr (NoError, d')" "id_header d' = (id_header ?d)\<lparr>ih_cksum := c\<rparr>"
    "BufferList_concatenate (id_payload d') = BufferList_concatenate (id_payload ?d)"
    using wire_of_parses [of ?d IPv4Datagram_default] ok by auto
  ultimately show ?thesis
    by (intro exI [of _ a']) (cases "ni_arp_table a ip"; force simp: frame_from_def)
qed


theorem router_forwards_witness:
  "\<exists>f d' c r'. Router_route_one_datagram demo_datagram demo_router = Inr r' \<and>
     map ni_frames_out (ro_interfaces r') = [[], [f]] \<and> eh_dst (ef_header f) = [2, 0, 0, 0, 0, 3] \<and>
     IPv4Datagram_parse (Buffer_of_string (BufferList_concatenate (ef_payload f))) IPv4Datagram_default = Inr (NoError, d') \<and>
     id_header d' = (id_header demo_datagram)\<lparr>ih_ttl := 127, ih_cksum := c\<rparr>"
proof -
  have scan: "scan_routes [demo_route] (ih_dst (id_header demo_datagram)) = Some demo_route" by code_simp
  have arp: "ni_arp_table (ro_interfaces demo_router ! 1) 0xC0A80002 =
      Some \<lparr>ae_eth_addr = [2, 0, 0, 0, 0, 3], ae_ttl = 30000\<rparr>"
    by (simp add: demo_router_def)
  have n: "unat (re_interface_num demo_route) = 1" by (simp add: demo_route_def)
  show ?thesis
    using router_forwards [OF demo_router_inv demo_datagram_ok _ demo_router_table _ scan _ refl, of "0xC0A80002"] arp
      demo_router_own(1)
    by (force simp: demo_datagram_fields n next_hop_of_def demo_route_def demo_router_def demo_side_def
        AsyncNetworkInterface_new_def NetworkInterface_new_def)
qed

definition error_report :: "IPv4Datagram \<Rightarrow> Router \<Rightarrow> (u8 \<times> size_t) option" where
  "error_report d r =
     (case RoutingTrie_longest_prefix_match (ih_dst (id_header d)) (ro_route_table r) of
        None \<Rightarrow> Some (TYPE_DESTINATION_UNREACHABLE, 0)
      | Some e \<Rightarrow> if ih_ttl (id_header d) \<le> 1 then Some (TYPE_TIME_EXCEEDED, re_interface_num e) else None)"

lemma icmp_datagram_payload: "BufferList_concatenate (id_payload (icmp_datagram src dst m)) = ICMPMessage_serialize m"
  by (simp add: icmp_datagram_def Let_def BufferList_of_Buffer_def BufferList_concatenate_eq)

lemma icmp_datagram_header:
  "ih_src (id_header (icmp_datagram src dst m)) = src" "ih_dst (id_header (icmp_datagram src dst m)) = dst"
  "ih_proto (id_header (icmp_datagram src dst m)) = PROTO_ICMP"
  by (simp_all add: icmp_datagram_def Let_def)

lemma icmp_error_header:
  "ih_src (id_header (icmp_error src type d)) = src"
  "ih_dst (id_header (icmp_error src type d)) = ih_src (id_header d)"
  "ih_proto (id_header (icmp_error src type d)) = PROTO_ICMP"
  by (simp_all add: icmp_error_def icmp_datagram_header)

lemma icmp_serialize_parse:
  assumes "length (im_payload m) < 2 ^ 60" and "\<not> is_echo (im_type m) \<longrightarrow> im_identifier m = 0 \<and> im_sequence_number m = 0"
  shows "ICMPMessage_parse (Buffer_of_string (ICMPMessage_serialize m)) m0 =
    Inr (NoError, m\<lparr>im_cksum := ICMPMessage_compute_checksum m\<rparr>)"
proof -
  let ?m = "m\<lparr>im_cksum := ICMPMessage_compute_checksum m\<rparr>"
  have "ICMPMessage_serialize m = NetUnparser_u8 [] (im_type ?m) @ NetUnparser_u8 [] (im_code ?m) @
      NetUnparser_u16 [] (im_cksum ?m) @ icmp_rest ?m @ im_payload ?m"
    by (simp add: ICMPMessage_serialize_def icmp_write_eq icmp_rest_def)
  moreover have "Buffer_wf (Buffer_of_string (ICMPMessage_serialize m))" using assms(1) by simp
  ultimately show ?thesis
    using icmp_parse_wire [of "Buffer_of_string (ICMPMessage_serialize m)" ?m m0] assms(2) by (cases m) auto
qed

lemma error_type_not_echo: "error_report d r = Some (type, N) \<Longrightarrow> \<not> is_echo type"
  by (auto simp: error_report_def is_echo_def TYPE_DESTINATION_UNREACHABLE_def TYPE_TIME_EXCEEDED_def
      TYPE_ECHO_REQUEST_def TYPE_ECHO_REPLY_def split: option.splits if_splits)



text \<open>
  C39. The router answers pings. An echo request for the address of one of its interfaces, whose
  message parses to \<open>m\<close>, is answered through that interface: the reply goes back to the sender from
  the pinged address, its checksum is valid, and it parses to an echo reply with the identifier, the
  sequence number and the payload of the request.
\<close>
theorem router_answers_ping:
  assumes "router_inv r" and "datagram_ok d" and "ih_proto (id_header d) = PROTO_ICMP"
    and "own_index (ih_dst (id_header d)) r = Some i"
    and "ICMPMessage_parse (Buffer_of_string (BufferList_concatenate (id_payload d))) ICMPMessage_default = Inr (NoError, m)"
    and "im_type m = TYPE_ECHO_REQUEST"
  shows "\<exists>reply c. Router_route_one_datagram d r =
      Router_send_datagram (of_nat i) reply (ipv4_address (ih_src (id_header d))) r \<and> datagram_ok reply \<and>
    ih_src (id_header reply) = ih_dst (id_header d) \<and> ih_dst (id_header reply) = ih_src (id_header d) \<and>
    checksum_of 0 (BufferList_concatenate (id_payload reply)) = 0 \<and>
    ICMPMessage_parse (Buffer_of_string (BufferList_concatenate (id_payload reply))) ICMPMessage_default =
      Inr (NoError, m\<lparr>im_type := TYPE_ECHO_REPLY, im_code := 0, im_cksum := c\<rparr>)"
proof -
  let ?s = "BufferList_concatenate (id_payload d)"
  let ?m = "ICMPMessage_default\<lparr>im_type := TYPE_ECHO_REPLY, im_code := 0, im_identifier := im_identifier m,
    im_sequence_number := im_sequence_number m, im_payload := im_payload m\<rparr>"
  have "Buffer_wf (Buffer_of_string ?s)" using payload_short [OF assms(2)] by simp
  from icmp_parse_any [OF this, of ICMPMessage_default] assms(5)
  have v: "icmp_verdict ?s = NoError" "im_type m = ?s ! 0" "im_payload m = drop (if length ?s < 8 then 4 else 8) ?s"
    by auto
  then have "8 \<le> length ?s" using assms(6) by (auto simp: icmp_verdict_def is_echo_def split: if_splits)
  then have short: "28 + length (im_payload m) < 2 ^ 16" using v(3) payload_short [OF assms(2)] by simp
  have "Router_route_one_datagram d r =
      Router_send_datagram (of_nat i) (echo_reply d m) (ipv4_address (ih_src (id_header d))) r"
    using assms(3-6) own_interface_index [OF assms(1)]
    by (simp add: Router_route_one_datagram_def Router_own_icmp_def Let_def echo_reply_def)
  moreover have "datagram_ok (echo_reply d m)"
    unfolding echo_reply_def by (rule icmp_datagram_ok) (use short in simp)
  moreover have "BufferList_concatenate (id_payload (echo_reply d m)) = ICMPMessage_serialize ?m"
    by (simp add: echo_reply_def icmp_datagram_payload)
  moreover have "checksum_of 0 (ICMPMessage_serialize ?m) = 0" by (rule icmp_checksum_valid) (use short in simp)
  moreover have "ICMPMessage_parse (Buffer_of_string (ICMPMessage_serialize ?m)) ICMPMessage_default =
      Inr (NoError, ?m\<lparr>im_cksum := ICMPMessage_compute_checksum ?m\<rparr>)"
    by (rule icmp_serialize_parse) (use short in \<open>simp_all add: is_echo_def\<close>)
  moreover have "?m\<lparr>im_cksum := c\<rparr> = m\<lparr>im_type := TYPE_ECHO_REPLY, im_code := 0, im_cksum := c\<rparr>" for c
    by (cases m) (simp add: ICMPMessage_default_def)
  moreover have "ih_src (id_header (echo_reply d m)) = ih_dst (id_header d)"
    "ih_dst (id_header (echo_reply d m)) = ih_src (id_header d)"
    by (simp_all add: echo_reply_def icmp_datagram_header)
  ultimately show ?thesis by (intro exI conjI) (assumption | simp only:)+
qed

definition demo_ping :: IPv4Datagram where
  "demo_ping = icmp_datagram 0x0A000001 0x0A0000FE
     (ICMPMessage_default\<lparr>im_type := TYPE_ECHO_REQUEST, im_identifier := 7, im_sequence_number := 1,
        im_payload := [1, 2, 3]\<rparr>)"

theorem router_answers_ping_witness:
  "\<exists>reply c. Router_route_one_datagram demo_ping demo_router =
       Router_send_datagram 0 reply (ipv4_address 0x0A000001) demo_router \<and>
     ICMPMessage_parse (Buffer_of_string (BufferList_concatenate (id_payload reply))) ICMPMessage_default =
       Inr (NoError, \<lparr>im_type = TYPE_ECHO_REPLY, im_code = 0, im_cksum = c, im_identifier = 7,
         im_sequence_number = 1, im_payload = [1, 2, 3]\<rparr>)"
proof -
  let ?m = "ICMPMessage_default\<lparr>im_type := TYPE_ECHO_REQUEST, im_identifier := 7, im_sequence_number := 1,
    im_payload := [1, 2, 3]\<rparr>"
  have ok: "datagram_ok demo_ping" unfolding demo_ping_def by (rule icmp_datagram_ok) simp
  have head: "ih_proto (id_header demo_ping) = PROTO_ICMP" "ih_dst (id_header demo_ping) = 0x0A0000FE"
    "ih_src (id_header demo_ping) = 0x0A000001"
    by (simp_all add: demo_ping_def icmp_datagram_header)
  have parse: "ICMPMessage_parse (Buffer_of_string (BufferList_concatenate (id_payload demo_ping))) ICMPMessage_default =
      Inr (NoError, ?m\<lparr>im_cksum := ICMPMessage_compute_checksum ?m\<rparr>)"
    unfolding demo_ping_def icmp_datagram_payload by (rule icmp_serialize_parse) (simp_all add: is_echo_def)
  from router_answers_ping [OF demo_router_inv ok head(1) _ parse, of 0] demo_router_own(2) head show ?thesis
    by (auto simp: ICMPMessage_default_def)
qed

lemma serialize_bad_version:
  "ih_ver (id_header d) \<noteq> 4 \<Longrightarrow> \<exists>msg. IPv4Datagram_serialize d = Inl (Runtime_error msg)"
  by (simp add: IPv4Datagram_serialize_def Let_def IPv4Header_serialize_def)

definition aged :: "nat \<Rightarrow> IPv4Datagram \<Rightarrow> IPv4Datagram" where
  "aged n d = d\<lparr>id_header := (id_header d)\<lparr>ih_ttl := ih_ttl (id_header d) - of_nat n\<rparr>\<rparr>"

lemma aged_fields [simp]:
  "ih_ver (id_header (aged n d)) = ih_ver (id_header d)" "ih_proto (id_header (aged n d)) = ih_proto (id_header d)"
  "ih_dst (id_header (aged n d)) = ih_dst (id_header d)" "ih_src (id_header (aged n d)) = ih_src (id_header d)"
  "ih_ttl (id_header (aged n d)) = ih_ttl (id_header d) - of_nat n"
  by (simp_all add: aged_def)

lemma aged_step: "(aged n d)\<lparr>id_header := (id_header (aged n d))\<lparr>ih_ttl := ih_ttl (id_header (aged n d)) - 1\<rparr>\<rparr> = aged (Suc n) d"
  by (simp add: aged_def algebra_simps)

lemma aged_ttl: "n \<le> unat (ih_ttl (id_header d)) \<Longrightarrow> unat (ih_ttl (id_header (aged n d))) = unat (ih_ttl (id_header d)) - n"
proof -
  assume n: "n \<le> unat (ih_ttl (id_header d))"
  then have "n < 256" using unat_lt8 [of "ih_ttl (id_header d)"] by linarith
  then have "unat (of_nat n :: u8) = n" by (simp add: unat_of_nat)
  with n show ?thesis by (simp add: unat_sub word_le_nat_alt)
qed

text \<open>What stands between a datagram and its next hop: a route whose interface has it resolved.\<close>

definition resolved_route :: "IPv4Datagram \<Rightarrow> Router \<Rightarrow> bool" where
  "resolved_route d r \<longleftrightarrow>
     (case RoutingTrie_longest_prefix_match (ih_dst (id_header d)) (ro_route_table r) of
        None \<Rightarrow> False
      | Some e \<Rightarrow>
          unat (re_interface_num e) < length (ro_interfaces r) \<and>
          (case Address_ipv4_numeric (next_hop_of e (ih_dst (id_header d))) of
             Inl _ \<Rightarrow> False
           | Inr ip \<Rightarrow> ni_arp_table (ro_interfaces r ! unat (re_interface_num e)) ip \<noteq> None))"

lemma resolved_route_front [simp]: "resolved_route d (set_front i x r) = resolved_route d r"
proof -
  have "ni_arp_table (ro_interfaces (set_front i x r) ! k) = ni_arp_table (ro_interfaces r ! k)" for k
    by (cases "i < length (ro_interfaces r)") (auto simp: set_front_def nth_list_update list_update_beyond)
  then show ?thesis by (simp add: resolved_route_def set_front_def split: option.split sum.split)
qed

lemma set_front_same: "ai_datagrams_out (ro_interfaces r ! i) = d # ds \<Longrightarrow> set_front i d r = r"
proof -
  assume q: "ai_datagrams_out (ro_interfaces r ! i) = d # ds"
  have same: "(ro_interfaces r ! i)\<lparr>ai_datagrams_out := d # ds\<rparr> = ro_interfaces r ! i" unfolding q [symmetric] by simp
  show ?thesis unfolding set_front_def q list.sel same list_update_id by simp
qed

lemma resolved_route_aged [simp]: "resolved_route (aged n d) r = resolved_route d r"
  unfolding resolved_route_def aged_fields ..

lemma bad_version_one:
  assumes "fits (ro_interfaces r)" and "ih_ver (id_header d) \<noteq> 4" and "ih_proto (id_header d) \<noteq> PROTO_ICMP"
    and "resolved_route d r" and "1 < ih_ttl (id_header d) \<or> ro_icmp_enabled r"
  shows "\<exists>msg. Router_route_one_datagram d r = Inl (Runtime_error msg)"
proof -
  obtain e ip entry where e: "RoutingTrie_longest_prefix_match (ih_dst (id_header d)) (ro_route_table r) = Some e"
    "unat (re_interface_num e) < length (ro_interfaces r)"
    "Address_ipv4_numeric (next_hop_of e (ih_dst (id_header d))) = Inr ip"
    "ni_arp_table (ro_interfaces r ! unat (re_interface_num e)) ip = Some entry"
    using assms(4) by (auto simp: resolved_route_def split: option.splits sum.splits)
  show ?thesis
  proof (cases "1 < ih_ttl (id_header d)")
    case True
    let ?d = "d\<lparr>id_header := (id_header d)\<lparr>ih_ttl := ih_ttl (id_header d) - 1\<rparr>\<rparr>"
    obtain msg where "IPv4Datagram_serialize ?d = Inl (Runtime_error msg)"
      using serialize_bad_version [of ?d] assms(2) by auto
    then have "Router_send_datagram (re_interface_num e) ?d (next_hop_of e (ih_dst (id_header d))) r = Inl (Runtime_error msg)"
      using Router_interface_at [OF assms(1) e(2)] e(3,4)
      by (simp add: Router_send_datagram_def NetworkInterface_send_datagram_def)
    then have "Router_forward e d r = Inl (Runtime_error msg)"
      using Router_interface_at [OF assms(1) e(2)] by (simp add: Router_forward_def Let_def next_hop_of_def split: option.splits)
    with True assms(3) e(1) show ?thesis
      by (simp add: Router_route_one_datagram_def Router_look_up_and_forward_def Let_def not_le [symmetric])
  next
    case False
    then have "ro_icmp_enabled r" "ih_ttl (id_header d) \<le> 1" using assms(5) by simp_all
    with assms(3) e(1) serialize_bad_version [OF assms(2)] show ?thesis
      by (auto simp: Router_route_one_datagram_def Router_look_up_and_forward_def Let_def Router_send_icmp_def)
  qed
qed

lemma route_run_throws:
  assumes "i < length (ro_interfaces r)" and "\<forall>j < i. ai_datagrams_out (ro_interfaces r ! j) = []"
    and "ai_datagrams_out (ro_interfaces r ! i) = d # ds" and "Router_route_one_datagram d r = Inl e"
  shows "Router_route_run r = (set_front i (datagram_left d r) r, Some e)"
  using assms route_run_first [OF assms(1,2)] by (simp add: Router_route_queue_run.simps)

lemma route_run_drops:
  assumes "i < length (ro_interfaces r)" and "\<forall>j < i. ai_datagrams_out (ro_interfaces r ! j) = []"
    and "ai_datagrams_out (ro_interfaces r ! i) = d # ds" and "Router_route_one_datagram d r = Inr r"
  shows "Router_route_run r = Router_route_run (pop_datagram i r)"
proof -
  have "Router_route_queue_run i r = Router_route_queue_run i (pop_datagram i r)"
    using assms by (subst Router_route_queue_run.simps) simp
  moreover have "i < length (ro_interfaces (pop_datagram i r))"
    "\<forall>j < i. ai_datagrams_out (ro_interfaces (pop_datagram i r) ! j) = []"
    using assms(1,2) by (simp_all add: pop_datagram_def)
  ultimately show ?thesis
    using route_run_first [OF assms(1,2)] route_run_first [of i "pop_datagram i r"] by (simp add: pop_datagram_def)
qed

text \<open>
  C40. One received datagram with a wrong version blocks \<^verbatim>\<open>route\<close>. It is the front of the first queue that
  is not empty, it is not ICMP, and it has a time to live above 1 and a route with a resolved next hop
  (\<^verbatim>\<open>IPv4Datagram::parse\<close> accepts such a datagram). A call of \<^verbatim>\<open>route\<close> throws and leaves everything as it is,
  the datagram at the front and all that wait behind it included, except that its time to live is one less;
  so does every later call until the time to live is 1. From then on, every call throws and changes
  nothing when ICMP reports are enabled; when they are not, the next call drops the datagram and goes on
  with the rest.
\<close>
theorem router_bad_version_blocks:
  assumes "fits (ro_interfaces r)" and "i < length (ro_interfaces r)"
    and "\<forall>j < i. ai_datagrams_out (ro_interfaces r ! j) = []" and "ai_datagrams_out (ro_interfaces r ! i) = d # ds"
    and "ih_ver (id_header d) \<noteq> 4" and "ih_proto (id_header d) \<noteq> PROTO_ICMP" and "1 < ih_ttl (id_header d)"
    and "resolved_route d r" and "\<And>n. r_after n = set_front i (aged n d) r"
  shows "r_after 0 = r \<and>
    (\<forall>n. Suc n < unat (ih_ttl (id_header d)) \<longrightarrow>
       (\<exists>msg. Router_route_run (r_after n) = (r_after (Suc n), Some (Runtime_error msg)))) \<and>
    (let stuck = r_after (unat (ih_ttl (id_header d)) - 1) in
     if ro_icmp_enabled r then \<exists>msg. Router_route_run stuck = (stuck, Some (Runtime_error msg))
     else Router_route_run stuck = Router_route_run (pop_datagram i r))"
proof -
  have r: "length (ro_interfaces (r_after n)) = length (ro_interfaces r)"
    "\<forall>j < i. ai_datagrams_out (ro_interfaces (r_after n) ! j) = []"
    "ai_datagrams_out (ro_interfaces (r_after n) ! i) = aged n d # ds"
    "ro_icmp_enabled (r_after n) = ro_icmp_enabled r" "ro_route_table (r_after n) = ro_route_table r"
    "set_front i x (r_after n) = set_front i x r" "pop_datagram i (r_after n) = pop_datagram i r"
    "resolved_route (aged n d) (r_after n)" for n x
    using assms(2-4,8) by (simp_all add: assms(9)) (simp_all add: set_front_def pop_datagram_def)
  have i: "i < length (ro_interfaces (r_after n))" for n using r(1) assms(2) by simp
  obtain e where e: "RoutingTrie_longest_prefix_match (ih_dst (id_header d)) (ro_route_table r) = Some e"
    using assms(8) by (auto simp: resolved_route_def split: option.splits)
  have throws: "\<exists>msg. Router_route_run (r_after n) =
      (set_front i (datagram_left (aged n d) (r_after n)) r, Some (Runtime_error msg))"
    if t: "1 < ih_ttl (id_header (aged n d)) \<or> ro_icmp_enabled r" for n
  proof -
    obtain msg where "Router_route_one_datagram (aged n d) (r_after n) = Inl (Runtime_error msg)"
      using bad_version_one [OF _ _ _ r(8), of n] assms(1,5,6) t r(1,4) by auto
    from route_run_throws [OF i r(2,3) this] show ?thesis by (simp add: r(6))
  qed
  have left: "datagram_left (aged n d) (r_after n) = (if ih_ttl (id_header (aged n d)) \<le> 1 then aged n d else aged (Suc n) d)" for n
    using assms(6) e aged_step [of n d] by (simp add: datagram_left_def r(5))
  define last where "last = unat (ih_ttl (id_header d)) - 1"
  have ttl: "ih_ttl (id_header (aged last d)) \<le> 1" "Suc n < unat (ih_ttl (id_header d)) \<Longrightarrow> 1 < ih_ttl (id_header (aged n d))" for n
    using aged_ttl [of last d] aged_ttl [of n d] assms(7)
    by (simp_all add: last_def word_le_nat_alt word_less_nat_alt del: aged_fields)
  have "r_after 0 = r" using set_front_same [OF assms(4)] by (simp add: assms(9) aged_def)
  moreover have "\<exists>msg. Router_route_run (r_after n) = (r_after (Suc n), Some (Runtime_error msg))"
    if "Suc n < unat (ih_ttl (id_header d))" for n
    using throws [of n] left [of n] ttl(2) [OF that] by (auto simp: assms(9) [of "Suc n"] not_le [symmetric] simp del: aged_fields)
  moreover have "\<exists>msg. Router_route_run (r_after last) = (r_after last, Some (Runtime_error msg))" if "ro_icmp_enabled r"
    using throws [of last] left [of last] ttl(1) that assms(9) [of last] by (simp del: aged_fields)
  moreover have "Router_route_run (r_after last) = Router_route_run (pop_datagram i r)" if "\<not> ro_icmp_enabled r"
  proof -
    have "Router_route_one_datagram (aged last d) (r_after last) = Inr (r_after last)"
      using ttl(1) assms(6) e that r(4,5)
      by (simp add: Router_route_one_datagram_def Router_look_up_and_forward_def Let_def del: aged_fields(5))
    from route_run_drops [OF i r(2,3) this] show ?thesis by (simp add: r(7))
  qed
  ultimately show ?thesis by (simp add: Let_def last_def)
qed


definition bad_version_wire :: "byte list" where
  "bad_version_wire = [0x65, 0, 0, 21, 0, 0, 0, 0, 64, 6, 0, 0, 10, 0, 0, 1, 0xC0, 0xA8, 0, 2, 99]"

definition bad_version_datagram :: IPv4Datagram where
  "bad_version_datagram =
     \<lparr>id_header = \<lparr>ih_ver = 6, ih_hlen = 5, ih_tos = 0, ih_len = 21, ih_id = 0, ih_df = False, ih_mf = False,
        ih_offset = 0, ih_ttl = 64, ih_proto = 6, ih_cksum = 0, ih_src = 0x0A000001, ih_dst = 0xC0A80002\<rparr>,
      id_payload = [\<lparr>storage = Some bad_version_wire, starting_offset = 20\<rparr>]\<rparr>"

theorem router_bad_version_blocks_witness:
  "\<exists>r msg msg'. Router_receive 0
     \<lparr>ef_header = \<lparr>eh_dst = [2, 0, 0, 0, 0, 1], eh_src = [2, 0, 0, 0, 0, 3], eh_type = TYPE_IPv4\<rparr>,
      ef_payload = [Buffer_of_string bad_version_wire]\<rparr> demo_router = Inr r \<and>
     map ai_datagrams_out (ro_interfaces r) = [[bad_version_datagram], []] \<and>
     Router_route_run r = (set_front 0 (aged 1 bad_version_datagram) r, Some (Runtime_error msg)) \<and>
     Router_route_run (set_front 0 (aged 63 bad_version_datagram) r) =
       (set_front 0 (aged 63 bad_version_datagram) r, Some (Runtime_error msg'))"
proof -
  let ?a = "ro_interfaces demo_router ! 0" and ?d = bad_version_datagram
  define r where "r = demo_router\<lparr>ro_interfaces := (ro_interfaces demo_router)[0 := ?a\<lparr>ai_datagrams_out := [?d]\<rparr>]\<rparr>"
  have "IPv4Datagram_parse (Buffer_of_string bad_version_wire) IPv4Datagram_default = Inr (NoError, ?d)" by code_simp
  then have recv: "Router_receive 0
     \<lparr>ef_header = \<lparr>eh_dst = [2, 0, 0, 0, 0, 1], eh_src = [2, 0, 0, 0, 0, 3], eh_type = TYPE_IPv4\<rparr>,
      ef_payload = [Buffer_of_string bad_version_wire]\<rparr> demo_router = Inr r"
    by (simp add: Router_receive_def Router_interface_def AsyncNetworkInterface_recv_frame_def demo_side_def sz_def
        NetworkInterface_recv_frame_def BufferList_to_Buffer_def AsyncNetworkInterface_new_def NetworkInterface_new_def
        demo_router_def r_def)
  have r: "ro_interfaces r = [?a\<lparr>ai_datagrams_out := [?d]\<rparr>, ro_interfaces demo_router ! 1]"
    "ai_datagrams_out (ro_interfaces demo_router ! 1) = []" "ro_icmp_enabled r"
    by (simp_all add: r_def demo_router_def demo_side_def AsyncNetworkInterface_new_def)
  have "RoutingTrie_longest_prefix_match 0xC0A80002 (ro_route_table demo_router) = Some demo_route" by code_simp
  then have "RoutingTrie_longest_prefix_match (ih_dst (id_header ?d)) (ro_route_table r) = Some demo_route"
    by (simp add: r_def bad_version_datagram_def)
  moreover have "ni_arp_table (ro_interfaces r ! 1) 0xC0A80002 = Some \<lparr>ae_eth_addr = [2, 0, 0, 0, 0, 3], ae_ttl = 30000\<rparr>"
    by (simp add: r_def demo_router_def)
  ultimately have "resolved_route ?d r"
    using r(1) by (simp add: resolved_route_def demo_route_def next_hop_of_def bad_version_datagram_def)
  moreover have "ih_ver (id_header ?d) \<noteq> 4" "ih_proto (id_header ?d) \<noteq> PROTO_ICMP" "unat (ih_ttl (id_header ?d)) = 64"
    by (simp_all add: bad_version_datagram_def PROTO_ICMP_def)
  moreover from this(3) have "1 < ih_ttl (id_header ?d)" by (simp add: word_less_nat_alt)
  ultimately have "(let r_after = \<lambda>n. set_front 0 (aged n ?d) r in r_after 0 = r \<and>
      (\<forall>n. Suc n < 64 \<longrightarrow> (\<exists>msg. Router_route_run (r_after n) = (r_after (Suc n), Some (Runtime_error msg)))) \<and>
      (\<exists>msg. Router_route_run (r_after 63) = (r_after 63, Some (Runtime_error msg))))"
    using r router_bad_version_blocks [of r 0 ?d "[]" "\<lambda>n. set_front 0 (aged n ?d) r"] by (simp add: Let_def)
  then obtain msg msg' where "Router_route_run r = (set_front 0 (aged 1 ?d) r, Some (Runtime_error msg))"
    "Router_route_run (set_front 0 (aged 63 ?d) r) = (set_front 0 (aged 63 ?d) r, Some (Runtime_error msg'))"
    unfolding Let_def by (metis One_nat_def numeral_less_iff one_less_numeral_iff semiring_norm(76))
  with recv r show ?thesis by auto
qed

end
