(* ===== verification/Adapters.thy ===== *)
theory Adapters
  imports NetworkInterfaces
begin

text \<open>
  The adapters between TCP segments and the datagrams of the layer below: \<^verbatim>\<open>FdAdapterBase\<close> and
  \<^verbatim>\<open>TCPOverUDPSocketAdapter\<close> (\<^verbatim>\<open>fd_adapter.*\<close>), \<^verbatim>\<open>TCPOverIPv4Adapter\<close> (\<^verbatim>\<open>tcp_over_ip.*\<close>), the adapters for
  a TUN and for a TAP device (\<^verbatim>\<open>tuntap_adapter.*\<close>) and \<^verbatim>\<open>LossyFdAdapter\<close>. What a device delivers is an
  argument of a read, and what an operation gives to the device is part of its result. A derived
  class extends the record of its base class. A write also sets the port numbers in the caller's
  segment, which the callers discard right after; the result leaves that out.
\<close>

section \<open>FdAdapterConfig and FdAdapterBase\<close>

record FdAdapterConfig =
  fc_source :: Address
  fc_destination :: Address
  fc_loss_rate_dn :: u16
  fc_loss_rate_up :: u16

record FdAdapterBase =
  fa_cfg :: FdAdapterConfig
  fa_listen :: bool

definition FdAdapterConfig_default :: "libc \<Rightarrow> FdAdapterConfig res" where
  "FdAdapterConfig_default L =
     bind_res (Address_of_ip_port L ''0'' 0) (\<lambda>source.
     bind_res (Address_of_ip_port L ''0'' 0) (\<lambda>destination.
     Inr \<lparr>fc_source = source, fc_destination = destination, fc_loss_rate_dn = 0, fc_loss_rate_up = 0\<rparr>))"

definition FdAdapterBase_new :: "libc \<Rightarrow> FdAdapterBase res" where
  "FdAdapterBase_new L = bind_res (FdAdapterConfig_default L) (\<lambda>cfg. Inr \<lparr>fa_cfg = cfg, fa_listen = False\<rparr>)"

definition FdAdapterBase_set_listening :: "bool \<Rightarrow> 'a FdAdapterBase_scheme \<Rightarrow> 'a FdAdapterBase_scheme" where
  "FdAdapterBase_set_listening l a = a\<lparr>fa_listen := l\<rparr>"

definition FdAdapterBase_set_config :: "FdAdapterConfig \<Rightarrow> 'a FdAdapterBase_scheme \<Rightarrow> 'a FdAdapterBase_scheme" where
  "FdAdapterBase_set_config cfg a = a\<lparr>fa_cfg := cfg\<rparr>"

definition FdAdapterBase_tick :: "size_t \<Rightarrow> 'a FdAdapterBase_scheme \<Rightarrow> 'a FdAdapterBase_scheme" where
  "FdAdapterBase_tick ms a = a"

section \<open>TCPOverIPv4Adapter\<close>

definition inet_ntoa :: "u32 \<Rightarrow> string" where
  "inet_ntoa ip =
     (let octet = (\<lambda>k. to_string (unat (drop_bit k ip AND 0xff))) in
      octet 24 @ ''.'' @ octet 16 @ ''.'' @ octet 8 @ ''.'' @ octet 0)"

definition adapter_accept ::
    "libc \<Rightarrow> IPv4Header \<Rightarrow> TCPSegment \<Rightarrow> 'a FdAdapterBase_scheme \<Rightarrow> ('a FdAdapterBase_scheme \<times> bool) res" where
  "adapter_accept L h tcp_seg a =
     (if fa_listen a then
        if th_syn (ts_header tcp_seg) \<and> \<not> th_rst (ts_header tcp_seg) then
          bind_res (Address_port L (fc_source (fa_cfg a))) (\<lambda>port.
          bind_res (Address_of_ip_port L (inet_ntoa (ih_dst h)) port) (\<lambda>source.
          bind_res (Address_of_ip_port L (inet_ntoa (ih_src h)) (th_sport (ts_header tcp_seg))) (\<lambda>destination.
          Inr (a\<lparr>fa_cfg := (fa_cfg a)\<lparr>fc_source := source, fc_destination := destination\<rparr>, fa_listen := False\<rparr>,
               True))))
        else Inr (a, False)
      else Inr (a, True))"

definition TCPOverIPv4Adapter_unwrap_tcp_in_ip ::
    "libc \<Rightarrow> IPv4Datagram \<Rightarrow> 'a FdAdapterBase_scheme \<Rightarrow> ('a FdAdapterBase_scheme \<times> TCPSegment option) res" where
  "TCPOverIPv4Adapter_unwrap_tcp_in_ip L ip_dgram a =
     (let h = id_header ip_dgram in
      bind_res
        (if \<not> fa_listen a
         then bind_res (Address_ipv4_numeric (fc_source (fa_cfg a))) (\<lambda>ip. Inr (ih_dst h \<noteq> ip)) else Inr False)
        (\<lambda>not_for_us.
      if not_for_us then Inr (a, None) else
      bind_res
        (if \<not> fa_listen a
         then bind_res (Address_ipv4_numeric (fc_destination (fa_cfg a))) (\<lambda>ip. Inr (ih_src h \<noteq> ip)) else Inr False)
        (\<lambda>not_from_peer.
      if not_from_peer then Inr (a, None) else
      if ih_proto h \<noteq> PROTO_TCP then Inr (a, None) else
      bind_res (BufferList_to_Buffer (id_payload ip_dgram)) (\<lambda>payload.
      bind_res (TCPSegment_parse payload (IPv4Header_pseudo_cksum h) TCPSegment_default) (\<lambda>(result, tcp_seg).
      if result \<noteq> NoError then Inr (a, None) else
      bind_res (Address_port L (fc_source (fa_cfg a))) (\<lambda>port.
      if th_dport (ts_header tcp_seg) \<noteq> port then Inr (a, None) else
      bind_res (adapter_accept L h tcp_seg a) (\<lambda>(a, accepted).
      if \<not> accepted then Inr (a, None) else
      bind_res (Address_port L (fc_destination (fa_cfg a))) (\<lambda>peer_port.
      if th_sport (ts_header tcp_seg) \<noteq> peer_port then Inr (a, None) else
      Inr (a, Some tcp_seg)))))))))"

definition TCPOverIPv4Adapter_wrap_tcp_in_ip ::
    "libc \<Rightarrow> TCPSegment \<Rightarrow> 'a FdAdapterBase_scheme \<Rightarrow> IPv4Datagram res" where
  "TCPOverIPv4Adapter_wrap_tcp_in_ip L seg a =
     bind_res (Address_port L (fc_source (fa_cfg a))) (\<lambda>sport.
     bind_res (Address_port L (fc_destination (fa_cfg a))) (\<lambda>dport.
     let seg = seg\<lparr>ts_header := (ts_header seg)\<lparr>th_sport := sport, th_dport := dport\<rparr>\<rparr> in
     bind_res (Address_ipv4_numeric (fc_source (fa_cfg a))) (\<lambda>src.
     bind_res (Address_ipv4_numeric (fc_destination (fa_cfg a))) (\<lambda>dst.
     let h = id_header IPv4Datagram_default;
         h = h\<lparr>ih_src := src, ih_dst := dst,
           ih_len := ucast (ucast (ih_hlen h) * 4 + ucast (th_doff (ts_header seg)) * 4 +
             sz (Buffer_str (ts_payload seg)) :: size_t)\<rparr>
     in
     bind_res (TCPSegment_serialize (IPv4Header_pseudo_cksum h) seg) (\<lambda>payload.
     Inr \<lparr>id_header = h, id_payload = payload\<rparr>)))))"

section \<open>The adapters for a TUN and for a TAP device\<close>

definition TCPOverIPv4OverTunFdAdapter_read ::
    "libc \<Rightarrow> byte list \<Rightarrow> FdAdapterBase \<Rightarrow> (FdAdapterBase \<times> TCPSegment option) res" where
  "TCPOverIPv4OverTunFdAdapter_read L received a =
     bind_res (IPv4Datagram_parse (Buffer_of_string received) IPv4Datagram_default) (\<lambda>(result, ip_dgram).
     if result \<noteq> NoError then Inr (a, None) else TCPOverIPv4Adapter_unwrap_tcp_in_ip L ip_dgram a)"

definition TCPOverIPv4OverTunFdAdapter_write :: "libc \<Rightarrow> TCPSegment \<Rightarrow> FdAdapterBase \<Rightarrow> BufferList res" where
  "TCPOverIPv4OverTunFdAdapter_write L seg a =
     bind_res (TCPOverIPv4Adapter_wrap_tcp_in_ip L seg a) IPv4Datagram_serialize"

record TCPOverIPv4OverEthernetAdapter = FdAdapterBase +
  ea_interface :: NetworkInterface
  ea_next_hop :: Address

definition TCPOverIPv4OverEthernetAdapter_new ::
    "libc \<Rightarrow> EthernetAddress \<Rightarrow> Address \<Rightarrow> Address \<Rightarrow> (TCPOverIPv4OverEthernetAdapter \<times> BufferList list) res" where
  "TCPOverIPv4OverEthernetAdapter_new L eth_address ip_address next_hop =
     bind_res (FdAdapterBase_new L) (\<lambda>base.
     Inr (\<lparr>fa_cfg = fa_cfg base, fa_listen = fa_listen base,
           ea_interface = NetworkInterface_new eth_address ip_address, ea_next_hop = next_hop\<rparr>,
          [EthernetFrame_serialize EthernetFrame_default]))"

definition TCPOverIPv4OverEthernetAdapter_send_pending ::
    "TCPOverIPv4OverEthernetAdapter \<Rightarrow> TCPOverIPv4OverEthernetAdapter \<times> BufferList list" where
  "TCPOverIPv4OverEthernetAdapter_send_pending a =
     (a\<lparr>ea_interface := (ea_interface a)\<lparr>ni_frames_out := []\<rparr>\<rparr>,
      map EthernetFrame_serialize (ni_frames_out (ea_interface a)))"

definition TCPOverIPv4OverEthernetAdapter_read ::
    "libc \<Rightarrow> byte list \<Rightarrow> TCPOverIPv4OverEthernetAdapter \<Rightarrow>
     (TCPOverIPv4OverEthernetAdapter \<times> BufferList list \<times> TCPSegment option) res" where
  "TCPOverIPv4OverEthernetAdapter_read L received a =
     bind_res (EthernetFrame_parse (Buffer_of_string received) EthernetFrame_default) (\<lambda>(result, frame).
     if result \<noteq> NoError then Inr (a, [], None) else
     bind_res (NetworkInterface_recv_frame frame (ea_interface a)) (\<lambda>(n, ip_dgram).
     let (a, written) = TCPOverIPv4OverEthernetAdapter_send_pending (a\<lparr>ea_interface := n\<rparr>) in
     case ip_dgram of
       Some d \<Rightarrow> bind_res (TCPOverIPv4Adapter_unwrap_tcp_in_ip L d a) (\<lambda>(a, seg). Inr (a, written, seg))
     | None \<Rightarrow> Inr (a, written, None)))"

definition TCPOverIPv4OverEthernetAdapter_tick ::
    "size_t \<Rightarrow> TCPOverIPv4OverEthernetAdapter \<Rightarrow> TCPOverIPv4OverEthernetAdapter \<times> BufferList list" where
  "TCPOverIPv4OverEthernetAdapter_tick ms a =
     TCPOverIPv4OverEthernetAdapter_send_pending (a\<lparr>ea_interface := NetworkInterface_tick ms (ea_interface a)\<rparr>)"

definition TCPOverIPv4OverEthernetAdapter_write ::
    "libc \<Rightarrow> TCPSegment \<Rightarrow> TCPOverIPv4OverEthernetAdapter \<Rightarrow>
     (TCPOverIPv4OverEthernetAdapter \<times> BufferList list) res" where
  "TCPOverIPv4OverEthernetAdapter_write L seg a =
     bind_res (TCPOverIPv4Adapter_wrap_tcp_in_ip L seg a) (\<lambda>d.
     bind_res (NetworkInterface_send_datagram d (ea_next_hop a) (ea_interface a)) (\<lambda>n.
     Inr (TCPOverIPv4OverEthernetAdapter_send_pending (a\<lparr>ea_interface := n\<rparr>))))"

section \<open>TCPOverUDPSocketAdapter\<close>

definition TCPOverUDPSocketAdapter_read ::
    "Address \<times> byte list \<Rightarrow> FdAdapterBase \<Rightarrow> (FdAdapterBase \<times> TCPSegment option) res" where
  "TCPOverUDPSocketAdapter_read datagram a =
     (let (source_address, payload) = datagram in
      if \<not> fa_listen a \<and> \<not> Address_eq source_address (fc_destination (fa_cfg a)) then Inr (a, None) else
      bind_res (TCPSegment_parse (Buffer_of_string payload) 0 TCPSegment_default) (\<lambda>(result, seg).
      if result \<noteq> NoError then Inr (a, None) else
      if fa_listen a then
        if th_syn (ts_header seg) \<and> \<not> th_rst (ts_header seg)
        then Inr (a\<lparr>fa_cfg := (fa_cfg a)\<lparr>fc_destination := source_address\<rparr>, fa_listen := False\<rparr>, Some seg)
        else Inr (a, None)
      else Inr (a, Some seg)))"

definition TCPOverUDPSocketAdapter_write :: "libc \<Rightarrow> TCPSegment \<Rightarrow> FdAdapterBase \<Rightarrow> (Address \<times> BufferList) res" where
  "TCPOverUDPSocketAdapter_write L seg a =
     bind_res (Address_port L (fc_source (fa_cfg a))) (\<lambda>sport.
     bind_res (Address_port L (fc_destination (fa_cfg a))) (\<lambda>dport.
     let seg = seg\<lparr>ts_header := (ts_header seg)\<lparr>th_sport := sport, th_dport := dport\<rparr>\<rparr> in
     bind_res (TCPSegment_serialize 0 seg) (\<lambda>payload. Inr (fc_destination (fa_cfg a), payload))))"

section \<open>LossyFdAdapter\<close>

record ('g, 'a) LossyFdAdapter =
  la_rand :: 'g
  la_adapter :: 'a

definition LossyFdAdapter_should_drop ::
    "('g \<Rightarrow> u32 \<times> 'g) \<Rightarrow> ('a \<Rightarrow> FdAdapterConfig) \<Rightarrow> bool \<Rightarrow> ('g, 'a) LossyFdAdapter \<Rightarrow> ('g, 'a) LossyFdAdapter \<times> bool" where
  "LossyFdAdapter_should_drop rand config uplink l =
     (let cfg = config (la_adapter l);
          loss = (if uplink then fc_loss_rate_up cfg else fc_loss_rate_dn cfg)
      in
      if loss \<noteq> 0 then let (r, g) = rand (la_rand l) in (l\<lparr>la_rand := g\<rparr>, (ucast r :: u16) < loss)
      else (l, False))"

definition LossyFdAdapter_read ::
    "('g \<Rightarrow> u32 \<times> 'g) \<Rightarrow> ('a \<Rightarrow> FdAdapterConfig) \<Rightarrow> ('a \<Rightarrow> ('a \<times> TCPSegment option) res) \<Rightarrow>
     ('g, 'a) LossyFdAdapter \<Rightarrow> (('g, 'a) LossyFdAdapter \<times> TCPSegment option) res" where
  "LossyFdAdapter_read rand config read l =
     bind_res (read (la_adapter l)) (\<lambda>(a, ret).
     let (l, drop) = LossyFdAdapter_should_drop rand config False (l\<lparr>la_adapter := a\<rparr>) in
     Inr (l, if drop then None else ret))"

definition LossyFdAdapter_write ::
    "('g \<Rightarrow> u32 \<times> 'g) \<Rightarrow> ('a \<Rightarrow> FdAdapterConfig) \<Rightarrow> ('a \<Rightarrow> ('a \<times> 'out list) res) \<Rightarrow>
     ('g, 'a) LossyFdAdapter \<Rightarrow> (('g, 'a) LossyFdAdapter \<times> 'out list) res" where
  "LossyFdAdapter_write rand config write l =
     (let (l, drop) = LossyFdAdapter_should_drop rand config True l in
      if drop then Inr (l, [])
      else bind_res (write (la_adapter l)) (\<lambda>(a, out). Inr (l\<lparr>la_adapter := a\<rparr>, out)))"

section \<open>Addresses with a port\<close>

definition ip_port :: "u32 \<Rightarrow> u16 \<Rightarrow> Address" where
  "ip_port ip port =
     \<lparr>ad_size = 16, ad_storage = [2, 0] @ NetUnparser_u16 [] port @ NetUnparser_u32 [] ip @ replicate 120 0\<rparr>"

text \<open>
  What the adapters rely on of the resolver, for one address and port: with the flags for numeric
  names, the first result of \<^verbatim>\<open>getaddrinfo\<close> for the dotted quad and the decimal port is the IPv4 socket
  address, and
  \<^verbatim>\<open>getnameinfo\<close> turns it back.
\<close>

definition libc_numeric :: "libc \<Rightarrow> u32 \<Rightarrow> u16 \<Rightarrow> bool" where
  "libc_numeric L ip port \<longleftrightarrow>
     first_result (lc_getaddrinfo L (inet_ntoa ip) (to_string (unat port)) (make_hints AI_NUMERIC INET))
       (take 16 (ad_storage (ip_port ip port)), 16) \<and>
     lc_getnameinfo L (ad_storage (ip_port ip port)) 16 = Inr (inet_ntoa ip, to_string (unat port))"

lemma ip_port_numeric [simp]: "Address_ipv4_numeric (ip_port ip port) = Inr ip"
  by (simp add: Address_ipv4_numeric_def ip_port_def AF_INET_def sockaddr_in_size_def be_fold_u32)

lemma ip_port_port: "libc_numeric L ip port \<Longrightarrow> Address_port L (ip_port ip port) = Inr port"
  using stoi_to_string [of "unat port"] less_trans [OF unat_lt16 [of port], of "2 ^ 31"]
  by (simp add: libc_numeric_def Address_port_def Address_ip_port_def ip_port_def del: unat_lt16)

lemma ip_port_resolve:
  assumes "libc_numeric L ip port"
  shows "Address_of_ip_port L (inet_ntoa ip) port = Inr (ip_port ip port)"
proof -
  have "Address_of_sockaddr (take 16 (ad_storage (ip_port ip port))) 16 = Inr (ip_port ip port)"
    by (simp add: Address_of_sockaddr_def ip_port_def sockaddr_storage_size_def replicate_add [symmetric])
  moreover obtain rest where "lc_getaddrinfo L (inet_ntoa ip) (to_string (unat port)) (make_hints AI_NUMERIC INET) =
      Inr ((take 16 (ad_storage (ip_port ip port)), 16) # rest)"
    using assms unfolding libc_numeric_def by (blast elim: first_resultE)
  ultimately show ?thesis by (simp add: Address_of_ip_port_def Address_resolve_def)
qed

section \<open>Wrapping and unwrapping\<close>

definition segment_ok :: "TCPSegment \<Rightarrow> bool" where
  "segment_ok seg \<longleftrightarrow>
     5 \<le> unat (th_doff (ts_header seg)) \<and> unat (th_doff (ts_header seg)) < 16 \<and>
     20 + 4 * unat (th_doff (ts_header seg)) + length (Buffer_str (ts_payload seg)) < 2 ^ 16"

definition with_ports :: "u16 \<Rightarrow> u16 \<Rightarrow> TCPSegment \<Rightarrow> TCPSegment" where
  "with_ports sport dport seg = seg\<lparr>ts_header := (ts_header seg)\<lparr>th_sport := sport, th_dport := dport\<rparr>\<rparr>"

definition carries_segment :: "IPv4Datagram \<Rightarrow> u32 \<Rightarrow> u32 \<Rightarrow> TCPSegment \<Rightarrow> bool" where
  "carries_segment d src dst seg \<longleftrightarrow>
     ih_src (id_header d) = src \<and> ih_dst (id_header d) = dst \<and> ih_proto (id_header d) = PROTO_TCP \<and>
     (\<exists>c. \<forall>b old. Buffer_wf b \<longrightarrow> Buffer_str b = BufferList_concatenate (id_payload d) \<longrightarrow>
        (\<exists>seg'. TCPSegment_parse b (IPv4Header_pseudo_cksum (id_header d)) old = Inr (NoError, seg') \<and>
           ts_header seg' = (ts_header seg)\<lparr>th_cksum := c\<rparr> \<and>
           Buffer_str (ts_payload seg') = Buffer_str (ts_payload seg)))"

lemma pseudo_cksum_cksum [simp]: "IPv4Header_pseudo_cksum (h\<lparr>ih_cksum := c\<rparr>) = IPv4Header_pseudo_cksum h"
  by (simp add: IPv4Header_pseudo_cksum_def IPv4Header_payload_length_def)

lemma wrap_ok:
  assumes seg: "segment_ok seg" and L: "libc_numeric L src sport" "libc_numeric L dst dport"
    and cfg: "fc_source (fa_cfg a) = ip_port src sport" "fc_destination (fa_cfg a) = ip_port dst dport"
  shows "\<exists>d. TCPOverIPv4Adapter_wrap_tcp_in_ip L seg a = Inr d \<and> datagram_ok d \<and>
    carries_segment d src dst (with_ports sport dport seg)"
proof -
  let ?seg = "with_ports sport dport seg" and ?n = "length (Buffer_str (ts_payload seg))"
  let ?doff = "unat (th_doff (ts_header seg))"
  define len :: u16 where "len = ucast (ucast (5 :: u8) * 4 + ucast (th_doff (ts_header seg)) * 4 + sz (Buffer_str (ts_payload seg)) :: size_t)"
  define h where "h = (id_header IPv4Datagram_default)\<lparr>ih_src := src, ih_dst := dst, ih_len := len\<rparr>"
  have doff: "unat (ucast (th_doff (ts_header seg)) :: size_t) = ?doff" by (rule unat_ucast_up) simp
  have "unat (ucast (5 :: u8) * 4 + ucast (th_doff (ts_header seg)) * 4 + sz (Buffer_str (ts_payload seg)) :: size_t) =
      20 + 4 * ?doff + ?n"
    using seg doff by (simp add: segment_ok_def unat_word_ariths)
  then have len: "unat len = 20 + 4 * ?doff + ?n"
    using seg by (simp add: len_def unsigned_ucast_eq segment_ok_def take_bit_nat_def)
  have ports: "ts_header ?seg = (ts_header seg)\<lparr>th_sport := sport, th_dport := dport\<rparr>" "ts_payload ?seg = ts_payload seg"
    by (simp_all add: with_ports_def)
  obtain bl c where bl: "TCPSegment_serialize (IPv4Header_pseudo_cksum h) ?seg = Inr bl"
    "length (BufferList_concatenate bl) = 4 * unat (th_doff (ts_header ?seg)) + length (Buffer_str (ts_payload ?seg))"
    "\<And>b old. Buffer_wf b \<Longrightarrow> Buffer_str b = BufferList_concatenate bl \<Longrightarrow>
      \<exists>seg'. TCPSegment_parse b (IPv4Header_pseudo_cksum h) old = Inr (NoError, seg') \<and>
        ts_header seg' = (ts_header ?seg)\<lparr>th_cksum := c\<rparr> \<and> Buffer_str (ts_payload seg') = Buffer_str (ts_payload ?seg)"
    by (rule tcp_segment_wire [of ?seg "IPv4Header_pseudo_cksum h"])
      (use seg pseudo_cksum_bound [of h] in \<open>auto simp: segment_ok_def ports\<close>)
  have h: "ih_hlen h = 5" "ih_ver h = 4" "ih_offset h = 0" "ih_proto h = PROTO_TCP"
    by (simp_all add: h_def IPv4Datagram_default_def IPv4Header_default_def IPv4Header_LENGTH_def)
  have "TCPOverIPv4Adapter_wrap_tcp_in_ip L seg a = Inr \<lparr>id_header = h, id_payload = bl\<rparr>"
    using bl(1) L cfg
    by (simp add: TCPOverIPv4Adapter_wrap_tcp_in_ip_def ip_port_port Let_def with_ports_def h_def len_def
        IPv4Datagram_default_def IPv4Header_default_def IPv4Header_LENGTH_def)
  moreover have "datagram_ok \<lparr>id_header = h, id_payload = bl\<rparr>"
    using h bl(2) len ports by (simp add: datagram_ok_def h_def)
  moreover have "carries_segment \<lparr>id_header = h, id_payload = bl\<rparr> src dst ?seg"
    using bl(3) h(4) by (auto simp: carries_segment_def h_def)
  ultimately show ?thesis by blast
qed

lemma carries_received:
  assumes "carries_segment d src dst seg" and "id_header d' = (id_header d)\<lparr>ih_cksum := c\<rparr>"
    and "single_payload d' (BufferList_concatenate (id_payload d))"
  shows "\<exists>b seg' c'. BufferList_to_Buffer (id_payload d') = Inr b \<and>
    TCPSegment_parse b (IPv4Header_pseudo_cksum (id_header d')) TCPSegment_default = Inr (NoError, seg') \<and>
    ts_header seg' = (ts_header seg)\<lparr>th_cksum := c'\<rparr> \<and> Buffer_str (ts_payload seg') = Buffer_str (ts_payload seg) \<and>
    ih_src (id_header d') = src \<and> ih_dst (id_header d') = dst \<and> ih_proto (id_header d') = PROTO_TCP"
proof -
  obtain b where b: "id_payload d' = [b]" "Buffer_wf b" "Buffer_str b = BufferList_concatenate (id_payload d)"
    using assms(3) by (auto simp: single_payload_def)
  obtain seg' c' where "TCPSegment_parse b (IPv4Header_pseudo_cksum (id_header d)) TCPSegment_default = Inr (NoError, seg')"
    "ts_header seg' = (ts_header seg)\<lparr>th_cksum := c'\<rparr>" "Buffer_str (ts_payload seg') = Buffer_str (ts_payload seg)"
    using assms(1) b(2,3) unfolding carries_segment_def by blast
  then show ?thesis using assms(1,2) b(1) by (simp add: carries_segment_def BufferList_to_Buffer_def) blast
qed

definition delivered :: "TCPSegment \<Rightarrow> TCPSegment \<Rightarrow> bool" where
  "delivered seg seg' \<longleftrightarrow>
     (\<exists>c. ts_header seg' = (ts_header seg)\<lparr>th_cksum := c\<rparr>) \<and> Buffer_str (ts_payload seg') = Buffer_str (ts_payload seg)"

lemma unwrap_connected:
  assumes "carries_segment d src dst (with_ports sport dport seg)" "id_header d' = (id_header d)\<lparr>ih_cksum := c\<rparr>"
    "single_payload d' (BufferList_concatenate (id_payload d))"
    and "libc_numeric L src sport" "libc_numeric L dst dport" and "\<not> fa_listen a"
    and "fc_source (fa_cfg a) = ip_port dst dport" "fc_destination (fa_cfg a) = ip_port src sport"
  shows "\<exists>seg'. TCPOverIPv4Adapter_unwrap_tcp_in_ip L d' a = Inr (a, Some seg') \<and>
    delivered (with_ports sport dport seg) seg'"
proof -
  obtain b seg' c' where "BufferList_to_Buffer (id_payload d') = Inr b"
    "TCPSegment_parse b (IPv4Header_pseudo_cksum (id_header d')) TCPSegment_default = Inr (NoError, seg')"
    "ts_header seg' = (ts_header (with_ports sport dport seg))\<lparr>th_cksum := c'\<rparr>"
    "Buffer_str (ts_payload seg') = Buffer_str (ts_payload (with_ports sport dport seg))"
    "ih_src (id_header d') = src" "ih_dst (id_header d') = dst" "ih_proto (id_header d') = PROTO_TCP"
    using carries_received [OF assms(1-3)] by blast
  then show ?thesis
    using assms(4-8)
    by (auto simp: TCPOverIPv4Adapter_unwrap_tcp_in_ip_def adapter_accept_def ip_port_port delivered_def with_ports_def)
qed

lemma unwrap_listening:
  assumes "carries_segment d src dst (with_ports sport dport seg)" "id_header d' = (id_header d)\<lparr>ih_cksum := c\<rparr>"
    "single_payload d' (BufferList_concatenate (id_payload d))"
    and "libc_numeric L src sport" "libc_numeric L dst dport" and "fa_listen a"
    and "Address_port L (fc_source (fa_cfg a)) = Inr dport"
  shows "\<exists>seg'. delivered (with_ports sport dport seg) seg' \<and> TCPOverIPv4Adapter_unwrap_tcp_in_ip L d' a =
    Inr (if th_syn (ts_header seg) \<and> \<not> th_rst (ts_header seg)
         then (a\<lparr>fa_cfg := (fa_cfg a)\<lparr>fc_source := ip_port dst dport, fc_destination := ip_port src sport\<rparr>,
                 fa_listen := False\<rparr>, Some seg')
         else (a, None))"
proof -
  obtain b seg' c' where "BufferList_to_Buffer (id_payload d') = Inr b"
    "TCPSegment_parse b (IPv4Header_pseudo_cksum (id_header d')) TCPSegment_default = Inr (NoError, seg')"
    "ts_header seg' = (ts_header (with_ports sport dport seg))\<lparr>th_cksum := c'\<rparr>"
    "Buffer_str (ts_payload seg') = Buffer_str (ts_payload (with_ports sport dport seg))"
    "ih_src (id_header d') = src" "ih_dst (id_header d') = dst" "ih_proto (id_header d') = PROTO_TCP"
    using carries_received [OF assms(1-3)] by blast
  then show ?thesis
    using assms(4-7)
    by (intro exI [of _ seg'])
      (auto simp: TCPOverIPv4Adapter_unwrap_tcp_in_ip_def adapter_accept_def ip_port_port ip_port_resolve
        delivered_def with_ports_def)
qed

section \<open>Properties\<close>

lemma tun_wire:
  assumes "datagram_ok d"
  shows "\<exists>bl d' c. IPv4Datagram_serialize d = Inr bl \<and>
    IPv4Datagram_parse (Buffer_of_string (BufferList_concatenate bl)) IPv4Datagram_default = Inr (NoError, d') \<and>
    id_header d' = (id_header d)\<lparr>ih_cksum := c\<rparr> \<and> single_payload d' (BufferList_concatenate (id_payload d))"
proof -
  obtain bl where bl: "IPv4Datagram_serialize d = Inr bl" "BufferList_concatenate bl = datagram_wire d"
    using datagram_serialize_eq [OF assms] by blast
  have "Buffer_wf (Buffer_of_string (datagram_wire d))"
    using assms ip_suffix_length [of "id_header d"] unat_lt16 [of "ih_len (id_header d)"]
    by (auto simp: datagram_ok_def datagram_wire_def Let_def simp del: unat_lt16)
  from datagram_parse_buffer [OF assms this, of IPv4Datagram_default] bl show ?thesis
    by (auto simp: single_payload_def)
qed

text \<open>
  Two TUN adapters configured for each other carry segments. A segment written by one, with a
  legal data offset and short enough for a datagram, is read by the other as that segment: the same
  header, with the configured ports and a checksum filled in, and the same payload. The reading
  adapter is unchanged. The resolver is assumed to convert the two numeric addresses.
\<close>
theorem tun_adapters_deliver:
  assumes "segment_ok seg" and "libc_numeric L src sport" and "libc_numeric L dst dport"
    and "fc_source (fa_cfg a) = ip_port src sport" and "fc_destination (fa_cfg a) = ip_port dst dport"
    and "\<not> fa_listen b" and "fc_source (fa_cfg b) = ip_port dst dport" and "fc_destination (fa_cfg b) = ip_port src sport"
  shows "\<exists>bl seg'. TCPOverIPv4OverTunFdAdapter_write L seg a = Inr bl \<and>
    TCPOverIPv4OverTunFdAdapter_read L (BufferList_concatenate bl) b = Inr (b, Some seg') \<and>
    delivered (with_ports sport dport seg) seg'"
proof -
  obtain d where d: "TCPOverIPv4Adapter_wrap_tcp_in_ip L seg a = Inr d" "datagram_ok d"
    "carries_segment d src dst (with_ports sport dport seg)"
    using wrap_ok [OF assms(1-5)] by blast
  obtain bl d' c where w: "IPv4Datagram_serialize d = Inr bl"
    "IPv4Datagram_parse (Buffer_of_string (BufferList_concatenate bl)) IPv4Datagram_default = Inr (NoError, d')"
    "id_header d' = (id_header d)\<lparr>ih_cksum := c\<rparr>" "single_payload d' (BufferList_concatenate (id_payload d))"
    using tun_wire [OF d(2)] by blast
  from unwrap_connected [OF d(3) w(3,4) assms(2,3,6-8)] d(1) w(1,2) show ?thesis
    by (auto simp: TCPOverIPv4OverTunFdAdapter_write_def TCPOverIPv4OverTunFdAdapter_read_def)
qed

definition demo_libc :: libc where
  "demo_libc =
     \<lparr>lc_getaddrinfo = (\<lambda>node service hints.
        if node = inet_ntoa 0x0A000001 then Inr (replicate 3 (take 16 (ad_storage (ip_port 0x0A000001 40)), 16))
        else Inr (replicate 3 (take 16 (ad_storage (ip_port 0x0A000002 80)), 16))),
      lc_getnameinfo = (\<lambda>addr len.
        if addr = ad_storage (ip_port 0x0A000001 40) then Inr (inet_ntoa 0x0A000001, to_string 40)
        else Inr (inet_ntoa 0x0A000002, to_string 80))\<rparr>"

lemma demo_libc_numeric: "libc_numeric demo_libc 0x0A000001 40" "libc_numeric demo_libc 0x0A000002 80"
proof -
  have "inet_ntoa 0x0A000002 \<noteq> inet_ntoa 0x0A000001" by code_simp
  moreover have "ad_storage (ip_port 0x0A000002 80) \<noteq> ad_storage (ip_port 0x0A000001 40)" by code_simp
  ultimately show "libc_numeric demo_libc 0x0A000001 40" "libc_numeric demo_libc 0x0A000002 80"
    by (simp_all add: libc_numeric_def demo_libc_def first_result_def numeral_3_eq_3)
qed

definition demo_adapter :: "Address \<Rightarrow> Address \<Rightarrow> bool \<Rightarrow> FdAdapterBase" where
  "demo_adapter source destination listen =
     \<lparr>fa_cfg = \<lparr>fc_source = source, fc_destination = destination, fc_loss_rate_dn = 0, fc_loss_rate_up = 0\<rparr>,
      fa_listen = listen\<rparr>"

definition demo_segment :: TCPSegment where
  "demo_segment = \<lparr>ts_header = TCPHeader_default\<lparr>th_syn := True\<rparr>, ts_payload = Buffer_of_string [1, 2, 3]\<rparr>"

lemma demo_segment_ok: "segment_ok demo_segment"
  by (simp add: segment_ok_def demo_segment_def TCPHeader_default_def TCPHeader_LENGTH_def)

theorem tun_adapters_deliver_witness:
  "(let a = demo_adapter (ip_port 0x0A000001 40) (ip_port 0x0A000002 80) False;
        b = demo_adapter (ip_port 0x0A000002 80) (ip_port 0x0A000001 40) False
    in \<exists>bl seg'. TCPOverIPv4OverTunFdAdapter_write demo_libc demo_segment a = Inr bl \<and>
       TCPOverIPv4OverTunFdAdapter_read demo_libc (BufferList_concatenate bl) b = Inr (b, Some seg') \<and>
       Buffer_str (ts_payload seg') = [1, 2, 3] \<and> th_sport (ts_header seg') = 40 \<and> th_dport (ts_header seg') = 80)"
proof -
  let ?a = "demo_adapter (ip_port 0x0A000001 40) (ip_port 0x0A000002 80) False"
  let ?b = "demo_adapter (ip_port 0x0A000002 80) (ip_port 0x0A000001 40) False"
  have "\<exists>bl seg'. TCPOverIPv4OverTunFdAdapter_write demo_libc demo_segment ?a = Inr bl \<and>
      TCPOverIPv4OverTunFdAdapter_read demo_libc (BufferList_concatenate bl) ?b = Inr (?b, Some seg') \<and>
      delivered (with_ports 40 80 demo_segment) seg'"
    by (rule tun_adapters_deliver [OF demo_segment_ok demo_libc_numeric]) (simp_all add: demo_adapter_def)
  then show ?thesis unfolding Let_def by (auto simp: delivered_def with_ports_def demo_segment_def)
qed

text \<open>
  What a listening adapter makes of a segment that a peer's adapter wrote to its port: without SYN or with
  RST it is dropped, and on a SYN the adapter is configured for that peer.
\<close>
theorem listening_adapter_locks_on:
  assumes "segment_ok seg" and "libc_numeric L src sport" and "libc_numeric L dst dport"
    and "fc_source (fa_cfg a) = ip_port src sport" and "fc_destination (fa_cfg a) = ip_port dst dport"
    and "fa_listen b" and "Address_port L (fc_source (fa_cfg b)) = Inr dport"
  shows "\<exists>bl seg'. TCPOverIPv4OverTunFdAdapter_write L seg a = Inr bl \<and> delivered (with_ports sport dport seg) seg' \<and>
    TCPOverIPv4OverTunFdAdapter_read L (BufferList_concatenate bl) b =
      Inr (if th_syn (ts_header seg) \<and> \<not> th_rst (ts_header seg)
           then (b\<lparr>fa_cfg := (fa_cfg b)\<lparr>fc_source := ip_port dst dport, fc_destination := ip_port src sport\<rparr>,
                   fa_listen := False\<rparr>, Some seg')
           else (b, None))"
proof -
  obtain d where d: "TCPOverIPv4Adapter_wrap_tcp_in_ip L seg a = Inr d" "datagram_ok d"
    "carries_segment d src dst (with_ports sport dport seg)"
    using wrap_ok [OF assms(1-5)] by blast
  obtain bl d' c where w: "IPv4Datagram_serialize d = Inr bl"
    "IPv4Datagram_parse (Buffer_of_string (BufferList_concatenate bl)) IPv4Datagram_default = Inr (NoError, d')"
    "id_header d' = (id_header d)\<lparr>ih_cksum := c\<rparr>" "single_payload d' (BufferList_concatenate (id_payload d))"
    using tun_wire [OF d(2)] by blast
  from unwrap_listening [OF d(3) w(3,4) assms(2,3,6,7)] d(1) w(1,2) show ?thesis
    by (auto simp: TCPOverIPv4OverTunFdAdapter_write_def TCPOverIPv4OverTunFdAdapter_read_def)
qed

theorem listening_adapter_locks_on_witness:
  "(let a = demo_adapter (ip_port 0x0A000001 40) (ip_port 0x0A000002 80) False;
        b = demo_adapter (ip_port 0x0A000002 80) (ip_port 0 0) True
    in \<exists>bl seg'. TCPOverIPv4OverTunFdAdapter_write demo_libc demo_segment a = Inr bl \<and>
       TCPOverIPv4OverTunFdAdapter_read demo_libc (BufferList_concatenate bl) b =
         Inr (demo_adapter (ip_port 0x0A000002 80) (ip_port 0x0A000001 40) False, Some seg'))"
proof -
  let ?a = "demo_adapter (ip_port 0x0A000001 40) (ip_port 0x0A000002 80) False"
  let ?b = "demo_adapter (ip_port 0x0A000002 80) (ip_port 0 0) True"
  have syn: "th_syn (ts_header demo_segment) \<and> \<not> th_rst (ts_header demo_segment)"
    by (simp add: demo_segment_def TCPHeader_default_def)
  have c: "fc_source (fa_cfg ?a) = ip_port 0x0A000001 40" "fc_destination (fa_cfg ?a) = ip_port 0x0A000002 80"
    "fa_listen ?b" "Address_port demo_libc (fc_source (fa_cfg ?b)) = Inr 80"
    using ip_port_port [OF demo_libc_numeric(2)] by (simp_all add: demo_adapter_def)
  from listening_adapter_locks_on [OF demo_segment_ok demo_libc_numeric c] syn show ?thesis
    unfolding Let_def by (auto simp: demo_adapter_def)
qed

text \<open>
  The TCP segment that the bytes of a datagram carry, if they carry one: the datagram parses, it says that
  its payload is TCP, and the payload parses with a valid checksum.
\<close>

definition tcp_in :: "byte list \<Rightarrow> (IPv4Header \<times> TCPSegment) option" where
  "tcp_in received =
     (case IPv4Datagram_parse (Buffer_of_string received) IPv4Datagram_default of
        Inr (NoError, d) \<Rightarrow>
          if ih_proto (id_header d) = PROTO_TCP then
            (case bind_res (BufferList_to_Buffer (id_payload d)) (\<lambda>b.
                TCPSegment_parse b (IPv4Header_pseudo_cksum (id_header d)) TCPSegment_default) of
               Inr (NoError, seg) \<Rightarrow> Some (id_header d, seg)
             | _ \<Rightarrow> None)
          else None
      | _ \<Rightarrow> None)"

lemma read_cases:
  assumes "fits received"
  obtains "TCPOverIPv4OverTunFdAdapter_read L received a = Inr (a, None)" "tcp_in received = None"
  | d where "TCPOverIPv4OverTunFdAdapter_read L received a = TCPOverIPv4Adapter_unwrap_tcp_in_ip L d a"
      "Buffer_wf (hd (id_payload d))" "id_payload d = [hd (id_payload d)]"
      "tcp_in received = (if ih_proto (id_header d) = PROTO_TCP then
        (case TCPSegment_parse (hd (id_payload d)) (IPv4Header_pseudo_cksum (id_header d)) TCPSegment_default of
           Inr (NoError, seg) \<Rightarrow> Some (id_header d, seg) | _ \<Rightarrow> None) else None)"
proof -
  have wf: "Buffer_wf (Buffer_of_string received)" using assms by simp
  have at: "parser_at (NetParser_new (Buffer_of_string received)) received"
    using parser_at_new_buffer [OF wf] by simp
  obtain r h p where p: "IPv4Header_parse (id_header IPv4Datagram_default) (NetParser_new (Buffer_of_string received)) = Inr ((r, h), p)"
    "Buffer_wf (np_buffer p)"
    using ip_header_parse_short [OF at] ip_header_parse_long [OF at] at
    by (metis not_less parser_at_def)
  let ?d = "\<lparr>id_header = h, id_payload = [np_buffer p]\<rparr>"
  obtain v where v: "IPv4Datagram_parse (Buffer_of_string received) IPv4Datagram_default = Inr (v, ?d)"
    using p(1) by (cases "BufferList_size [np_buffer p] = ucast (IPv4Header_payload_length h)")
      (simp_all add: IPv4Datagram_parse_def Let_def BufferList_of_Buffer_def)
  show thesis
  proof (cases "v = NoError")
    case True
    with v that(2) [of ?d] p(2) show thesis
      by (simp add: TCPOverIPv4OverTunFdAdapter_read_def tcp_in_def BufferList_to_Buffer_def)
  next
    case False
    with v that(1) show thesis by (cases v) (simp_all add: TCPOverIPv4OverTunFdAdapter_read_def tcp_in_def)
  qed
qed

text \<open>
  C29. What the adapter lets through, on any bytes a device can deliver. While it listens, with a local port,
  it hands up exactly the segments for that port with SYN and without RST that arrive in a valid TCP
  datagram, whoever sends them; the first of these makes it stop listening and configures it for the two
  addresses and ports of that segment. Once configured, it hands up exactly the segments that come from
  the peer's address and port to its own address and port, and does not change. Everything else is
  dropped: bytes that do not parse, other protocols, wrong checksums, other ports and addresses.
\<close>
theorem tun_adapter_filters:
  assumes "fits received" and "fc_source (fa_cfg a) = ip_port my_ip my_port" and "libc_numeric L my_ip my_port"
    and "\<not> fa_listen a \<longrightarrow> fc_destination (fa_cfg a) = ip_port peer_ip peer_port \<and> libc_numeric L peer_ip peer_port"
    and "\<And>h seg. fa_listen a \<Longrightarrow> tcp_in received = Some (h, seg) \<Longrightarrow>
      libc_numeric L (ih_dst h) my_port \<and> libc_numeric L (ih_src h) (th_sport (ts_header seg))"
  shows "TCPOverIPv4OverTunFdAdapter_read L received a = Inr
    (case tcp_in received of
       None \<Rightarrow> (a, None)
     | Some (h, seg) \<Rightarrow>
         if th_dport (ts_header seg) \<noteq> my_port then (a, None)
         else if fa_listen a then
           if th_syn (ts_header seg) \<and> \<not> th_rst (ts_header seg)
           then (a\<lparr>fa_cfg := (fa_cfg a)\<lparr>fc_source := ip_port (ih_dst h) my_port,
                     fc_destination := ip_port (ih_src h) (th_sport (ts_header seg))\<rparr>, fa_listen := False\<rparr>, Some seg)
           else (a, None)
         else if ih_dst h = my_ip \<and> ih_src h = peer_ip \<and> th_sport (ts_header seg) = peer_port then (a, Some seg)
         else (a, None))"
proof (rule read_cases [OF assms(1), of L a])
  fix d
  assume r: "TCPOverIPv4OverTunFdAdapter_read L received a = TCPOverIPv4Adapter_unwrap_tcp_in_ip L d a"
    and wf: "Buffer_wf (hd (id_payload d))" and one: "id_payload d = [hd (id_payload d)]"
    and t: "tcp_in received = (if ih_proto (id_header d) = PROTO_TCP then
        (case TCPSegment_parse (hd (id_payload d)) (IPv4Header_pseudo_cksum (id_header d)) TCPSegment_default of
           Inr (NoError, seg) \<Rightarrow> Some (id_header d, seg) | _ \<Rightarrow> None) else None)"
  obtain v seg where v: "TCPSegment_parse (hd (id_payload d)) (IPv4Header_pseudo_cksum (id_header d)) TCPSegment_default = Inr (v, seg)"
    using tcp_parse_total [OF wf] by fastforce
  have b: "BufferList_to_Buffer (id_payload d) = Inr (hd (id_payload d))" by (subst one) (simp add: BufferList_to_Buffer_def)
  have "tcp_in received = (if ih_proto (id_header d) = PROTO_TCP \<and> v = NoError then Some (id_header d, seg) else None)"
    using t v by (cases v) simp_all
  then show ?thesis
    using r v b assms(2-4) assms(5) [of "id_header d" seg]
    by (cases "fa_listen a")
      (simp_all add: TCPOverIPv4Adapter_unwrap_tcp_in_ip_def adapter_accept_def ip_port_port ip_port_resolve Let_def
        cong: if_cong)
qed simp

definition demo_syn :: "byte list" where
  "demo_syn = [0x45, 0, 0, 40, 0, 0, 0, 0, 64, 6, 0x66, 0xCE, 10, 0, 0, 1, 10, 0, 0, 2,
     0, 40, 0, 80, 0, 0, 0, 7, 0, 0, 0, 0, 0x50, 2, 0, 1, 0x9B, 0x60, 0, 0]"

lemma demo_syn_in: "map_option (\<lambda>(h, seg). (ih_src h, ih_dst h, th_sport (ts_header seg), th_dport (ts_header seg),
    th_syn (ts_header seg), th_rst (ts_header seg))) (tcp_in demo_syn) = Some (0x0A000001, 0x0A000002, 40, 80, True, False)"
  by code_simp

theorem tun_adapter_filters_witness:
  "(let a = demo_adapter (ip_port 0x0A000002 80) (ip_port 0 0) True;
        b = demo_adapter (ip_port 0x0A000002 80) (ip_port 0x0A000001 40) False
    in \<exists>seg. TCPOverIPv4OverTunFdAdapter_read demo_libc demo_syn a = Inr (b, Some seg) \<and>
         TCPOverIPv4OverTunFdAdapter_read demo_libc demo_syn b = Inr (b, Some seg))"
proof -
  let ?a = "demo_adapter (ip_port 0x0A000002 80) (ip_port 0 0) True"
  let ?b = "demo_adapter (ip_port 0x0A000002 80) (ip_port 0x0A000001 40) False"
  obtain h seg where s: "tcp_in demo_syn = Some (h, seg)" "ih_src h = 0x0A000001" "ih_dst h = 0x0A000002"
    "th_sport (ts_header seg) = 40" "th_dport (ts_header seg) = 80" "th_syn (ts_header seg)" "\<not> th_rst (ts_header seg)"
    using demo_syn_in by auto
  have f: "fits demo_syn" by (simp add: demo_syn_def)
  have "TCPOverIPv4OverTunFdAdapter_read demo_libc demo_syn ?a = Inr (?b, Some seg)"
    by (subst tun_adapter_filters [OF f, where my_ip = "0x0A000002" and my_port = 80]) (use s demo_libc_numeric in \<open>auto simp: demo_adapter_def\<close>)
  moreover have "TCPOverIPv4OverTunFdAdapter_read demo_libc demo_syn ?b = Inr (?b, Some seg)"
    by (subst tun_adapter_filters [OF f, where my_ip = "0x0A000002" and my_port = 80 and peer_ip = "0x0A000001" and peer_port = 40])
      (use s demo_libc_numeric in \<open>auto simp: demo_adapter_def\<close>)
  ultimately show ?thesis unfolding Let_def by blast
qed

lemma send_pending_eq:
  "ni_frames_out (ea_interface a) = [f] \<Longrightarrow> TCPOverIPv4OverEthernetAdapter_send_pending a =
     (a\<lparr>ea_interface := (ea_interface a)\<lparr>ni_frames_out := []\<rparr>\<rparr>, [EthernetFrame_serialize f])"
  by (simp add: TCPOverIPv4OverEthernetAdapter_send_pending_def)

lemma ethernet_read_frame:
  assumes "EthernetFrame_parse (Buffer_of_string (on_wire f)) EthernetFrame_default = Inr (NoError, g)"
    and "NetworkInterface_recv_frame g (ea_interface a) = Inr (n, None)" and "ni_frames_out n = [f']"
  shows "TCPOverIPv4OverEthernetAdapter_read L (on_wire f) a =
    Inr (a\<lparr>ea_interface := n\<lparr>ni_frames_out := []\<rparr>\<rparr>, [EthernetFrame_serialize f'], None)"
  using assms by (simp add: TCPOverIPv4OverEthernetAdapter_read_def send_pending_eq Let_def)

text \<open>
  C9. The full stack delivers, from a cold start. Two Ethernet adapters on one link are configured
  for each other, and the next hop of the first is the second, whose Ethernet address it does not
  know yet. Writing a segment puts one frame on the link, an ARP request; reading it, the second
  adapter puts one frame on the link, the answer; reading that, the first sends the waiting datagram;
  and reading that, the second hands up the segment, with the configured ports. Every frame travels
  as bytes.
\<close>
theorem ethernet_adapters_deliver:
  assumes seg: "segment_ok seg" and L: "libc_numeric L src sport" "libc_numeric L dst dport"
    and a: "fc_source (fa_cfg a) = ip_port src sport" "fc_destination (fa_cfg a) = ip_port dst dport"
    and b: "\<not> fa_listen b" "fc_source (fa_cfg b) = ip_port dst dport" "fc_destination (fa_cfg b) = ip_port src sport"
    and x: "x = ea_interface a" "iface_inv x" "Address_ipv4_numeric (ni_ip_address x) = Inr ipx" "ni_frames_out x = []"
    and y: "y = ea_interface b" "iface_inv y" "Address_ipv4_numeric (ni_ip_address y) = Inr ipy" "ni_frames_out y = []"
    and fresh: "ea_next_hop a = ipv4_address ipy" "ni_arp_table x ipy = None"
      "ni_waiting_arp_response_ip_addr x ipy = None" "waiting_for y ipx = []"
  shows "\<exists>a1 f1 b1 f2 a2 f3 b2 seg'.
    TCPOverIPv4OverEthernetAdapter_write L seg a = Inr (a1, [f1]) \<and>
    TCPOverIPv4OverEthernetAdapter_read L (BufferList_concatenate f1) b = Inr (b1, [f2], None) \<and>
    TCPOverIPv4OverEthernetAdapter_read L (BufferList_concatenate f2) a1 = Inr (a2, [f3], None) \<and>
    TCPOverIPv4OverEthernetAdapter_read L (BufferList_concatenate f3) b1 = Inr (b2, [], Some seg') \<and>
    delivered (with_ports sport dport seg) seg'"
proof -
  obtain d where d: "TCPOverIPv4Adapter_wrap_tcp_in_ip L seg a = Inr d" "datagram_ok d"
    "carries_segment d src dst (with_ports sport dport seg)"
    using wrap_ok [OF seg L a] by blast
  obtain x1 f1 g1 y1 f2 g2 x2 f3 g3 y2 d' c where
    1: "NetworkInterface_send_datagram d (ipv4_address ipy) x = Inr x1" "ni_frames_out x1 = [f1]" and
    2: "EthernetFrame_parse (Buffer_of_string (on_wire f1)) EthernetFrame_default = Inr (NoError, g1)"
      "NetworkInterface_recv_frame g1 y = Inr (y1, None)" "ni_frames_out y1 = [f2]" and
    3: "EthernetFrame_parse (Buffer_of_string (on_wire f2)) EthernetFrame_default = Inr (NoError, g2)"
      "NetworkInterface_recv_frame g2 (x1\<lparr>ni_frames_out := []\<rparr>) = Inr (x2, None)" "ni_frames_out x2 = [f3]" and
    4: "EthernetFrame_parse (Buffer_of_string (on_wire f3)) EthernetFrame_default = Inr (NoError, g3)"
      "NetworkInterface_recv_frame g3 (y1\<lparr>ni_frames_out := []\<rparr>) = Inr (y2, Some d')" "ni_frames_out y2 = []" and
    d': "id_header d' = (id_header d)\<lparr>ih_cksum := c\<rparr>" "single_payload d' (BufferList_concatenate (id_payload d))"
    using arp_exchange [OF x(2-4) y(2-4) fresh(2-4) d(2)] by blast
  let ?a1 = "a\<lparr>ea_interface := x1\<lparr>ni_frames_out := []\<rparr>\<rparr>" and ?b1 = "b\<lparr>ea_interface := y1\<lparr>ni_frames_out := []\<rparr>\<rparr>"
  let ?b2 = "b\<lparr>ea_interface := y2\<lparr>ni_frames_out := []\<rparr>\<rparr>"
  have "TCPOverIPv4OverEthernetAdapter_write L seg a = Inr (?a1, [EthernetFrame_serialize f1])"
    using d(1) 1 fresh(1) x(1) by (simp add: TCPOverIPv4OverEthernetAdapter_write_def send_pending_eq)
  moreover have "TCPOverIPv4OverEthernetAdapter_read L (on_wire f1) b = Inr (?b1, [EthernetFrame_serialize f2], None)"
    using ethernet_read_frame [OF 2(1) _ 2(3), of b] 2(2) y(1) by simp
  moreover have "TCPOverIPv4OverEthernetAdapter_read L (on_wire f2) ?a1 =
      Inr (?a1\<lparr>ea_interface := x2\<lparr>ni_frames_out := []\<rparr>\<rparr>, [EthernetFrame_serialize f3], None)"
    using ethernet_read_frame [OF 3(1) _ 3(3), of ?a1] 3(2) by simp
  moreover have "\<exists>seg'. TCPOverIPv4Adapter_unwrap_tcp_in_ip L d' ?b2 = Inr (?b2, Some seg') \<and>
      delivered (with_ports sport dport seg) seg'"
    by (rule unwrap_connected [OF d(3) d' L]) (simp_all add: b)
  then obtain seg' where "TCPOverIPv4OverEthernetAdapter_read L (on_wire f3) ?b1 = Inr (?b2, [], Some seg')"
    "delivered (with_ports sport dport seg) seg'"
    using 4 by (auto simp: TCPOverIPv4OverEthernetAdapter_read_def TCPOverIPv4OverEthernetAdapter_send_pending_def)
  ultimately show ?thesis unfolding on_wire_def by blast
qed

definition demo_ethernet_adapter :: "EthernetAddress \<Rightarrow> u32 \<Rightarrow> u16 \<Rightarrow> u32 \<Rightarrow> u16 \<Rightarrow> TCPOverIPv4OverEthernetAdapter" where
  "demo_ethernet_adapter eth ip port peer_ip peer_port =
     \<lparr>fa_cfg = \<lparr>fc_source = ip_port ip port, fc_destination = ip_port peer_ip peer_port,
        fc_loss_rate_dn = 0, fc_loss_rate_up = 0\<rparr>, fa_listen = False,
      ea_interface = NetworkInterface_new eth (ipv4_address ip), ea_next_hop = ipv4_address peer_ip\<rparr>"

theorem ethernet_adapters_deliver_witness:
  "(let a = demo_ethernet_adapter [2, 0, 0, 0, 0, 1] 0x0A000001 40 0x0A000002 80;
        b = demo_ethernet_adapter [2, 0, 0, 0, 0, 2] 0x0A000002 80 0x0A000001 40
    in \<exists>a1 f1 b1 f2 a2 f3 b2 seg'.
      TCPOverIPv4OverEthernetAdapter_write demo_libc demo_segment a = Inr (a1, [f1]) \<and>
      TCPOverIPv4OverEthernetAdapter_read demo_libc (BufferList_concatenate f1) b = Inr (b1, [f2], None) \<and>
      TCPOverIPv4OverEthernetAdapter_read demo_libc (BufferList_concatenate f2) a1 = Inr (a2, [f3], None) \<and>
      TCPOverIPv4OverEthernetAdapter_read demo_libc (BufferList_concatenate f3) b1 = Inr (b2, [], Some seg') \<and>
      Buffer_str (ts_payload seg') = [1, 2, 3])"
proof -
  let ?a = "demo_ethernet_adapter [2, 0, 0, 0, 0, 1] 0x0A000001 40 0x0A000002 80"
  let ?b = "demo_ethernet_adapter [2, 0, 0, 0, 0, 2] 0x0A000002 80 0x0A000001 40"
  have inv: "iface_inv (NetworkInterface_new [2, 0, 0, 0, 0, 1] (ipv4_address 0x0A000001))"
    "iface_inv (NetworkInterface_new [2, 0, 0, 0, 0, 2] (ipv4_address 0x0A000002))"
    by (rule iface_new_inv; simp)+
  have "\<exists>a1 f1 b1 f2 a2 f3 b2 seg'.
      TCPOverIPv4OverEthernetAdapter_write demo_libc demo_segment ?a = Inr (a1, [f1]) \<and>
      TCPOverIPv4OverEthernetAdapter_read demo_libc (BufferList_concatenate f1) ?b = Inr (b1, [f2], None) \<and>
      TCPOverIPv4OverEthernetAdapter_read demo_libc (BufferList_concatenate f2) a1 = Inr (a2, [f3], None) \<and>
      TCPOverIPv4OverEthernetAdapter_read demo_libc (BufferList_concatenate f3) b1 = Inr (b2, [], Some seg') \<and>
      delivered (with_ports 40 80 demo_segment) seg'"
    by (rule ethernet_adapters_deliver [OF demo_segment_ok demo_libc_numeric, where x = "ea_interface ?a" and
        y = "ea_interface ?b" and ipx = "0x0A000001" and ipy = "0x0A000002"])
      (use inv in \<open>simp_all add: demo_ethernet_adapter_def NetworkInterface_new_def waiting_for_def\<close>)
  then show ?thesis unfolding Let_def
    by (simp add: delivered_def with_ports_def) (auto simp: demo_segment_def)
qed

section \<open>UDP and loss\<close>

lemma udp_adapters_deliver:
  assumes seg: "segment_ok seg" and L: "libc_numeric L src sport" "libc_numeric L dst dport"
    and a: "fc_source (fa_cfg a) = ip_port src sport" "fc_destination (fa_cfg a) = ip_port dst dport"
    and b: "\<not> fa_listen b" "fc_destination (fa_cfg b) = ip_port src sport"
  shows "\<exists>bl seg'. TCPOverUDPSocketAdapter_write L seg a = Inr (ip_port dst dport, bl) \<and>
    TCPOverUDPSocketAdapter_read (ip_port src sport, BufferList_concatenate bl) b = Inr (b, Some seg') \<and>
    delivered (with_ports sport dport seg) seg'"
proof -
  let ?seg = "with_ports sport dport seg"
  have ports: "ts_header ?seg = (ts_header seg)\<lparr>th_sport := sport, th_dport := dport\<rparr>" "ts_payload ?seg = ts_payload seg"
    by (simp_all add: with_ports_def)
  obtain bl c where bl: "TCPSegment_serialize 0 ?seg = Inr bl"
    "length (BufferList_concatenate bl) = 4 * unat (th_doff (ts_header ?seg)) + length (Buffer_str (ts_payload ?seg))"
    "\<And>b old. Buffer_wf b \<Longrightarrow> Buffer_str b = BufferList_concatenate bl \<Longrightarrow>
      \<exists>seg'. TCPSegment_parse b 0 old = Inr (NoError, seg') \<and>
        ts_header seg' = (ts_header ?seg)\<lparr>th_cksum := c\<rparr> \<and> Buffer_str (ts_payload seg') = Buffer_str (ts_payload ?seg)"
    by (rule tcp_segment_wire [of ?seg 0]) (use seg in \<open>auto simp: segment_ok_def ports\<close>)
  have "Buffer_wf (Buffer_of_string (BufferList_concatenate bl))"
    using bl(2) seg by (simp add: segment_ok_def ports)
  then obtain seg' where "TCPSegment_parse (Buffer_of_string (BufferList_concatenate bl)) 0 TCPSegment_default =
      Inr (NoError, seg')" "delivered ?seg seg'"
    using bl(3) [of "Buffer_of_string (BufferList_concatenate bl)" TCPSegment_default] by (auto simp: delivered_def)
  then show ?thesis
    using bl(1) L a b
    by (auto simp: TCPOverUDPSocketAdapter_write_def TCPOverUDPSocketAdapter_read_def ip_port_port with_ports_def Address_eq_def)
qed

lemma lossy_read_only_drops:
  assumes "LossyFdAdapter_read rand config read l = Inr (l', ret)"
  shows "\<exists>ret'. read (la_adapter l) = Inr (la_adapter l', ret') \<and> (ret = ret' \<or> ret = None) \<and>
    (fc_loss_rate_dn (config (la_adapter l')) = 0 \<longrightarrow> ret = ret' \<and> la_rand l' = la_rand l)"
  using assms
  by (auto simp: LossyFdAdapter_read_def LossyFdAdapter_should_drop_def Let_def bind_res_Inr_iff split: prod.splits if_splits)

end
