(* ===== verification/FileDescriptors.thy ===== *)
theory FileDescriptors
  imports Addresses
begin

text \<open>
  \<^verbatim>\<open>libsponge/util/file_descriptor.*\<close> and \<^verbatim>\<open>SystemCall\<close> of \<^verbatim>\<open>util.cc\<close>: a handle on a descriptor of the kernel,
  with its end-of-file flag and its counts of reads and writes. All copies of a handle share one
  \<^verbatim>\<open>FDWrapper\<close>, which is the record here. The kernel is a state of an arbitrary type and the system calls
  are arguments: a call gives its return value, \<^verbatim>\<open>errno\<close> and, for \<^verbatim>\<open>read\<close>, the bytes it stored. What the
  code relies on of \<^verbatim>\<open>writev\<close> is \<open>writev_lawful\<close>. The reference count and the destructor are left out.
\<close>

section \<open>State and operations\<close>

text \<open>\<^verbatim>\<open>SystemCall\<close> takes and returns an \<^verbatim>\<open>int\<close>: a wider return value is narrowed to 32 bits on the way.\<close>

definition to_int :: "int \<Rightarrow> int" where
  "to_int n = sint (of_int n :: 32 word)"

definition SystemCall :: "string \<Rightarrow> int \<Rightarrow> int \<Rightarrow> int \<Rightarrow> int res" where
  "SystemCall attempt ret errno errno_mask =
     (let return_value = to_int ret in
      if return_value \<ge> 0 \<or> errno = errno_mask then Inr return_value else Inl (Unix_error attempt errno))"

record FDWrapper =
  fd_fd :: int
  fd_eof :: bool
  fd_closed :: bool
  fd_read_count :: u32
  fd_write_count :: u32

definition FDWrapper_new :: "int \<Rightarrow> FDWrapper res" where
  "FDWrapper_new fd =
     (if fd < 0 then Inl (Runtime_error (''invalid fd number:-'' @ to_string (nat (- fd))))
      else Inr \<lparr>fd_fd = fd, fd_eof = False, fd_closed = False, fd_read_count = 0, fd_write_count = 0\<rparr>)"

definition FDWrapper_close :: "(int \<Rightarrow> 'k \<Rightarrow> int \<times> int \<times> 'k) \<Rightarrow> FDWrapper \<Rightarrow> 'k \<Rightarrow> (FDWrapper \<times> 'k) res" where
  "FDWrapper_close close fd k =
     (let (ret, errno, k) = close (fd_fd fd) k in
      bind_res (SystemCall ''close'' ret errno 0) (\<lambda>_. Inr (fd\<lparr>fd_eof := True, fd_closed := True\<rparr>, k)))"

definition F_GETFL :: int where "F_GETFL = 3"
definition F_SETFL :: int where "F_SETFL = 4"
definition O_NONBLOCK :: int where "O_NONBLOCK = 0x800"

definition FileDescriptor_set_blocking ::
    "(int \<Rightarrow> int \<Rightarrow> int \<Rightarrow> 'k \<Rightarrow> int \<times> int \<times> 'k) \<Rightarrow> bool \<Rightarrow> FDWrapper \<Rightarrow> 'k \<Rightarrow> 'k res" where
  "FileDescriptor_set_blocking fcntl blocking_state fd k =
     (let (ret, errno, k) = fcntl (fd_fd fd) F_GETFL 0 k in
      bind_res (SystemCall ''fcntl'' ret errno 0) (\<lambda>flags.
      let flags = (if blocking_state then flags XOR (flags AND O_NONBLOCK) else flags OR O_NONBLOCK);
          (ret, errno, k) = fcntl (fd_fd fd) F_SETFL flags k
      in
      bind_res (SystemCall ''fcntl'' ret errno 0) (\<lambda>_. Inr k)))"

definition register_read :: "FDWrapper \<Rightarrow> FDWrapper" where
  "register_read fd = fd\<lparr>fd_read_count := fd_read_count fd + 1\<rparr>"

definition register_write :: "FDWrapper \<Rightarrow> FDWrapper" where
  "register_write fd = fd\<lparr>fd_write_count := fd_write_count fd + 1\<rparr>"

definition BUFFER_SIZE :: size_t where "BUFFER_SIZE = 1024 * 1024"

definition FileDescriptor_read ::
    "(int \<Rightarrow> size_t \<Rightarrow> 'k \<Rightarrow> int \<times> int \<times> byte list \<times> 'k) \<Rightarrow> size_t \<Rightarrow> FDWrapper \<Rightarrow> 'k \<Rightarrow>
     (byte list \<times> FDWrapper \<times> 'k) res" where
  "FileDescriptor_read read limit fd k =
     (let size_to_read = min BUFFER_SIZE limit;
          (ret, errno, stored, k) = read (fd_fd fd) size_to_read k;
          str = take (unat size_to_read) (stored @ drop (length stored) (replicate (unat size_to_read) 0))
      in
      bind_res (SystemCall ''read'' ret errno 0) (\<lambda>bytes_read.
      let fd = (if limit > 0 \<and> bytes_read = 0 then fd\<lparr>fd_eof := True\<rparr> else fd) in
      if bytes_read > int (unat size_to_read) then Inl (Runtime_error ''read() read more than requested'')
      else if bytes_read < 0 then Inl (Out_of_range ''basic_string::resize'')
      else Inr (take (nat bytes_read) str, register_read fd, k)))"

lemma unat_lt_sz: "n < sz v \<Longrightarrow> unat n < length v"
proof -
  assume "n < sz v"
  then have "unat n < length v mod 2 ^ 64" by (simp add: word_less_nat_alt sz_def unat_of_nat)
  also have "\<dots> \<le> length v" by (rule mod_less_eq_dividend)
  finally show ?thesis .
qed

lemma remove_prefix_shorter:
  "BufferViewList_remove_prefix n vs = Inr vs' \<Longrightarrow> n \<noteq> 0 \<Longrightarrow> length (concat vs') < length (concat vs)"
proof (induction n vs rule: BufferViewList_remove_prefix.induct)
  case (1 n)
  then show ?case by (simp add: word_neq_0_conv)
next
  case (2 n v vs)
  show ?case
  proof (cases "n < sz v")
    case True
    then have "unat n < length v" by (rule unat_lt_sz)
    moreover have "0 < unat n" using 2(3) by (simp add: unat_gt_0)
    ultimately show ?thesis using True 2 by (auto simp: word_neq_0_conv)
  next
    case False
    then have rec: "BufferViewList_remove_prefix (n - sz v) vs = Inr vs'" using 2 by (simp add: word_neq_0_conv)
    show ?thesis
    proof (cases "n - sz v = 0")
      case True
      then have "v \<noteq> []" using 2(3) by (auto simp: sz_def)
      moreover have "vs' = vs" using rec True by (cases vs) simp_all
      ultimately show ?thesis by simp
    next
      case diff: False
      from "2.IH" [OF _ False rec diff] "2.prems"(2) show ?thesis by (simp add: word_neq_0_conv)
    qed
  qed
qed

lemma syscall_int:
  assumes "SystemCall attempt ret errno m = Inr n" and "(of_int n :: size_t) = 0"
  shows "n = 0"
proof -
  have n: "n = sint (of_int ret :: 32 word)" using assms(1) by (simp add: SystemCall_def to_int_def Let_def split: if_splits)
  have "- (2 ^ 31) \<le> n" "n < 2 ^ 31" using sint_range_size [of "of_int ret :: 32 word"] n by (simp_all add: word_size)
  moreover have "(2 ^ 64 :: int) dvd n" using assms(2) by (simp add: word_of_int_eq_0_iff)
  ultimately show ?thesis using zdvd_imp_le [of "2 ^ 64" "\<bar>n\<bar>"] by (cases "n = 0") auto
qed

function FileDescriptor_write ::
    "(int \<Rightarrow> (byte list \<times> size_t) list \<Rightarrow> 'k \<Rightarrow> int \<times> int \<times> 'k) \<Rightarrow> bool \<Rightarrow> size_t \<Rightarrow> BufferViewList \<Rightarrow>
     FDWrapper \<Rightarrow> 'k \<Rightarrow> (size_t \<times> FDWrapper \<times> 'k) res" where
  "FileDescriptor_write writev write_all total_bytes_written buffer fd k =
     (let iovecs = BufferViewList_as_iovecs buffer;
          (ret, errno, k) = writev (fd_fd fd) iovecs k
      in
      bind_res (SystemCall ''writev'' ret errno 0) (\<lambda>bytes_written.
      if bytes_written = 0 \<and> BufferViewList_size buffer \<noteq> 0
      then Inl (Runtime_error ''write returned 0 given non-empty input buffer'')
      else if bytes_written > sint (BufferViewList_size buffer)
      then Inl (Runtime_error ''write wrote more than length of input buffer'')
      else
        let fd = register_write fd in
        bind_res (BufferViewList_remove_prefix (of_int bytes_written) buffer) (\<lambda>buffer.
        let total_bytes_written = total_bytes_written + of_int bytes_written in
        if write_all \<and> BufferViewList_size buffer \<noteq> 0
        then FileDescriptor_write writev write_all total_bytes_written buffer fd k
        else Inr (total_bytes_written, fd, k))))"
  by pat_completeness auto
termination
proof (relation "measure (\<lambda>(w, all, total, buffer, fd, k). length (concat buffer))", goal_cases)
  case (2 writev all total buffer fd k iovecs p ret q errno k' n fd' buffer' total')
  have "(of_int n :: size_t) \<noteq> 0"
  proof
    assume zero: "(of_int n :: size_t) = 0"
    then have "n = 0" using syscall_int 2 by blast
    moreover have "buffer' = buffer" using 2 zero by (cases buffer) auto
    ultimately show False using 2 by simp
  qed
  then show ?case using remove_prefix_shorter 2 by auto
qed simp

declare FileDescriptor_write.simps [simp del]

lemma fd_write_once:
  "FileDescriptor_write writev False t vs fd k =
     (case writev (fd_fd fd) (BufferViewList_as_iovecs vs) k of (ret, errno, k) \<Rightarrow>
      bind_res (SystemCall ''writev'' ret errno 0) (\<lambda>n.
      if n = 0 \<and> BufferViewList_size vs \<noteq> 0
      then Inl (Runtime_error ''write returned 0 given non-empty input buffer'')
      else if n > sint (BufferViewList_size vs)
      then Inl (Runtime_error ''write wrote more than length of input buffer'')
      else bind_res (BufferViewList_remove_prefix (of_int n) vs) (\<lambda>_. Inr (t + of_int n, register_write fd, k))))"
  by (subst FileDescriptor_write.simps, cases "writev (fd_fd fd) (BufferViewList_as_iovecs vs) k") (simp add: Let_def cong: if_cong)

section \<open>Writing\<close>

text \<open>
  The documented behaviour of \<^verbatim>\<open>writev\<close>: it takes a prefix of what it is given, and returns its length.
  \<open>out k\<close> is all that the descriptor has taken so far. What it takes in a given state of the kernel may be
  nothing: a non-blocking descriptor whose buffer is full answers with an error. \<open>writev_takes\<close> says that
  a call takes at least one byte when there is one, which is what \<^verbatim>\<open>poll\<close> reports as writable; a descriptor
  of which that is always so, as of a blocking one without errors, makes progress.
\<close>

definition writev_lawful :: "(int \<Rightarrow> (byte list \<times> size_t) list \<Rightarrow> 'k \<Rightarrow> int \<times> int \<times> 'k) \<Rightarrow> ('k \<Rightarrow> byte list) \<Rightarrow> bool" where
  "writev_lawful writev out \<longleftrightarrow>
     (\<forall>fd iovecs k ret errno k'. writev fd iovecs k = (ret, errno, k') \<longrightarrow>
        (if ret < 0 then ret = -1 \<and> errno \<noteq> 0
         else nat ret \<le> length (concat (map fst iovecs)) \<and> out k' = out k @ take (nat ret) (concat (map fst iovecs))))"

definition writev_takes :: "(int \<Rightarrow> (byte list \<times> size_t) list \<Rightarrow> 'k \<Rightarrow> int \<times> int \<times> 'k) \<Rightarrow> int \<Rightarrow> 'k \<Rightarrow> bool" where
  "writev_takes writev fd k \<longleftrightarrow>
     (\<forall>iovecs. if concat (map fst iovecs) = [] then 0 \<le> fst (writev fd iovecs k) else 0 < fst (writev fd iovecs k))"

definition writev_progress :: "(int \<Rightarrow> (byte list \<times> size_t) list \<Rightarrow> 'k \<Rightarrow> int \<times> int \<times> 'k) \<Rightarrow> int \<Rightarrow> bool" where
  "writev_progress writev fd \<longleftrightarrow> (\<forall>k. writev_takes writev fd k)"

lemma register_write_fd [simp]: "fd_fd (register_write fd) = fd_fd fd"
  by (simp add: register_write_def)

lemma to_int_small: "- (2 ^ 31) \<le> n \<Longrightarrow> n < 2 ^ 31 \<Longrightarrow> to_int n = n"
  unfolding to_int_def by (subst signed_of_int) (simp add: signed_take_bit_int_eq_self_iff)

lemma sint_sz: "length xs < 2 ^ 31 \<Longrightarrow> sint (sz xs) = int (length xs)"
  by (simp add: sz_def signed_of_nat signed_take_bit_int_eq_self_iff)

lemma one_writev:
  assumes law: "writev_lawful writev out" and w: "writev (fd_fd fd) (BufferViewList_as_iovecs vs) k = (ret, errno, k')"
    and len: "length (concat vs) < 2 ^ 31" and "0 \<le> ret"
  shows "SystemCall ''writev'' ret errno 0 = Inr ret" "nat ret \<le> length (concat vs)"
    "out k' = out k @ take (nat ret) (concat vs)"
    "\<exists>vs'. BufferViewList_remove_prefix (of_int ret) vs = Inr vs' \<and> concat vs' = drop (nat ret) (concat vs)"
proof -
  have bytes: "concat (map fst (BufferViewList_as_iovecs vs)) = concat vs"
    by (simp add: BufferViewList_as_iovecs_eq comp_def)
  show le: "nat ret \<le> length (concat vs)" and "out k' = out k @ take (nat ret) (concat vs)"
    using law w assms(4) bytes unfolding writev_lawful_def by (metis not_less)+
  then show "SystemCall ''writev'' ret errno 0 = Inr ret"
    using len assms(4) by (simp add: SystemCall_def to_int_small)
  have "of_int ret = (of_nat (nat ret) :: size_t)" using assms(4) by (simp add: of_nat_nat)
  moreover have "unat (of_nat (nat ret) :: size_t) = nat ret" using le len by (simp add: unat_of_nat)
  moreover have "BufferViewList_wf vs" using len by (simp add: BufferViewList_wf_def)
  ultimately show "\<exists>vs'. BufferViewList_remove_prefix (of_int ret) vs = Inr vs' \<and> concat vs' = drop (nat ret) (concat vs)"
    using views.remove_ok [of vs "of_int ret"] le by auto
qed

definition write_done :: "('k \<Rightarrow> byte list) \<Rightarrow> bool \<Rightarrow> byte list \<Rightarrow> size_t \<Rightarrow> 'k \<Rightarrow> 'k \<Rightarrow> bool" where
  "write_done out all bytes n k k' \<longleftrightarrow>
     unat n \<le> length bytes \<and> out k' = out k @ take (unat n) bytes \<and> (all \<longrightarrow> unat n = length bytes)"

lemma write_done_step:
  assumes "nat ret \<le> length bytes" "0 \<le> ret" "length bytes < 2 ^ 31" "out k1 = out k @ take (nat ret) bytes"
    and "write_done out all (drop (nat ret) bytes) (n - (t + of_int ret)) k1 k'"
  shows "write_done out all bytes (n - t) k k'"
proof -
  let ?m = "n - (t + of_int ret)"
  have r: "of_int ret = (of_nat (nat ret) :: size_t)" using assms(2) by (simp add: of_nat_nat)
  have u: "unat (of_nat (nat ret) :: size_t) = nat ret" using assms(1,3) by (simp add: unat_of_nat)
  have m: "unat ?m \<le> length bytes - nat ret" using assms(5) by (simp add: write_done_def)
  have "n - t = of_nat (nat ret) + ?m" by (simp add: r algebra_simps)
  moreover have "unat (of_nat (nat ret) + ?m) = nat ret + unat ?m"
    using u m assms(1,3) by (subst unat_plus_fits) simp_all
  ultimately have nt: "unat (n - t) = nat ret + unat ?m" by simp
  then show ?thesis using assms(1,4,5) m by (auto simp: write_done_def take_add)
qed

lemma iovecs_bytes: "concat (map fst (BufferViewList_as_iovecs vs)) = concat vs"
  by (simp add: BufferViewList_as_iovecs_eq comp_def)

lemma views_size: "length (concat vs) < 2 ^ 31 \<Longrightarrow> BufferViewList_size vs = sz (concat vs)"
  using views.size_contents [of vs] by (simp add: BufferViewList_wf_def)

lemma fd_write_stuck:
  assumes law: "writev_lawful writev out" and len: "length (concat vs) < 2 ^ 31"
    and w: "writev (fd_fd fd) (BufferViewList_as_iovecs vs) k = (ret, errno, k1)"
    and stuck: "ret < 0 \<or> ret = 0 \<and> concat vs \<noteq> []"
  shows "\<not> writev_takes writev (fd_fd fd) k" "\<exists>e. FileDescriptor_write writev all t vs fd k = Inl e"
proof -
  show "\<not> writev_takes writev (fd_fd fd) k"
  proof
    assume "writev_takes writev (fd_fd fd) k"
    then have "if concat vs = [] then 0 \<le> fst (writev (fd_fd fd) (BufferViewList_as_iovecs vs) k)
        else 0 < fst (writev (fd_fd fd) (BufferViewList_as_iovecs vs) k)"
      using iovecs_bytes unfolding writev_takes_def by metis
    then show False using stuck w by (auto split: if_splits)
  qed
  show "\<exists>e. FileDescriptor_write writev all t vs fd k = Inl e"
  proof (cases "ret = 0")
    case True
    then show ?thesis
      using w stuck views_size [OF len] len one_writev(1) [OF law w len]
      by (subst FileDescriptor_write.simps) simp
  next
    case False
    then have "ret = -1" "errno \<noteq> 0" using law w stuck unfolding writev_lawful_def by (metis, metis)
    then show ?thesis using w by (subst FileDescriptor_write.simps) (simp add: SystemCall_def to_int_small)
  qed
qed

lemma fd_write_step:
  assumes law: "writev_lawful writev out" and len: "length (concat vs) < 2 ^ 31"
    and w: "writev (fd_fd fd) (BufferViewList_as_iovecs vs) k = (ret, errno, k1)"
    and ret: "0 \<le> ret" "ret = 0 \<longrightarrow> concat vs = []"
  obtains vs' where "concat vs' = drop (nat ret) (concat vs)"
    "FileDescriptor_write writev all t vs fd k =
      (if all \<and> concat vs' \<noteq> []
       then FileDescriptor_write writev all (t + of_int ret) vs' (register_write fd) k1
       else Inr (t + of_int ret, register_write fd, k1))"
proof -
  note one = one_writev [OF law w len ret(1)]
  obtain vs' where vs': "BufferViewList_remove_prefix (of_int ret) vs = Inr vs'" "concat vs' = drop (nat ret) (concat vs)"
    using one(4) by blast
  have "length (concat vs') < 2 ^ 31" using vs'(2) len by simp
  then have "BufferViewList_size vs' = 0 \<longleftrightarrow> concat vs' = []" using views_size [of vs'] by simp
  moreover have "ret \<le> sint (BufferViewList_size vs)" using one(2) ret(1) views_size [OF len] sint_sz [OF len] by simp
  moreover have "ret = 0 \<longrightarrow> BufferViewList_size vs = 0" using ret(2) views_size [OF len] len by simp
  ultimately have "FileDescriptor_write writev all t vs fd k =
      (if all \<and> concat vs' \<noteq> []
       then FileDescriptor_write writev all (t + of_int ret) vs' (register_write fd) k1
       else Inr (t + of_int ret, register_write fd, k1))"
    using w one(1) vs'(1) by (subst FileDescriptor_write.simps) (auto simp: Let_def not_less)
  with vs'(2) show thesis by (rule that)
qed

lemma fd_write_single:
  assumes "writev_lawful writev out" and "length (concat vs) < 2 ^ 31" and "writev_takes writev (fd_fd fd) k"
  shows "\<exists>n k'. FileDescriptor_write writev False t vs fd k = Inr (n, register_write fd, k')"
proof -
  obtain ret errno k1 where w: "writev (fd_fd fd) (BufferViewList_as_iovecs vs) k = (ret, errno, k1)"
    by (cases "writev (fd_fd fd) (BufferViewList_as_iovecs vs) k")
  then have ret: "0 \<le> ret" "ret = 0 \<longrightarrow> concat vs = []"
    using fd_write_stuck(1) [OF assms(1,2) w] assms(3) by (meson not_less)+
  show ?thesis by (rule fd_write_step [OF assms(1,2) w ret, of False t]) simp
qed

lemma fd_write_correct:
  assumes law: "writev_lawful writev out" and "length (concat vs) < 2 ^ 31"
  shows "case FileDescriptor_write writev all t vs fd k of
      Inr (n, fd', k') \<Rightarrow> write_done out all (concat vs) (n - t) k k'
    | Inl _ \<Rightarrow> \<not> writev_progress writev (fd_fd fd)"
  using assms(2)
proof (induction "length (concat vs)" arbitrary: vs t fd k rule: less_induct)
  case less
  obtain ret errno k1 where w: "writev (fd_fd fd) (BufferViewList_as_iovecs vs) k = (ret, errno, k1)"
    by (cases "writev (fd_fd fd) (BufferViewList_as_iovecs vs) k")
  show ?case
  proof (cases "ret < 0 \<or> ret = 0 \<and> concat vs \<noteq> []")
    case True
    show ?thesis
      using fd_write_stuck(1) [OF law less.prems w True] fd_write_stuck(2) [OF law less.prems w True, of all t]
      by (auto simp: writev_progress_def)
  next
    case False
    then have ret: "0 \<le> ret" "ret = 0 \<longrightarrow> concat vs = []" by auto
    note one = one_writev(2,3) [OF law w less.prems ret(1)]
    obtain vs' where vs': "concat vs' = drop (nat ret) (concat vs)"
      and step: "FileDescriptor_write writev all t vs fd k =
        (if all \<and> concat vs' \<noteq> []
         then FileDescriptor_write writev all (t + of_int ret) vs' (register_write fd) k1
         else Inr (t + of_int ret, register_write fd, k1))"
      by (rule fd_write_step [OF law less.prems w ret])
    note dn = write_done_step [where out = out and ?k1.0 = k1 and k = k, OF one(1) ret(1) less.prems one(2)]
    show ?thesis
    proof (cases "all \<and> concat vs' \<noteq> []")
      case True
      then have "length (concat vs') < length (concat vs)" using vs' ret one(1) by (cases "ret = 0") auto
      moreover have "length (concat vs') < 2 ^ 31" using vs' less.prems by simp
      ultimately have "case FileDescriptor_write writev all (t + of_int ret) vs' (register_write fd) k1 of
          Inr (n, fd', k') \<Rightarrow> write_done out all (concat vs') (n - (t + of_int ret)) k1 k'
        | Inl _ \<Rightarrow> \<not> writev_progress writev (fd_fd (register_write fd))"
        by (rule less.hyps)
      with step True show ?thesis using dn [of all _ t] vs' by (auto split: sum.splits prod.splits)
    next
      case False
      then have "write_done out all (drop (nat ret) (concat vs)) 0 k1 k1" using vs' by (auto simp: write_done_def)
      with step False show ?thesis using dn [of all "t + of_int ret" t k1] by (simp del: concat_eq_Nil_conv)
    qed
  qed
qed

section \<open>Reading\<close>

text \<open>The documented behaviour of \<^verbatim>\<open>read\<close>: it stores the next bytes, at most as many as asked for, and
  returns their number, 0 only at the end of the file.\<close>

definition read_lawful ::
    "(int \<Rightarrow> size_t \<Rightarrow> 'k \<Rightarrow> int \<times> int \<times> byte list \<times> 'k) \<Rightarrow> ('k \<Rightarrow> byte list) \<Rightarrow> bool" where
  "read_lawful read pending \<longleftrightarrow>
     (\<forall>fd n k ret errno stored k'. read fd n k = (ret, errno, stored, k') \<longrightarrow>
        (if ret < 0 then ret = -1 \<and> errno \<noteq> 0
         else ret = int (length stored) \<and> length stored \<le> unat n \<and> pending k = stored @ pending k'))"

lemma fd_read_exact:
  assumes "read (fd_fd fd) (min BUFFER_SIZE limit) k = (int (length stored), errno, stored, k')"
    and "length stored \<le> unat (min BUFFER_SIZE limit)"
  shows "FileDescriptor_read read limit fd k =
    Inr (stored, register_read (if limit > 0 \<and> stored = [] then fd\<lparr>fd_eof := True\<rparr> else fd), k')"
proof -
  have "min BUFFER_SIZE limit \<le> 0x100000" by (simp add: BUFFER_SIZE_def)
  then have "unat (min BUFFER_SIZE limit) \<le> 0x100000" by (simp add: word_le_nat_alt)
  then have "SystemCall ''read'' (int (length stored)) errno 0 = Inr (int (length stored))"
    using assms(2) by (simp add: SystemCall_def to_int_small)
  moreover have "int (length stored) \<le> int (unat (min BUFFER_SIZE limit))"
    using assms(2) by (simp only: of_nat_le_iff)
  ultimately show ?thesis using assms by (simp add: FileDescriptor_read_def Let_def not_less)
qed

lemma fd_read_correct:
  assumes "read_lawful read pending" and "FileDescriptor_read read limit fd k = Inr (str, fd', k')"
  shows "pending k = str @ pending k'" "length str \<le> unat limit"
    "fd_eof fd' \<longleftrightarrow> fd_eof fd \<or> limit > 0 \<and> str = []" "fd_read_count fd' = fd_read_count fd + 1"
    "fd_closed fd' = fd_closed fd"
proof -
  let ?n = "min BUFFER_SIZE limit"
  obtain ret errno stored k1 where r: "read (fd_fd fd) ?n k = (ret, errno, stored, k1)"
    by (cases "read (fd_fd fd) ?n k")
  have n: "unat ?n \<le> 2 ^ 20" "unat ?n \<le> unat limit"
    by (simp_all add: min_def word_le_nat_alt BUFFER_SIZE_def)
  have nonneg: "\<not> ret < 0"
  proof
    assume "ret < 0"
    then have "ret = -1" "errno \<noteq> 0" using assms(1) r unfolding read_lawful_def by (metis, metis)
    then show False using assms(2) r by (simp add: FileDescriptor_read_def SystemCall_def to_int_small)
  qed
  then have law: "ret = int (length stored)" "length stored \<le> unat ?n" "pending k = stored @ pending k1"
    using assms(1) r unfolding read_lawful_def by (metis, metis, metis)
  then have "to_int ret = ret" using n(1) by (intro to_int_small) simp_all
  then have "str = stored \<and> k' = k1 \<and> fd' = register_read (if limit > 0 \<and> ret = 0 then fd\<lparr>fd_eof := True\<rparr> else fd)"
    using assms(2) r law(1,2) by (auto simp: FileDescriptor_read_def SystemCall_def Let_def split: if_splits)
  with law n show "pending k = str @ pending k'" "length str \<le> unat limit"
    "fd_eof fd' \<longleftrightarrow> fd_eof fd \<or> limit > 0 \<and> str = []" "fd_read_count fd' = fd_read_count fd + 1"
    "fd_closed fd' = fd_closed fd"
    by (auto simp: register_read_def)
qed

section \<open>Properties\<close>

text \<open>
  C22. \<^verbatim>\<open>FileDescriptor::write\<close> hands over exactly the bytes it reports, in order. On every kernel that
  behaves as documented, for less than 2 GiB: when it returns a count, the descriptor has taken that
  many bytes, a prefix of the buffer, and with \<^verbatim>\<open>write_all\<close> it has taken all of them; the loop ends,
  and it throws only when some \<^verbatim>\<open>writev\<close> fails or takes nothing.
\<close>
theorem fd_write_faithful:
  assumes "writev_lawful writev out" and "length (concat vs) < 2 ^ 31"
  shows "(\<forall>n fd' k'. FileDescriptor_write writev write_all 0 vs fd k = Inr (n, fd', k') \<longrightarrow>
      unat n \<le> length (concat vs) \<and> out k' = out k @ take (unat n) (concat vs) \<and>
      (write_all \<longrightarrow> unat n = length (concat vs))) \<and>
    (writev_progress writev (fd_fd fd) \<longrightarrow> (\<exists>n fd' k'. FileDescriptor_write writev write_all 0 vs fd k = Inr (n, fd', k')))"
  using fd_write_correct [OF assms, where all = write_all and t = 0 and fd = fd and k = k] by (auto simp: write_done_def split: sum.splits)

definition slow_writev :: "int \<Rightarrow> (byte list \<times> size_t) list \<Rightarrow> byte list \<Rightarrow> int \<times> int \<times> byte list" where
  "slow_writev fd iovecs k =
     (let bs = take 2 (concat (map fst iovecs)) in (int (length bs), 0, k @ bs))"

theorem fd_write_faithful_witness:
  "\<exists>n fd' k'. FileDescriptor_write slow_writev True 0 [[1, 2, 3], [], [4, 5]]
      \<lparr>fd_fd = 3, fd_eof = False, fd_closed = False, fd_read_count = 0, fd_write_count = 0\<rparr> [] = Inr (n, fd', k') \<and>
     k' = [1, 2, 3, 4, 5]"
proof -
  let ?fd = "\<lparr>fd_fd = 3, fd_eof = False, fd_closed = False, fd_read_count = 0, fd_write_count = 0\<rparr>"
  have law: "writev_lawful slow_writev (\<lambda>k. k)"
    by (auto simp: writev_lawful_def slow_writev_def Let_def min_def)
  have progress: "writev_progress slow_writev (fd_fd ?fd)"
    by (auto simp: writev_progress_def writev_takes_def slow_writev_def Let_def)
  have len: "length (concat [[1, 2, 3], [], [4, 5 :: byte]]) < 2 ^ 31" by simp
  from fd_write_faithful [OF law len, of True ?fd "[]"] progress obtain n fd' k' where
    w: "FileDescriptor_write slow_writev True 0 [[1, 2, 3], [], [4, 5]] ?fd [] = Inr (n, fd', k')" by blast
  with fd_write_faithful [OF law len, of True ?fd "[]"] have "k' = [1, 2, 3, 4, 5]" by simp
  with w show ?thesis by blast
qed

end
