(* ===== verification/EventLoops.thy ===== *)
theory EventLoops
  imports FileDescriptors "HOL-Library.Sublist"
begin

text \<open>
  \<^verbatim>\<open>libsponge/util/eventloop.*\<close>: rules on file descriptors and one round of polling. The state the callbacks
  work on, the descriptors included, is of an arbitrary type \<open>'w\<close>: a callback is a function on it, which
  may throw, and \<open>fds w i\<close> is the wrapper of descriptor \<open>i\<close> that all its duplicates share. The system call
  \<^verbatim>\<open>poll\<close> is an argument: it gives its return value, \<^verbatim>\<open>errno\<close> and the \<^verbatim>\<open>revents\<close> of the descriptors.
\<close>

section \<open>State and operations\<close>

type_synonym poll_events = "16 word"

definition POLLIN :: poll_events where "POLLIN = 0x01"
definition POLLOUT :: poll_events where "POLLOUT = 0x04"
definition POLLERR :: poll_events where "POLLERR = 0x08"
definition POLLHUP :: poll_events where "POLLHUP = 0x10"
definition POLLNVAL :: poll_events where "POLLNVAL = 0x20"
definition EINTR :: int where "EINTR = 4"

datatype Direction = In | Out

fun Direction_events :: "Direction \<Rightarrow> poll_events" where
  "Direction_events In = POLLIN"
| "Direction_events Out = POLLOUT"

record 'w Rule =
  rl_fd :: nat
  rl_direction :: Direction
  rl_callback :: "'w \<Rightarrow> 'w res"
  rl_interest :: "'w \<Rightarrow> bool"
  rl_cancel :: "'w \<Rightarrow> 'w res"

datatype Result = Success | Timeout | Exit

record pollfd =
  pf_fd :: int
  pf_events :: poll_events
  pf_revents :: poll_events

definition Rule_service_count :: "('w \<Rightarrow> nat \<Rightarrow> FDWrapper) \<Rightarrow> 'w Rule \<Rightarrow> 'w \<Rightarrow> u32" where
  "Rule_service_count fds r w =
     (if rl_direction r = In then fd_read_count (fds w (rl_fd r)) else fd_write_count (fds w (rl_fd r)))"

definition EventLoop_add_rule ::
    "nat \<Rightarrow> Direction \<Rightarrow> ('w \<Rightarrow> 'w res) \<Rightarrow> ('w \<Rightarrow> bool) \<Rightarrow> ('w \<Rightarrow> 'w res) \<Rightarrow> 'w Rule list \<Rightarrow> 'w Rule list" where
  "EventLoop_add_rule fd direction callback interest cancel rules =
     rules @ [\<lparr>rl_fd = fd, rl_direction = direction, rl_callback = callback, rl_interest = interest, rl_cancel = cancel\<rparr>]"

fun EventLoop_setup ::
    "('w \<Rightarrow> nat \<Rightarrow> FDWrapper) \<Rightarrow> 'w Rule list \<Rightarrow> 'w \<Rightarrow> ('w Rule list \<times> pollfd list \<times> bool \<times> 'w) res" where
  "EventLoop_setup fds [] w = Inr ([], [], False, w)"
| "EventLoop_setup fds (this_rule # rules) w =
     (let fd = fds w (rl_fd this_rule) in
      if rl_direction this_rule = In \<and> fd_eof fd
      then bind_res (rl_cancel this_rule w) (EventLoop_setup fds rules)
      else if fd_closed fd
      then bind_res (rl_cancel this_rule w) (EventLoop_setup fds rules)
      else
        let interested = rl_interest this_rule w;
            pfd = \<lparr>pf_fd = fd_fd fd,
              pf_events = (if interested then Direction_events (rl_direction this_rule) else 0), pf_revents = 0\<rparr>
        in
        bind_res (EventLoop_setup fds rules w) (\<lambda>(kept, pollfds, something_to_poll, w).
        Inr (this_rule # kept, pfd # pollfds, interested \<or> something_to_poll, w)))"

fun EventLoop_results ::
    "('w \<Rightarrow> nat \<Rightarrow> FDWrapper) \<Rightarrow> 'w Rule list \<Rightarrow> pollfd list \<Rightarrow> 'w \<Rightarrow> ('w Rule list \<times> 'w) res" where
  "EventLoop_results fds [] pollfds w = Inr ([], w)"
| "EventLoop_results fds (this_rule # rules) [] w = Inl (Undefined_behaviour ''vector index out of range'')"
| "EventLoop_results fds (this_rule # rules) (this_pollfd # pollfds) w =
     (if pf_revents this_pollfd AND (POLLERR OR POLLNVAL) \<noteq> 0
      then Inl (Runtime_error ''EventLoop: error on polled file descriptor'')
      else
        let poll_ready = (pf_revents this_pollfd AND pf_events this_pollfd \<noteq> 0);
            poll_hup = (pf_revents this_pollfd AND POLLHUP \<noteq> 0)
        in
        if poll_hup \<and> pf_events this_pollfd \<noteq> 0 \<and> \<not> poll_ready
        then bind_res (rl_cancel this_rule w) (EventLoop_results fds rules pollfds)
        else
          bind_res
            (if poll_ready then
               let count_before = Rule_service_count fds this_rule w in
               bind_res (rl_callback this_rule w) (\<lambda>w.
               if count_before = Rule_service_count fds this_rule w \<and> rl_interest this_rule w
               then Inl (Runtime_error ''EventLoop: busy wait detected: callback did not read/write fd and is still interested'')
               else Inr w)
             else Inr w) (\<lambda>w.
          bind_res (EventLoop_results fds rules pollfds w) (\<lambda>(kept, w).
          Inr (this_rule # kept, w))))"

definition EventLoop_wait_next_event ::
    "('w \<Rightarrow> nat \<Rightarrow> FDWrapper) \<Rightarrow> (pollfd list \<Rightarrow> int \<Rightarrow> 'w \<Rightarrow> int \<times> int \<times> poll_events list \<times> 'w) \<Rightarrow> int \<Rightarrow>
     'w Rule list \<Rightarrow> 'w \<Rightarrow> (Result \<times> 'w Rule list \<times> 'w) res" where
  "EventLoop_wait_next_event fds poll timeout_ms rules w =
     bind_res (EventLoop_setup fds rules w) (\<lambda>(rules, pollfds, something_to_poll, w).
     if \<not> something_to_poll then Inr (Exit, rules, w)
     else
       let (ret, errno, revents, w) = poll pollfds timeout_ms w;
           pollfds = map2 (\<lambda>p e. p\<lparr>pf_revents := e\<rparr>) pollfds revents;
           go_on = bind_res (EventLoop_results fds rules pollfds w) (\<lambda>(rules, w). Inr (Success, rules, w))
       in
       case SystemCall ''poll'' ret errno 0 of
         Inr n \<Rightarrow> if n = 0 then Inr (Timeout, rules, w) else go_on
       | Inl (Unix_error _ code) \<Rightarrow> if code = EINTR then Inr (Exit, rules, w) else go_on
       | Inl e \<Rightarrow> Inl e)"

section \<open>One round\<close>

definition pollfd_of :: "('w \<Rightarrow> nat \<Rightarrow> FDWrapper) \<Rightarrow> 'w \<Rightarrow> 'w Rule \<Rightarrow> pollfd" where
  "pollfd_of fds w r =
     \<lparr>pf_fd = fd_fd (fds w (rl_fd r)),
      pf_events = (if rl_interest r w then Direction_events (rl_direction r) else 0), pf_revents = 0\<rparr>"

definition rule_live :: "('w \<Rightarrow> nat \<Rightarrow> FDWrapper) \<Rightarrow> 'w \<Rightarrow> 'w Rule \<Rightarrow> bool" where
  "rule_live fds w r \<longleftrightarrow>
     \<not> fd_closed (fds w (rl_fd r)) \<and> \<not> (rl_direction r = In \<and> fd_eof (fds w (rl_fd r)))"

fun serve :: "('w \<Rightarrow> nat \<Rightarrow> FDWrapper) \<Rightarrow> 'w Rule list \<Rightarrow> 'w \<Rightarrow> 'w res" where
  "serve fds [] w = Inr w"
| "serve fds (r # rs) w =
     bind_res (rl_callback r w) (\<lambda>w'.
     if Rule_service_count fds r w = Rule_service_count fds r w' \<and> rl_interest r w'
     then Inl (Runtime_error ''EventLoop: busy wait detected: callback did not read/write fd and is still interested'')
     else serve fds rs w')"

definition ready_rules :: "'w \<Rightarrow> 'w Rule list \<Rightarrow> poll_events list \<Rightarrow> 'w Rule list" where
  "ready_rules w rules revents =
     map fst (filter (\<lambda>(r, e). rl_interest r w \<and> e AND Direction_events (rl_direction r) \<noteq> 0) (zip rules revents))"

lemma setup_live:
  "list_all (rule_live fds w) rules \<Longrightarrow>
     EventLoop_setup fds rules w = Inr (rules, map (pollfd_of fds w) rules, list_ex (\<lambda>r. rl_interest r w) rules, w)"
  by (induction rules) (auto simp: rule_live_def pollfd_of_def Let_def)

lemma setup_subseq:
  "EventLoop_setup fds rules w = Inr (kept, pfds, b, w') \<Longrightarrow> subseq kept rules \<and> length pfds = length kept"
proof (induction rules arbitrary: w kept pfds b w')
  case (Cons r rules)
  show ?case
  proof (cases "rl_direction r = In \<and> fd_eof (fds w (rl_fd r)) \<or> fd_closed (fds w (rl_fd r))")
    case True
    then obtain w1 where "EventLoop_setup fds rules w1 = Inr (kept, pfds, b, w')"
      using Cons.prems by (auto simp: Let_def bind_res_Inr_iff split: if_splits)
    from Cons.IH [OF this] show ?thesis by (simp add: list_emb_Cons)
  next
    case False
    then obtain k p b' where "EventLoop_setup fds rules w = Inr (k, p, b', w')" "kept = r # k" "length pfds = Suc (length p)"
      using Cons.prems
      by (cases "EventLoop_setup fds rules w") (auto simp: Let_def split: prod.splits if_splits)
    with Cons.IH [OF this(1)] show ?thesis by simp
  qed
qed simp

lemma results_subseq: "EventLoop_results fds rules pfds w = Inr (kept, w') \<Longrightarrow> subseq kept rules"
proof (induction rules arbitrary: pfds w kept w')
  case (Cons r rules)
  then obtain p ps where pfds: "pfds = p # ps" by (cases pfds) auto
  have ok: "pf_revents p AND (POLLERR OR POLLNVAL) = 0" using Cons.prems pfds by (auto split: if_splits)
  show ?case
  proof (cases "pf_revents p AND POLLHUP \<noteq> 0 \<and> pf_events p \<noteq> 0 \<and> \<not> pf_revents p AND pf_events p \<noteq> 0")
    case True
    then obtain w1 where "EventLoop_results fds rules ps w1 = Inr (kept, w')"
      using Cons.prems ok pfds by (auto simp: Let_def bind_res_Inr_iff)
    from Cons.IH [OF this] show ?thesis by (simp add: list_emb_Cons)
  next
    case False
    then obtain w1 k where "EventLoop_results fds rules ps w1 = Inr (k, w')" "kept = r # k"
      using Cons.prems ok unfolding pfds by (simp only: EventLoop_results.simps if_False Let_def False) (auto simp: bind_res_Inr_iff)
    with Cons.IH [OF this(1)] show ?thesis by simp
  qed
qed simp

definition quiet :: "poll_events \<Rightarrow> bool" where
  "quiet e \<longleftrightarrow> e AND (POLLERR OR POLLNVAL) = 0 \<and> e AND POLLHUP = 0"

lemma pollfd_of_fields [simp]:
  "pf_events (pollfd_of fds w r) = (if rl_interest r w then Direction_events (rl_direction r) else 0)"
  by (simp add: pollfd_of_def)

lemma ready_rules_simps [simp]:
  "ready_rules w [] revents = []"
  "ready_rules w (r # rules) (e # revents) =
     (if rl_interest r w \<and> e AND Direction_events (rl_direction r) \<noteq> 0 then r # ready_rules w rules revents
      else ready_rules w rules revents)"
  by (simp_all add: ready_rules_def)

lemma results_serve:
  assumes "length revents = length rules" and "list_all quiet revents"
  shows "EventLoop_results fds rules (map2 (\<lambda>p e. p\<lparr>pf_revents := e\<rparr>) (map (pollfd_of fds w0) rules) revents) w =
    bind_res (serve fds (ready_rules w0 rules revents) w) (\<lambda>w'. Inr (rules, w'))"
  using assms
proof (induction rules revents arbitrary: w rule: list_induct2')
  case (4 r rules e revents)
  then have IH: "EventLoop_results fds rules (map2 (\<lambda>p e. p\<lparr>pf_revents := e\<rparr>) (map (pollfd_of fds w0) rules) revents) w =
    bind_res (serve fds (ready_rules w0 rules revents) w) (\<lambda>w'. Inr (rules, w'))" for w by simp
  have e: "e AND (POLLERR OR POLLNVAL) = 0" "e AND POLLHUP = 0" using 4 by (simp_all add: quiet_def)
  have step: "bind_res (EventLoop_results fds rules (map2 (\<lambda>p e. p\<lparr>pf_revents := e\<rparr>) (map (pollfd_of fds w0) rules) revents) w)
      (\<lambda>(kept, w). Inr (r # kept, w)) =
      bind_res (serve fds (ready_rules w0 rules revents) w) (\<lambda>w'. Inr (r # rules, w'))" for w
    by (subst IH, cases "serve fds (ready_rules w0 rules revents) w") simp_all
  show ?case
  proof (cases "rl_interest r w0 \<and> e AND Direction_events (rl_direction r) \<noteq> 0")
    case True
    then show ?thesis using e step by (cases "rl_callback r w") (simp_all add: Let_def)
  next
    case False
    then show ?thesis using e step by (auto simp: Let_def)
  qed
qed simp_all

section \<open>A whole round\<close>

text \<open>
  The reference for a round. First the rules are gone through in order: one whose descriptor is closed, or
  has reached its end and is read from, is dead and is cancelled; every other one is polled, for its
  direction if it is interested at that moment. What \<^verbatim>\<open>poll\<close> reports is then a verdict on each rule that
  is left, and the verdicts are carried out in order.
\<close>

fun expire ::
    "('w \<Rightarrow> nat \<Rightarrow> FDWrapper) \<Rightarrow> 'w Rule list \<Rightarrow> 'w \<Rightarrow> (('w Rule \<times> pollfd) list \<times> 'w) res" where
  "expire fds [] w = Inr ([], w)"
| "expire fds (r # rs) w =
     (if rule_live fds w r
      then bind_res (expire fds rs w) (\<lambda>(polled, w'). Inr ((r, pollfd_of fds w r) # polled, w'))
      else bind_res (rl_cancel r w) (expire fds rs))"

datatype verdict = Broken | Ready | Defunct | Idle

definition verdict_of :: "poll_events \<Rightarrow> poll_events \<Rightarrow> verdict" where
  "verdict_of asked reported =
     (if reported AND (POLLERR OR POLLNVAL) \<noteq> 0 then Broken
      else if reported AND asked \<noteq> 0 then Ready
      else if asked \<noteq> 0 \<and> reported AND POLLHUP \<noteq> 0 then Defunct
      else Idle)"

definition verdicts :: "('w Rule \<times> pollfd) list \<Rightarrow> poll_events list \<Rightarrow> ('w Rule \<times> verdict) list" where
  "verdicts polled revents = map2 (\<lambda>(r, p) e. (r, verdict_of (pf_events p) e)) polled revents"

fun carry_out :: "('w \<Rightarrow> nat \<Rightarrow> FDWrapper) \<Rightarrow> ('w Rule \<times> verdict) list \<Rightarrow> 'w \<Rightarrow> 'w res" where
  "carry_out fds [] w = Inr w"
| "carry_out fds ((r, Broken) # vs) w = Inl (Runtime_error ''EventLoop: error on polled file descriptor'')"
| "carry_out fds ((r, Ready) # vs) w = bind_res (serve fds [r] w) (carry_out fds vs)"
| "carry_out fds ((r, Defunct) # vs) w = bind_res (rl_cancel r w) (carry_out fds vs)"
| "carry_out fds ((r, Idle) # vs) w = carry_out fds vs w"

lemma setup_expire:
  "EventLoop_setup fds rules w =
     bind_res (expire fds rules w) (\<lambda>(polled, w').
       Inr (map fst polled, map snd polled, list_ex (\<lambda>(r, p). pf_events p \<noteq> 0) polled, w'))"
proof (induction rules arbitrary: w)
  case (Cons r rules)
  have asked: "pf_events (pollfd_of fds w r) \<noteq> 0 \<longleftrightarrow> rl_interest r w"
    by (cases "rl_direction r") (simp_all add: pollfd_of_def POLLIN_def POLLOUT_def)
  show ?case
  proof (cases "rule_live fds w r")
    case True
    then have "EventLoop_setup fds (r # rules) w =
        bind_res (EventLoop_setup fds rules w) (\<lambda>(kept, pollfds, something_to_poll, w').
          Inr (r # kept, pollfd_of fds w r # pollfds, rl_interest r w \<or> something_to_poll, w'))"
      by (auto simp: rule_live_def pollfd_of_def Let_def)
    with True asked Cons.IH [of w] show ?thesis by (cases "expire fds rules w") (auto split: prod.split)
  next
    case False
    then have "EventLoop_setup fds (r # rules) w = bind_res (rl_cancel r w) (EventLoop_setup fds rules)"
      by (auto simp: rule_live_def Let_def)
    with False Cons.IH show ?thesis by (cases "rl_cancel r w") simp_all
  qed
qed simp

lemma results_verdicts:
  "length revents = length polled \<Longrightarrow>
     EventLoop_results fds (map fst polled) (map2 (\<lambda>p e. p\<lparr>pf_revents := e\<rparr>) (map snd polled) revents) w =
     bind_res (carry_out fds (verdicts polled revents) w) (\<lambda>w'.
       Inr (map fst (filter (\<lambda>(r, v). v \<noteq> Defunct) (verdicts polled revents)), w'))"
proof (induction polled revents arbitrary: w rule: list_induct2')
  case (4 x polled e revents)
  obtain r p where x: "x = (r, p)" by (cases x)
  let ?rest = "EventLoop_results fds (map fst polled) (map2 (\<lambda>p e. p\<lparr>pf_revents := e\<rparr>) (map snd polled) revents)"
  let ?kept = "map fst (filter (\<lambda>(r, v). v \<noteq> Defunct) (verdicts polled revents))"
  have IH: "?rest w = bind_res (carry_out fds (verdicts polled revents) w) (\<lambda>w'. Inr (?kept, w'))" for w
    using 4 by simp
  have step: "bind_res (?rest w) (\<lambda>(kept, w). Inr (r # kept, w)) =
      bind_res (carry_out fds (verdicts polled revents) w) (\<lambda>w'. Inr (r # ?kept, w'))" for w
    unfolding IH by (cases "carry_out fds (verdicts polled revents) w") simp_all
  have v: "verdicts (x # polled) (e # revents) = (r, verdict_of (pf_events p) e) # verdicts polled revents"
    by (simp add: verdicts_def x)
  show ?case
  proof (cases "verdict_of (pf_events p) e")
    case Broken
    then show ?thesis unfolding v by (simp add: x verdict_of_def split: if_splits)
  next
    case Ready
    then have "pf_events p \<noteq> 0" by (auto simp: verdict_of_def split: if_splits)
    with Ready show ?thesis
      unfolding v using step
      by (cases "rl_callback r w") (simp_all add: x verdict_of_def Let_def split: if_splits)
  next
    case Defunct
    then show ?thesis
      unfolding v using IH by (cases "rl_cancel r w") (simp_all add: x verdict_of_def Let_def split: if_splits)
  next
    case Idle
    then show ?thesis unfolding v using step by (auto simp: x verdict_of_def Let_def split: if_splits)
  qed
qed (simp_all add: verdicts_def)

section \<open>What the owner of the rules can rely on\<close>

text \<open>The contract between the loop and its rules: a condition on the world that callbacks,
  cancellations and \<^verbatim>\<open>poll\<close> keep is kept by every round, whatever the kernel reports.\<close>

locale rule_set =
  fixes rules :: "'w Rule set" and I :: "'w \<Rightarrow> bool"
    and poll :: "pollfd list \<Rightarrow> int \<Rightarrow> 'w \<Rightarrow> int \<times> int \<times> poll_events list \<times> 'w"
  assumes callback_keeps: "r \<in> rules \<Longrightarrow> I w \<Longrightarrow> rl_callback r w = Inr w' \<Longrightarrow> I w'"
    and cancel_keeps: "r \<in> rules \<Longrightarrow> I w \<Longrightarrow> rl_cancel r w = Inr w' \<Longrightarrow> I w'"
    and poll_keeps: "I w \<Longrightarrow> poll pfds timeout w = (ret, errno, revents, w') \<Longrightarrow> I w'"
begin

lemma setup_keeps:
  "set rs \<subseteq> rules \<Longrightarrow> I w \<Longrightarrow> EventLoop_setup fds rs w = Inr (kept, pfds, b, w') \<Longrightarrow> I w'"
proof (induction rs arbitrary: w kept pfds b w')
  case (Cons r rs)
  then have r: "r \<in> rules" "set rs \<subseteq> rules" by auto
  show ?case
  proof (cases "rl_direction r = In \<and> fd_eof (fds w (rl_fd r)) \<or> fd_closed (fds w (rl_fd r))")
    case True
    then obtain w1 where "rl_cancel r w = Inr w1" "EventLoop_setup fds rs w1 = Inr (kept, pfds, b, w')"
      using Cons.prems(3) by (auto simp: Let_def bind_res_Inr_iff split: if_splits)
    with Cons.IH [OF r(2)] cancel_keeps [OF r(1) Cons.prems(2)] show ?thesis by blast
  next
    case False
    then obtain k p b' where "EventLoop_setup fds rs w = Inr (k, p, b', w')"
      using Cons.prems(3) by (cases "EventLoop_setup fds rs w") (auto simp: Let_def split: prod.splits if_splits)
    with Cons.IH [OF r(2) Cons.prems(2)] show ?thesis by blast
  qed
qed simp

lemma results_keeps:
  "set rs \<subseteq> rules \<Longrightarrow> I w \<Longrightarrow> EventLoop_results fds rs pfds w = Inr (kept, w') \<Longrightarrow> I w'"
proof (induction rs arbitrary: pfds w kept w')
  case (Cons r rs)
  from Cons.prems(3) obtain p ps where pfds: "pfds = p # ps" by (cases pfds) simp_all
  have r: "r \<in> rules" "set rs \<subseteq> rules" using Cons.prems(1) by auto
  have ok: "pf_revents p AND (POLLERR OR POLLNVAL) = 0" using Cons.prems(3) pfds by (auto split: if_splits)
  obtain w1 k where w1: "EventLoop_results fds rs ps w1 = Inr (k, w')"
    "w1 = w \<or> rl_cancel r w = Inr w1 \<or> rl_callback r w = Inr w1"
  proof (cases "pf_revents p AND POLLHUP \<noteq> 0 \<and> pf_events p \<noteq> 0 \<and> \<not> pf_revents p AND pf_events p \<noteq> 0")
    case True
    then show thesis using Cons.prems(3) ok pfds that by (auto simp: Let_def bind_res_Inr_iff)
  next
    case False
    note hup = this
    let ?rest = "\<lambda>w. bind_res (EventLoop_results fds rs ps w) (\<lambda>(kept, w). Inr (r # kept, w))"
    obtain w1 where "w1 = w \<or> rl_callback r w = Inr w1" "?rest w1 = Inr (kept, w')"
    proof (cases "pf_revents p AND pf_events p \<noteq> 0")
      case True
      then obtain w1 where "rl_callback r w = Inr w1" "?rest w1 = Inr (kept, w')"
        using Cons.prems(3) ok hup unfolding pfds
        by (cases "rl_callback r w") (simp_all add: Let_def split: if_splits)
      then show thesis using that by blast
    next
      case False
      then have "?rest w = Inr (kept, w')" using Cons.prems(3) ok hup unfolding pfds by (simp add: Let_def split: if_splits)
      then show thesis using that by blast
    qed
    moreover from this(2) obtain k where "EventLoop_results fds rs ps w1 = Inr (k, w')"
      by (cases "EventLoop_results fds rs ps w1") auto
    ultimately show thesis using that by blast
  qed
  then have "I w1" using Cons.prems(2) callback_keeps [OF r(1)] cancel_keeps [OF r(1)] by blast
  from Cons.IH [OF r(2) this w1(1)] show ?case .
qed simp

lemma round_keeps:
  assumes "set rs \<subseteq> rules" and "I w" and "EventLoop_wait_next_event fds poll timeout rs w = Inr (result, rs', w')"
  shows "I w'"
proof -
  obtain kept pfds b w1 where su: "EventLoop_setup fds rs w = Inr (kept, pfds, b, w1)"
    using assms(3) by (auto simp: EventLoop_wait_next_event_def bind_res_Inr_iff)
  then have I1: "I w1" and sub: "set kept \<subseteq> rules"
    using setup_keeps [OF assms(1,2)] setup_subseq [OF su] assms(1) by (auto dest: list_emb_set)
  obtain ret errno revents w2 where pl: "poll pfds timeout w1 = (ret, errno, revents, w2)" by (metis prod_cases4)
  have I2: "I w2" by (rule poll_keeps [OF I1 pl])
  show ?thesis
    using assms(3) su pl I1 I2 results_keeps [OF sub I2]
    by (auto simp: EventLoop_wait_next_event_def Let_def bind_res_Inr_iff split: if_splits sum.splits exn.splits)
qed

end

section \<open>Properties\<close>

text \<open>
  C23. What a round of the event loop does, whatever the state of the descriptors and whatever \<^verbatim>\<open>poll\<close>
  reports. Rules on a closed descriptor, and rules that read from one at its end, are cancelled and leave.
  When no rule that is left is interested the answer is \<^verbatim>\<open>Exit\<close>; when \<^verbatim>\<open>poll\<close> reports nothing it is \<^verbatim>\<open>Timeout\<close>,
  and \<^verbatim>\<open>Exit\<close> when it is interrupted. Otherwise the rules are gone through in order: an error on a
  descriptor throws; a rule whose event was reported has its callback run once, which is a busy wait if it
  neither uses its descriptor nor loses its interest; an interested rule of which only a hang-up was
  reported is cancelled and leaves; nothing happens to any other rule, and all but the cancelled ones stay.
\<close>
theorem event_loop_round:
  assumes "\<And>polled w0. expire fds rules w = Inr (polled, w0) \<Longrightarrow>
    (case poll (map snd polled) timeout w0 of (ret, errno, revents, w1) \<Rightarrow>
       - (2 ^ 31) \<le> ret \<and> ret < 2 ^ 31 \<and> (ret < 0 \<longrightarrow> errno \<noteq> 0) \<and> length revents = length polled)"
  shows "EventLoop_wait_next_event fds poll timeout rules w =
    bind_res (expire fds rules w) (\<lambda>(polled, w0).
      if \<not> list_ex (\<lambda>(r, p). pf_events p \<noteq> 0) polled then Inr (Exit, map fst polled, w0)
      else case poll (map snd polled) timeout w0 of (ret, errno, revents, w1) \<Rightarrow>
        if ret = 0 then Inr (Timeout, map fst polled, w1)
        else if ret < 0 \<and> errno = EINTR then Inr (Exit, map fst polled, w1)
        else bind_res (carry_out fds (verdicts polled revents) w1) (\<lambda>w'.
          Inr (Success, map fst (filter (\<lambda>(r, v). v \<noteq> Defunct) (verdicts polled revents)), w')))"
proof (cases "expire fds rules w")
  case (Inl e)
  then show ?thesis by (simp add: EventLoop_wait_next_event_def setup_expire)
next
  case (Inr x)
  obtain polled w0 where x: "x = (polled, w0)" by (cases x)
  obtain ret errno revents w1 where p: "poll (map snd polled) timeout w0 = (ret, errno, revents, w1)"
    by (metis prod_cases4)
  have h: "- (2 ^ 31) \<le> ret" "ret < 2 ^ 31" "ret < 0 \<longrightarrow> errno \<noteq> 0" "length revents = length polled"
    using assms [of polled w0] Inr x p by simp_all
  have "SystemCall ''poll'' ret errno 0 = (if ret < 0 then Inl (Unix_error ''poll'' errno) else Inr ret)"
    using h(1-3) by (simp add: SystemCall_def to_int_small)
  then show ?thesis
    using Inr x p results_verdicts [OF h(4), of fds w1]
    by (cases "carry_out fds (verdicts polled revents) w1")
      (simp_all add: EventLoop_wait_next_event_def setup_expire Let_def)
qed

text \<open>The world of the examples: descriptors, the fourth at its end, and a log of what was called.\<close>

definition demo_rule :: "nat \<Rightarrow> Direction \<Rightarrow> bool \<Rightarrow> char \<Rightarrow> ((nat \<Rightarrow> FDWrapper) \<times> string) Rule" where
  "demo_rule i dir interested c =
     \<lparr>rl_fd = i, rl_direction = dir,
      rl_callback = (\<lambda>(f, l). Inr (f(i := (if dir = In then register_read else register_write) (f i)), l @ [c])),
      rl_interest = (\<lambda>_. interested), rl_cancel = (\<lambda>(f, l). Inr (f, l @ ''x'' @ [c]))\<rparr>"

definition demo_world :: "(nat \<Rightarrow> FDWrapper) \<times> string" where
  "demo_world = (\<lambda>i. \<lparr>fd_fd = int i, fd_eof = (i = 4), fd_closed = False, fd_read_count = 0, fd_write_count = 0\<rparr>, [])"

theorem event_loop_round_witness:
  "(let poll = (\<lambda>pfds t w. (3 :: int, 0 :: int, [POLLIN, POLLIN, POLLOUT OR POLLHUP, POLLHUP], w))
    in \<exists>f. EventLoop_wait_next_event fst poll 10
         [demo_rule 0 In True CHR ''a'', demo_rule 1 In False CHR ''b'', demo_rule 4 In True CHR ''e'', demo_rule 2 Out True CHR ''c'',
          demo_rule 3 In True CHR ''d''] demo_world =
       Inr (Success, [demo_rule 0 In True CHR ''a'', demo_rule 1 In False CHR ''b'', demo_rule 2 Out True CHR ''c''],
         f, ''xeacxd''))"
proof -
  let ?a = "demo_rule 0 In True CHR ''a''" and ?b = "demo_rule 1 In False CHR ''b''"
  let ?c = "demo_rule 2 Out True CHR ''c''" and ?d = "demo_rule 3 In True CHR ''d''"
  let ?e = "demo_rule 4 In True CHR ''e''" and ?rules = "\<lambda>a b e c d. [a, b, e, c, d]"
  let ?poll = "\<lambda>pfds t w. (3 :: int, 0 :: int, [POLLIN, POLLIN, POLLOUT OR POLLHUP, POLLHUP], w)"
  have ex: "\<exists>f. expire fst (?rules ?a ?b ?e ?c ?d) demo_world =
      Inr ([(?a, pollfd_of fst demo_world ?a), (?b, pollfd_of fst demo_world ?b),
        (?c, pollfd_of fst (f, ''xe'') ?c), (?d, pollfd_of fst (f, ''xe'') ?d)], f, ''xe'') \<and> f = fst demo_world"
    by (simp add: demo_rule_def demo_world_def rule_live_def)
  have "EventLoop_wait_next_event fst ?poll 10 (?rules ?a ?b ?e ?c ?d) demo_world =
    bind_res (expire fst (?rules ?a ?b ?e ?c ?d) demo_world) (\<lambda>(polled, w0).
      if \<not> list_ex (\<lambda>(r, p). pf_events p \<noteq> 0) polled then Inr (Exit, map fst polled, w0)
      else case ?poll (map snd polled) 10 w0 of (ret, errno, revents, w1) \<Rightarrow>
        if ret = 0 then Inr (Timeout, map fst polled, w1)
        else if ret < 0 \<and> errno = EINTR then Inr (Exit, map fst polled, w1)
        else bind_res (carry_out fst (verdicts polled revents) w1) (\<lambda>w'.
          Inr (Success, map fst (filter (\<lambda>(r, v). v \<noteq> Defunct) (verdicts polled revents)), w')))"
    by (rule event_loop_round) (use ex in auto)
  with ex show ?thesis
    by (auto simp: Let_def demo_rule_def demo_world_def pollfd_of_def verdicts_def verdict_of_def Rule_service_count_def
        POLLIN_def POLLOUT_def POLLHUP_def POLLERR_def POLLNVAL_def register_read_def register_write_def)
qed

text \<open>
  Rules only leave. Whatever the callbacks and the kernel do, the rules after a round that returns
  are some of those before it, in the same order.
\<close>
lemma event_loop_keeps_rules:
  "EventLoop_wait_next_event fds poll timeout rules w = Inr (result, rules', w') \<Longrightarrow> subseq rules' rules"
  unfolding EventLoop_wait_next_event_def
  using subseq_order.order_trans
  by (auto simp: bind_res_Inr_iff Let_def split: if_splits prod.splits sum.splits exn.splits
      dest!: setup_subseq results_subseq)

text \<open>
  Two findings. An error of \<^verbatim>\<open>poll\<close> other than an interrupt is not reported: the exception is caught and
  dropped, and the round ends as a success in which nothing ran. And a hang-up on a descriptor whose
  rule is not interested at the moment has no effect: \<^verbatim>\<open>poll\<close> returns at once, every time, while the round
  does nothing and the rule stays, so that the loop spins.
\<close>

lemma poll_error_ignored:
  assumes "list_all (rule_live fds w) rules" and "list_ex (\<lambda>r. rl_interest r w) rules"
    and "poll (map (pollfd_of fds w) rules) timeout w = (-1, errno, replicate (length rules) 0, w)"
    and "errno \<noteq> 0" "errno \<noteq> EINTR"
  shows "EventLoop_wait_next_event fds poll timeout rules w = Inr (Success, rules, w)"
proof -
  have "list_all quiet (replicate (length rules) 0)" by (simp add: list_all_iff quiet_def)
  from results_serve [OF _ this, of rules fds w w]
  have "EventLoop_results fds rules (map2 (\<lambda>p e. p\<lparr>pf_revents := e\<rparr>) (map (pollfd_of fds w) rules)
      (replicate (length rules) 0)) w =
      bind_res (serve fds (ready_rules w rules (replicate (length rules) 0)) w) (\<lambda>w'. Inr (rules, w'))" by simp
  moreover have "ready_rules w rules (replicate (length rules) 0) = []"
    by (auto simp: ready_rules_def filter_empty_conv set_zip)
  moreover have "SystemCall ''poll'' (-1) errno 0 = Inl (Unix_error ''poll'' errno)"
    using assms(4) by (simp add: SystemCall_def to_int_small)
  ultimately show ?thesis
    using assms setup_live [OF assms(1)] by (simp add: EventLoop_wait_next_event_def Let_def)
qed

lemma hangup_spins:
  assumes "rule_live fds w r" "rule_live fds w r'" "\<not> rl_interest r w" "rl_interest r' w"
    and "poll (map (pollfd_of fds w) [r, r']) timeout w = (1, 0, [POLLHUP, 0], w)"
  shows "EventLoop_wait_next_event fds poll timeout [r, r'] w = Inr (Success, [r, r'], w)"
proof -
  have "SystemCall ''poll'' 1 0 0 = Inr 1" by (simp add: SystemCall_def to_int_small)
  then show ?thesis
    using assms setup_live [of fds w "[r, r']"]
    by (simp add: EventLoop_wait_next_event_def Let_def pollfd_of_def POLLHUP_def POLLERR_def POLLNVAL_def)
qed

end
