(* ===== verification/Sockets.thy ===== *)
theory Sockets
  imports FileDescriptors
begin

text \<open>
  \<^verbatim>\<open>libsponge/util/socket.*\<close>: sockets of the kernel. As for file descriptors, a system call is an argument that
  gives its return value, \<^verbatim>\<open>errno\<close> and what it stored through its pointers. The lemmas are about
  \<^verbatim>\<open>UDPSocket\<close>: a datagram is received whole or refused, and one that was not sent whole is reported.
\<close>

section \<open>Socket\<close>

definition SOL_SOCKET :: int where "SOL_SOCKET = 1"
definition SO_REUSEADDR :: int where "SO_REUSEADDR = 2"
definition SO_TYPE :: int where "SO_TYPE = 3"
definition SO_DOMAIN :: int where "SO_DOMAIN = 39"
definition SHUT_RD :: int where "SHUT_RD = 0"
definition SHUT_WR :: int where "SHUT_WR = 1"
definition SHUT_RDWR :: int where "SHUT_RDWR = 2"
definition SOCK_STREAM :: int where "SOCK_STREAM = 1"
definition SOCK_DGRAM :: int where "SOCK_DGRAM = 2"
definition MSG_TRUNC :: int where "MSG_TRUNC = 0x20"

definition Socket_new :: "(int \<Rightarrow> int \<Rightarrow> int \<Rightarrow> 'k \<Rightarrow> int \<times> int \<times> 'k) \<Rightarrow> int \<Rightarrow> int \<Rightarrow> 'k \<Rightarrow> (FDWrapper \<times> 'k) res" where
  "Socket_new socket domain type k =
     (let (ret, errno, k) = socket domain type 0 k in
      bind_res (SystemCall ''socket'' ret errno 0) (\<lambda>n.
      bind_res (FDWrapper_new n) (\<lambda>fd. Inr (fd, k))))"

definition Socket_of_fd ::
    "(int \<Rightarrow> int \<Rightarrow> int \<Rightarrow> 'k \<Rightarrow> int \<times> int \<times> int \<times> u32 \<times> 'k) \<Rightarrow> FDWrapper \<Rightarrow> int \<Rightarrow> int \<Rightarrow> 'k \<Rightarrow> (FDWrapper \<times> 'k) res" where
  "Socket_of_fd getsockopt fd domain type k =
     (let (ret, errno, actual_value, len, k) = getsockopt (fd_fd fd) SOL_SOCKET SO_DOMAIN k in
      bind_res (SystemCall ''getsockopt'' ret errno 0) (\<lambda>_.
      if len \<noteq> 4 \<or> actual_value \<noteq> domain then Inl (Runtime_error ''socket domain mismatch'')
      else
        let (ret, errno, actual_value, len, k) = getsockopt (fd_fd fd) SOL_SOCKET SO_TYPE k in
        bind_res (SystemCall ''getsockopt'' ret errno 0) (\<lambda>_.
        if len \<noteq> 4 \<or> actual_value \<noteq> type then Inl (Runtime_error ''socket type mismatch'')
        else Inr (fd, k))))"

definition Socket_get_address ::
    "string \<Rightarrow> (int \<Rightarrow> 'k \<Rightarrow> int \<times> int \<times> byte list \<times> u32 \<times> 'k) \<Rightarrow> FDWrapper \<Rightarrow> 'k \<Rightarrow> (Address \<times> 'k) res" where
  "Socket_get_address name_of_function function fd k =
     (let (ret, errno, address, size, k) = function (fd_fd fd) k in
      bind_res (SystemCall name_of_function ret errno 0) (\<lambda>_.
      bind_res (Address_of_sockaddr address (ucast size)) (\<lambda>a. Inr (a, k))))"

definition Socket_local_address ::
    "(int \<Rightarrow> 'k \<Rightarrow> int \<times> int \<times> byte list \<times> u32 \<times> 'k) \<Rightarrow> FDWrapper \<Rightarrow> 'k \<Rightarrow> (Address \<times> 'k) res" where
  "Socket_local_address getsockname = Socket_get_address ''getsockname'' getsockname"

definition Socket_peer_address ::
    "(int \<Rightarrow> 'k \<Rightarrow> int \<times> int \<times> byte list \<times> u32 \<times> 'k) \<Rightarrow> FDWrapper \<Rightarrow> 'k \<Rightarrow> (Address \<times> 'k) res" where
  "Socket_peer_address getpeername = Socket_get_address ''getpeername'' getpeername"

definition Socket_bind ::
    "(int \<Rightarrow> byte list \<Rightarrow> u32 \<Rightarrow> 'k \<Rightarrow> int \<times> int \<times> 'k) \<Rightarrow> Address \<Rightarrow> FDWrapper \<Rightarrow> 'k \<Rightarrow> 'k res" where
  "Socket_bind bind address fd k =
     (let (ret, errno, k) = bind (fd_fd fd) (ad_storage address) (ad_size address) k in
      bind_res (SystemCall ''bind'' ret errno 0) (\<lambda>_. Inr k))"

definition Socket_connect ::
    "(int \<Rightarrow> byte list \<Rightarrow> u32 \<Rightarrow> 'k \<Rightarrow> int \<times> int \<times> 'k) \<Rightarrow> Address \<Rightarrow> FDWrapper \<Rightarrow> 'k \<Rightarrow> 'k res" where
  "Socket_connect connect address fd k =
     (let (ret, errno, k) = connect (fd_fd fd) (ad_storage address) (ad_size address) k in
      bind_res (SystemCall ''connect'' ret errno 0) (\<lambda>_. Inr k))"

definition Socket_shutdown ::
    "(int \<Rightarrow> int \<Rightarrow> 'k \<Rightarrow> int \<times> int \<times> 'k) \<Rightarrow> int \<Rightarrow> FDWrapper \<Rightarrow> 'k \<Rightarrow> (FDWrapper \<times> 'k) res" where
  "Socket_shutdown shutdown how fd k =
     (let (ret, errno, k) = shutdown (fd_fd fd) how k in
      bind_res (SystemCall ''shutdown'' ret errno 0) (\<lambda>_.
      if how = SHUT_RD then Inr (register_read fd, k)
      else if how = SHUT_WR then Inr (register_write fd, k)
      else if how = SHUT_RDWR then Inr (register_write (register_read fd), k)
      else Inl (Runtime_error ''Socket::shutdown() called with invalid `how`'')))"

definition Socket_setsockopt ::
    "(int \<Rightarrow> int \<Rightarrow> int \<Rightarrow> int \<Rightarrow> 'k \<Rightarrow> int \<times> int \<times> 'k) \<Rightarrow> int \<Rightarrow> int \<Rightarrow> int \<Rightarrow> FDWrapper \<Rightarrow> 'k \<Rightarrow> 'k res" where
  "Socket_setsockopt setsockopt level option_name option_value fd k =
     (let (ret, errno, k) = setsockopt (fd_fd fd) level option_name option_value k in
      bind_res (SystemCall ''setsockopt'' ret errno 0) (\<lambda>_. Inr k))"

definition Socket_set_reuseaddr ::
    "(int \<Rightarrow> int \<Rightarrow> int \<Rightarrow> int \<Rightarrow> 'k \<Rightarrow> int \<times> int \<times> 'k) \<Rightarrow> FDWrapper \<Rightarrow> 'k \<Rightarrow> 'k res" where
  "Socket_set_reuseaddr setsockopt = Socket_setsockopt setsockopt SOL_SOCKET SO_REUSEADDR 1"

section \<open>UDPSocket and TCPSocket\<close>

record received_datagram =
  rd_source_address :: Address
  rd_payload :: "byte list"

definition UDPSocket_recv ::
    "(int \<Rightarrow> size_t \<Rightarrow> int \<Rightarrow> 'k \<Rightarrow> int \<times> int \<times> byte list \<times> byte list \<times> u32 \<times> 'k) \<Rightarrow> size_t \<Rightarrow> FDWrapper \<Rightarrow> 'k \<Rightarrow>
     (received_datagram \<times> FDWrapper \<times> 'k) res" where
  "UDPSocket_recv recvfrom mtu fd k =
     (let (ret, errno, stored, datagram_source_address, fromlen, k) = recvfrom (fd_fd fd) mtu MSG_TRUNC k;
          payload = take (unat mtu) (stored @ drop (length stored) (replicate (unat mtu) 0))
      in
      bind_res (SystemCall ''recvfrom'' ret errno 0) (\<lambda>recv_len.
      if recv_len > sint mtu then Inl (Runtime_error ''recvfrom (oversized datagram)'')
      else
        bind_res (Address_of_sockaddr datagram_source_address (ucast fromlen)) (\<lambda>source_address.
        if recv_len < 0 then Inl (Out_of_range ''basic_string::resize'')
        else Inr (\<lparr>rd_source_address = source_address, rd_payload = take (nat recv_len) payload\<rparr>, register_read fd, k))))"

definition sendmsg_helper ::
    "(int \<Rightarrow> (byte list \<times> u32) option \<Rightarrow> (byte list \<times> size_t) list \<Rightarrow> 'k \<Rightarrow> int \<times> int \<times> 'k) \<Rightarrow> int \<Rightarrow>
     (byte list \<times> u32) option \<Rightarrow> BufferViewList \<Rightarrow> 'k \<Rightarrow> 'k res" where
  "sendmsg_helper sendmsg fd_num destination_address payload k =
     (let (ret, errno, k) = sendmsg fd_num destination_address (BufferViewList_as_iovecs payload) k in
      bind_res (SystemCall ''sendmsg'' ret errno 0) (\<lambda>bytes_sent.
      if (of_int bytes_sent :: size_t) \<noteq> BufferViewList_size payload
      then Inl (Runtime_error ''datagram payload too big for sendmsg()'') else Inr k))"

definition UDPSocket_sendto ::
    "(int \<Rightarrow> (byte list \<times> u32) option \<Rightarrow> (byte list \<times> size_t) list \<Rightarrow> 'k \<Rightarrow> int \<times> int \<times> 'k) \<Rightarrow> Address \<Rightarrow>
     BufferViewList \<Rightarrow> FDWrapper \<Rightarrow> 'k \<Rightarrow> (FDWrapper \<times> 'k) res" where
  "UDPSocket_sendto sendmsg destination payload fd k =
     bind_res (sendmsg_helper sendmsg (fd_fd fd) (Some (ad_storage destination, ad_size destination)) payload k) (\<lambda>k.
     Inr (register_write fd, k))"

definition UDPSocket_send ::
    "(int \<Rightarrow> (byte list \<times> u32) option \<Rightarrow> (byte list \<times> size_t) list \<Rightarrow> 'k \<Rightarrow> int \<times> int \<times> 'k) \<Rightarrow>
     BufferViewList \<Rightarrow> FDWrapper \<Rightarrow> 'k \<Rightarrow> (FDWrapper \<times> 'k) res" where
  "UDPSocket_send sendmsg payload fd k =
     bind_res (sendmsg_helper sendmsg (fd_fd fd) None payload k) (\<lambda>k. Inr (register_write fd, k))"

definition TCPSocket_listen :: "(int \<Rightarrow> int \<Rightarrow> 'k \<Rightarrow> int \<times> int \<times> 'k) \<Rightarrow> int \<Rightarrow> FDWrapper \<Rightarrow> 'k \<Rightarrow> 'k res" where
  "TCPSocket_listen listen backlog fd k =
     (let (ret, errno, k) = listen (fd_fd fd) backlog k in
      bind_res (SystemCall ''listen'' ret errno 0) (\<lambda>_. Inr k))"

definition TCPSocket_accept ::
    "(int \<Rightarrow> 'k \<Rightarrow> int \<times> int \<times> 'k) \<Rightarrow> (int \<Rightarrow> int \<Rightarrow> int \<Rightarrow> 'k \<Rightarrow> int \<times> int \<times> int \<times> u32 \<times> 'k) \<Rightarrow> FDWrapper \<Rightarrow> 'k \<Rightarrow>
     (FDWrapper \<times> FDWrapper \<times> 'k) res" where
  "TCPSocket_accept accept getsockopt fd k =
     (let fd = register_read fd; (ret, errno, k) = accept (fd_fd fd) k in
      bind_res (SystemCall ''accept'' ret errno 0) (\<lambda>n.
      bind_res (FDWrapper_new n) (\<lambda>conn.
      bind_res (Socket_of_fd getsockopt conn INET SOCK_STREAM k) (\<lambda>(conn, k). Inr (fd, conn, k)))))"

section \<open>Datagrams are received whole or not at all\<close>

text \<open>
  The documented behaviour of \<^verbatim>\<open>recvfrom\<close> with \<^verbatim>\<open>MSG_TRUNC\<close> on a datagram socket: it stores what fits of the next
  datagram and returns the length of the datagram, also when it did not fit.
\<close>

lemma sint_of_nat: "n < 2 ^ 63 \<Longrightarrow> sint (of_nat n :: size_t) = int n"
  by (simp add: signed_of_nat signed_take_bit_int_eq_self_iff)

lemma udp_recv_whole:
  assumes "recvfrom (fd_fd fd) mtu MSG_TRUNC k = (int (length d), errno, take (unat mtu) d, addr, fromlen, k')"
    and "length d < 2 ^ 31" and "unat mtu < 2 ^ 63" and "Address_of_sockaddr addr (ucast fromlen) = Inr src"
  shows "UDPSocket_recv recvfrom mtu fd k =
    (if length d \<le> unat mtu then Inr (\<lparr>rd_source_address = src, rd_payload = d\<rparr>, register_read fd, k')
     else Inl (Runtime_error ''recvfrom (oversized datagram)''))"
proof -
  have "SystemCall ''recvfrom'' (int (length d)) errno 0 = Inr (int (length d))"
    using assms(2) by (simp add: SystemCall_def to_int_small)
  moreover have "sint mtu = int (unat mtu)" using sint_of_nat [OF assms(3)] by simp
  moreover from this have "sint mtu < int (length d) \<longleftrightarrow> \<not> length d \<le> unat mtu" by (simp only: of_nat_less_iff not_le)
  ultimately show ?thesis using assms(1,4) by (simp add: UDPSocket_recv_def Let_def)
qed

lemma udp_send_whole:
  assumes "sendmsg (fd_fd fd) None (BufferViewList_as_iovecs payload) k = (int n, errno, k')" and "n < 2 ^ 31"
    and "length (concat payload) < 2 ^ 31"
  shows "UDPSocket_send sendmsg payload fd k =
    (if n = length (concat payload) then Inr (register_write fd, k')
     else Inl (Runtime_error ''datagram payload too big for sendmsg()''))"
proof -
  have "SystemCall ''sendmsg'' (int n) errno 0 = Inr (int n)" using assms(2) by (simp add: SystemCall_def to_int_small)
  moreover have "(of_nat n :: size_t) = of_nat (length (concat payload)) \<longleftrightarrow> n = length (concat payload)"
    using assms(2,3) by (simp add: word_unat_eq_iff unat_of_nat)
  ultimately show ?thesis
    using assms(1) views_size [OF assms(3)] by (simp add: UDPSocket_send_def sendmsg_helper_def sz_def)
qed

end
