(* ===== verification/StreamCopies.thy ===== *)
theory StreamCopies
  imports EventLoops Sockets ByteStreams
begin

text \<open>
  \<^verbatim>\<open>apps/bidirectional_stream_copy.cc\<close>: standard input is copied to a socket and the socket to standard output,
  through two byte streams, by four rules of an event loop. The system calls are the fields of
  \<open>copy_env\<close>. The main result is that no byte is lost, repeated or reordered in either direction, after any
  number of rounds. The closing of the two standard descriptors when the function returns is left out.
\<close>

section \<open>The model\<close>

record 'k stream_copy =
  cp_input :: FDWrapper
  cp_output :: FDWrapper
  cp_socket :: FDWrapper
  cp_outbound :: ByteStream
  cp_inbound :: ByteStream
  cp_outbound_shutdown :: bool
  cp_inbound_shutdown :: bool
  cp_kernel :: 'k

record 'k copy_env =
  ce_read :: "int \<Rightarrow> size_t \<Rightarrow> 'k \<Rightarrow> int \<times> int \<times> byte list \<times> 'k"
  ce_writev :: "int \<Rightarrow> (byte list \<times> size_t) list \<Rightarrow> 'k \<Rightarrow> int \<times> int \<times> 'k"
  ce_shutdown :: "int \<Rightarrow> int \<Rightarrow> 'k \<Rightarrow> int \<times> int \<times> 'k"
  ce_close :: "int \<Rightarrow> 'k \<Rightarrow> int \<times> int \<times> 'k"
  ce_fcntl :: "int \<Rightarrow> int \<Rightarrow> int \<Rightarrow> 'k \<Rightarrow> int \<times> int \<times> 'k"
  ce_poll :: "pollfd list \<Rightarrow> int \<Rightarrow> 'k \<Rightarrow> int \<times> int \<times> poll_events list \<times> 'k"

definition STDIN_FILENO :: int where "STDIN_FILENO = 0"
definition STDOUT_FILENO :: int where "STDOUT_FILENO = 1"
definition max_copy_length :: size_t where "max_copy_length = 65536"
definition copy_buffer_size :: size_t where "copy_buffer_size = 1048576"

definition input_in :: "'k copy_env \<Rightarrow> 'k stream_copy \<Rightarrow> 'k stream_copy res" where
  "input_in E s =
     bind_res (FileDescriptor_read (ce_read E) (ByteStream_remaining_capacity (cp_outbound s)) (cp_input s) (cp_kernel s))
       (\<lambda>(data, fd, k).
     let b = fst (ByteStream_write data (cp_outbound s));
         b = (if fd_eof fd then ByteStream_end_input b else b)
     in Inr (s\<lparr>cp_outbound := b, cp_input := fd, cp_kernel := k\<rparr>))"

definition input_in_interest :: "'k stream_copy \<Rightarrow> bool" where
  "input_in_interest s \<longleftrightarrow>
     \<not> ByteStream_error (cp_outbound s) \<and> ByteStream_remaining_capacity (cp_outbound s) > 0 \<and>
     \<not> ByteStream_error (cp_inbound s)"

definition socket_out :: "'k copy_env \<Rightarrow> 'k stream_copy \<Rightarrow> 'k stream_copy res" where
  "socket_out E s =
     (let bytes_to_write = min max_copy_length (ByteStream_buffer_size (cp_outbound s)) in
      bind_res (FileDescriptor_write (ce_writev E) False 0
          (BufferViewList_of_string (ByteStream_peek_output bytes_to_write (cp_outbound s))) (cp_socket s) (cp_kernel s))
        (\<lambda>(bytes_written, fd, k).
      bind_res (ByteStream_pop_output bytes_written (cp_outbound s)) (\<lambda>b.
      let s = s\<lparr>cp_outbound := b, cp_socket := fd, cp_kernel := k\<rparr> in
      if ByteStream_eof b then
        bind_res (Socket_shutdown (ce_shutdown E) SHUT_WR (cp_socket s) (cp_kernel s)) (\<lambda>(fd, k).
        Inr (s\<lparr>cp_socket := fd, cp_kernel := k, cp_outbound_shutdown := True\<rparr>))
      else Inr s)))"

definition socket_out_interest :: "'k stream_copy \<Rightarrow> bool" where
  "socket_out_interest s \<longleftrightarrow>
     \<not> ByteStream_buffer_empty (cp_outbound s) \<or> ByteStream_eof (cp_outbound s) \<and> \<not> cp_outbound_shutdown s"

definition end_outbound :: "'k stream_copy \<Rightarrow> 'k stream_copy res" where
  "end_outbound s = Inr (s\<lparr>cp_outbound := ByteStream_end_input (cp_outbound s)\<rparr>)"

definition socket_in :: "'k copy_env \<Rightarrow> 'k stream_copy \<Rightarrow> 'k stream_copy res" where
  "socket_in E s =
     bind_res (FileDescriptor_read (ce_read E) (ByteStream_remaining_capacity (cp_inbound s)) (cp_socket s) (cp_kernel s))
       (\<lambda>(data, fd, k).
     let b = fst (ByteStream_write data (cp_inbound s));
         b = (if fd_eof fd then ByteStream_end_input b else b)
     in Inr (s\<lparr>cp_inbound := b, cp_socket := fd, cp_kernel := k\<rparr>))"

definition socket_in_interest :: "'k stream_copy \<Rightarrow> bool" where
  "socket_in_interest s \<longleftrightarrow>
     \<not> ByteStream_error (cp_inbound s) \<and> ByteStream_remaining_capacity (cp_inbound s) > 0 \<and>
     \<not> ByteStream_error (cp_outbound s)"

definition output_out :: "'k copy_env \<Rightarrow> 'k stream_copy \<Rightarrow> 'k stream_copy res" where
  "output_out E s =
     (let bytes_to_write = min max_copy_length (ByteStream_buffer_size (cp_inbound s)) in
      bind_res (FileDescriptor_write (ce_writev E) False 0
          (BufferViewList_of_string (ByteStream_peek_output bytes_to_write (cp_inbound s))) (cp_output s) (cp_kernel s))
        (\<lambda>(bytes_written, fd, k).
      bind_res (ByteStream_pop_output bytes_written (cp_inbound s)) (\<lambda>b.
      let s = s\<lparr>cp_inbound := b, cp_output := fd, cp_kernel := k\<rparr> in
      if ByteStream_eof b then
        bind_res (FDWrapper_close (ce_close E) (cp_output s) (cp_kernel s)) (\<lambda>(fd, k).
        Inr (s\<lparr>cp_output := fd, cp_kernel := k, cp_inbound_shutdown := True\<rparr>))
      else Inr s)))"

definition output_out_interest :: "'k stream_copy \<Rightarrow> bool" where
  "output_out_interest s \<longleftrightarrow>
     \<not> ByteStream_buffer_empty (cp_inbound s) \<or> ByteStream_eof (cp_inbound s) \<and> \<not> cp_inbound_shutdown s"

definition end_inbound :: "'k stream_copy \<Rightarrow> 'k stream_copy res" where
  "end_inbound s = Inr (s\<lparr>cp_inbound := ByteStream_end_input (cp_inbound s)\<rparr>)"

text \<open>The descriptors of the rules are numbered: 0 the input, 1 the output, 2 the socket.\<close>

definition copy_fds :: "'k stream_copy \<Rightarrow> nat \<Rightarrow> FDWrapper" where
  "copy_fds s i = (if i = 0 then cp_input s else if i = 1 then cp_output s else cp_socket s)"

definition copy_poll ::
    "'k copy_env \<Rightarrow> pollfd list \<Rightarrow> int \<Rightarrow> 'k stream_copy \<Rightarrow> int \<times> int \<times> poll_events list \<times> 'k stream_copy" where
  "copy_poll E pfds timeout s =
     (let (ret, errno, revents, k) = ce_poll E pfds timeout (cp_kernel s) in (ret, errno, revents, s\<lparr>cp_kernel := k\<rparr>))"

definition copy_rules :: "'k copy_env \<Rightarrow> 'k stream_copy Rule list" where
  "copy_rules E =
     EventLoop_add_rule 1 Out (output_out E) output_out_interest end_inbound
       (EventLoop_add_rule 2 In (socket_in E) socket_in_interest end_inbound
         (EventLoop_add_rule 2 Out (socket_out E) socket_out_interest end_outbound
           (EventLoop_add_rule 0 In (input_in E) input_in_interest end_outbound [])))"

definition copy_start :: "'k copy_env \<Rightarrow> FDWrapper \<Rightarrow> 'k \<Rightarrow> 'k stream_copy res" where
  "copy_start E socket k =
     bind_res (FDWrapper_new STDIN_FILENO) (\<lambda>input.
     bind_res (FDWrapper_new STDOUT_FILENO) (\<lambda>output.
     bind_res (FileDescriptor_set_blocking (ce_fcntl E) False socket k) (\<lambda>k.
     bind_res (FileDescriptor_set_blocking (ce_fcntl E) False input k) (\<lambda>k.
     bind_res (FileDescriptor_set_blocking (ce_fcntl E) False output k) (\<lambda>k.
     Inr \<lparr>cp_input = input, cp_output = output, cp_socket = socket,
       cp_outbound = ByteStream_new copy_buffer_size, cp_inbound = ByteStream_new copy_buffer_size,
       cp_outbound_shutdown = False, cp_inbound_shutdown = False, cp_kernel = k\<rparr>)))))"

partial_function (option) copy_loop ::
    "'k copy_env \<Rightarrow> 'k stream_copy Rule list \<Rightarrow> 'k stream_copy \<Rightarrow> 'k stream_copy res option" where
  "copy_loop E rules s =
     (case EventLoop_wait_next_event copy_fds (copy_poll E) (-1) rules s of
        Inl e \<Rightarrow> Some (Inl e)
      | Inr (result, rules, s) \<Rightarrow> if result = Exit then Some (Inr s) else copy_loop E rules s)"

definition bidirectional_stream_copy :: "'k copy_env \<Rightarrow> FDWrapper \<Rightarrow> 'k \<Rightarrow> 'k stream_copy res option" where
  "bidirectional_stream_copy E socket k =
     (case copy_start E socket k of Inl e \<Rightarrow> Some (Inl e) | Inr s \<Rightarrow> copy_loop E (copy_rules E) s)"

text \<open>The states between the rounds of the loop.\<close>

inductive copy_reach :: "'k copy_env \<Rightarrow> FDWrapper \<Rightarrow> 'k \<Rightarrow> 'k stream_copy Rule list \<Rightarrow> 'k stream_copy \<Rightarrow> bool"
  for E socket k where
  start: "copy_start E socket k = Inr s \<Longrightarrow> copy_reach E socket k (copy_rules E) s"
| turn: "copy_reach E socket k rules s \<Longrightarrow>
    EventLoop_wait_next_event copy_fds (copy_poll E) (-1) rules s = Inr (result, rules', s') \<Longrightarrow>
    copy_reach E socket k rules' s'"

section \<open>Moving bytes between a stream and a descriptor\<close>

lemma ByteStream_write_fitting:
  assumes "ByteStream_inv b" and "length data \<le> unat (ByteStream_remaining_capacity b)"
  shows "ByteStream_inv (fst (ByteStream_write data b))" "snd (ByteStream_write data b) = sz data"
    "ByteStream_contents (fst (ByteStream_write data b)) = ByteStream_contents b @ data"
proof -
  have fits: "fits data" using assms(2) by (rule le_less_trans) simp
  obtain b' n where w: "ByteStream_write data b = (b', n)" by fastforce
  note c = ByteStream_write_contents [OF assms(1) fits w]
  have n: "unat n = length data" using c(2) assms(2) ByteStream_remaining_unat [OF assms(1)] by simp
  show "ByteStream_inv (fst (ByteStream_write data b))"
    "ByteStream_contents (fst (ByteStream_write data b)) = ByteStream_contents b @ data"
    using c(1,3) w n by simp_all
  show "snd (ByteStream_write data b) = sz data" using w n fits by (simp add: word_unat_eq_iff)
qed

lemma front_small:
  assumes "ByteStream_inv b"
  shows "length (concat (BufferViewList_of_string (ByteStream_peek_output (min 65536 (ByteStream_buffer_size b)) b))) < 2 ^ 31"
proof -
  have "unat (min 65536 (ByteStream_buffer_size b)) \<le> 65536" by (simp add: min_def word_le_nat_alt)
  then show ?thesis by (simp add: BufferViewList_of_string_def ByteStream_peek_output_eq [OF assms])
qed

text \<open>Writing the front of a stream to a descriptor and popping what was taken keeps what was
  written followed by what is buffered.\<close>

lemma write_front:
  fixes b :: ByteStream and fd :: FDWrapper
  defines "front \<equiv> BufferViewList_of_string (ByteStream_peek_output (min 65536 (ByteStream_buffer_size b)) b)"
  assumes inv: "ByteStream_inv b" and law: "writev_lawful writev out"
    and w: "FileDescriptor_write writev False 0 front fd k = Inr (n, fd', k')"
  obtains b' where "ByteStream_pop_output n b = Inr b'" "ByteStream_inv b'"
    "out k' @ ByteStream_contents b' = out k @ ByteStream_contents b"
proof -
  let ?m = "unat (min 65536 (ByteStream_buffer_size b))"
  have front: "concat front = take ?m (ByteStream_contents b)"
    by (simp add: front_def BufferViewList_of_string_def ByteStream_peek_output_eq [OF inv])
  have small: "length (concat front) < 2 ^ 31" unfolding front_def by (rule front_small [OF inv])
  have wd: "write_done out False (concat front) n k k'"
    using fd_write_correct [OF law small, where all = False and t = 0 and fd = fd and k = k] w by simp
  obtain b' where b': "ByteStream_pop_output n b = Inr b'" "ByteStream_inv b'"
    "ByteStream_contents b' = drop (unat n) (ByteStream_contents b)"
    by (rule ByteStream_pop_output_ok [OF inv, of n])
  have "unat n \<le> length (concat front)" using wd by (simp add: write_done_def)
  then have "unat n \<le> ?m" unfolding front by simp
  then have "take (unat n) (concat front) = take (unat n) (ByteStream_contents b)"
    unfolding front by (simp add: min_absorb1)
  then show thesis using that [OF b'(1,2)] b'(3) wd by (simp add: write_done_def)
qed

section \<open>Nothing is lost, repeated or reordered\<close>

text \<open>
  What the copy relies on of the kernel: \<open>pend fd\<close> is what is still to be read from a descriptor and \<open>wrote fd\<close> all
  that was written to it. Reading and writing keep the contracts of the two calls on their descriptor and
  leave the other descriptors alone; the other calls move no bytes.
\<close>

definition untouched :: "(int \<Rightarrow> 'k \<Rightarrow> byte list) \<Rightarrow> (int \<Rightarrow> 'k \<Rightarrow> byte list) \<Rightarrow> 'k \<Rightarrow> 'k \<Rightarrow> bool" where
  "untouched pend wrote k k' \<longleftrightarrow> (\<forall>fd. pend fd k' = pend fd k \<and> wrote fd k' = wrote fd k)"

definition copy_lawful :: "'k copy_env \<Rightarrow> (int \<Rightarrow> 'k \<Rightarrow> byte list) \<Rightarrow> (int \<Rightarrow> 'k \<Rightarrow> byte list) \<Rightarrow> bool" where
  "copy_lawful E pend wrote \<longleftrightarrow>
     (\<forall>fd. read_lawful (\<lambda>_. ce_read E fd) (pend fd)) \<and> (\<forall>fd. writev_lawful (\<lambda>_. ce_writev E fd) (wrote fd)) \<and>
     (\<forall>fd n k ret errno stored k'. ce_read E fd n k = (ret, errno, stored, k') \<longrightarrow>
        (\<forall>fd'. wrote fd' k' = wrote fd' k \<and> (fd' \<noteq> fd \<longrightarrow> pend fd' k' = pend fd' k))) \<and>
     (\<forall>fd iovecs k ret errno k'. ce_writev E fd iovecs k = (ret, errno, k') \<longrightarrow>
        (\<forall>fd'. pend fd' k' = pend fd' k \<and> (fd' \<noteq> fd \<longrightarrow> wrote fd' k' = wrote fd' k))) \<and>
     (\<forall>fd how k. untouched pend wrote k (snd (snd (ce_shutdown E fd how k)))) \<and>
     (\<forall>fd k. untouched pend wrote k (snd (snd (ce_close E fd k)))) \<and>
     (\<forall>fd cmd arg k. untouched pend wrote k (snd (snd (ce_fcntl E fd cmd arg k)))) \<and>
     (\<forall>pfds timeout k. untouched pend wrote k (snd (snd (snd (ce_poll E pfds timeout k)))))"

lemma read_frame:
  assumes "copy_lawful E pend wrote" and "ce_read E fd n k = (ret, errno, stored, k')"
  shows "wrote x k' = wrote x k" "y \<noteq> fd \<Longrightarrow> pend y k' = pend y k"
proof -
  have "ce_read E fd n k = (ret, errno, stored, k') \<longrightarrow>
      (\<forall>fd'. wrote fd' k' = wrote fd' k \<and> (fd' \<noteq> fd \<longrightarrow> pend fd' k' = pend fd' k))"
    using assms(1) unfolding copy_lawful_def by (elim conjE allE)
  with assms(2) show "wrote x k' = wrote x k" "y \<noteq> fd \<Longrightarrow> pend y k' = pend y k" by simp_all
qed

lemma write_frame:
  assumes "copy_lawful E pend wrote" and "ce_writev E fd iovecs k = (ret, errno, k')"
  shows "pend x k' = pend x k" "y \<noteq> fd \<Longrightarrow> wrote y k' = wrote y k"
proof -
  have "ce_writev E fd iovecs k = (ret, errno, k') \<longrightarrow>
      (\<forall>fd'. pend fd' k' = pend fd' k \<and> (fd' \<noteq> fd \<longrightarrow> wrote fd' k' = wrote fd' k))"
    using assms(1) unfolding copy_lawful_def by (elim conjE allE)
  with assms(2) show "pend x k' = pend x k" "y \<noteq> fd \<Longrightarrow> wrote y k' = wrote y k" by simp_all
qed

lemma copy_read:
  assumes law: "copy_lawful E pend wrote" and inv: "ByteStream_inv b"
    and rd: "FileDescriptor_read (ce_read E) (ByteStream_remaining_capacity b) fd k = Inr (data, fd', k')"
  shows "fd_fd fd' = fd_fd fd" "pend (fd_fd fd) k = data @ pend (fd_fd fd) k'"
    "wrote x k' = wrote x k" "y \<noteq> fd_fd fd \<Longrightarrow> pend y k' = pend y k"
    "ByteStream_inv (fst (ByteStream_write data b))"
    "ByteStream_contents (fst (ByteStream_write data b)) = ByteStream_contents b @ data"
proof -
  obtain n ret errno stored where r: "ce_read E (fd_fd fd) n k = (ret, errno, stored, k')" and fd': "fd_fd fd' = fd_fd fd"
    using rd by (auto simp: FileDescriptor_read_def Let_def bind_res_Inr_iff register_read_def split: prod.splits if_splits)
  show "fd_fd fd' = fd_fd fd" by (rule fd')
  show "wrote x k' = wrote x k" "y \<noteq> fd_fd fd \<Longrightarrow> pend y k' = pend y k"
    by (rule read_frame [OF law r])+
  have at: "FileDescriptor_read (\<lambda>_. ce_read E (fd_fd fd)) (ByteStream_remaining_capacity b) fd k = Inr (data, fd', k')"
    using rd by (simp add: FileDescriptor_read_def)
  have lawful: "read_lawful (\<lambda>_. ce_read E (fd_fd fd)) (pend (fd_fd fd))" using law by (simp add: copy_lawful_def)
  have "pend (fd_fd fd) k = data @ pend (fd_fd fd) k'" "length data \<le> unat (ByteStream_remaining_capacity b)"
    by (rule fd_read_correct(1,2) [OF lawful at])+
  then show "pend (fd_fd fd) k = data @ pend (fd_fd fd) k'" "ByteStream_inv (fst (ByteStream_write data b))"
    "ByteStream_contents (fst (ByteStream_write data b)) = ByteStream_contents b @ data"
    using ByteStream_write_fitting [OF inv] by simp_all
qed

lemma copy_write:
  assumes law: "copy_lawful E pend wrote" and inv: "ByteStream_inv b"
    and w: "FileDescriptor_write (ce_writev E) False 0
      (BufferViewList_of_string (ByteStream_peek_output (min 65536 (ByteStream_buffer_size b)) b)) fd k = Inr (n, fd', k')"
    and pop: "ByteStream_pop_output n b = Inr b'"
  shows "fd_fd fd' = fd_fd fd" "ByteStream_inv b'"
    "wrote (fd_fd fd) k' @ ByteStream_contents b' = wrote (fd_fd fd) k @ ByteStream_contents b"
    "pend x k' = pend x k" "y \<noteq> fd_fd fd \<Longrightarrow> wrote y k' = wrote y k"
proof -
  let ?front = "BufferViewList_of_string (ByteStream_peek_output (min 65536 (ByteStream_buffer_size b)) b)"
  have at: "FileDescriptor_write (\<lambda>_. ce_writev E (fd_fd fd)) False 0 ?front fd k = Inr (n, fd', k')"
    using w by (simp add: fd_write_once)
  obtain iovecs ret errno where r: "ce_writev E (fd_fd fd) iovecs k = (ret, errno, k')" and fd': "fd_fd fd' = fd_fd fd"
    using w unfolding fd_write_once
    by (auto simp: bind_res_Inr_iff register_write_def split: prod.splits if_splits)
  show "fd_fd fd' = fd_fd fd" by (rule fd')
  show "pend x k' = pend x k" "y \<noteq> fd_fd fd \<Longrightarrow> wrote y k' = wrote y k"
    by (rule write_frame [OF law r])+
  have "writev_lawful (\<lambda>_. ce_writev E (fd_fd fd)) (wrote (fd_fd fd))" using law by (simp add: copy_lawful_def)
  from write_front [OF inv this at] pop
  show "ByteStream_inv b'" "wrote (fd_fd fd) k' @ ByteStream_contents b' = wrote (fd_fd fd) k @ ByteStream_contents b"
    by auto
qed

definition copy_good ::
    "(int \<Rightarrow> 'k \<Rightarrow> byte list) \<Rightarrow> (int \<Rightarrow> 'k \<Rightarrow> byte list) \<Rightarrow> int \<Rightarrow> byte list \<Rightarrow> byte list \<Rightarrow> 'k stream_copy \<Rightarrow> bool" where
  "copy_good pend wrote sock up down s \<longleftrightarrow>
     fd_fd (cp_input s) = 0 \<and> fd_fd (cp_output s) = 1 \<and> fd_fd (cp_socket s) = sock \<and>
     ByteStream_inv (cp_outbound s) \<and> ByteStream_inv (cp_inbound s) \<and>
     wrote sock (cp_kernel s) @ ByteStream_contents (cp_outbound s) @ pend 0 (cp_kernel s) = up \<and>
     wrote 1 (cp_kernel s) @ ByteStream_contents (cp_inbound s) @ pend sock (cp_kernel s) = down"

lemma untouched_calls:
  assumes "copy_lawful E pend wrote"
  shows "Socket_shutdown (ce_shutdown E) how fd k = Inr (fd', k') \<Longrightarrow> untouched pend wrote k k' \<and> fd_fd fd' = fd_fd fd"
    "FDWrapper_close (ce_close E) fd k = Inr (fd', k') \<Longrightarrow> untouched pend wrote k k' \<and> fd_fd fd' = fd_fd fd"
    "ce_poll E pfds timeout k = (ret, errno, revents, k') \<Longrightarrow> untouched pend wrote k k'"
proof -
  have law: "untouched pend wrote k (snd (snd (ce_shutdown E fd how k)))" "untouched pend wrote k (snd (snd (ce_close E fd k)))"
    "untouched pend wrote k (snd (snd (snd (ce_poll E pfds timeout k))))" for fd how
    using assms by (auto simp: copy_lawful_def)
  show "untouched pend wrote k k' \<and> fd_fd fd' = fd_fd fd" if "Socket_shutdown (ce_shutdown E) how fd k = Inr (fd', k')"
    using that law(1) [of "fd_fd fd" how]
    by (cases "ce_shutdown E (fd_fd fd) how k")
      (auto simp: Socket_shutdown_def bind_res_Inr_iff register_read_def register_write_def split: if_splits)
  show "untouched pend wrote k k' \<and> fd_fd fd' = fd_fd fd" if "FDWrapper_close (ce_close E) fd k = Inr (fd', k')"
    using that law(2) [of "fd_fd fd"]
    by (cases "ce_close E (fd_fd fd) k") (auto simp: FDWrapper_close_def bind_res_Inr_iff)
  show "untouched pend wrote k k'" if "ce_poll E pfds timeout k = (ret, errno, revents, k')"
    using that law(3) by simp
qed

lemma good_untouched:
  "untouched pend wrote (cp_kernel s) k \<Longrightarrow> copy_good pend wrote sock up down (s\<lparr>cp_kernel := k\<rparr>) = copy_good pend wrote sock up down s"
  by (simp add: copy_good_def untouched_def)

lemma input_in_keeps:
  assumes law: "copy_lawful E pend wrote" "sock \<noteq> 0" and good: "copy_good pend wrote sock up down s"
    and step: "input_in E s = Inr s'"
  shows "copy_good pend wrote sock up down s'"
proof -
  obtain data fd k where rd: "FileDescriptor_read (ce_read E) (ByteStream_remaining_capacity (cp_outbound s)) (cp_input s) (cp_kernel s) =
      Inr (data, fd, k)"
    and s': "s' = s\<lparr>cp_outbound := (if fd_eof fd then ByteStream_end_input else (\<lambda>b. b)) (fst (ByteStream_write data (cp_outbound s))),
      cp_input := fd, cp_kernel := k\<rparr>"
    using step by (auto simp: input_in_def bind_res_Inr_iff Let_def)
  have b: "ByteStream_inv (cp_outbound s)" using good by (simp add: copy_good_def)
  note r = copy_read [OF law(1) b rd]
  show ?thesis
    using good law(2) r(1,2,5,6) r(3) [of sock] r(3) [of 1] r(4) [of sock] by (auto simp: s' copy_good_def)
qed

lemma socket_in_keeps:
  assumes law: "copy_lawful E pend wrote" "sock \<noteq> 0" and good: "copy_good pend wrote sock up down s"
    and step: "socket_in E s = Inr s'"
  shows "copy_good pend wrote sock up down s'"
proof -
  obtain data fd k where rd: "FileDescriptor_read (ce_read E) (ByteStream_remaining_capacity (cp_inbound s)) (cp_socket s) (cp_kernel s) =
      Inr (data, fd, k)"
    and s': "s' = s\<lparr>cp_inbound := (if fd_eof fd then ByteStream_end_input else (\<lambda>b. b)) (fst (ByteStream_write data (cp_inbound s))),
      cp_socket := fd, cp_kernel := k\<rparr>"
    using step by (auto simp: socket_in_def bind_res_Inr_iff Let_def)
  have b: "ByteStream_inv (cp_inbound s)" using good by (simp add: copy_good_def)
  note r = copy_read [OF law(1) b rd]
  show ?thesis
    using good law(2) r(1,2,5,6) r(3) [of sock] r(3) [of 1] r(4) [of 0] by (auto simp: s' copy_good_def)
qed

lemma socket_out_keeps:
  assumes law: "copy_lawful E pend wrote" "sock \<noteq> 1" and good: "copy_good pend wrote sock up down s"
    and step: "socket_out E s = Inr s'"
  shows "copy_good pend wrote sock up down s'"
proof -
  obtain n fd k b where w: "FileDescriptor_write (ce_writev E) False 0 (BufferViewList_of_string
        (ByteStream_peek_output (min 65536 (ByteStream_buffer_size (cp_outbound s))) (cp_outbound s))) (cp_socket s) (cp_kernel s) =
      Inr (n, fd, k)" and pop: "ByteStream_pop_output n (cp_outbound s) = Inr b"
    using step by (auto simp: socket_out_def max_copy_length_def bind_res_Inr_iff Let_def)
  let ?s = "s\<lparr>cp_outbound := b, cp_socket := fd, cp_kernel := k\<rparr>"
  have b: "ByteStream_inv (cp_outbound s)" using good by (simp add: copy_good_def)
  note r = copy_write [OF law(1) b w pop]
  have good': "copy_good pend wrote sock up down ?s"
    using good law(2) r(1-3) r(4) [of 0] r(4) [of sock] r(5) [of 1] by (auto simp: copy_good_def append_assoc [symmetric] simp del: append_assoc)
  have "s' = ?s \<or> (\<exists>fd' k'. Socket_shutdown (ce_shutdown E) SHUT_WR fd k = Inr (fd', k') \<and>
      s' = ?s\<lparr>cp_socket := fd', cp_kernel := k', cp_outbound_shutdown := True\<rparr>)"
    using step w pop by (auto simp: socket_out_def max_copy_length_def bind_res_Inr_iff Let_def split: if_splits)
  then show ?thesis
    using good' untouched_calls(1) [OF law(1)] by (auto simp: copy_good_def untouched_def)
qed

lemma output_out_keeps:
  assumes law: "copy_lawful E pend wrote" "sock \<noteq> 1" and good: "copy_good pend wrote sock up down s"
    and step: "output_out E s = Inr s'"
  shows "copy_good pend wrote sock up down s'"
proof -
  obtain n fd k b where w: "FileDescriptor_write (ce_writev E) False 0 (BufferViewList_of_string
        (ByteStream_peek_output (min 65536 (ByteStream_buffer_size (cp_inbound s))) (cp_inbound s))) (cp_output s) (cp_kernel s) =
      Inr (n, fd, k)" and pop: "ByteStream_pop_output n (cp_inbound s) = Inr b"
    using step by (auto simp: output_out_def max_copy_length_def bind_res_Inr_iff Let_def)
  let ?s = "s\<lparr>cp_inbound := b, cp_output := fd, cp_kernel := k\<rparr>"
  have b: "ByteStream_inv (cp_inbound s)" using good by (simp add: copy_good_def)
  note r = copy_write [OF law(1) b w pop]
  have good': "copy_good pend wrote sock up down ?s"
    using good law(2) r(1-3) r(4) [of 0] r(4) [of sock] r(5) [of sock] by (auto simp: copy_good_def append_assoc [symmetric] simp del: append_assoc)
  have "s' = ?s \<or> (\<exists>fd' k'. FDWrapper_close (ce_close E) fd k = Inr (fd', k') \<and>
      s' = ?s\<lparr>cp_output := fd', cp_kernel := k', cp_inbound_shutdown := True\<rparr>)"
    using step w pop by (auto simp: output_out_def max_copy_length_def bind_res_Inr_iff Let_def split: if_splits)
  then show ?thesis
    using good' untouched_calls(2) [OF law(1)] by (auto simp: copy_good_def untouched_def)
qed

definition copy_inv ::
    "'k copy_env \<Rightarrow> (int \<Rightarrow> 'k \<Rightarrow> byte list) \<Rightarrow> (int \<Rightarrow> 'k \<Rightarrow> byte list) \<Rightarrow> int \<Rightarrow> byte list \<Rightarrow> byte list \<Rightarrow> 'k stream_copy \<Rightarrow> bool" where
  "copy_inv E pend wrote sock up down s \<longleftrightarrow>
     (copy_lawful E pend wrote \<and> sock \<noteq> 0 \<and> sock \<noteq> 1 \<longrightarrow> copy_good pend wrote sock up down s)"

lemma callback_keeps_inv:
  assumes "f \<in> {input_in E, socket_in E, socket_out E, output_out E}" and "f s = Inr s'"
    and "copy_inv E pend wrote sock up down s"
  shows "copy_inv E pend wrote sock up down s'"
  unfolding copy_inv_def
proof (intro impI, elim conjE)
  assume law: "copy_lawful E pend wrote" "sock \<noteq> 0" "sock \<noteq> 1"
  then have good: "copy_good pend wrote sock up down s" using assms(3) by (simp add: copy_inv_def)
  from assms(1,2) consider "input_in E s = Inr s'" | "socket_in E s = Inr s'" | "socket_out E s = Inr s'" | "output_out E s = Inr s'"
    by blast
  then show "copy_good pend wrote sock up down s'"
  proof cases
    case 1 then show ?thesis by (rule input_in_keeps [OF law(1,2) good])
  next
    case 2 then show ?thesis by (rule socket_in_keeps [OF law(1,2) good])
  next
    case 3 then show ?thesis by (rule socket_out_keeps [OF law(1,3) good])
  next
    case 4 then show ?thesis by (rule output_out_keeps [OF law(1,3) good])
  qed
qed

lemma copy_rules_set:
  "r \<in> set (copy_rules E) \<Longrightarrow>
     rl_callback r \<in> {input_in E, socket_in E, socket_out E, output_out E} \<and> rl_cancel r \<in> {end_inbound, end_outbound}"
  by (auto simp: copy_rules_def EventLoop_add_rule_def)

interpretation copying: rule_set "set (copy_rules E)" "copy_inv E pend wrote sock up down" "copy_poll E"
  for E pend wrote sock up down
proof
  show "copy_inv E pend wrote sock up down w'"
    if "r \<in> set (copy_rules E)" "copy_inv E pend wrote sock up down w" "rl_callback r w = Inr w'" for r w w'
    using callback_keeps_inv copy_rules_set [OF that(1)] that(2,3) by blast
  show "copy_inv E pend wrote sock up down w'"
    if "r \<in> set (copy_rules E)" "copy_inv E pend wrote sock up down w" "rl_cancel r w = Inr w'" for r w w'
    using copy_rules_set [OF that(1)] that(2,3)
    by (auto simp: copy_inv_def copy_good_def end_inbound_def end_outbound_def)
  show "copy_inv E pend wrote sock up down w'"
    if "copy_inv E pend wrote sock up down w" "copy_poll E pfds timeout w = (ret, errno, revents, w')" for w pfds timeout ret errno revents w'
    using that untouched_calls(3) [of E pend wrote pfds timeout "cp_kernel w"]
    by (auto simp: copy_inv_def copy_poll_def good_untouched split: prod.splits)
qed

lemma set_blocking_untouched:
  assumes "copy_lawful E pend wrote" and "FileDescriptor_set_blocking (ce_fcntl E) blocking fd k = Inr k'"
  shows "untouched pend wrote k k'"
proof -
  have law: "untouched pend wrote k (snd (snd (ce_fcntl E f cmd arg k)))" for f cmd arg k
    using assms(1) by (simp add: copy_lawful_def)
  obtain r1 e1 k1 where 1: "ce_fcntl E (fd_fd fd) F_GETFL 0 k = (r1, e1, k1)" by (rule prod_cases3)
  obtain x where x: "SystemCall ''fcntl'' r1 e1 0 = Inr x"
    using assms(2) 1 by (auto simp: FileDescriptor_set_blocking_def bind_res_Inr_iff)
  define flags where "flags = (if blocking then x XOR (x AND O_NONBLOCK) else x OR O_NONBLOCK)"
  obtain r2 e2 k2 where 2: "ce_fcntl E (fd_fd fd) F_SETFL flags k1 = (r2, e2, k2)" by (rule prod_cases3)
  have "k2 = k'"
    using assms(2) 1 x 2 unfolding flags_def by (auto simp: FileDescriptor_set_blocking_def bind_res_Inr_iff Let_def)
  show ?thesis
    using law [of k "fd_fd fd" F_GETFL 0] law [of k1 "fd_fd fd" F_SETFL flags] 1 2 \<open>k2 = k'\<close> by (simp add: untouched_def)
qed

lemma start_good:
  assumes "copy_lawful E pend wrote" and "copy_start E socket k = Inr s"
  shows "copy_good pend wrote (fd_fd socket) (wrote (fd_fd socket) k @ pend 0 k) (wrote 1 k @ pend (fd_fd socket) k) s"
proof -
  note set = set_blocking_untouched [OF assms(1)]
  obtain inp outp k1 k2 k3 where n: "FDWrapper_new STDIN_FILENO = Inr inp" "FDWrapper_new STDOUT_FILENO = Inr outp"
    and b: "FileDescriptor_set_blocking (ce_fcntl E) False socket k = Inr k1"
      "FileDescriptor_set_blocking (ce_fcntl E) False inp k1 = Inr k2"
      "FileDescriptor_set_blocking (ce_fcntl E) False outp k2 = Inr k3"
    and s: "s = \<lparr>cp_input = inp, cp_output = outp, cp_socket = socket,
       cp_outbound = ByteStream_new copy_buffer_size, cp_inbound = ByteStream_new copy_buffer_size,
       cp_outbound_shutdown = False, cp_inbound_shutdown = False, cp_kernel = k3\<rparr>"
    using assms(2) by (auto simp: copy_start_def bind_res_Inr_iff)
  have "fd_fd inp = 0" "fd_fd outp = 1"
    using n by (auto simp: FDWrapper_new_def STDIN_FILENO_def STDOUT_FILENO_def)
  then show ?thesis using set [OF b(1)] set [OF b(2)] set [OF b(3)] by (simp add: s copy_good_def untouched_def)
qed

lemma reach_inv:
  assumes "copy_reach E socket k rules s" and "copy_lawful E pend wrote"
  shows "set rules \<subseteq> set (copy_rules E) \<and>
    copy_inv E pend wrote (fd_fd socket) (wrote (fd_fd socket) k @ pend 0 k) (wrote 1 k @ pend (fd_fd socket) k) s"
  using assms(1)
proof (induction rule: copy_reach.induct)
  case (start s)
  then show ?case using start_good [OF assms(2)] by (simp add: copy_inv_def)
next
  case (turn rules s result rules' s')
  have "set rules' \<subseteq> set rules" using event_loop_keeps_rules [OF turn.hyps(2)] by (auto dest: list_emb_set)
  with turn copying.round_keeps [OF _ _ turn.hyps(2)] show ?case by blast
qed

text \<open>C15. Copying conserves the bytes. On every kernel whose reads and writes keep their contracts and leave the
  other descriptors alone, after any number of rounds of the loop, what the socket was given, followed by the bytes
  buffered on the way and what is still to be read from standard input, is what it was at the start; the same
  holds from the socket to standard output.\<close>
theorem stream_copy_conserves:
  assumes "copy_reach E socket k rules s" and "copy_lawful E pend wrote" and "fd_fd socket \<noteq> 0" "fd_fd socket \<noteq> 1"
  shows "wrote (fd_fd socket) (cp_kernel s) @ ByteStream_contents (cp_outbound s) @ pend 0 (cp_kernel s) =
      wrote (fd_fd socket) k @ pend 0 k \<and>
    wrote 1 (cp_kernel s) @ ByteStream_contents (cp_inbound s) @ pend (fd_fd socket) (cp_kernel s) =
      wrote 1 k @ pend (fd_fd socket) k"
  using reach_inv [OF assms(1,2)] assms(2-4) by (simp add: copy_inv_def copy_good_def)

text \<open>A kernel for the examples: it holds what is to be read from and what was written to each descriptor, every
  descriptor is ready for what is asked of it, and at most two bytes are written at a time.\<close>

type_synonym demo_kernel = "(int \<Rightarrow> byte list) \<times> (int \<Rightarrow> byte list)"

definition demo_copy_env :: "demo_kernel copy_env" where
  "demo_copy_env =
     \<lparr>ce_read = \<lambda>fd n k. let bs = take (unat n) (fst k fd) in (int (length bs), 0, bs, (fst k)(fd := drop (unat n) (fst k fd)), snd k),
      ce_writev = \<lambda>fd iovecs k. let bs = take 2 (concat (map fst iovecs)) in (int (length bs), 0, fst k, (snd k)(fd := snd k fd @ bs)),
      ce_shutdown = \<lambda>fd how k. (0, 0, k), ce_close = \<lambda>fd k. (0, 0, k), ce_fcntl = \<lambda>fd cmd arg k. (0, 0, k),
      ce_poll = \<lambda>pfds timeout k. (int (length pfds), 0, map pf_events pfds, k)\<rparr>"

definition demo_fd :: "int \<Rightarrow> FDWrapper" where
  "demo_fd n = \<lparr>fd_fd = n, fd_eof = False, fd_closed = False, fd_read_count = 0, fd_write_count = 0\<rparr>"

definition demo_copy_kernel :: demo_kernel where
  "demo_copy_kernel = ((\<lambda>_. [])(0 := [1, 2, 3], 5 := [7]), \<lambda>_. [])"

definition demo_copy_start :: "demo_kernel stream_copy" where
  "demo_copy_start =
     \<lparr>cp_input = demo_fd 0, cp_output = demo_fd 1, cp_socket = demo_fd 5,
      cp_outbound = ByteStream_new copy_buffer_size, cp_inbound = ByteStream_new copy_buffer_size,
      cp_outbound_shutdown = False, cp_inbound_shutdown = False, cp_kernel = demo_copy_kernel\<rparr>"

lemma demo_copy_lawful: "copy_lawful demo_copy_env (\<lambda>fd k. fst k fd) (\<lambda>fd k. snd k fd)"
  by (auto simp: copy_lawful_def demo_copy_env_def read_lawful_def writev_lawful_def untouched_def Let_def min_def)

lemma demo_starts: "copy_start demo_copy_env (demo_fd 5) demo_copy_kernel = Inr demo_copy_start"
  by (simp add: copy_start_def FDWrapper_new_def FileDescriptor_set_blocking_def demo_copy_env_def SystemCall_def
    to_int_small STDIN_FILENO_def STDOUT_FILENO_def demo_copy_start_def demo_fd_def O_NONBLOCK_def)

lemma fresh_capacity: "ByteStream_remaining_capacity (ByteStream_new copy_buffer_size) = 1048576"
  by (simp add: ByteStream_remaining_capacity_def ByteStream_buffer_size_def ByteStream_new_def copy_buffer_size_def)

lemma demo_callbacks:
  "\<exists>s1 s. input_in demo_copy_env demo_copy_start = Inr s1 \<and> socket_in demo_copy_env s1 = Inr s \<and>
     fd_read_count (cp_input s1) = 1 \<and> fd_read_count (cp_socket s1) = 0 \<and> fd_read_count (cp_socket s) = 1 \<and>
     ByteStream_contents (cp_outbound s) = [1, 2, 3] \<and> ByteStream_contents (cp_inbound s) = [7]"
proof -
  let ?b = "ByteStream_new copy_buffer_size"
  let ?k1 = "((fst demo_copy_kernel)(0 := []), snd demo_copy_kernel)"
  let ?k2 = "((fst ?k1)(5 := []), snd ?k1)"
  have m: "min BUFFER_SIZE (ByteStream_remaining_capacity ?b) = 1048576" by (simp add: fresh_capacity BUFFER_SIZE_def)
  have 1: "FileDescriptor_read (ce_read demo_copy_env) (ByteStream_remaining_capacity ?b) (demo_fd 0) demo_copy_kernel =
      Inr ([1, 2, 3], register_read (demo_fd 0), ?k1)"
    by (subst fd_read_exact [where stored = "[1, 2, 3]" and errno = 0 and k' = ?k1])
      (simp_all add: m demo_copy_env_def demo_copy_kernel_def demo_fd_def)
  have 2: "FileDescriptor_read (ce_read demo_copy_env) (ByteStream_remaining_capacity ?b) (demo_fd 5) ?k1 =
      Inr ([7], register_read (demo_fd 5), ?k2)"
    by (subst fd_read_exact [where stored = "[7]" and errno = 0 and k' = ?k2])
      (simp_all add: m demo_copy_env_def demo_copy_kernel_def demo_fd_def)
  have c: "ByteStream_contents (fst (ByteStream_write [1, 2, 3] ?b)) = [1, 2, 3]"
    "ByteStream_contents (fst (ByteStream_write [7] ?b)) = [7]"
    by (simp_all add: ByteStream_write_fitting(3) fresh_capacity)
  have "input_in demo_copy_env demo_copy_start = Inr (demo_copy_start\<lparr>cp_outbound := fst (ByteStream_write [1, 2, 3] ?b),
      cp_input := register_read (demo_fd 0), cp_kernel := ?k1\<rparr>)" (is "_ = Inr ?s1")
    using 1 by (simp add: input_in_def demo_copy_start_def register_read_def demo_fd_def)
  moreover have "socket_in demo_copy_env ?s1 = Inr (?s1\<lparr>cp_inbound := fst (ByteStream_write [7] ?b),
      cp_socket := register_read (demo_fd 5), cp_kernel := ?k2\<rparr>)"
    using 2 by (simp add: socket_in_def demo_copy_start_def register_read_def demo_fd_def)
  ultimately show ?thesis using c by (simp add: register_read_def demo_fd_def demo_copy_start_def)
qed

lemma demo_round:
  "\<exists>s. EventLoop_wait_next_event copy_fds (copy_poll demo_copy_env) (-1) (copy_rules demo_copy_env) demo_copy_start =
       Inr (Success, copy_rules demo_copy_env, s) \<and>
     ByteStream_contents (cp_outbound s) = [1, 2, 3] \<and> ByteStream_contents (cp_inbound s) = [7]"
proof -
  let ?rules = "copy_rules demo_copy_env" and ?ev = "[POLLIN, 0, POLLIN, 0]"
  have rules: "?rules = [\<lparr>rl_fd = 0, rl_direction = In, rl_callback = input_in demo_copy_env, rl_interest = input_in_interest, rl_cancel = end_outbound\<rparr>,
      \<lparr>rl_fd = 2, rl_direction = Out, rl_callback = socket_out demo_copy_env, rl_interest = socket_out_interest, rl_cancel = end_outbound\<rparr>,
      \<lparr>rl_fd = 2, rl_direction = In, rl_callback = socket_in demo_copy_env, rl_interest = socket_in_interest, rl_cancel = end_inbound\<rparr>,
      \<lparr>rl_fd = 1, rl_direction = Out, rl_callback = output_out demo_copy_env, rl_interest = output_out_interest, rl_cancel = end_inbound\<rparr>]"
    by (simp add: copy_rules_def EventLoop_add_rule_def)
  have interest: "input_in_interest demo_copy_start" "socket_in_interest demo_copy_start"
    "\<not> socket_out_interest demo_copy_start" "\<not> output_out_interest demo_copy_start"
    by (simp_all add: input_in_interest_def socket_in_interest_def socket_out_interest_def output_out_interest_def
      demo_copy_start_def fresh_capacity ByteStream_error_def ByteStream_buffer_empty_def ByteStream_eof_def
      ByteStream_buffer_size_def) (simp_all add: ByteStream_new_def)
  have live: "list_all (rule_live copy_fds demo_copy_start) ?rules"
    by (simp add: rules rule_live_def copy_fds_def demo_copy_start_def demo_fd_def)
  have ce: "ce_poll demo_copy_env pfds t k = (int (length pfds), 0, map pf_events pfds, k)" for pfds t k
    by (simp add: demo_copy_env_def)
  have poll: "copy_poll demo_copy_env (map (pollfd_of copy_fds demo_copy_start) ?rules) (-1) demo_copy_start =
      (4, 0, ?ev, demo_copy_start)"
    by (simp add: copy_poll_def ce rules interest)
  have quiet: "list_all quiet ?ev" "length ?ev = length ?rules"
    by (simp_all add: quiet_def POLLIN_def POLLERR_def POLLNVAL_def POLLHUP_def rules)
  obtain s1 s where s: "input_in demo_copy_env demo_copy_start = Inr s1" "socket_in demo_copy_env s1 = Inr s"
    "fd_read_count (cp_input s1) = 1" "fd_read_count (cp_socket s1) = 0" "fd_read_count (cp_socket s) = 1"
    "ByteStream_contents (cp_outbound s) = [1, 2, 3]" "ByteStream_contents (cp_inbound s) = [7]"
    using demo_callbacks by blast
  have "serve copy_fds (ready_rules demo_copy_start ?rules ?ev) demo_copy_start = Inr s"
    using s(1-5) interest
    by (simp add: rules POLLIN_def Rule_service_count_def copy_fds_def) (simp add: demo_copy_start_def demo_fd_def)
  moreover have "SystemCall ''poll'' 4 0 0 = Inr 4" by (simp add: SystemCall_def to_int_small)
  moreover have "list_ex (\<lambda>r. rl_interest r demo_copy_start) ?rules" by (simp add: rules interest)
  ultimately have "EventLoop_wait_next_event copy_fds (copy_poll demo_copy_env) (-1) ?rules demo_copy_start = Inr (Success, ?rules, s)"
    using setup_live [OF live] poll results_serve [OF quiet(2,1), of copy_fds demo_copy_start demo_copy_start]
    by (simp add: EventLoop_wait_next_event_def)
  with s(6,7) show ?thesis by blast
qed

theorem stream_copy_conserves_witness:
  "\<exists>rules s. copy_reach demo_copy_env (demo_fd 5) demo_copy_kernel rules s \<and>
     ByteStream_contents (cp_outbound s) = [1, 2, 3] \<and> ByteStream_contents (cp_inbound s) = [7] \<and>
     snd (cp_kernel s) 5 @ [1, 2, 3] @ fst (cp_kernel s) 0 = [1, 2, 3] \<and>
     snd (cp_kernel s) 1 @ [7] @ fst (cp_kernel s) 5 = [7]"
proof -
  obtain s where s: "copy_reach demo_copy_env (demo_fd 5) demo_copy_kernel (copy_rules demo_copy_env) s"
    "ByteStream_contents (cp_outbound s) = [1, 2, 3]" "ByteStream_contents (cp_inbound s) = [7]"
    using demo_round copy_reach.turn [OF copy_reach.start [OF demo_starts]] by blast
  have "fd_fd (demo_fd 5) \<noteq> 0" "fd_fd (demo_fd 5) \<noteq> 1" by (simp_all add: demo_fd_def)
  from stream_copy_conserves [OF s(1) demo_copy_lawful this] s show ?thesis
    by (intro exI conjI) (auto simp: demo_fd_def demo_copy_kernel_def)
qed

end
