(* ===== verification/SpongeSockets.thy ===== *)
theory SpongeSockets
  imports StreamCopies TCPConnections Adapters
begin

text \<open>
  \<^verbatim>\<open>libsponge/tcp_helpers/tcp_sponge_socket.*\<close>: a TCP connection behind a pair of local stream sockets, driven
  by the event loop. The record holds what the TCP thread works on; the other end of the pair, which
  the owner of the socket reads and writes, is part of the kernel. The adapter class, which the source
  takes as a template parameter, and the system calls are the fields of \<open>socket_env\<close>. Debugging output is
  left out, and so are the start and the joining of the thread. \<open>sp_local\<close> is the owner's end of the pair,
  the socket itself.
\<close>

section \<open>State\<close>

record ('a, 'k) SpongeSocket =
  sp_tcp :: "TCPConnection option"
  sp_datagram_adapter :: 'a
  sp_datagram_fd :: FDWrapper
  sp_thread_data :: FDWrapper
  sp_local :: FDWrapper
  sp_kernel :: 'k
  sp_abort :: bool
  sp_inbound_shutdown :: bool
  sp_outbound_shutdown :: bool
  sp_fully_acked :: bool

record ('a, 'k) socket_env =
  en_read :: "int \<Rightarrow> size_t \<Rightarrow> 'k \<Rightarrow> int \<times> int \<times> byte list \<times> 'k"
  en_writev :: "int \<Rightarrow> (byte list \<times> size_t) list \<Rightarrow> 'k \<Rightarrow> int \<times> int \<times> 'k"
  en_shutdown :: "int \<Rightarrow> int \<Rightarrow> 'k \<Rightarrow> int \<times> int \<times> 'k"
  en_poll :: "pollfd list \<Rightarrow> int \<Rightarrow> ('a, 'k) SpongeSocket \<Rightarrow> int \<times> int \<times> poll_events list \<times> ('a, 'k) SpongeSocket"
  en_timestamp_ms :: "'k \<Rightarrow> u64 \<times> 'k"
  en_adapter_read :: "'a \<Rightarrow> FDWrapper \<Rightarrow> 'k \<Rightarrow> ('a \<times> FDWrapper \<times> 'k \<times> TCPSegment option) res"
  en_adapter_write :: "TCPSegment \<Rightarrow> 'a \<Rightarrow> FDWrapper \<Rightarrow> 'k \<Rightarrow> ('a \<times> FDWrapper \<times> 'k) res"
  en_adapter_tick :: "size_t \<Rightarrow> 'a \<Rightarrow> FDWrapper \<Rightarrow> 'k \<Rightarrow> ('a \<times> FDWrapper \<times> 'k) res"
  en_adapter_set_config :: "FdAdapterConfig \<Rightarrow> 'a \<Rightarrow> 'a"
  en_adapter_set_listening :: "bool \<Rightarrow> 'a \<Rightarrow> 'a"

definition tcp_of :: "('a, 'k) SpongeSocket \<Rightarrow> TCPConnection res" where
  "tcp_of s = (case sp_tcp s of Some tcp \<Rightarrow> Inr tcp | None \<Rightarrow> Inl (Undefined_behaviour ''empty optional''))"

definition tcp_is :: "(TCPConnection \<Rightarrow> bool) \<Rightarrow> ('a, 'k) SpongeSocket \<Rightarrow> bool" where
  "tcp_is p s = (case sp_tcp s of Some tcp \<Rightarrow> p tcp | None \<Rightarrow> False)"

section \<open>The four rules\<close>

definition datagram_in :: "('a, 'k) socket_env \<Rightarrow> ('a, 'k) SpongeSocket \<Rightarrow> ('a, 'k) SpongeSocket res" where
  "datagram_in E s =
     bind_res (en_adapter_read E (sp_datagram_adapter s) (sp_datagram_fd s) (sp_kernel s)) (\<lambda>(a, fd, k, seg).
     let s = s\<lparr>sp_datagram_adapter := a, sp_datagram_fd := fd, sp_kernel := k\<rparr> in
     bind_res (tcp_of s) (\<lambda>tcp.
     bind_res (case seg of Some seg \<Rightarrow> TCPConnection_segment_received seg tcp | None \<Rightarrow> Inr tcp) (\<lambda>tcp.
     let s = s\<lparr>sp_tcp := Some tcp\<rparr> in
     if fd_eof (sp_thread_data s) \<and> TCPConnection_bytes_in_flight tcp = 0 \<and> \<not> sp_fully_acked s
     then Inr (s\<lparr>sp_fully_acked := True\<rparr>) else Inr s)))"

definition datagram_in_interest :: "('a, 'k) SpongeSocket \<Rightarrow> bool" where
  "datagram_in_interest = tcp_is tc_is_active"

definition stream_in_cancel :: "('a, 'k) SpongeSocket \<Rightarrow> ('a, 'k) SpongeSocket res" where
  "stream_in_cancel s =
     bind_res (tcp_of s) (\<lambda>tcp.
     bind_res (TCPConnection_end_input_stream tcp) (\<lambda>tcp.
     Inr (s\<lparr>sp_tcp := Some tcp, sp_outbound_shutdown := True\<rparr>)))"

definition stream_in :: "('a, 'k) socket_env \<Rightarrow> ('a, 'k) SpongeSocket \<Rightarrow> ('a, 'k) SpongeSocket res" where
  "stream_in E s =
     bind_res (tcp_of s) (\<lambda>tcp.
     bind_res (FileDescriptor_read (en_read E) (TCPConnection_remaining_outbound_capacity tcp)
         (sp_thread_data s) (sp_kernel s)) (\<lambda>(data, fd, k).
     let s = s\<lparr>sp_thread_data := fd, sp_kernel := k\<rparr> in
     bind_res (TCPConnection_write data tcp) (\<lambda>(tcp, amount_written).
     let s = s\<lparr>sp_tcp := Some tcp\<rparr> in
     if amount_written \<noteq> sz data
     then Inl (Runtime_error ''TCPConnection::write() accepted less than advertised length'')
     else if fd_eof (sp_thread_data s) then stream_in_cancel s
     else Inr s)))"

definition stream_in_interest :: "('a, 'k) SpongeSocket \<Rightarrow> bool" where
  "stream_in_interest s \<longleftrightarrow>
     tcp_is tc_is_active s \<and> \<not> sp_outbound_shutdown s \<and>
     tcp_is (\<lambda>tcp. TCPConnection_remaining_outbound_capacity tcp > 0) s"

definition stream_out :: "('a, 'k) socket_env \<Rightarrow> ('a, 'k) SpongeSocket \<Rightarrow> ('a, 'k) SpongeSocket res" where
  "stream_out E s =
     bind_res (tcp_of s) (\<lambda>tcp.
     let amount_to_write = min 65536 (ByteStream_buffer_size (inbound tcp));
         buffer = ByteStream_peek_output amount_to_write (inbound tcp)
     in
     bind_res (FileDescriptor_write (en_writev E) False 0 (BufferViewList_of_string buffer)
         (sp_thread_data s) (sp_kernel s)) (\<lambda>(bytes_written, fd, k).
     bind_res (ByteStream_pop_output bytes_written (inbound tcp)) (\<lambda>b.
     let s = s\<lparr>sp_tcp := Some (set_inbound b tcp), sp_thread_data := fd, sp_kernel := k\<rparr> in
     if ByteStream_eof b \<or> ByteStream_error b then
       bind_res (Socket_shutdown (en_shutdown E) SHUT_WR (sp_thread_data s) (sp_kernel s)) (\<lambda>(fd, k).
       Inr (s\<lparr>sp_thread_data := fd, sp_kernel := k, sp_inbound_shutdown := True\<rparr>))
     else Inr s)))"

definition stream_out_interest :: "('a, 'k) SpongeSocket \<Rightarrow> bool" where
  "stream_out_interest s \<longleftrightarrow>
     tcp_is (\<lambda>tcp. \<not> ByteStream_buffer_empty (inbound tcp)) s \<or>
     tcp_is (\<lambda>tcp. ByteStream_eof (inbound tcp) \<or> ByteStream_error (inbound tcp)) s \<and> \<not> sp_inbound_shutdown s"

fun write_segments ::
    "('a, 'k) socket_env \<Rightarrow> TCPSegment list \<Rightarrow> ('a, 'k) SpongeSocket \<Rightarrow> ('a, 'k) SpongeSocket res" where
  "write_segments E [] s = Inr s"
| "write_segments E (seg # segs) s =
     bind_res (en_adapter_write E seg (sp_datagram_adapter s) (sp_datagram_fd s) (sp_kernel s)) (\<lambda>(a, fd, k).
     write_segments E segs (s\<lparr>sp_datagram_adapter := a, sp_datagram_fd := fd, sp_kernel := k,
       sp_tcp := map_option (\<lambda>tcp. tcp\<lparr>tc_segments_out := segs\<rparr>) (sp_tcp s)\<rparr>))"

definition datagram_out :: "('a, 'k) socket_env \<Rightarrow> ('a, 'k) SpongeSocket \<Rightarrow> ('a, 'k) SpongeSocket res" where
  "datagram_out E s = bind_res (tcp_of s) (\<lambda>tcp. write_segments E (tc_segments_out tcp) s)"

definition datagram_out_interest :: "('a, 'k) SpongeSocket \<Rightarrow> bool" where
  "datagram_out_interest = tcp_is (\<lambda>tcp. tc_segments_out tcp \<noteq> [])"

section \<open>The socket\<close>

text \<open>Descriptor 0 is the adapter's, descriptor 1 the local stream socket of the TCP thread.\<close>

definition socket_fds :: "('a, 'k) SpongeSocket \<Rightarrow> nat \<Rightarrow> FDWrapper" where
  "socket_fds s i = (if i = 0 then sp_datagram_fd s else sp_thread_data s)"

definition socket_rules :: "('a, 'k) socket_env \<Rightarrow> ('a, 'k) SpongeSocket Rule list" where
  "socket_rules E =
     EventLoop_add_rule 0 Out (datagram_out E) datagram_out_interest Inr
       (EventLoop_add_rule 1 Out (stream_out E) stream_out_interest Inr
         (EventLoop_add_rule 1 In (stream_in E) stream_in_interest stream_in_cancel
           (EventLoop_add_rule 0 In (datagram_in E) datagram_in_interest Inr [])))"

definition SpongeSocket_initialize_TCP ::
    "('a, 'k) socket_env \<Rightarrow> TCPConfig \<Rightarrow> u32 \<Rightarrow> ('a, 'k) SpongeSocket \<Rightarrow> ('a, 'k) SpongeSocket \<times> ('a, 'k) SpongeSocket Rule list" where
  "SpongeSocket_initialize_TCP E config random_isn s =
     (s\<lparr>sp_tcp := Some (TCPConnection_new config random_isn)\<rparr>, socket_rules E)"

definition TCP_TICK_MS :: int where "TCP_TICK_MS = 10"

definition SpongeSocket_tick ::
    "('a, 'k) socket_env \<Rightarrow> u64 \<Rightarrow> ('a, 'k) SpongeSocket \<Rightarrow> (('a, 'k) SpongeSocket \<times> u64) res" where
  "SpongeSocket_tick E base_time s =
     bind_res (tcp_of s) (\<lambda>tcp.
     if tc_is_active tcp then
       let (next_time, k) = en_timestamp_ms E (sp_kernel s);
           tcp = TCPConnection_tick (next_time - base_time) tcp
       in
       bind_res (en_adapter_tick E (next_time - base_time) (sp_datagram_adapter s) (sp_datagram_fd s) k) (\<lambda>(a, fd, k).
       Inr (s\<lparr>sp_tcp := Some tcp, sp_datagram_adapter := a, sp_datagram_fd := fd, sp_kernel := k\<rparr>, next_time))
     else Inr (s, base_time))"

partial_function (option) SpongeSocket_loop ::
    "('a, 'k) socket_env \<Rightarrow> (('a, 'k) SpongeSocket \<Rightarrow> bool) \<Rightarrow> u64 \<Rightarrow> ('a, 'k) SpongeSocket Rule list \<Rightarrow>
     ('a, 'k) SpongeSocket \<Rightarrow> (('a, 'k) SpongeSocket Rule list \<times> ('a, 'k) SpongeSocket) res option" where
  "SpongeSocket_loop E condition base_time rules s =
     (if condition s then
        case EventLoop_wait_next_event socket_fds (en_poll E) TCP_TICK_MS rules s of
          Inl e \<Rightarrow> Some (Inl e)
        | Inr (ret, rules, s) \<Rightarrow>
            if ret = Exit \<or> sp_abort s then Some (Inr (rules, s))
            else
              case SpongeSocket_tick E base_time s of
                Inl e \<Rightarrow> Some (Inl e)
              | Inr (s, base_time) \<Rightarrow> SpongeSocket_loop E condition base_time rules s
      else Some (Inr (rules, s)))"

definition SpongeSocket_tcp_loop ::
    "('a, 'k) socket_env \<Rightarrow> (('a, 'k) SpongeSocket \<Rightarrow> bool) \<Rightarrow> ('a, 'k) SpongeSocket Rule list \<Rightarrow>
     ('a, 'k) SpongeSocket \<Rightarrow> (('a, 'k) SpongeSocket Rule list \<times> ('a, 'k) SpongeSocket) res option" where
  "SpongeSocket_tcp_loop E condition rules s =
     (let (base_time, k) = en_timestamp_ms E (sp_kernel s) in
      SpongeSocket_loop E condition base_time rules (s\<lparr>sp_kernel := k\<rparr>))"

definition state_is :: "State \<Rightarrow> ('a, 'k) SpongeSocket \<Rightarrow> bool" where
  "state_is st = tcp_is (\<lambda>tcp. TCPState_eq (TCPConnection_state tcp) (TCPState_of_State st))"

definition SpongeSocket_begin_connect ::
    "('a, 'k) socket_env \<Rightarrow> TCPConfig \<Rightarrow> FdAdapterConfig \<Rightarrow> u32 \<Rightarrow> ('a, 'k) SpongeSocket \<Rightarrow>
     (('a, 'k) SpongeSocket Rule list \<times> ('a, 'k) SpongeSocket) res" where
  "SpongeSocket_begin_connect E c_tcp c_ad random_isn s =
     (if sp_tcp s \<noteq> None
      then Inl (Runtime_error ''connect() with TCPConnection already initialized'')
      else
        let (s, rules) = SpongeSocket_initialize_TCP E c_tcp random_isn s;
            s = s\<lparr>sp_datagram_adapter := en_adapter_set_config E c_ad (sp_datagram_adapter s)\<rparr>
        in
        bind_res (tcp_of s) (\<lambda>tcp.
        bind_res (TCPConnection_connect tcp) (\<lambda>tcp.
        let s = s\<lparr>sp_tcp := Some tcp\<rparr> in
        if \<not> state_is SYN_SENT s
        then Inl (Runtime_error (''After TCPConnection::connect(), state was '' @ TCPState_name (TCPConnection_state tcp) @
          '' but expected '' @ TCPState_name (TCPState_of_State SYN_SENT)))
        else Inr (rules, s))))"

definition SpongeSocket_connect ::
    "('a, 'k) socket_env \<Rightarrow> TCPConfig \<Rightarrow> FdAdapterConfig \<Rightarrow> u32 \<Rightarrow> ('a, 'k) SpongeSocket \<Rightarrow>
     (('a, 'k) SpongeSocket Rule list \<times> ('a, 'k) SpongeSocket) res option" where
  "SpongeSocket_connect E c_tcp c_ad random_isn s =
     (case SpongeSocket_begin_connect E c_tcp c_ad random_isn s of
        Inl e \<Rightarrow> Some (Inl e)
      | Inr (rules, s) \<Rightarrow> SpongeSocket_tcp_loop E (state_is SYN_SENT) rules s)"

definition SpongeSocket_listen_and_accept ::
    "('a, 'k) socket_env \<Rightarrow> TCPConfig \<Rightarrow> FdAdapterConfig \<Rightarrow> u32 \<Rightarrow> ('a, 'k) SpongeSocket \<Rightarrow>
     (('a, 'k) SpongeSocket Rule list \<times> ('a, 'k) SpongeSocket) res option" where
  "SpongeSocket_listen_and_accept E c_tcp c_ad random_isn s =
     (if sp_tcp s \<noteq> None
      then Some (Inl (Runtime_error ''listen_and_accept() with TCPConnection already initialized''))
      else
        let (s, rules) = SpongeSocket_initialize_TCP E c_tcp random_isn s;
            a = en_adapter_set_config E c_ad (sp_datagram_adapter s);
            s = s\<lparr>sp_datagram_adapter := en_adapter_set_listening E True a\<rparr>
        in SpongeSocket_tcp_loop E (\<lambda>s. state_is LISTEN s \<or> state_is SYN_RCVD s \<or> state_is SYN_SENT s) rules s)"

definition SpongeSocket_tcp_main ::
    "('a, 'k) socket_env \<Rightarrow> ('a, 'k) SpongeSocket Rule list \<Rightarrow> ('a, 'k) SpongeSocket \<Rightarrow> ('a, 'k) SpongeSocket res option" where
  "SpongeSocket_tcp_main E rules s =
     (if sp_tcp s = None then Some (Inl (Runtime_error ''no TCP''))
      else
        case SpongeSocket_tcp_loop E (\<lambda>_. True) rules s of
          None \<Rightarrow> None
        | Some (Inl e) \<Rightarrow> Some (Inl e)
        | Some (Inr (rules, s)) \<Rightarrow>
            Some (bind_res (Socket_shutdown (en_shutdown E) SHUT_RDWR (sp_local s) (sp_kernel s)) (\<lambda>(fd, k).
              Inr (s\<lparr>sp_local := fd, sp_kernel := k, sp_tcp := None\<rparr>))))"

definition random_private_ethernet_address :: "byte list \<Rightarrow> EthernetAddress" where
  "random_private_ethernet_address random =
     (let addr = take 6 random in addr[0 := (addr ! 0 OR 0x02) AND 0xfe])"

section \<open>From the owner to the peer\<close>

lemma write_accepts:
  assumes "ByteStream_inv (ss_stream (tc_sender c))" and "TCPConnection_write data c = Inr (c', n)"
    and "length data \<le> unat (TCPConnection_remaining_outbound_capacity c)"
  shows "n = sz data" "fits data"
proof -
  note w = ByteStream_write_fitting [OF assms(1), of data]
  have cap: "length data \<le> unat (ByteStream_remaining_capacity (ss_stream (tc_sender c)))"
    using assms(3) by (simp add: TCPConnection_remaining_outbound_capacity_def)
  then show "fits data" by (rule le_less_trans) simp
  show "n = sz data" using assms(2) w(2) [OF cap] by (auto simp: TCPConnection_write_def bind_res_Inr_iff split: prod.splits)
qed

lemma conn_stream_inv: "conn_inv w whole pisn k c \<Longrightarrow> ByteStream_inv (ss_stream (tc_sender c))"
  by (simp add: conn_inv_def sender_inv_def sender_core_def stream_ok_def)

lemma stream_in_total:
  assumes tcp: "sp_tcp s = Some c" "conn_inv w whole pisn k c" "\<not> ended (tc_sender c)"
    and law: "read_lawful (en_read E) pending"
    and rd: "FileDescriptor_read (en_read E) (TCPConnection_remaining_outbound_capacity c) (sp_thread_data s) (sp_kernel s) =
      Inr (data, fd, k1)"
    and len: "length w + length data + 2 < 2 ^ 64"
  shows "\<exists>s' c'. stream_in E s = Inr s' \<and> sp_tcp s' = Some c' \<and> conn_inv (w @ data) whole pisn k c' \<and>
    sp_kernel s' = k1 \<and> tc_receiver c' = tc_receiver c \<and> (ended (tc_sender c') \<longleftrightarrow> fd_eof fd) \<and>
    (sp_outbound_shutdown s' \<longleftrightarrow> sp_outbound_shutdown s \<or> fd_eof fd)"
proof -
  have short: "length data \<le> unat (TCPConnection_remaining_outbound_capacity c)"
    by (rule fd_read_correct(2) [OF law rd])
  obtain c1 n where w: "TCPConnection_write data c = Inr (c1, n)" "conn_inv (w @ take (unat n) data) whole pisn k c1"
    "\<not> ended (tc_sender c1)" "tc_receiver c1 = tc_receiver c"
    using write_ok [OF tcp(2,3) len] by blast
  note acc = write_accepts [OF conn_stream_inv [OF tcp(2)] w(1) short]
  have inv: "conn_inv (w @ data) whole pisn k c1" using w(2) acc by simp
  have step: "stream_in E s = (let s' = s\<lparr>sp_thread_data := fd, sp_kernel := k1, sp_tcp := Some c1\<rparr> in
      if fd_eof fd then stream_in_cancel s' else Inr s')"
    using tcp(1) rd w(1) acc(1) by (simp add: stream_in_def tcp_of_def Let_def)
  show ?thesis
  proof (cases "fd_eof fd")
    case False
    with step inv w(3,4) show ?thesis by simp
  next
    case True
    obtain c2 where "TCPConnection_end_input_stream c1 = Inr c2" "conn_inv (w @ data) whole pisn k c2"
      "ended (tc_sender c2)" "tc_receiver c2 = tc_receiver c1"
      using end_input_ok [OF inv] by blast
    with step True w(4) show ?thesis by (simp add: stream_in_cancel_def tcp_of_def)
  qed
qed

section \<open>From the peer to the owner\<close>

lemma inbound_set [simp]: "inbound (set_inbound b c) = b"
  by (simp add: inbound_def set_inbound_def TCPReceiver_stream_out_def StreamReassembler_stream_out_def)

text \<open>\<^verbatim>\<open>shutdown\<close> fails on a descriptor that is not a connected socket, or for a direction that does not
  exist. The socket's descriptor is an end of a connected pair, and its writing side is shut down.\<close>

definition shutdown_lawful :: "('a, 'k) socket_env \<Rightarrow> ('k \<Rightarrow> byte list) \<Rightarrow> int \<Rightarrow> bool" where
  "shutdown_lawful E out fd \<longleftrightarrow>
     (\<forall>k. case en_shutdown E fd SHUT_WR k of (ret, errno, k') \<Rightarrow> ret = 0 \<and> out k' = out k)"

lemma shutdown_returns:
  assumes "shutdown_lawful E out (fd_fd fd)"
  obtains k' where "Socket_shutdown (en_shutdown E) SHUT_WR fd k = Inr (register_write fd, k')" "out k' = out k"
proof -
  obtain ret errno k' where sh: "en_shutdown E (fd_fd fd) SHUT_WR k = (ret, errno, k')"
    by (cases "en_shutdown E (fd_fd fd) SHUT_WR k") blast
  have "case en_shutdown E (fd_fd fd) SHUT_WR k of (ret, errno, k') \<Rightarrow> ret = 0 \<and> out k' = out k"
    using assms unfolding shutdown_lawful_def by (elim allE)
  then have "ret = 0" "out k' = out k" using sh by simp_all
  with sh that show thesis by (simp add: Socket_shutdown_def SystemCall_def to_int_small SHUT_RD_def SHUT_WR_def)
qed

lemma stream_out_total:
  assumes tcp: "sp_tcp s = Some c" "ByteStream_inv (inbound c)"
    and law: "writev_lawful (en_writev E) out" "writev_takes (en_writev E) (fd_fd (sp_thread_data s)) (sp_kernel s)"
      "shutdown_lawful E out (fd_fd (sp_thread_data s))"
  shows "\<exists>s' b. stream_out E s = Inr s' \<and> sp_tcp s' = Some (set_inbound b c) \<and> ByteStream_inv b \<and>
    out (sp_kernel s') @ ByteStream_contents b = out (sp_kernel s) @ ByteStream_contents (inbound c)"
proof -
  let ?front = "BufferViewList_of_string (ByteStream_peek_output (min 65536 (ByteStream_buffer_size (inbound c))) (inbound c))"
  have "length (concat ?front) < 2 ^ 31" by (rule front_small [OF tcp(2)])
  from fd_write_single [OF law(1) this law(2)]
  obtain n fd k1 where w: "FileDescriptor_write (en_writev E) False 0 ?front (sp_thread_data s) (sp_kernel s) = Inr (n, fd, k1)"
    and fd: "fd_fd fd = fd_fd (sp_thread_data s)"
    by fastforce
  obtain b where b: "ByteStream_pop_output n (inbound c) = Inr b" "ByteStream_inv b"
    and out: "out k1 @ ByteStream_contents b = out (sp_kernel s) @ ByteStream_contents (inbound c)"
    by (rule write_front [OF tcp(2) law(1) w])
  let ?s = "s\<lparr>sp_tcp := Some (set_inbound b c), sp_thread_data := fd, sp_kernel := k1\<rparr>"
  have step: "stream_out E s = (if ByteStream_eof b \<or> ByteStream_error b then
      bind_res (Socket_shutdown (en_shutdown E) SHUT_WR fd k1) (\<lambda>(fd, k).
        Inr (?s\<lparr>sp_thread_data := fd, sp_kernel := k, sp_inbound_shutdown := True\<rparr>)) else Inr ?s)"
    using tcp(1) w b(1) by (simp add: stream_out_def tcp_of_def Let_def)
  obtain k2 where "Socket_shutdown (en_shutdown E) SHUT_WR fd k1 = Inr (register_write fd, k2)" "out k2 = out k1"
    by (rule shutdown_returns [OF law(3) [folded fd]])
  then show ?thesis using step b(2) out by (cases "ByteStream_eof b \<or> ByteStream_error b") auto
qed

section \<open>Sending and connecting\<close>

lemma write_segments_all:
  assumes "\<And>seg a fd k a' fd' k'. en_adapter_write E seg a fd k = Inr (a', fd', k') \<Longrightarrow> sent a' fd' k' = sent a fd k @ [seg]"
    and "write_segments E segs s = Inr s'" and "sp_tcp s = Some c"
  shows "sent (sp_datagram_adapter s') (sp_datagram_fd s') (sp_kernel s') =
      sent (sp_datagram_adapter s) (sp_datagram_fd s) (sp_kernel s) @ segs \<and>
    (segs \<noteq> [] \<longrightarrow> sp_tcp s' = Some (c\<lparr>tc_segments_out := []\<rparr>))"
  using assms(2,3)
proof (induction segs arbitrary: s c)
  case (Cons seg segs)
  then obtain a fd k where w: "en_adapter_write E seg (sp_datagram_adapter s) (sp_datagram_fd s) (sp_kernel s) = Inr (a, fd, k)"
    "write_segments E segs (s\<lparr>sp_datagram_adapter := a, sp_datagram_fd := fd, sp_kernel := k,
       sp_tcp := Some (c\<lparr>tc_segments_out := segs\<rparr>)\<rparr>) = Inr s'"
    by (auto simp: bind_res_Inr_iff)
  from Cons.IH [OF w(2), of "c\<lparr>tc_segments_out := segs\<rparr>"] assms(1) [OF w(1)] w(2) show ?case
    by (cases segs) auto
qed simp

lemma fresh_window: "TCPSender_effective_window_size (TCPSender_new cap rt isn cc rnd) = 1"
  by (simp add: TCPSender_effective_window_size_def TCPSender_new_def MAX_PAYLOAD_SIZE_def min_def max_def)

lemma read_nothing: "ByteStream_read 0 (ByteStream_new cap) = Inr (ByteStream_new cap, [])"
  by (simp add: ByteStream_read_def ByteStream_peek_output_def ByteStream_pop_output_def ByteStream_new_def)

definition syn_segment :: TCPSegment where
  "syn_segment = \<lparr>ts_header = TCPHeader_default\<lparr>th_syn := True\<rparr>, ts_payload = Buffer_of_string []\<rparr>"

lemma fresh_syn:
  "make_segment 1 (TCPSender_new cap rt isn cc rnd) = Inr (syn_segment, (TCPSender_new cap rt isn cc rnd)\<lparr>ss_set_syn_flag := True\<rparr>)"
proof -
  have "ByteStream_buffer_size (ByteStream_new cap) = 0" "\<not> ByteStream_eof (ByteStream_new cap)"
    by (simp_all add: ByteStream_buffer_size_def ByteStream_eof_def ByteStream_new_def)
  then show ?thesis
    by (simp add: make_segment_def TCPSender_new_def read_nothing syn_segment_def)
qed

lemma syn_length: "TCPSegment_length_in_sequence_space syn_segment = 1"
  by (simp add: TCPSegment_length_in_sequence_space_def syn_segment_def TCPHeader_default_def)

lemma fresh_fill:
  "TCPSender_fill_window (TCPSender_new cap rt isn cc rnd) =
     Inr (send_segment syn_segment ((TCPSender_new cap rt isn cc rnd)\<lparr>ss_set_syn_flag := True\<rparr>))"
proof -
  let ?s = "TCPSender_new cap rt isn cc rnd"
  have "ss_bytes_in_flight ?s = 0" by (simp add: TCPSender_new_def)
  moreover from this have "ss_bytes_in_flight (send_segment syn_segment (?s\<lparr>ss_set_syn_flag := True\<rparr>)) = 1"
    by (simp add: send_segment_def Let_def syn_length)
  ultimately show ?thesis
    by (simp add: TCPSender_fill_window_def fresh_window fresh_syn syn_length)
qed

lemma fresh_connect:
  "\<exists>tcp seg. TCPConnection_connect (TCPConnection_new cfg rnd) = Inr tcp \<and>
     TCPState_eq (TCPConnection_state tcp) (TCPState_of_State SYN_SENT) \<and>
     tc_segments_out tcp = [seg] \<and> th_syn (ts_header seg) \<and> \<not> th_ack (ts_header seg) \<and>
     th_seqno (ts_header seg) = ss_isn (tc_sender tcp)"
proof -
  have r: "TCPReceiver_ackno (TCPReceiver_new cap) = None"
    "\<not> ByteStream_error (TCPReceiver_stream_out (TCPReceiver_new cap))" for cap
    by (simp_all add: TCPReceiver_ackno_def TCPReceiver_new_def TCPReceiver_stream_out_def
      StreamReassembler_stream_out_def StreamReassembler_new_def ByteStream_new_def ByteStream_error_def)
  show ?thesis
    by (simp add: TCPConnection_connect_def TCPConnection_new_def fresh_fill add_ackno_and_window_to_send_def
      TCPState_eq_def TCPConnection_state_def TCPState_of_parts_def receiver_state_summary_def sender_state_summary_def
      r send_segment_def Let_def syn_length stamp_def TCPSender_next_seqno_def, 
      simp add: TCPSender_new_def syn_segment_def TCPHeader_default_def ByteStream_error_def ByteStream_new_def wrap_def)
qed

section \<open>What the socket's owner can rely on\<close>

definition demo_env :: "(unit, byte list \<times> byte list) socket_env" where
  "demo_env =
     \<lparr>en_read = \<lambda>fd n k. let bs = take (unat n) (fst k) in (int (length bs), 0, bs, drop (unat n) (fst k), snd k),
      en_writev = \<lambda>fd iovecs k. case slow_writev fd iovecs (snd k) of (ret, errno, out) \<Rightarrow> (ret, errno, fst k, out),
      en_shutdown = \<lambda>fd how k. (0, 0, k), en_poll = \<lambda>fds timeout s. (0, 0, [], s), en_timestamp_ms = \<lambda>k. (0, k),
      en_adapter_read = \<lambda>a fd k. Inr (a, fd, k, None), en_adapter_write = \<lambda>seg a fd k. Inr (a, fd, k),
      en_adapter_tick = \<lambda>ms a fd k. Inr (a, fd, k), en_adapter_set_config = \<lambda>c a. a,
      en_adapter_set_listening = \<lambda>l a. a\<rparr>"

definition demo_socket :: "TCPConnection option \<Rightarrow> (unit, byte list \<times> byte list) SpongeSocket" where
  "demo_socket tcp =
     (let fd = \<lparr>fd_fd = 3, fd_eof = False, fd_closed = False, fd_read_count = 0, fd_write_count = 0\<rparr> in
      \<lparr>sp_tcp = tcp, sp_datagram_adapter = (), sp_datagram_fd = fd, sp_thread_data = fd, sp_local = fd,
       sp_kernel = ([1, 2, 3], []), sp_abort = False, sp_inbound_shutdown = False,
       sp_outbound_shutdown = False, sp_fully_acked = False\<rparr>)"

lemma demo_laws:
  "read_lawful (en_read demo_env) fst" "writev_lawful (en_writev demo_env) snd"
  "writev_takes (en_writev demo_env) fd k" "shutdown_lawful demo_env snd fd"
  by (auto simp: demo_env_def read_lawful_def writev_lawful_def writev_takes_def shutdown_lawful_def
    slow_writev_def Let_def min_def)

definition demo_inbound :: ByteStream where
  "demo_inbound = fst (ByteStream_write [4, 5, 6] (ByteStream_new 10))"

lemma demo_read:
  "FileDescriptor_read (en_read demo_env) 8 fd ([1, 2, 3], out) = Inr ([1, 2, 3], register_read fd, [], out)"
proof -
  have "min BUFFER_SIZE 8 = 8" "to_int 3 = 3" by code_simp+
  then show ?thesis by (simp add: FileDescriptor_read_def demo_env_def SystemCall_def Let_def)
qed

lemma demo_inbound_ok: "ByteStream_inv demo_inbound" "ByteStream_contents demo_inbound = [4, 5, 6]"
proof -
  obtain b n where w: "ByteStream_write [4, 5, 6] (ByteStream_new 10) = (b, n)" by fastforce
  note c = ByteStream_write_contents [OF ByteStream_new_inv _ w]
  have "bs_capacity (ByteStream_new 10) = 10" by (simp add: ByteStream_new_def)
  then show "ByteStream_inv demo_inbound" "ByteStream_contents demo_inbound = [4, 5, 6]"
    using c(1-3) w by (simp_all add: demo_inbound_def)
qed

text \<open>C13. The callback of the event loop that reads from the owner never throws because the connection accepted
  fewer bytes than it advertised: on every connection satisfying the invariant whose outbound stream is still open,
  whatever bytes the kernel returns are removed from what the owner wrote and appended, all and in order, to what
  the connection sends; the outbound stream is ended exactly when the owner's end of the pair reached its end.\<close>
theorem socket_relays_to_peer:
  assumes "sp_tcp s = Some c" and "conn_inv w whole pisn k c" and "\<not> ended (tc_sender c)"
    and "read_lawful (en_read E) pending"
    and "FileDescriptor_read (en_read E) (TCPConnection_remaining_outbound_capacity c) (sp_thread_data s) (sp_kernel s) =
      Inr (data, fd, k1)"
    and "length w + length data + 2 < 2 ^ 64"
  shows "\<exists>s' c'. stream_in E s = Inr s' \<and> sp_tcp s' = Some c' \<and> conn_inv (w @ data) whole pisn k c' \<and>
    pending (sp_kernel s) = data @ pending (sp_kernel s') \<and> (ended (tc_sender c') \<longleftrightarrow> fd_eof fd) \<and>
    (sp_outbound_shutdown s' \<longleftrightarrow> sp_outbound_shutdown s \<or> fd_eof fd)"
  using stream_in_total [OF assms] fd_read_correct(1) [OF assms(4,5)] by auto

theorem socket_relays_to_peer_witness:
  "\<exists>s' c'. stream_in demo_env (demo_socket (Some (TCPConnection_new (TCPConfig_default\<lparr>cfg_send_capacity := 8\<rparr>) 7))) = Inr s' \<and>
    sp_tcp s' = Some c' \<and> conn_inv [1, 2, 3] [9] (WrappingInt32 5) 0 c' \<and> fst (sp_kernel s') = []"
proof -
  let ?c = "TCPConnection_new (TCPConfig_default\<lparr>cfg_send_capacity := 8\<rparr>) 7"
  have inv: "conn_inv [] [9] (WrappingInt32 5) 0 ?c" by (rule conn_new_inv) (simp_all add: TCPConfig_default_def DEFAULT_CAPACITY_def)
  have notend: "\<not> ended (tc_sender ?c)"
    by (simp add: TCPConnection_new_def TCPSender_new_def ByteStream_new_def)
  have cap: "TCPConnection_remaining_outbound_capacity ?c = 8"
    by (simp add: TCPConnection_remaining_outbound_capacity_def TCPConnection_new_def TCPSender_new_def
      ByteStream_remaining_capacity_def ByteStream_buffer_size_def ByteStream_new_def TCPConfig_default_def DEFAULT_CAPACITY_def)
  have rd: "FileDescriptor_read (en_read demo_env) (TCPConnection_remaining_outbound_capacity ?c)
      (sp_thread_data (demo_socket (Some ?c))) (sp_kernel (demo_socket (Some ?c))) =
      Inr ([1, 2, 3], register_read (sp_thread_data (demo_socket (Some ?c))), ([], []))"
    unfolding cap by (simp add: demo_socket_def Let_def demo_read)
  have "sp_tcp (demo_socket (Some ?c)) = Some ?c" "fst (sp_kernel (demo_socket (Some ?c))) = [1, 2, 3]"
    by (simp_all add: demo_socket_def Let_def)
  moreover have "length [] + length [1, 2, 3 :: byte] + 2 < 2 ^ 64" by simp
  ultimately obtain s' c' where "stream_in demo_env (demo_socket (Some ?c)) = Inr s'" "sp_tcp s' = Some c'"
    "conn_inv ([] @ [1, 2, 3]) [9] (WrappingInt32 5) 0 c'" "[1, 2, 3] = [1, 2, 3] @ fst (sp_kernel s')"
    using socket_relays_to_peer [OF _ inv notend demo_laws(1) rd] by metis
  then show ?thesis by simp
qed

text \<open>C14. The callback that writes to the owner returns whenever the kernel keeps the documented contract of
  writev, the owner's end of the pair can take a byte (the event loop calls it only then) and shutting it down
  succeeds; and it neither loses nor repeats a byte: what the owner was given followed by what is still
  buffered in the inbound stream is the same before and after, also in the step that shuts the pair down.\<close>
theorem socket_relays_to_owner:
  assumes "sp_tcp s = Some c" and "ByteStream_inv (inbound c)"
    and "writev_lawful (en_writev E) out" and "writev_takes (en_writev E) (fd_fd (sp_thread_data s)) (sp_kernel s)"
    and "shutdown_lawful E out (fd_fd (sp_thread_data s))"
  shows "\<exists>s' b. stream_out E s = Inr s' \<and> sp_tcp s' = Some (set_inbound b c) \<and> ByteStream_inv b \<and>
    out (sp_kernel s') @ ByteStream_contents b = out (sp_kernel s) @ ByteStream_contents (inbound c)"
  by (rule stream_out_total [OF assms])

theorem socket_relays_to_owner_witness:
  "\<exists>s' b. stream_out demo_env (demo_socket (Some (set_inbound demo_inbound (TCPConnection_new TCPConfig_default 7)))) = Inr s' \<and>
    ByteStream_contents (inbound (the (sp_tcp s'))) = b \<and> snd (sp_kernel s') @ b = [4, 5, 6]"
proof -
  let ?c = "set_inbound demo_inbound (TCPConnection_new TCPConfig_default 7)"
  have b: "ByteStream_inv (inbound ?c)" "ByteStream_contents (inbound ?c) = [4, 5, 6]"
    by (simp_all add: demo_inbound_ok)
  have "sp_tcp (demo_socket (Some ?c)) = Some ?c" "snd (sp_kernel (demo_socket (Some ?c))) = []"
    by (simp_all add: demo_socket_def Let_def)
  with socket_relays_to_owner [OF this(1) b(1) demo_laws(2-4)] b(2) show ?thesis by auto
qed

text \<open>connect() of a socket without a connection reaches its event loop: the connection it creates is in
  SYN_SENT, with one segment queued, a SYN without an acknowledgment that carries the initial sequence number; on
  a socket that already has a connection it throws.\<close>
theorem socket_connect_sends_syn:
  "if sp_tcp s = None
   then \<exists>rules s' c seg. SpongeSocket_begin_connect E c_tcp c_ad random_isn s = Inr (rules, s') \<and>
     sp_tcp s' = Some c \<and> TCPState_eq (TCPConnection_state c) (TCPState_of_State SYN_SENT) \<and>
     tc_segments_out c = [seg] \<and> th_syn (ts_header seg) \<and> \<not> th_ack (ts_header seg) \<and>
     th_seqno (ts_header seg) = ss_isn (tc_sender c)
   else \<exists>what. SpongeSocket_begin_connect E c_tcp c_ad random_isn s = Inl (Runtime_error what)"
  using fresh_connect [of c_tcp random_isn]
  by (auto simp: SpongeSocket_begin_connect_def SpongeSocket_initialize_TCP_def tcp_of_def state_is_def tcp_is_def Let_def)

end
