(* ===== verification/NetworkSimulators.thy ===== *)
theory NetworkSimulators
  imports Routers "HOL-Library.Multiset"
begin

text \<open>
  \<^verbatim>\<open>apps/network_simulator.cc\<close>: hosts and a router joined by Ethernet links, on which frames are carried from
  queue to queue. The hosts are an association list in the order of their insertion (the source's hash
  map fixes no order). Random numbers are arguments, and the resolver is the parameter \<open>L\<close>. Messages
  on \<^verbatim>\<open>cerr\<close> and \<^verbatim>\<open>cout\<close> are left out, and so is the part of an exception's text that prints a datagram.
  The random generator is an infinite sequence \<open>rd\<close> of draws with a position in it. What a Lua script
  describes is an argument: the entries of its tables as the accessors of \<^verbatim>\<open>LuaConfig\<close> return them.
\<close>

section \<open>Hosts\<close>

definition random_bytes :: "(nat \<Rightarrow> u32) \<Rightarrow> nat \<Rightarrow> byte list" where
  "random_bytes rd pos = map (\<lambda>i. ucast (rd (pos + i))) [0..<6]"

definition random_host_ethernet_address :: "(nat \<Rightarrow> u32) \<Rightarrow> nat \<Rightarrow> EthernetAddress" where
  "random_host_ethernet_address rd pos =
     (let addr = random_bytes rd pos; addr = addr[0 := addr ! 0 OR 0x02] in addr[0 := addr ! 0 AND 0xfe])"

definition random_router_ethernet_address :: "(nat \<Rightarrow> u32) \<Rightarrow> nat \<Rightarrow> EthernetAddress" where
  "random_router_ethernet_address rd pos = (random_bytes rd pos)[0 := 0x02, 1 := 0, 2 := 0]"

definition ip_of :: "libc \<Rightarrow> string \<Rightarrow> u32 res" where
  "ip_of L str = bind_res (Address_of_ip_port L str 0) Address_ipv4_numeric"

record Host =
  ho_name :: string
  ho_my_address :: Address
  ho_interface :: AsyncNetworkInterface
  ho_next_hop :: Address
  ho_expecting_to_receive :: "IPv4Datagram list"

definition serialized :: "IPv4Datagram \<Rightarrow> byte list res" where
  "serialized d = bind_res (IPv4Datagram_serialize d) (\<lambda>bl. Inr (BufferList_concatenate bl))"

fun expecting :: "IPv4Datagram \<Rightarrow> IPv4Datagram list \<Rightarrow> bool res" where
  "expecting expected [] = Inr False"
| "expecting expected (x # xs) =
     bind_res (serialized x) (\<lambda>s.
     bind_res (serialized expected) (\<lambda>t.
     if s = t then Inr True else expecting expected xs))"

fun remove_expectation :: "IPv4Datagram \<Rightarrow> IPv4Datagram list \<Rightarrow> IPv4Datagram list res" where
  "remove_expectation expected [] = Inr []"
| "remove_expectation expected (x # xs) =
     bind_res (serialized x) (\<lambda>s.
     bind_res (serialized expected) (\<lambda>t.
     if s = t then Inr xs else bind_res (remove_expectation expected xs) (\<lambda>xs. Inr (x # xs))))"

definition Host_new :: "(nat \<Rightarrow> u32) \<Rightarrow> nat \<Rightarrow> string \<Rightarrow> Address \<Rightarrow> Address \<Rightarrow> Host" where
  "Host_new rd pos name my_address next_hop =
     \<lparr>ho_name = name, ho_my_address = my_address,
      ho_interface = AsyncNetworkInterface_new (NetworkInterface_new (random_host_ethernet_address rd pos) my_address),
      ho_next_hop = next_hop, ho_expecting_to_receive = []\<rparr>"

definition Host_datagram :: "u32 \<Rightarrow> u32 \<Rightarrow> u8 \<Rightarrow> u32 \<Rightarrow> IPv4Datagram" where
  "Host_datagram src dst ttl rnd =
     (let payload = BufferList_of_string (map of_char (''random payload: {'' @ to_string (unat rnd) @ ''}''));
          h = (id_header IPv4Datagram_default)\<lparr>ih_src := src, ih_dst := dst\<rparr>
      in
      \<lparr>id_header = h\<lparr>ih_len := ucast (ucast (ih_hlen h) * 4 + BufferList_size payload :: size_t), ih_ttl := ttl\<rparr>,
       id_payload = payload\<rparr>)"

definition Host_send_to :: "Address \<Rightarrow> u8 \<Rightarrow> u32 \<Rightarrow> Host \<Rightarrow> (Host \<times> IPv4Datagram) res" where
  "Host_send_to destination ttl rnd h =
     bind_res (Address_ipv4_numeric (ho_my_address h)) (\<lambda>src.
     bind_res (Address_ipv4_numeric destination) (\<lambda>dst.
     let dgram = Host_datagram src dst ttl rnd in
     bind_res (NetworkInterface_send_datagram dgram (ho_next_hop h) (ho_interface h)) (\<lambda>a.
     Inr (h\<lparr>ho_interface := a\<rparr>, dgram))))"

definition Host_expect :: "IPv4Datagram \<Rightarrow> Host \<Rightarrow> Host" where
  "Host_expect expected h = h\<lparr>ho_expecting_to_receive := ho_expecting_to_receive h @ [expected]\<rparr>"

fun check_received :: "string \<Rightarrow> IPv4Datagram list \<Rightarrow> IPv4Datagram list \<Rightarrow> IPv4Datagram list res" where
  "check_received name [] expected = Inr expected"
| "check_received name (dgram_received # rest) expected =
     bind_res (expecting dgram_received expected) (\<lambda>b.
     if \<not> b then Inl (Runtime_error (''Host '' @ name @ '' received unexpected Internet datagram''))
     else bind_res (remove_expectation dgram_received expected) (check_received name rest))"

definition Host_check :: "Host \<Rightarrow> Host res" where
  "Host_check h =
     bind_res (check_received (ho_name h) (ai_datagrams_out (ho_interface h)) (ho_expecting_to_receive h)) (\<lambda>expected.
     if expected \<noteq> []
     then Inl (Runtime_error (''Host '' @ ho_name h @ '' did NOT receive an expected Internet datagram''))
     else Inr (h\<lparr>ho_interface := (ho_interface h)\<lparr>ai_datagrams_out := []\<rparr>, ho_expecting_to_receive := []\<rparr>))"

section \<open>Links\<close>

fun clear :: "'a list \<Rightarrow> 'b list \<Rightarrow> 'b list res" where
  "clear [] queue2 = Inr queue2"
| "clear (_ # queue1) [] = Inl (Undefined_behaviour ''std::queue::pop on an empty queue'')"
| "clear (_ # queue1) (_ # queue2) = clear queue1 queue2"

fun deliver :: "EthernetFrame list \<Rightarrow> AsyncNetworkInterface \<Rightarrow> AsyncNetworkInterface res" where
  "deliver [] dst = Inr dst"
| "deliver (frame # to_send) dst =
     bind_res (AsyncNetworkInterface_recv_frame
       (frame\<lparr>ef_payload := BufferList_of_string (BufferList_concatenate (ef_payload frame))\<rparr>) dst) (deliver to_send)"

definition clear_frames :: "EthernetFrame list \<Rightarrow> AsyncNetworkInterface \<Rightarrow> AsyncNetworkInterface res" where
  "clear_frames frames a = bind_res (clear frames (ni_frames_out a)) (\<lambda>q. Inr (a\<lparr>ni_frames_out := q\<rparr>))"

definition exchange_frames ::
    "AsyncNetworkInterface \<Rightarrow> AsyncNetworkInterface \<Rightarrow> (AsyncNetworkInterface \<times> AsyncNetworkInterface) res" where
  "exchange_frames x y =
     (let x_frames = ni_frames_out x; y_frames = ni_frames_out y in
      bind_res (deliver x_frames y) (\<lambda>y.
      bind_res (deliver y_frames x) (\<lambda>x.
      bind_res (clear_frames x_frames x) (\<lambda>x.
      bind_res (clear_frames y_frames y) (\<lambda>y. Inr (x, y))))))"

definition exchange_frames3 ::
    "AsyncNetworkInterface \<Rightarrow> AsyncNetworkInterface \<Rightarrow> AsyncNetworkInterface \<Rightarrow>
     (AsyncNetworkInterface \<times> AsyncNetworkInterface \<times> AsyncNetworkInterface) res" where
  "exchange_frames3 x y z =
     (let x_frames = ni_frames_out x; y_frames = ni_frames_out y; z_frames = ni_frames_out z in
      bind_res (deliver x_frames y) (\<lambda>y.
      bind_res (deliver x_frames z) (\<lambda>z.
      bind_res (deliver y_frames x) (\<lambda>x.
      bind_res (deliver y_frames z) (\<lambda>z.
      bind_res (deliver z_frames x) (\<lambda>x.
      bind_res (deliver z_frames y) (\<lambda>y.
      bind_res (clear_frames x_frames x) (\<lambda>x.
      bind_res (clear_frames y_frames y) (\<lambda>y.
      bind_res (clear_frames z_frames z) (\<lambda>z. Inr (x, y, z)))))))))))"

section \<open>Network\<close>

record Network =
  nw_router :: Router
  nw_default_id :: size_t
  nw_eth0_id :: size_t
  nw_eth1_id :: size_t
  nw_eth2_id :: size_t
  nw_uun3_id :: size_t
  nw_hs4_id :: size_t
  nw_mit5_id :: size_t
  nw_interface_ids :: "string \<rightharpoonup> size_t"
  nw_connections :: "(string \<times> string) list"
  nw_hosts :: "(string \<times> Host) list"

definition Network_host :: "string \<Rightarrow> Network \<Rightarrow> Host res" where
  "Network_host name N =
     (case map_of (nw_hosts N) name of
        None \<Rightarrow> Inl (Runtime_error (''unknown host: '' @ name))
      | Some h \<Rightarrow> if ho_name h \<noteq> name then Inl (Runtime_error (''invalid host: '' @ name)) else Inr h)"

definition host_exists :: "string \<Rightarrow> Network \<Rightarrow> bool" where
  "host_exists name N \<longleftrightarrow> map_of (nw_hosts N) name \<noteq> None"

text \<open>A host is used through a reference; \<open>put_host\<close> and \<open>put_interface\<close> write back what a method changed.\<close>

definition put_host :: "string \<Rightarrow> Host \<Rightarrow> Network \<Rightarrow> Network" where
  "put_host name h N = N\<lparr>nw_hosts := map (\<lambda>(n, g). (n, if n = name then h else g)) (nw_hosts N)\<rparr>"

definition put_interface :: "size_t \<Rightarrow> AsyncNetworkInterface \<Rightarrow> Network \<Rightarrow> Network" where
  "put_interface i a N =
     N\<lparr>nw_router := (nw_router N)\<lparr>ro_interfaces := (ro_interfaces (nw_router N))[unat i := a]\<rparr>\<rparr>"

definition put_host_interface :: "string \<Rightarrow> Host \<Rightarrow> AsyncNetworkInterface \<Rightarrow> Network \<Rightarrow> Network" where
  "put_host_interface name h a = put_host name (h\<lparr>ho_interface := a\<rparr>)"

definition exchange_with :: "size_t \<Rightarrow> string \<Rightarrow> Network \<Rightarrow> Network res" where
  "exchange_with i name N =
     bind_res (Router_interface i (nw_router N)) (\<lambda>x.
     bind_res (Network_host name N) (\<lambda>h.
     bind_res (exchange_frames x (ho_interface h)) (\<lambda>(x, y).
     Inr (put_host_interface name h y (put_interface i x N)))))"

definition exchange_with_two :: "size_t \<Rightarrow> string \<Rightarrow> string \<Rightarrow> Network \<Rightarrow> Network res" where
  "exchange_with_two i name1 name2 N =
     bind_res (Router_interface i (nw_router N)) (\<lambda>x.
     bind_res (Network_host name1 N) (\<lambda>h1.
     bind_res (Network_host name2 N) (\<lambda>h2.
     bind_res (exchange_frames3 x (ho_interface h1) (ho_interface h2)) (\<lambda>(x, y, z).
     Inr (put_host_interface name2 h2 z (put_host_interface name1 h1 y (put_interface i x N)))))))"

fun exchange_connections :: "(string \<times> string) list \<Rightarrow> Network \<Rightarrow> Network res" where
  "exchange_connections [] N = Inr N"
| "exchange_connections ((iface_name, host_name) # conns) N =
     (case nw_interface_ids N iface_name of
        None \<Rightarrow> Inl (Out_of_range ''unordered_map::at'')
      | Some i \<Rightarrow> bind_res (exchange_with i host_name N) (exchange_connections conns))"

definition simulate_physical_connections :: "Network \<Rightarrow> Network res" where
  "simulate_physical_connections N =
     (if nw_connections N = [] then
        bind_res (exchange_with (nw_default_id N) ''default_router'' N) (\<lambda>N.
        bind_res (exchange_with (nw_eth0_id N) ''applesauce'' N) (\<lambda>N.
        bind_res (exchange_with (nw_eth2_id N) ''cherrypie'' N) (\<lambda>N.
        bind_res (exchange_with (nw_hs4_id N) ''hs_router'' N) (\<lambda>N.
        exchange_with_two (nw_uun3_id N) ''dm42'' ''dm43'' N))))
      else exchange_connections (nw_connections N) N)"

fun simulate_rounds :: "nat \<Rightarrow> Network \<Rightarrow> Network res" where
  "simulate_rounds 0 N = Inr N"
| "simulate_rounds (Suc n) N =
     bind_res (Router_route (nw_router N)) (\<lambda>r.
     bind_res (simulate_physical_connections (N\<lparr>nw_router := r\<rparr>)) (simulate_rounds n))"

fun check_hosts :: "(string \<times> Host) list \<Rightarrow> (string \<times> Host) list res" where
  "check_hosts [] = Inr []"
| "check_hosts ((name, h) # hosts) =
     bind_res (Host_check h) (\<lambda>h. bind_res (check_hosts hosts) (\<lambda>hosts. Inr ((name, h) # hosts)))"

definition Network_simulate :: "Network \<Rightarrow> Network res" where
  "Network_simulate N =
     bind_res (simulate_rounds 256 N) (\<lambda>N.
     bind_res (check_hosts (nw_hosts N)) (\<lambda>hosts. Inr (N\<lparr>nw_hosts := hosts\<rparr>)))"

section \<open>The built-in network\<close>

fun add_router_interfaces :: "libc \<Rightarrow> (nat \<Rightarrow> u32) \<Rightarrow> nat \<Rightarrow> string list \<Rightarrow> Router \<Rightarrow> (Router \<times> size_t list) res" where
  "add_router_interfaces L rd pos [] r = Inr (r, [])"
| "add_router_interfaces L rd pos (ip_s # ips) r =
     bind_res (Address_of_ip_port L ip_s 0) (\<lambda>addr.
     let (r, i) = Router_add_interface
           (AsyncNetworkInterface_new (NetworkInterface_new (random_router_ethernet_address rd pos) addr)) r
     in
     bind_res (add_router_interfaces L rd (pos + 6) ips r) (\<lambda>(r, is). Inr (r, i # is)))"

definition emplace_host :: "string \<Rightarrow> Host \<Rightarrow> Network \<Rightarrow> Network" where
  "emplace_host name h N = (if host_exists name N then N else N\<lparr>nw_hosts := nw_hosts N @ [(name, h)]\<rparr>)"

fun add_hosts :: "libc \<Rightarrow> (nat \<Rightarrow> u32) \<Rightarrow> nat \<Rightarrow> (string \<times> string \<times> string) list \<Rightarrow> Network \<Rightarrow> Network res" where
  "add_hosts L rd pos [] N = Inr N"
| "add_hosts L rd pos ((name, ip_s, hop_s) # hosts) N =
     bind_res (Address_of_ip_port L ip_s 0) (\<lambda>my_address.
     bind_res (Address_of_ip_port L hop_s 0) (\<lambda>next_hop.
     add_hosts L rd (pos + 6) hosts (emplace_host name (Host_new rd pos name my_address next_hop) N)))"

definition Network_add_route :: "u32 \<Rightarrow> u8 \<Rightarrow> Address option \<Rightarrow> size_t \<Rightarrow> Network \<Rightarrow> Network res" where
  "Network_add_route route_prefix len next_hop i N =
     bind_res (Router_add_route route_prefix len next_hop i (nw_router N)) (\<lambda>r. Inr (N\<lparr>nw_router := r\<rparr>))"

text \<open>How a route of the built-in network names its next hop: by a host, by no address or by an address.\<close>

datatype hop = Via_host string | Direct | Via_address string

definition hop_address :: "libc \<Rightarrow> hop \<Rightarrow> Network \<Rightarrow> Address option res" where
  "hop_address L h N =
     (case h of
        Via_host name \<Rightarrow> bind_res (Network_host name N) (\<lambda>h. Inr (Some (ho_my_address h)))
      | Direct \<Rightarrow> Inr None
      | Via_address s \<Rightarrow> bind_res (Address_of_ip_port L s 0) (\<lambda>a. Inr (Some a)))"

fun add_routes :: "libc \<Rightarrow> (string \<times> u8 \<times> hop \<times> size_t) list \<Rightarrow> Network \<Rightarrow> Network res" where
  "add_routes L [] N = Inr N"
| "add_routes L ((prefix_s, len, h, i) # routes) N =
     bind_res (ip_of L prefix_s) (\<lambda>route_prefix.
     bind_res (hop_address L h N) (\<lambda>next_hop.
     bind_res (Network_add_route route_prefix len next_hop i N) (add_routes L routes)))"

definition Network_empty :: Network where
  "Network_empty =
     \<lparr>nw_router = Router_new, nw_default_id = 0, nw_eth0_id = 0, nw_eth1_id = 0, nw_eth2_id = 0, nw_uun3_id = 0,
      nw_hs4_id = 0, nw_mit5_id = 0, nw_interface_ids = Map.empty, nw_connections = [], nw_hosts = []\<rparr>"

definition Network_new :: "libc \<Rightarrow> (nat \<Rightarrow> u32) \<Rightarrow> Network res" where
  "Network_new L rd =
     bind_res (add_router_interfaces L rd 0
       [''171.67.76.46'', ''10.0.0.1'', ''172.16.0.1'', ''192.168.0.1'', ''198.178.229.1'', ''143.195.0.2'',
        ''128.30.76.255''] Router_new) (\<lambda>(r, is).
     let N = Network_empty\<lparr>nw_router := r, nw_default_id := is ! 0, nw_eth0_id := is ! 1, nw_eth1_id := is ! 2,
           nw_eth2_id := is ! 3, nw_uun3_id := is ! 4, nw_hs4_id := is ! 5, nw_mit5_id := is ! 6\<rparr>
     in
     bind_res (add_hosts L rd 42
       [(''applesauce'', ''10.0.0.2'', ''10.0.0.1''),
        (''default_router'', ''171.67.76.1'', ''0''),
        (''cherrypie'', ''192.168.0.2'', ''192.168.0.1''),
        (''hs_router'', ''143.195.0.1'', ''0''),
        (''dm42'', ''198.178.229.42'', ''198.178.229.1''),
        (''dm43'', ''198.178.229.43'', ''198.178.229.1'')] N) (\<lambda>N.
     add_routes L
       [(''0.0.0.0'', 0, Via_host ''default_router'', nw_default_id N),
        (''10.0.0.0'', 8, Direct, nw_eth0_id N),
        (''172.16.0.0'', 16, Direct, nw_eth1_id N),
        (''192.168.0.0'', 24, Direct, nw_eth2_id N),
        (''198.178.229.0'', 24, Direct, nw_uun3_id N),
        (''143.195.0.0'', 17, Via_host ''hs_router'', nw_hs4_id N),
        (''143.195.128.0'', 18, Via_host ''hs_router'', nw_hs4_id N),
        (''143.195.192.0'', 19, Via_host ''hs_router'', nw_hs4_id N),
        (''128.30.76.255'', 16, Via_address ''128.30.0.1'', nw_mit5_id N)] N))"

section \<open>A network described by a script\<close>

record lua_interface =
  li_name :: "string option"
  li_ip :: "string option"

record lua_host =
  lh_key :: string
  lh_ip :: "string option"
  lh_next_hop :: "string option"

record lua_route =
  lr_prefix :: "string option"
  lr_len :: "int option"
  lr_next_hop :: "string option"
  lr_interface :: "string option"

record lua_connection =
  lk_router :: "string option"
  lk_host :: "string option"
  lk_hosts :: "string list option"

record lua_test =
  lt_from :: "string option"
  lt_to :: "string option"
  lt_ttl :: "int option"

record lua_network =
  ln_interfaces :: "lua_interface list"
  ln_hosts :: "lua_host list"
  ln_routes :: "lua_route list"
  ln_connections :: "lua_connection list"
  ln_tests :: "lua_test list"

fun lua_interfaces :: "libc \<Rightarrow> (nat \<Rightarrow> u32) \<Rightarrow> lua_interface list \<Rightarrow> Network \<times> nat \<Rightarrow> (Network \<times> nat) res" where
  "lua_interfaces L rd [] s = Inr s"
| "lua_interfaces L rd (e # es) (N, pos) =
     (case (li_name e, li_ip e) of
        (Some name, Some ip_s) \<Rightarrow>
          bind_res (Address_of_ip_port L ip_s 0) (\<lambda>addr.
          let (r, i) = Router_add_interface
                (AsyncNetworkInterface_new (NetworkInterface_new (random_router_ethernet_address rd pos) addr)) (nw_router N)
          in lua_interfaces L rd es
               (N\<lparr>nw_router := r, nw_interface_ids := (nw_interface_ids N)(name \<mapsto> i)\<rparr>, pos + 6))
      | _ \<Rightarrow> lua_interfaces L rd es (N, pos))"

fun lua_hosts :: "libc \<Rightarrow> (nat \<Rightarrow> u32) \<Rightarrow> lua_host list \<Rightarrow> Network \<times> nat \<Rightarrow> (Network \<times> nat) res" where
  "lua_hosts L rd [] s = Inr s"
| "lua_hosts L rd (e # es) (N, pos) =
     (case (lh_ip e, lh_next_hop e) of
        (Some ip_s, Some hop_s) \<Rightarrow>
          bind_res (Address_of_ip_port L ip_s 0) (\<lambda>my_address.
          bind_res (Address_of_ip_port L hop_s 0) (\<lambda>next_hop.
          lua_hosts L rd es (emplace_host (lh_key e) (Host_new rd pos (lh_key e) my_address next_hop) N, pos + 6)))
      | _ \<Rightarrow> lua_hosts L rd es (N, pos))"

definition lua_next_hop :: "libc \<Rightarrow> string option \<Rightarrow> Network \<Rightarrow> Address option res" where
  "lua_next_hop L hop_s N =
     (case hop_s of
        None \<Rightarrow> Inr None
      | Some s \<Rightarrow>
          if s \<noteq> [] \<and> host_exists s N
          then bind_res (Network_host s N) (\<lambda>h. Inr (Some (ho_my_address h)))
          else bind_res (Address_of_ip_port L s 0) (\<lambda>a. Inr (Some a)))"

fun lua_routes :: "libc \<Rightarrow> lua_route list \<Rightarrow> Network \<Rightarrow> Network res" where
  "lua_routes L [] N = Inr N"
| "lua_routes L (e # es) N =
     (case (lr_prefix e, lr_len e, lr_interface e) of
        (Some prefix_s, Some len_i, Some iface_s) \<Rightarrow>
          bind_res (ip_of L prefix_s) (\<lambda>route_prefix.
          case nw_interface_ids N iface_s of
            None \<Rightarrow> Inl (Out_of_range ''unordered_map::at'')
          | Some i \<Rightarrow>
              bind_res (lua_next_hop L (lr_next_hop e) N) (\<lambda>next_hop.
              bind_res (Network_add_route route_prefix (of_int len_i) next_hop i N) (lua_routes L es)))
      | _ \<Rightarrow> lua_routes L es N)"

definition lua_connections :: "lua_connection \<Rightarrow> (string \<times> string) list" where
  "lua_connections e =
     (case lk_router e of
        None \<Rightarrow> []
      | Some iface_s \<Rightarrow>
          (case lk_host e of
             Some host_s \<Rightarrow> [(iface_s, host_s)]
           | None \<Rightarrow>
               (case lk_hosts e of
                  None \<Rightarrow> []
                | Some hs \<Rightarrow> map (\<lambda>h. (iface_s, h)) (filter (\<lambda>h. h \<noteq> []) hs))))"

definition Network_of_lua :: "libc \<Rightarrow> (nat \<Rightarrow> u32) \<Rightarrow> lua_network \<Rightarrow> (Network \<times> nat) res" where
  "Network_of_lua L rd lua =
     bind_res (lua_interfaces L rd (ln_interfaces lua) (Network_empty, 0)) (\<lambda>s.
     bind_res (lua_hosts L rd (ln_hosts lua) s) (\<lambda>(N, pos).
     bind_res (lua_routes L (ln_routes lua) N) (\<lambda>N.
     Inr (N\<lparr>nw_connections := nw_connections N @ concat (map lua_connections (ln_connections lua))\<rparr>, pos))))"

section \<open>Tests\<close>

definition Network_send_from :: "string \<Rightarrow> Address \<Rightarrow> u8 \<Rightarrow> u32 \<Rightarrow> Network \<Rightarrow> (Network \<times> IPv4Datagram) res" where
  "Network_send_from name destination ttl rnd N =
     bind_res (Network_host name N) (\<lambda>h.
     bind_res (Host_send_to destination ttl rnd h) (\<lambda>(h, dgram). Inr (put_host name h N, dgram)))"

definition Network_expect :: "string \<Rightarrow> IPv4Datagram \<Rightarrow> Network \<Rightarrow> Network res" where
  "Network_expect name dgram N =
     bind_res (Network_host name N) (\<lambda>h. Inr (put_host name (Host_expect dgram h) N))"

definition one_hop :: "IPv4Datagram \<Rightarrow> IPv4Datagram" where
  "one_hop d = d\<lparr>id_header := (id_header d)\<lparr>ih_ttl := ih_ttl (id_header d) - 1\<rparr>\<rparr>"

definition delivery_test :: "string \<Rightarrow> Address \<Rightarrow> string \<Rightarrow> u32 \<Rightarrow> Network \<Rightarrow> Network res" where
  "delivery_test from destination to rnd N =
     bind_res (Network_send_from from destination 64 rnd N) (\<lambda>(N, dgram_sent).
     bind_res (Network_expect to (one_hop dgram_sent) N) Network_simulate)"

definition expiry_test :: "string \<Rightarrow> Address \<Rightarrow> u8 \<Rightarrow> u32 \<Rightarrow> Network \<Rightarrow> Network res" where
  "expiry_test from destination ttl rnd N =
     bind_res (Network_send_from from destination ttl rnd N) (\<lambda>(N, _). Network_simulate N)"

definition host_test :: "string \<Rightarrow> string \<Rightarrow> u32 \<Rightarrow> Network \<Rightarrow> Network res" where
  "host_test from to rnd N =
     bind_res (Network_host to N) (\<lambda>h. delivery_test from (ho_my_address h) to rnd N)"

definition address_test :: "libc \<Rightarrow> string \<Rightarrow> string \<Rightarrow> string \<Rightarrow> u32 \<Rightarrow> Network \<Rightarrow> Network res" where
  "address_test L from ip_s to rnd N =
     bind_res (Address_of_ip_port L ip_s 0) (\<lambda>a. delivery_test from a to rnd N)"

definition network_simulator :: "libc \<Rightarrow> (nat \<Rightarrow> u32) \<Rightarrow> Network res" where
  "network_simulator L rd =
     bind_res (Network_new L rd) (\<lambda>N.
     bind_res (host_test ''applesauce'' ''cherrypie'' (rd 78) N) (\<lambda>N.
     bind_res (host_test ''cherrypie'' ''applesauce'' (rd 79) N) (\<lambda>N.
     bind_res (address_test L ''applesauce'' ''1.2.3.4'' ''default_router'' (rd 80) N) (\<lambda>N.
     bind_res (address_test L ''applesauce'' ''143.195.131.17'' ''hs_router'' (rd 81) N) (\<lambda>N.
     bind_res (address_test L ''cherrypie'' ''143.195.193.52'' ''hs_router'' (rd 82) N) (\<lambda>N.
     bind_res (address_test L ''cherrypie'' ''143.195.223.255'' ''hs_router'' (rd 83) N) (\<lambda>N.
     bind_res (address_test L ''cherrypie'' ''143.195.224.0'' ''default_router'' (rd 84) N) (\<lambda>N.
     bind_res (host_test ''dm42'' ''dm43'' (rd 85) N) (\<lambda>N.
     bind_res (Address_of_ip_port L ''1.2.3.4'' 0) (\<lambda>a.
     bind_res (expiry_test ''applesauce'' a 1 (rd 86) N) (\<lambda>N.
     expiry_test ''applesauce'' a 0 (rd 87) N)))))))))))"

definition lua_test_run :: "libc \<Rightarrow> string \<Rightarrow> string \<Rightarrow> int option \<Rightarrow> u32 \<Rightarrow> Network \<Rightarrow> Network res" where
  "lua_test_run L from to ttl_i rnd N =
     (let ttl = (case ttl_i of Some i \<Rightarrow> of_int i | None \<Rightarrow> 64) in
      bind_res (Address_of_ip_port L to 0) (\<lambda>destination.
      bind_res (Network_send_from from destination ttl rnd N) (\<lambda>(N, dgram_sent).
      if (case ttl_i of Some i \<Rightarrow> i \<le> 1 | None \<Rightarrow> False) then Network_simulate N
      else
        bind_res (if host_exists to N then Network_expect to (one_hop dgram_sent) N else Inr N) Network_simulate)))"

fun lua_tests :: "libc \<Rightarrow> (nat \<Rightarrow> u32) \<Rightarrow> lua_test list \<Rightarrow> Network \<times> nat \<Rightarrow> (Network \<times> nat) res" where
  "lua_tests L rd [] s = Inr s"
| "lua_tests L rd (e # es) (N, pos) =
     (case (lt_from e, lt_to e) of
        (Some from, Some to) \<Rightarrow>
          bind_res (lua_test_run L from to (lt_ttl e) (rd pos) N) (\<lambda>N. lua_tests L rd es (N, Suc pos))
      | _ \<Rightarrow> lua_tests L rd es (N, pos))"

definition network_simulator_lua :: "libc \<Rightarrow> (nat \<Rightarrow> u32) \<Rightarrow> lua_network \<Rightarrow> (Network \<times> nat) res" where
  "network_simulator_lua L rd lua =
     bind_res (Network_of_lua L rd lua) (lua_tests L rd (ln_tests lua))"

section \<open>What a host checks\<close>

lemma serialized_ok: "datagram_ok d \<Longrightarrow> serialized d = Inr (datagram_wire d)"
  using datagram_serialize_eq [of d] by (auto simp: serialized_def)

lemma expecting_eq:
  "datagram_ok d \<Longrightarrow> list_all datagram_ok es \<Longrightarrow>
     expecting d es = Inr (datagram_wire d \<in># mset (map datagram_wire es))"
  by (induction es) (auto simp: serialized_ok)

lemma remove_expectation_eq:
  "datagram_ok d \<Longrightarrow> list_all datagram_ok es \<Longrightarrow> \<exists>es'. remove_expectation d es = Inr es' \<and> list_all datagram_ok es' \<and>
     mset (map datagram_wire es') = mset (map datagram_wire es) - {#datagram_wire d#}"
proof (induction es)
  case (Cons e es)
  then obtain es' where es': "remove_expectation d es = Inr es'" "list_all datagram_ok es'"
    "mset (map datagram_wire es') = mset (map datagram_wire es) - {#datagram_wire d#}" by auto
  show ?case using Cons.prems es' by (cases "datagram_wire e = datagram_wire d") (simp_all add: serialized_ok)
qed simp

lemma check_received_eq:
  assumes "list_all datagram_ok rs" and "list_all datagram_ok es"
  shows "if mset (map datagram_wire rs) \<subseteq># mset (map datagram_wire es)
    then \<exists>es'. check_received name rs es = Inr es' \<and>
      mset (map datagram_wire es') = mset (map datagram_wire es) - mset (map datagram_wire rs)
    else check_received name rs es = Inl (Runtime_error (''Host '' @ name @ '' received unexpected Internet datagram''))"
  using assms
proof (induction rs arbitrary: es)
  case (Cons r rs)
  let ?w = "datagram_wire r" and ?E = "mset (map datagram_wire es)" and ?R = "mset (map datagram_wire rs)"
  have r: "datagram_ok r" "list_all datagram_ok rs" using Cons.prems(1) by simp_all
  show ?case
  proof (cases "?w \<in># ?E")
    case False
    then have "\<not> add_mset ?w ?R \<subseteq># ?E" by (meson insert_subset_eq_iff)
    with False show ?thesis using expecting_eq [OF r(1) Cons.prems(2)] by simp
  next
    case True
    obtain es' where es': "remove_expectation r es = Inr es'" "list_all datagram_ok es'"
      "mset (map datagram_wire es') = ?E - {#?w#}"
      using remove_expectation_eq [OF r(1) Cons.prems(2)] by blast
    have "add_mset ?w ?R \<subseteq># ?E \<longleftrightarrow> ?R \<subseteq># ?E - {#?w#}" using True by (simp add: insert_subset_eq_iff)
    moreover have "?E - {#?w#} - ?R = ?E - add_mset ?w ?R" by simp
    ultimately show ?thesis
      using Cons.IH [OF r(2) es'(2)] es' True expecting_eq [OF r(1) Cons.prems(2)] by (simp cong: if_cong)
  qed
qed simp

lemma Host_check_eq:
  assumes "list_all datagram_ok (ai_datagrams_out (ho_interface h))" and "list_all datagram_ok (ho_expecting_to_receive h)"
  shows "if mset (map datagram_wire (ai_datagrams_out (ho_interface h))) =
      mset (map datagram_wire (ho_expecting_to_receive h))
    then Host_check h = Inr (h\<lparr>ho_interface := (ho_interface h)\<lparr>ai_datagrams_out := []\<rparr>, ho_expecting_to_receive := []\<rparr>)
    else \<exists>msg. Host_check h = Inl (Runtime_error msg)"
proof -
  let ?R = "mset (map datagram_wire (ai_datagrams_out (ho_interface h)))"
  let ?E = "mset (map datagram_wire (ho_expecting_to_receive h))"
  note c = check_received_eq [OF assms, of "ho_name h"]
  show ?thesis
  proof (cases "?R \<subseteq># ?E")
    case True
    with c obtain es where es: "check_received (ho_name h) (ai_datagrams_out (ho_interface h))
        (ho_expecting_to_receive h) = Inr es" "mset (map datagram_wire es) = ?E - ?R" by auto
    have "es = [] \<longleftrightarrow> ?E - ?R = {#}" using es(2) by (metis list.map_disc_iff mset_zero_iff)
    also have "\<dots> \<longleftrightarrow> ?R = ?E" using True by (metis Diff_eq_empty_iff_mset subset_mset.antisym subset_mset.order_refl)
    finally show ?thesis using es(1) by (simp add: Host_check_def)
  next
    case False
    then have "?R \<noteq> ?E" by auto
    then show ?thesis using False c by (simp add: Host_check_def)
  qed
qed

section \<open>Properties\<close>

text \<open>
  C26. What \<^verbatim>\<open>Host::check\<close> decides. It returns exactly if the datagrams received and the datagrams expected
  are the same on the wire, each as often, in any order; then both are forgotten. Otherwise it throws.
\<close>
theorem host_check_exact:
  assumes "list_all datagram_ok (ai_datagrams_out (ho_interface h))" and "list_all datagram_ok (ho_expecting_to_receive h)"
  shows "if mset (map datagram_wire (ai_datagrams_out (ho_interface h))) =
      mset (map datagram_wire (ho_expecting_to_receive h))
    then Host_check h = Inr (h\<lparr>ho_interface := (ho_interface h)\<lparr>ai_datagrams_out := []\<rparr>, ho_expecting_to_receive := []\<rparr>)
    else \<exists>msg. Host_check h = Inl (Runtime_error msg)"
  by (rule Host_check_eq [OF assms])

definition demo_host :: "IPv4Datagram list \<Rightarrow> IPv4Datagram list \<Rightarrow> Host" where
  "demo_host got want =
     (Host_new (\<lambda>n. of_nat n) 0 ''demo'' (ipv4_address 0x0A000002) (ipv4_address 0x0A000001))
       \<lparr>ho_interface := (demo_side [2, 0, 0, 0, 0, 1] 0x0A000002)\<lparr>ai_datagrams_out := got\<rparr>, ho_expecting_to_receive := want\<rparr>"

theorem host_check_exact_witness:
  "(let d = demo_datagram; e = one_hop demo_datagram in
    (\<exists>h. Host_check (demo_host [d, e] [e, d]) = Inr h) \<and> (\<exists>msg. Host_check (demo_host [d, d] [d]) = Inl (Runtime_error msg)))"
proof -
  let ?d = demo_datagram and ?e = "one_hop demo_datagram"
  have ok: "datagram_ok ?d" "datagram_ok ?e" using demo_datagram_ok by (simp_all add: one_hop_def)
  have "\<exists>h. Host_check (demo_host [?d, ?e] [?e, ?d]) = Inr h"
    using host_check_exact [of "demo_host [?d, ?e] [?e, ?d]"] ok by (simp add: demo_host_def add_mset_commute)
  moreover have "\<exists>msg. Host_check (demo_host [?d, ?d] [?d]) = Inl (Runtime_error msg)"
    using host_check_exact [of "demo_host [?d, ?d] [?d]"] ok by (simp add: demo_host_def)
  ultimately show ?thesis by simp
qed

end
