(* ===== verification/SimulatorLinks.thy ===== *)
theory SimulatorLinks
  imports NetworkSimulators
begin

text \<open>
  One link of the simulation of \<^verbatim>\<open>apps/network_simulator.cc\<close>: the interfaces on it, what a frame does to each
  of them, and the three exchanges at most that bring a datagram from one interface to another (the
  request for the address, the answer, the datagram).
\<close>

section \<open>Frames between interfaces\<close>

definition on_link :: "EthernetFrame \<Rightarrow> EthernetFrame" where
  "on_link f = f\<lparr>ef_payload := BufferList_of_string (BufferList_concatenate (ef_payload f))\<rparr>"

definition ip_at :: "AsyncNetworkInterface \<Rightarrow> u32" where
  "ip_at a = projr (Address_ipv4_numeric (ni_ip_address a))"

definition entry_of :: "AsyncNetworkInterface \<Rightarrow> ARPEntry" where
  "entry_of a = \<lparr>ae_eth_addr = ni_ethernet_address a, ae_ttl = ucast ARP_ENTRY_TTL_MS\<rparr>"

definition copy_of :: "IPv4Datagram \<Rightarrow> IPv4Datagram \<Rightarrow> bool" where
  "copy_of d d' \<longleftrightarrow> datagram_ok d' \<and> (\<exists>c. id_header d' = (id_header d)\<lparr>ih_cksum := c\<rparr>) \<and>
     BufferList_concatenate (id_payload d') = BufferList_concatenate (id_payload d)"

definition arp_frame :: "AsyncNetworkInterface \<Rightarrow> EthernetAddress \<Rightarrow> ARPMessage \<Rightarrow> EthernetFrame" where
  "arp_frame a dst m = frame_from a dst TYPE_ARP (BufferList_of_string (arp_types m @ arp_addresses m))"

definition request_frame :: "AsyncNetworkInterface \<Rightarrow> u32 \<Rightarrow> EthernetFrame" where
  "request_frame a ip = arp_frame a ETHERNET_BROADCAST (request_for a ip)"

definition reply_to :: "AsyncNetworkInterface \<Rightarrow> AsyncNetworkInterface \<Rightarrow> ARPMessage" where
  "reply_to a x =
     ARPMessage_default\<lparr>arp_opcode := OPCODE_REPLY, arp_sender_ethernet_address := ni_ethernet_address a,
       arp_target_ethernet_address := ni_ethernet_address x, arp_sender_ip_address := ip_at a,
       arp_target_ip_address := ip_at x\<rparr>"

definition reply_frame :: "AsyncNetworkInterface \<Rightarrow> AsyncNetworkInterface \<Rightarrow> EthernetFrame" where
  "reply_frame a x = arp_frame a (ni_ethernet_address x) (reply_to a x)"

definition data_frame :: "AsyncNetworkInterface \<Rightarrow> EthernetAddress \<Rightarrow> IPv4Datagram \<Rightarrow> EthernetFrame" where
  "data_frame a dst d = frame_from a dst TYPE_IPv4 (wire_of d)"

lemma ip_at_eq: "iface_inv a \<Longrightarrow> Address_ipv4_numeric (ni_ip_address a) = Inr (ip_at a)"
  by (auto simp: iface_inv_def ip_at_def)

lemma request_for_msg:
  assumes "iface_inv a"
  shows "arp_ok (request_for a ip)" "ARPMessage_supported (request_for a ip)"
    "arp_opcode (request_for a ip) = OPCODE_REQUEST" "arp_target_ip_address (request_for a ip) = ip"
    "arp_sender_ip_address (request_for a ip) = ip_at a"
    "arp_sender_ethernet_address (request_for a ip) = ni_ethernet_address a"
  using assms
  by (simp_all add: request_for_def arp_ok_def ARPMessage_supported_def ARPMessage_default_def iface_inv_def ip_at_def)

lemma reply_to_msg:
  assumes "iface_inv a" and "iface_inv x"
  shows "arp_ok (reply_to a x)" "ARPMessage_supported (reply_to a x)" "arp_opcode (reply_to a x) \<noteq> OPCODE_REQUEST"
    "arp_sender_ip_address (reply_to a x) = ip_at a" "arp_sender_ethernet_address (reply_to a x) = ni_ethernet_address a"
  using assms
  by (simp_all add: reply_to_def arp_ok_def ARPMessage_supported_def ARPMessage_default_def iface_inv_def
      OPCODE_REQUEST_def OPCODE_REPLY_def)

lemma on_link_arp:
  assumes "arp_ok m" and "ARPMessage_supported m"
  shows "\<exists>b. on_link (arp_frame a dst m) =
      \<lparr>ef_header = \<lparr>eh_dst = dst, eh_src = ni_ethernet_address a, eh_type = TYPE_ARP\<rparr>, ef_payload = [b]\<rparr> \<and>
    Buffer_wf b \<and> ARPMessage_parse b ARPMessage_default = Inr (NoError, m)"
proof -
  let ?s = "arp_types m @ arp_addresses m"
  have "Buffer_wf (Buffer_of_string ?s)" using assms(1) by simp
  moreover from this have "ARPMessage_parse (Buffer_of_string ?s) ARPMessage_default = Inr (NoError, m)"
    using arp_parse_wire [OF assms(1), of "Buffer_of_string ?s" "[]" ARPMessage_default] assms(2) by auto
  ultimately show ?thesis
    by (intro exI [of _ "Buffer_of_string ?s"])
      (simp add: on_link_def arp_frame_def frame_from_def BufferList_of_string_def BufferList_of_Buffer_def
        BufferList_append_def BufferList_concatenate_eq)
qed

lemma on_link_data:
  assumes "datagram_ok d"
  shows "\<exists>b d'. on_link (data_frame a dst d) =
      \<lparr>ef_header = \<lparr>eh_dst = dst, eh_src = ni_ethernet_address a, eh_type = TYPE_IPv4\<rparr>, ef_payload = [b]\<rparr> \<and>
    Buffer_wf b \<and> IPv4Datagram_parse b IPv4Datagram_default = Inr (NoError, d') \<and> copy_of d d'"
proof -
  let ?b = "Buffer_of_string (datagram_wire d)"
  have b: "Buffer_wf ?b" using datagram_wire_fits [OF assms] by simp
  have "BufferList_concatenate (wire_of d) = datagram_wire d"
    using datagram_serialize_eq [OF assms] serialize_wire [OF assms] by auto
  then have l: "on_link (data_frame a dst d) =
      \<lparr>ef_header = \<lparr>eh_dst = dst, eh_src = ni_ethernet_address a, eh_type = TYPE_IPv4\<rparr>, ef_payload = [?b]\<rparr>"
    by (simp add: on_link_def data_frame_def frame_from_def BufferList_of_string_def BufferList_of_Buffer_def
        BufferList_append_def)
  obtain d' c where d': "IPv4Datagram_parse ?b IPv4Datagram_default = Inr (NoError, d')"
    "id_header d' = (id_header d)\<lparr>ih_cksum := c\<rparr>"
    "BufferList_concatenate (id_payload d') = BufferList_concatenate (id_payload d)"
    using datagram_parse_wire [OF assms b, of IPv4Datagram_default] by auto
  then have "copy_of d d'" using assms by (auto simp: copy_of_def datagram_ok_def)
  with l b d'(1) show ?thesis by blast
qed

lemma arp_not_ip [simp]: "TYPE_ARP \<noteq> TYPE_IPv4" by (simp add: TYPE_ARP_def TYPE_IPv4_def)

lemma header_on_link: "ef_header (on_link f) = ef_header f" by (simp add: on_link_def)

lemma recv_foreign:
  "eh_dst (ef_header f) \<noteq> ETHERNET_BROADCAST \<Longrightarrow> eh_dst (ef_header f) \<noteq> ni_ethernet_address a \<Longrightarrow>
     AsyncNetworkInterface_recv_frame (on_link f) a = Inr a"
  by (simp add: AsyncNetworkInterface_recv_frame_def NetworkInterface_recv_frame_def header_on_link Let_def)

lemma recv_data:
  assumes "datagram_ok d" and "dst = ni_ethernet_address a"
  shows "\<exists>d'. copy_of d d' \<and> AsyncNetworkInterface_recv_frame (on_link (data_frame x dst d)) a =
    Inr (a\<lparr>ai_datagrams_out := ai_datagrams_out a @ [d']\<rparr>)"
proof -
  obtain b d' where "on_link (data_frame x dst d) =
      \<lparr>ef_header = \<lparr>eh_dst = dst, eh_src = ni_ethernet_address x, eh_type = TYPE_IPv4\<rparr>, ef_payload = [b]\<rparr>"
    "IPv4Datagram_parse b IPv4Datagram_default = Inr (NoError, d')" "copy_of d d'"
    using on_link_data [OF assms(1), of x dst] by blast
  with assms(2) show ?thesis
    by (intro exI [of _ d'])
      (simp add: AsyncNetworkInterface_recv_frame_def NetworkInterface_recv_frame_def BufferList_to_Buffer_def Let_def)
qed

lemma recv_request:
  assumes x: "iface_inv x" and a: "iface_inv a" "ni_waiting_internet_datagrams a (ip_at x) = None"
  shows "AsyncNetworkInterface_recv_frame (on_link (request_frame x ip)) a =
    Inr (a\<lparr>ni_frames_out := ni_frames_out a @ (if ip = ip_at a then [reply_frame a x] else []),
           ni_arp_table := (ni_arp_table a)(ip_at x \<mapsto> entry_of x)\<rparr>)"
proof -
  note m = request_for_msg [OF x]
  obtain b where b: "on_link (request_frame x ip) =
      \<lparr>ef_header = \<lparr>eh_dst = ETHERNET_BROADCAST, eh_src = ni_ethernet_address x, eh_type = TYPE_ARP\<rparr>, ef_payload = [b]\<rparr>"
    "ARPMessage_parse b ARPMessage_default = Inr (NoError, request_for x ip)"
    using on_link_arp [OF m(1,2), of x ETHERNET_BROADCAST] by (auto simp: request_frame_def)
  have rep: "ARPMessage_serialize (reply_to a x) = Inr (arp_types (reply_to a x) @ arp_addresses (reply_to a x))"
    using reply_to_msg(2) [OF a(1) x] by (rule arp_serialize_eq)
  have "NetworkInterface_reply_arp (request_for x ip) (ip_at a) a =
      Inr (a\<lparr>ni_frames_out := ni_frames_out a @ (if ip = ip_at a then [reply_frame a x] else [])\<rparr>)"
    using rep by (simp add: NetworkInterface_reply_arp_def m reply_to_def [symmetric] Let_def send_eq
        reply_frame_def arp_frame_def)
  then show ?thesis
    using b m a(2) ip_at_eq [OF a(1)]
    by (simp add: AsyncNetworkInterface_recv_frame_def NetworkInterface_recv_frame_def BufferList_to_Buffer_def
        NetworkInterface_learn_def Let_def entry_of_def)
qed

lemma recv_reply:
  assumes y: "iface_inv y" and x: "iface_inv x" "ni_waiting_internet_datagrams x (ip_at y) = Some [(hop, d)]"
    and d: "datagram_ok d"
  shows "AsyncNetworkInterface_recv_frame (on_link (reply_frame y x)) x =
    Inr (x\<lparr>ni_frames_out := ni_frames_out x @ [data_frame x (ni_ethernet_address y) d],
           ni_arp_table := (ni_arp_table x)(ip_at y \<mapsto> entry_of y),
           ni_waiting_internet_datagrams := (ni_waiting_internet_datagrams x)(ip_at y := None)\<rparr>)"
proof -
  note m = reply_to_msg [OF y x(1)]
  obtain b where b: "on_link (reply_frame y x) =
      \<lparr>ef_header = \<lparr>eh_dst = ni_ethernet_address x, eh_src = ni_ethernet_address y, eh_type = TYPE_ARP\<rparr>, ef_payload = [b]\<rparr>"
    "ARPMessage_parse b ARPMessage_default = Inr (NoError, reply_to y x)"
    using on_link_arp [OF m(1,2), of y "ni_ethernet_address x"] by (auto simp: reply_frame_def)
  show ?thesis
    using b m x(2) ip_at_eq [OF x(1)] serialize_wire [OF d]
    by (simp add: AsyncNetworkInterface_recv_frame_def NetworkInterface_recv_frame_def BufferList_to_Buffer_def
        NetworkInterface_learn_def NetworkInterface_reply_arp_def Let_def entry_of_def send_eq data_frame_def)
qed

lemma send_resolved:
  assumes "datagram_ok d" and "Address_ipv4_numeric hop = Inr ip" and "ni_arp_table a ip = Some e"
  shows "NetworkInterface_send_datagram d hop a =
    Inr (a\<lparr>ni_frames_out := ni_frames_out a @ [data_frame a (ae_eth_addr e) d]\<rparr>)"
  using assms serialize_wire [OF assms(1)]
  by (simp add: NetworkInterface_send_datagram_def send_eq data_frame_def)

lemma send_unresolved:
  assumes "iface_inv a" and "Address_ipv4_numeric hop = Inr ip" and "ni_arp_table a ip = None"
    and "ni_waiting_arp_response_ip_addr a ip = None" and "ni_waiting_internet_datagrams a ip = None"
  shows "NetworkInterface_send_datagram d hop a =
    Inr (a\<lparr>ni_frames_out := ni_frames_out a @ [request_frame a ip],
           ni_waiting_arp_response_ip_addr := (ni_waiting_arp_response_ip_addr a)(ip \<mapsto> ucast ARP_RESPONSE_TTL_MS),
           ni_waiting_internet_datagrams := (ni_waiting_internet_datagrams a)(ip \<mapsto> [(hop, d)])\<rparr>)"
proof -
  have "ARPMessage_serialize (request_for a ip) = Inr (arp_types (request_for a ip) @ arp_addresses (request_for a ip))"
    using request_for_msg(2) [OF assms(1)] by (rule arp_serialize_eq)
  then show ?thesis
    using assms request_arp_ok [OF assms(1), of ip]
    by (auto simp: NetworkInterface_send_datagram_def request_frame_def arp_frame_def)
qed

section \<open>One exchange on a link\<close>

definition exchange_link :: "AsyncNetworkInterface list \<Rightarrow> AsyncNetworkInterface list res" where
  "exchange_link ms =
     (case ms of
        [x, y] \<Rightarrow> bind_res (exchange_frames x y) (\<lambda>(x, y). Inr [x, y])
      | [x, y, z] \<Rightarrow> bind_res (exchange_frames3 x y z) (\<lambda>(x, y, z). Inr [x, y, z])
      | _ \<Rightarrow> Inr ms)"

lemma deliver_one: "deliver [f] a = AsyncNetworkInterface_recv_frame (on_link f) a"
  by (cases "AsyncNetworkInterface_recv_frame (on_link f) a") (simp_all add: on_link_def)

lemma clear_frames_one [simp]:
  "ni_frames_out a = [f] \<Longrightarrow> clear_frames [f] a = Inr (a\<lparr>ni_frames_out := []\<rparr>)"
  "clear_frames [] a = Inr a"
  by (simp_all add: clear_frames_def)

lemma small_list: "length ms = 2 \<or> length ms = 3 \<Longrightarrow> \<exists>x y z. ms = [x, y] \<or> ms = [x, y, z]"
  by (auto simp: numeral_eq_Suc length_Suc_conv)

lemma exchange_link_one:
  assumes len: "length ms = 2 \<or> length ms = 3" and s: "s < length ms"
    and frames: "\<forall>q < length ms. ni_frames_out (ms ! q) = (if q = s then [f] else [])"
    and recv: "\<forall>q < length ms. q \<noteq> s \<longrightarrow> AsyncNetworkInterface_recv_frame (on_link f) (ms ! q) = Inr (g q)"
  shows "exchange_link ms = Inr (map (\<lambda>q. if q = s then (ms ! s)\<lparr>ni_frames_out := []\<rparr> else g q) [0..<length ms])"
proof -
  consider x y where "ms = [x, y]" | x y z where "ms = [x, y, z]" using small_list [OF len] by blast
  then show ?thesis
  proof cases
    case 1
    with s consider "s = 0" | "s = 1" by fastforce
    then show ?thesis
      using 1 frames recv
      by cases (simp_all add: exchange_link_def exchange_frames_def All_less_Suc Let_def deliver_one del: deliver.simps(2))
  next
    case 2
    with s consider "s = 0" | "s = 1" | "s = 2" by fastforce
    then show ?thesis
      using 2 frames recv
      by cases (simp_all add: exchange_link_def exchange_frames3_def All_less_Suc Let_def deliver_one
          numeral_eq_Suc del: deliver.simps(2))
  qed
qed

section \<open>Sending over a link\<close>

text \<open>
  The interfaces of a link are in order when their addresses are, their ARP tables tell the truth about
  each other, and a request is pending only for an address that is known or waited for.
\<close>

definition knows :: "AsyncNetworkInterface \<Rightarrow> AsyncNetworkInterface \<Rightarrow> bool" where
  "knows a b \<longleftrightarrow>
     (\<forall>e. ni_arp_table a (ip_at b) = Some e \<longrightarrow> ae_eth_addr e = ni_ethernet_address b) \<and>
     (ni_waiting_arp_response_ip_addr a (ip_at b) \<noteq> None \<longrightarrow>
        ni_arp_table a (ip_at b) \<noteq> None \<or> ni_waiting_internet_datagrams a (ip_at b) \<noteq> None)"

definition link_ok :: "AsyncNetworkInterface list \<Rightarrow> bool" where
  "link_ok ms \<longleftrightarrow>
     (length ms = 2 \<or> length ms = 3) \<and> distinct (map ip_at ms) \<and>
     (length ms = 3 \<longrightarrow> distinct (map ni_ethernet_address ms)) \<and>
     (\<forall>a \<in> set ms. iface_inv a \<and> ni_ethernet_address a \<noteq> ETHERNET_BROADCAST \<and> (\<forall>b \<in> set ms. knows a b))"

text \<open>Only interface \<open>s\<close> has frames to send, and only at interface \<open>p\<close> datagrams wait.\<close>

definition link_state ::
    "AsyncNetworkInterface list \<Rightarrow> nat \<Rightarrow> EthernetFrame list \<Rightarrow> nat \<Rightarrow> (u32 \<rightharpoonup> (Address \<times> IPv4Datagram) list) \<Rightarrow> bool" where
  "link_state ms s F p W \<longleftrightarrow>
     (\<forall>q < length ms. ni_frames_out (ms ! q) = (if q = s then F else []) \<and>
        ni_waiting_internet_datagrams (ms ! q) = (if q = p then W else Map.empty))"

definition quiet :: "AsyncNetworkInterface list \<Rightarrow> bool" where
  "quiet ms \<longleftrightarrow> link_state ms 0 [] 0 Map.empty"

definition ends :: "AsyncNetworkInterface list \<Rightarrow> (EthernetAddress \<times> Address) list" where
  "ends ms = map (\<lambda>a. (ni_ethernet_address a, ni_ip_address a)) ms"

definition received :: "AsyncNetworkInterface list \<Rightarrow> IPv4Datagram list list" where
  "received ms = map ai_datagrams_out ms"

lemma ends_nth:
  assumes "ends ms' = ends ms" and "q < length ms"
  shows "ni_ethernet_address (ms' ! q) = ni_ethernet_address (ms ! q)" "ni_ip_address (ms' ! q) = ni_ip_address (ms ! q)"
    "ip_at (ms' ! q) = ip_at (ms ! q)" "length ms' = length ms"
proof -
  show len: "length ms' = length ms" using assms(1) by (metis ends_def length_map)
  have "ends ms' ! q = ends ms ! q" using assms(1) by simp
  then show "ni_ethernet_address (ms' ! q) = ni_ethernet_address (ms ! q)" "ni_ip_address (ms' ! q) = ni_ip_address (ms ! q)"
    "ip_at (ms' ! q) = ip_at (ms ! q)"
    using assms(2) len by (simp_all add: ends_def ip_at_def)
qed

text \<open>What an interface of a link may do in one step without breaking the order.\<close>

definition learns :: "AsyncNetworkInterface list \<Rightarrow> AsyncNetworkInterface \<Rightarrow> AsyncNetworkInterface \<Rightarrow> bool" where
  "learns ms a a' \<longleftrightarrow>
     iface_inv a' \<and> ni_ethernet_address a' = ni_ethernet_address a \<and> ni_ip_address a' = ni_ip_address a \<and>
     (ni_arp_table a' = ni_arp_table a \<or>
        (\<exists>b \<in> set ms. ni_arp_table a' = (ni_arp_table a)(ip_at b \<mapsto> entry_of b))) \<and>
     (\<forall>ip. ni_waiting_arp_response_ip_addr a' ip \<noteq> None \<longrightarrow>
        ni_waiting_arp_response_ip_addr a ip \<noteq> None \<or> ni_waiting_internet_datagrams a' ip \<noteq> None) \<and>
     (\<forall>ip. ni_waiting_internet_datagrams a ip \<noteq> None \<longrightarrow>
        ni_waiting_internet_datagrams a' ip \<noteq> None \<or> ni_arp_table a' ip \<noteq> None)"

lemma learns_knows:
  assumes ms: "link_ok ms" and "a \<in> set ms" "b \<in> set ms" and l: "learns ms a a'" and b: "ip_at b' = ip_at b"
    "ni_ethernet_address b' = ni_ethernet_address b"
  shows "knows a' b'"
proof -
  have k: "knows a b" using assms by (simp add: link_ok_def)
  have same: "ip_at c = ip_at b \<Longrightarrow> c = b" if "c \<in> set ms" for c
    using ms that assms(3) by (auto simp: link_ok_def distinct_map dest: inj_onD)
  have "ae_eth_addr e = ni_ethernet_address b" if "ni_arp_table a' (ip_at b) = Some e" for e
    using l that k same by (auto simp: learns_def knows_def entry_of_def split: if_splits)
  moreover have "ni_arp_table a (ip_at b) \<noteq> None \<Longrightarrow> ni_arp_table a' (ip_at b) \<noteq> None"
    using l by (auto simp: learns_def)
  ultimately show ?thesis using k l b unfolding knows_def learns_def by metis
qed

lemma link_ok_step:
  assumes ms: "link_ok ms" and len: "length ms' = length ms"
    and l: "\<forall>q < length ms. learns ms (ms ! q) (ms' ! q)"
  shows "link_ok ms' \<and> ends ms' = ends ms"
proof -
  have e: "ends ms' = ends ms" using len l by (auto simp: ends_def learns_def intro: nth_equalityI)
  then have m: "map ni_ethernet_address ms' = map ni_ethernet_address ms" "map ip_at ms' = map ip_at ms"
    using len ends_nth [OF e] by (auto intro: nth_equalityI)
  have k: "knows (ms' ! q) (ms' ! r)" if "q < length ms" "r < length ms" for q r
    using learns_knows [OF ms, of "ms ! q" "ms ! r"] l that ends_nth [OF e that(2)] by simp
  have "ni_ethernet_address (ms' ! q) \<noteq> ETHERNET_BROADCAST \<and> iface_inv (ms' ! q)" if "q < length ms" for q
    using l that ms by (auto simp: learns_def link_ok_def)
  with k m ms len have "link_ok ms'" by (auto simp: link_ok_def in_set_conv_nth)
  with e show ?thesis by simp
qed

lemma link_ok_nth: "link_ok ms \<Longrightarrow> q < length ms \<Longrightarrow> iface_inv (ms ! q)"
  by (simp add: link_ok_def)

lemma learns_frames: "iface_inv a \<Longrightarrow> learns ms a (a\<lparr>ni_frames_out := F\<rparr>)"
  by (simp add: learns_def iface_inv_frames)

lemma learns_queue: "iface_inv a \<Longrightarrow> learns ms a (a\<lparr>ai_datagrams_out := Q\<rparr>)"
  by (simp add: learns_def iface_inv_def)

lemma learns_refl: "iface_inv a \<Longrightarrow> learns ms a a"
  by (simp add: learns_def)

lemma learns_entry:
  assumes a: "iface_inv a" and b: "b \<in> set ms" "iface_inv b"
  shows "learns ms a (a\<lparr>ni_frames_out := F, ni_arp_table := (ni_arp_table a)(ip_at b \<mapsto> entry_of b),
    ni_waiting_internet_datagrams := (ni_waiting_internet_datagrams a)(ip_at b := None)\<rparr>)" (is "learns ms a ?a")
proof -
  have "eth_ok (ni_ethernet_address b)" using b(2) by (simp add: iface_inv_def)
  then have "iface_inv ?a" using a by (auto simp: iface_inv_def entry_of_def)
  then show ?thesis using b(1) by (auto simp: learns_def)
qed

lemma learns_entry_quiet:
  assumes "iface_inv a" and "b \<in> set ms" "iface_inv b" and "ni_waiting_internet_datagrams a = Map.empty"
  shows "learns ms a (a\<lparr>ni_frames_out := F, ni_arp_table := (ni_arp_table a)(ip_at b \<mapsto> entry_of b)\<rparr>)"
proof -
  have "eth_ok (ni_ethernet_address b)" using assms(3) by (simp add: iface_inv_def)
  then show ?thesis using assms by (auto simp: learns_def iface_inv_def entry_of_def)
qed

definition step_to :: "AsyncNetworkInterface list \<Rightarrow> nat \<Rightarrow> (nat \<Rightarrow> AsyncNetworkInterface) \<Rightarrow> AsyncNetworkInterface list" where
  "step_to ms s g = map (\<lambda>q. if q = s then (ms ! s)\<lparr>ni_frames_out := []\<rparr> else g q) [0..<length ms]"

lemma step_to_simps [simp]:
  "length (step_to ms s g) = length ms"
  "q < length ms \<Longrightarrow> step_to ms s g ! q = (if q = s then (ms ! s)\<lparr>ni_frames_out := []\<rparr> else g q)"
  by (simp_all add: step_to_def)

lemma exchange_step:
  assumes ms: "link_ok ms" and s: "s < length ms" and st: "link_state ms s [f] p W"
    and recv: "\<forall>q < length ms. q \<noteq> s \<longrightarrow> AsyncNetworkInterface_recv_frame (on_link f) (ms ! q) = Inr (g q) \<and>
      learns ms (ms ! q) (g q)"
  shows "exchange_link ms = Inr (step_to ms s g) \<and> link_ok (step_to ms s g) \<and> ends (step_to ms s g) = ends ms"
proof -
  have "exchange_link ms = Inr (step_to ms s g)"
    unfolding step_to_def
  proof (rule exchange_link_one [OF _ s])
    show "length ms = 2 \<or> length ms = 3" using ms by (simp add: link_ok_def)
    show "\<forall>q < length ms. ni_frames_out (ms ! q) = (if q = s then [f] else [])" using st by (simp add: link_state_def)
  qed (use recv in blast)
  moreover have "learns ms (ms ! q) (step_to ms s g ! q)" if "q < length ms" for q
    using recv that learns_frames [OF link_ok_nth [OF ms s]] by simp
  ultimately show ?thesis using link_ok_step [OF ms, of "step_to ms s g"] by simp
qed

lemma quiet_exchange:
  assumes "link_ok ms" and "quiet ms"
  shows "exchange_link ms = Inr ms"
proof -
  have len: "length ms = 2 \<or> length ms = 3" using assms(1) by (simp add: link_ok_def)
  have f: "\<forall>q < length ms. ni_frames_out (ms ! q) = []" using assms(2) by (simp add: quiet_def link_state_def)
  consider x y where "ms = [x, y]" | x y z where "ms = [x, y, z]" using small_list [OF len] by blast
  then show ?thesis
    using f by cases (simp_all add: exchange_link_def exchange_frames_def exchange_frames3_def All_less_Suc
        numeral_eq_Suc Let_def)
qed

section \<open>The three steps of a transfer\<close>

definition in_phase :: "AsyncNetworkInterface list \<Rightarrow> nat \<Rightarrow> nat \<Rightarrow> Address \<Rightarrow> IPv4Datagram \<Rightarrow> nat \<Rightarrow> bool" where
  "in_phase ms p t hop d k \<longleftrightarrow>
     p < length ms \<and> t < length ms \<and> p \<noteq> t \<and> datagram_ok d \<and>
     (k = 3 \<and> link_state ms p [request_frame (ms ! p) (ip_at (ms ! t))] p [ip_at (ms ! t) \<mapsto> [(hop, d)]] \<or>
      k = 2 \<and> link_state ms t [reply_frame (ms ! t) (ms ! p)] p [ip_at (ms ! t) \<mapsto> [(hop, d)]] \<or>
      k = 1 \<and> link_state ms p [data_frame (ms ! p) (ni_ethernet_address (ms ! t)) d] p Map.empty)"

lemma frame_congs:
  assumes "ends ms' = ends ms" and "p < length ms" "t < length ms"
  shows "reply_frame (ms' ! t) (ms' ! p) = reply_frame (ms ! t) (ms ! p)"
    "data_frame (ms' ! p) eth d = data_frame (ms ! p) eth d"
  using ends_nth [OF assms(1)] assms(2,3)
  by (simp_all add: reply_frame_def arp_frame_def reply_to_def data_frame_def frame_from_def)

lemma distinct_ips: "link_ok ms \<Longrightarrow> p < length ms \<Longrightarrow> q < length ms \<Longrightarrow> ip_at (ms ! p) = ip_at (ms ! q) \<longleftrightarrow> p = q"
  by (auto simp: link_ok_def distinct_conv_nth)

lemma bystander_eth:
  assumes "link_ok ms" and "p < length ms" "q < length ms" "t < length ms" and "p \<noteq> t" "q \<noteq> p" "q \<noteq> t"
  shows "ni_ethernet_address (ms ! q) \<noteq> ni_ethernet_address (ms ! t)"
proof -
  have "length ms = 3" using assms by (auto simp: link_ok_def)
  then show ?thesis using assms by (auto simp: link_ok_def distinct_conv_nth)
qed

lemma phase_ask:
  assumes ms: "link_ok ms" and ph: "in_phase ms p t hop d 3"
  shows "\<exists>ms'. exchange_link ms = Inr ms' \<and> link_ok ms' \<and> ends ms' = ends ms \<and> received ms' = received ms \<and>
    in_phase ms' p t hop d 2"
proof -
  let ?x = "ms ! p" and ?ip = "ip_at (ms ! t)"
  let ?W = "[?ip \<mapsto> [(hop, d)]]"
  have i: "p < length ms" "t < length ms" "p \<noteq> t" "datagram_ok d" and st: "link_state ms p [request_frame ?x ?ip] p ?W"
    using ph by (simp_all add: in_phase_def)
  define g where "g = (\<lambda>q. (ms ! q)\<lparr>ni_frames_out := if q = t then [reply_frame (ms ! t) ?x] else [],
    ni_arp_table := (ni_arp_table (ms ! q))(ip_at ?x \<mapsto> entry_of ?x)\<rparr>)"
  have recv: "AsyncNetworkInterface_recv_frame (on_link (request_frame ?x ?ip)) (ms ! q) = Inr (g q)"
    "learns ms (ms ! q) (g q)" if "q < length ms" "q \<noteq> p" for q
  proof -
    have q: "ni_frames_out (ms ! q) = []" "ni_waiting_internet_datagrams (ms ! q) = Map.empty"
      using st that by (simp_all add: link_state_def)
    then show "AsyncNetworkInterface_recv_frame (on_link (request_frame ?x ?ip)) (ms ! q) = Inr (g q)"
      using recv_request [OF link_ok_nth [OF ms i(1)] link_ok_nth [OF ms that(1)], of ?ip]
        distinct_ips [OF ms i(2) that(1)] by (simp add: g_def)
    show "learns ms (ms ! q) (g q)"
      unfolding g_def using learns_entry_quiet [OF link_ok_nth [OF ms that(1)] _ link_ok_nth [OF ms i(1)] q(2)] i(1) by simp
  qed
  then have ex: "exchange_link ms = Inr (step_to ms p g)" "link_ok (step_to ms p g)" "ends (step_to ms p g) = ends ms"
    using exchange_step [OF ms i(1) st, of g] by simp_all
  moreover have "link_state (step_to ms p g) t [reply_frame (ms ! t) ?x] p ?W"
    using st i by (simp add: link_state_def g_def)
  moreover have "received (step_to ms p g) = received ms"
    by (auto simp: received_def g_def intro: nth_equalityI)
  ultimately show ?thesis
    using i frame_congs [OF ex(3) i(1,2)] ends_nth [OF ex(3) i(2)] by (simp add: in_phase_def del: step_to_simps(2))
qed

lemma phase_answer:
  assumes ms: "link_ok ms" and ph: "in_phase ms p t hop d 2"
  shows "\<exists>ms'. exchange_link ms = Inr ms' \<and> link_ok ms' \<and> ends ms' = ends ms \<and> received ms' = received ms \<and>
    in_phase ms' p t hop d 1"
proof -
  let ?x = "ms ! p" and ?y = "ms ! t" and ?f = "reply_frame (ms ! t) (ms ! p)"
  have i: "p < length ms" "t < length ms" "p \<noteq> t" "datagram_ok d"
    and st: "link_state ms t [?f] p [ip_at ?y \<mapsto> [(hop, d)]]"
    using ph by (simp_all add: in_phase_def)
  note inv = link_ok_nth [OF ms i(1)] link_ok_nth [OF ms i(2)]
  define g where "g = (\<lambda>q. if q = p then ?x\<lparr>ni_frames_out := [data_frame ?x (ni_ethernet_address ?y) d],
    ni_arp_table := (ni_arp_table ?x)(ip_at ?y \<mapsto> entry_of ?y),
    ni_waiting_internet_datagrams := (ni_waiting_internet_datagrams ?x)(ip_at ?y := None)\<rparr> else ms ! q)"
  have recv: "AsyncNetworkInterface_recv_frame (on_link ?f) (ms ! q) = Inr (g q) \<and> learns ms (ms ! q) (g q)"
    if "q < length ms" "q \<noteq> t" for q
  proof (cases "q = p")
    case True
    then show ?thesis
      using recv_reply [OF inv(2,1), of hop d] st i learns_entry [OF inv(1) _ inv(2)] by (simp add: link_state_def g_def)
  next
    case False
    have "ni_ethernet_address ?x \<noteq> ETHERNET_BROADCAST" "ni_ethernet_address ?x \<noteq> ni_ethernet_address (ms ! q)"
      using ms i(1) bystander_eth [OF ms i(2) that(1) i(1) i(3) [symmetric] that(2) False] by (auto simp: link_ok_def)
    then show ?thesis
      using recv_foreign [of ?f] False learns_refl [OF link_ok_nth [OF ms that(1)]]
      by (simp add: g_def reply_frame_def arp_frame_def frame_from_def)
  qed
  then have ex: "exchange_link ms = Inr (step_to ms t g)" "link_ok (step_to ms t g)" "ends (step_to ms t g) = ends ms"
    using exchange_step [OF ms i(2) st, of g] by simp_all
  moreover have "link_state (step_to ms t g) p [data_frame ?x (ni_ethernet_address ?y) d] p Map.empty"
    using st i by (simp add: link_state_def g_def)
  moreover have "received (step_to ms t g) = received ms"
    by (auto simp: received_def g_def intro: nth_equalityI)
  ultimately show ?thesis
    using i frame_congs [OF ex(3) i(1,2)] ends_nth [OF ex(3) i(2)] by (simp add: in_phase_def del: step_to_simps(2))
qed

lemma phase_deliver:
  assumes ms: "link_ok ms" and ph: "in_phase ms p t hop d 1"
  shows "\<exists>ms' d'. exchange_link ms = Inr ms' \<and> link_ok ms' \<and> ends ms' = ends ms \<and> quiet ms' \<and> copy_of d d' \<and>
    received ms' = (received ms)[t := received ms ! t @ [d']]"
proof -
  let ?x = "ms ! p" and ?y = "ms ! t"
  let ?f = "data_frame ?x (ni_ethernet_address ?y) d"
  have i: "p < length ms" "t < length ms" "p \<noteq> t" "datagram_ok d" and st: "link_state ms p [?f] p Map.empty"
    using ph by (simp_all add: in_phase_def)
  obtain d' where d': "copy_of d d'" "AsyncNetworkInterface_recv_frame (on_link ?f) ?y =
      Inr (?y\<lparr>ai_datagrams_out := ai_datagrams_out ?y @ [d']\<rparr>)"
    using recv_data [OF i(4)] by blast
  define g where "g = (\<lambda>q. if q = t then ?y\<lparr>ai_datagrams_out := ai_datagrams_out ?y @ [d']\<rparr> else ms ! q)"
  have recv: "AsyncNetworkInterface_recv_frame (on_link ?f) (ms ! q) = Inr (g q) \<and> learns ms (ms ! q) (g q)"
    if "q < length ms" "q \<noteq> p" for q
  proof (cases "q = t")
    case True
    then show ?thesis using d'(2) learns_queue [OF link_ok_nth [OF ms i(2)]] by (simp add: g_def)
  next
    case False
    have "ni_ethernet_address ?y \<noteq> ETHERNET_BROADCAST" "ni_ethernet_address ?y \<noteq> ni_ethernet_address (ms ! q)"
      using ms i(2) bystander_eth [OF ms i(1) that(1) i(2,3) that(2) False] by (auto simp: link_ok_def)
    then show ?thesis
      using recv_foreign [of ?f] False learns_refl [OF link_ok_nth [OF ms that(1)]]
      by (simp add: g_def data_frame_def frame_from_def)
  qed
  then have "exchange_link ms = Inr (step_to ms p g)" "link_ok (step_to ms p g)" "ends (step_to ms p g) = ends ms"
    using exchange_step [OF ms i(1) st, of g] by simp_all
  moreover have "quiet (step_to ms p g)" using st i by (simp add: quiet_def link_state_def g_def)
  moreover have "received (step_to ms p g) = (received ms)[t := received ms ! t @ [d']]"
    using i by (intro nth_equalityI) (auto simp: received_def g_def nth_list_update)
  ultimately show ?thesis using d'(1) by blast
qed

lemma send_phase:
  assumes ms: "link_ok ms" "quiet ms" and i: "p < length ms" "t < length ms" "p \<noteq> t"
    and hop: "Address_ipv4_numeric hop = Inr (ip_at (ms ! t))" and d: "datagram_ok d"
  shows "\<exists>a k. NetworkInterface_send_datagram d hop (ms ! p) = Inr a \<and> 1 \<le> k \<and> k \<le> 3 \<and>
    link_ok (ms[p := a]) \<and> ends (ms[p := a]) = ends ms \<and> received (ms[p := a]) = received ms \<and>
    in_phase (ms[p := a]) p t hop d k"
proof -
  let ?x = "ms ! p" and ?ip = "ip_at (ms ! t)"
  have q: "\<forall>q < length ms. ni_frames_out (ms ! q) = [] \<and> ni_waiting_internet_datagrams (ms ! q) = Map.empty"
    using ms(2) by (simp add: quiet_def link_state_def)
  note inv = link_ok_nth [OF ms(1) i(1)]
  have k: "knows ?x (ms ! t)" using ms(1) i by (simp add: link_ok_def)
  have step: "link_ok (ms[p := a]) \<and> ends (ms[p := a]) = ends ms" if "learns ms ?x a" for a
  proof (rule link_ok_step [OF ms(1)])
    show "\<forall>q < length ms. learns ms (ms ! q) (ms[p := a] ! q)"
      using that i(1) learns_refl [OF link_ok_nth [OF ms(1)]] by (simp add: nth_list_update)
  qed simp
  have rec: "received (ms[p := a]) = received ms" if "ai_datagrams_out a = ai_datagrams_out ?x" for a
    using that by (simp add: received_def map_update_same)
  show ?thesis
  proof (cases "ni_arp_table ?x ?ip")
    case (Some e)
    let ?a = "?x\<lparr>ni_frames_out := [data_frame ?x (ni_ethernet_address (ms ! t)) d]\<rparr>"
    have "NetworkInterface_send_datagram d hop ?x = Inr ?a"
      using send_resolved [OF d hop Some] k Some q i(1) by (simp add: knows_def)
    moreover have "in_phase (ms[p := ?a]) p t hop d 1"
      using q i d by (auto simp: in_phase_def link_state_def nth_list_update data_frame_def frame_from_def)
    ultimately show ?thesis using step [OF learns_frames [OF inv]] rec [of ?a]
      by (intro exI [of _ ?a] exI [of _ 1]) simp
  next
    case None
    let ?a = "?x\<lparr>ni_frames_out := [request_frame ?x ?ip],
      ni_waiting_arp_response_ip_addr := (ni_waiting_arp_response_ip_addr ?x)(?ip \<mapsto> ucast ARP_RESPONSE_TTL_MS),
      ni_waiting_internet_datagrams := [?ip \<mapsto> [(hop, d)]]\<rparr>"
    have "ni_waiting_arp_response_ip_addr ?x ?ip = None" using k None q i(1) by (auto simp: knows_def)
    then have s: "NetworkInterface_send_datagram d hop ?x = Inr ?a"
      using send_unresolved [OF inv hop None] q i(1) by simp
    then have "iface_inv ?a" using send_datagram_ok [OF inv d hop] by auto
    then have "learns ms ?x ?a" using q i(1) by (simp add: learns_def)
    moreover have "in_phase (ms[p := ?a]) p t hop d 3"
      using q i d by (auto simp: in_phase_def link_state_def nth_list_update request_frame_def arp_frame_def
          request_for_def frame_from_def)
    ultimately show ?thesis using step [of ?a] rec [of ?a] s
      by (intro exI [of _ ?a] exI [of _ 3]) simp
  qed
qed

end
