(* ===== verification/SimulatorRuns.thy ===== *)
theory SimulatorRuns
  imports SimulatorLinks
begin

text \<open>
  Whole runs of the simulation of \<^verbatim>\<open>apps/network_simulator.cc\<close>: the router between its links, the rounds, and
  what the hosts have received at the end. The links of a network, its topology, are those that
  \<^verbatim>\<open>simulate_physical_connections\<close> serves, in its order.
\<close>

section \<open>One pass of the router\<close>

definition drained :: "Router \<Rightarrow> bool" where
  "drained r \<longleftrightarrow> (\<forall>a \<in> set (ro_interfaces r). ai_datagrams_out a = [])"

lemma route_from_idle:
  "\<forall>j \<in> set is. j < length (ro_interfaces r) \<longrightarrow> ai_datagrams_out (ro_interfaces r ! j) = [] \<Longrightarrow>
     Router_route_from is r = Inr r"
  by (induction "is") (simp_all add: Router_route_queue.simps)

lemma route_drained: "drained r \<Longrightarrow> Router_route r = Inr r"
  by (simp add: Router_route_def drained_def route_from_idle)

lemma route_from_append:
  "Router_route_from (is @ js) r = bind_res (Router_route_from is r) (Router_route_from js)"
proof (induction "is" arbitrary: r)
  case (Cons i "is")
  then show ?case by (cases "Router_route_queue i r") simp_all
qed simp

lemma route_single:
  assumes i: "i < length (ro_interfaces r)" and d: "ai_datagrams_out (ro_interfaces r ! i) = [d]"
    and others: "\<forall>j < length (ro_interfaces r). j \<noteq> i \<longrightarrow> ai_datagrams_out (ro_interfaces r ! j) = []"
    and one: "Router_route_one_datagram d r = Inr r1"
  shows "Router_route r = Inr (pop_datagram i r1)"
proof -
  let ?n = "length (ro_interfaces r)"
  have q: "queues r1 = queues r" by (rule route_one_queues [OF one])
  then have len: "length (ro_interfaces r1) = ?n" by (metis length_map queues_def)
  have q1: "ai_datagrams_out (ro_interfaces r1 ! j) = ai_datagrams_out (ro_interfaces r ! j)" if "j < ?n" for j
    using q that len by (metis nth_map queues_def)
  have pop: "ai_datagrams_out (ro_interfaces (pop_datagram i r1) ! j) = []" if "j < ?n" for j
    using q1 [OF that] q1 [OF i] others d that len i by (auto simp: pop_datagram_def nth_list_update)
  have lenp: "length (ro_interfaces (pop_datagram i r1)) = ?n" using len by (simp add: pop_datagram_def)
  have "Router_route_queue i r = Inr (pop_datagram i r1)"
    using i d one pop [OF i] lenp by (subst Router_route_queue.simps) (simp add: Router_route_queue.simps [of i "pop_datagram i r1"])
  moreover have "Router_route_from [0..<i] r = Inr r" using i others by (intro route_from_idle) auto
  moreover have "Router_route_from [Suc i..<?n] (pop_datagram i r1) = Inr (pop_datagram i r1)"
    using pop lenp by (intro route_from_idle) auto
  moreover have "[0..<?n] = [0..<i] @ i # [Suc i..<?n]" using i upt_add_eq_append [of 0 i "?n - i"] by (simp add: upt_conv_Cons)
  ultimately show ?thesis by (simp add: Router_route_def route_from_append)
qed

lemma route_one_forward:
  assumes "fits (ro_interfaces r)" and "ih_proto (id_header d) \<noteq> PROTO_ICMP"
    and "RoutingTrie_longest_prefix_match (ih_dst (id_header d)) (ro_route_table r) = Some e"
    and "unat (re_interface_num e) < length (ro_interfaces r)" and "1 < ih_ttl (id_header d)"
    and "NetworkInterface_send_datagram (one_hop d) (next_hop_of e (ih_dst (id_header d)))
      (ro_interfaces r ! unat (re_interface_num e)) = Inr a"
  shows "Router_route_one_datagram d r = Inr (r\<lparr>ro_interfaces := (ro_interfaces r)[unat (re_interface_num e) := a]\<rparr>)"
  using assms Router_interface_at [OF assms(1,4)]
  by (auto simp: Router_route_one_datagram_def Router_look_up_and_forward_def Let_def Router_forward_def next_hop_of_def
      Router_send_datagram_def one_hop_def not_le [symmetric] split: option.splits)

lemma route_one_expired:
  assumes "ih_proto (id_header d) \<noteq> PROTO_ICMP" and "\<not> ro_icmp_enabled r" and "ih_ttl (id_header d) \<le> 1"
  shows "Router_route_one_datagram d r = Inr r"
  using assms by (simp add: Router_route_one_datagram_def Router_look_up_and_forward_def Let_def split: option.split)

lemma send_datagram_queue_upd:
  "NetworkInterface_send_datagram d hop (a\<lparr>ai_datagrams_out := q\<rparr>) =
     bind_res (NetworkInterface_send_datagram d hop a) (\<lambda>a. Inr (a\<lparr>ai_datagrams_out := q\<rparr>))"
proof (cases "Address_ipv4_numeric hop")
  case (Inr ip)
  show ?thesis
  proof (cases "ni_arp_table a ip")
    case None
    have r: "NetworkInterface_request_arp ip (a\<lparr>ai_datagrams_out := q\<rparr>) =
        bind_res (NetworkInterface_request_arp ip a) (\<lambda>a. Inr (a\<lparr>ai_datagrams_out := q\<rparr>))"
      by (simp add: NetworkInterface_request_arp_def NetworkInterface_send_def Let_def bind_res_def split: sum.split)
    then show ?thesis
      using Inr None by (cases "NetworkInterface_request_arp ip a")
        (simp_all add: NetworkInterface_send_datagram_def Let_def)
  next
    case (Some e)
    with Inr show ?thesis
      by (cases "IPv4Datagram_serialize d") (simp_all add: NetworkInterface_send_datagram_def NetworkInterface_send_def)
  qed
qed (simp add: NetworkInterface_send_datagram_def)

section \<open>Links in the network\<close>

type_synonym segment = "size_t \<times> string list"

definition host_at :: "string \<Rightarrow> Network \<Rightarrow> Host" where
  "host_at name N = the (map_of (nw_hosts N) name)"

definition members :: "segment \<Rightarrow> Network \<Rightarrow> AsyncNetworkInterface list" where
  "members s N = ro_interfaces (nw_router N) ! unat (fst s) # map (\<lambda>name. ho_interface (host_at name N)) (snd s)"

definition put_members :: "segment \<Rightarrow> AsyncNetworkInterface list \<Rightarrow> Network \<Rightarrow> Network" where
  "put_members s ms N =
     N\<lparr>nw_router := (nw_router N)\<lparr>ro_interfaces := (ro_interfaces (nw_router N))[unat (fst s) := hd ms]\<rparr>,
       nw_hosts := map (\<lambda>(name, h). (name, case map_of (zip (snd s) (tl ms)) name of
         Some a \<Rightarrow> h\<lparr>ho_interface := a\<rparr> | None \<Rightarrow> h)) (nw_hosts N)\<rparr>"

definition topology :: "Network \<Rightarrow> segment list" where
  "topology N =
     (if nw_connections N = [] then
        [(nw_default_id N, [''default_router'']), (nw_eth0_id N, [''applesauce'']), (nw_eth2_id N, [''cherrypie'']),
         (nw_hs4_id N, [''hs_router'']), (nw_uun3_id N, [''dm42'', ''dm43''])]
      else map (\<lambda>(c, h). (the (nw_interface_ids N c), [h])) (nw_connections N))"

definition seg_in :: "Network \<Rightarrow> segment \<Rightarrow> bool" where
  "seg_in N s \<longleftrightarrow> unat (fst s) < length (ro_interfaces (nw_router N)) \<and> set (snd s) \<subseteq> fst ` set (nw_hosts N) \<and>
     distinct (snd s)"

definition apart :: "segment \<Rightarrow> segment \<Rightarrow> bool" where
  "apart s s' \<longleftrightarrow> fst s \<noteq> fst s' \<and> set (snd s) \<inter> set (snd s') = {}"

definition net_wf :: "Network \<Rightarrow> bool" where
  "net_wf N \<longleftrightarrow>
     fits (ro_interfaces (nw_router N)) \<and> distinct (map fst (nw_hosts N)) \<and>
     (\<forall>(name, h) \<in> set (nw_hosts N). ho_name h = name) \<and>
     (\<forall>(c, h) \<in> set (nw_connections N). nw_interface_ids N c \<noteq> None) \<and>
     distinct (topology N) \<and>
     (\<forall>s \<in> set (topology N). seg_in N s \<and> link_ok (members s N) \<and> (\<forall>s' \<in> set (topology N). s \<noteq> s' \<longrightarrow> apart s s'))"

lemma Network_host_at:
  assumes "distinct (map fst (nw_hosts N))" and "\<forall>(name, h) \<in> set (nw_hosts N). ho_name h = name"
    and "name \<in> fst ` set (nw_hosts N)"
  shows "Network_host name N = Inr (host_at name N)" "(name, host_at name N) \<in> set (nw_hosts N)"
    "ho_name (host_at name N) = name"
proof -
  obtain h where h: "(name, h) \<in> set (nw_hosts N)" using assms(3) by auto
  then have m: "map_of (nw_hosts N) name = Some h" using assms(1) by simp
  moreover have "ho_name h = name" using assms(2) h by auto
  ultimately show "Network_host name N = Inr (host_at name N)" "(name, host_at name N) \<in> set (nw_hosts N)"
    "ho_name (host_at name N) = name"
    using h by (simp_all add: Network_host_def host_at_def)
qed

lemma map_of_map_value: "map_of (map (\<lambda>(n, h). (n, f n h)) xs) n = map_option (f n) (map_of xs n)"
  by (induction xs) auto

lemma map_of_zip_nth': "distinct ns \<Longrightarrow> length ns = length xs \<Longrightarrow> q < length ns \<Longrightarrow> map_of (zip ns xs) (ns ! q) = Some (xs ! q)"
  by (simp add: map_of_zip_nth)

lemma host_at_put_members:
  assumes "name \<in> fst ` set (nw_hosts N)"
  shows "host_at name (put_members s ms N) = (case map_of (zip (snd s) (tl ms)) name of
    Some a \<Rightarrow> (host_at name N)\<lparr>ho_interface := a\<rparr> | None \<Rightarrow> host_at name N)"
proof -
  obtain h where "map_of (nw_hosts N) name = Some h" using assms by (metis map_of_eq_None_iff not_Some_eq)
  then show ?thesis by (simp add: host_at_def put_members_def map_of_map_value split: option.split)
qed

lemma members_put_same:
  assumes s: "seg_in N s" and len: "length ms = Suc (length (snd s))"
  shows "members s (put_members s ms N) = ms"
proof (rule nth_equalityI)
  show "length (members s (put_members s ms N)) = length ms" using len by (simp add: members_def)
next
  fix q
  assume q: "q < length (members s (put_members s ms N))"
  show "members s (put_members s ms N) ! q = ms ! q"
  proof (cases q)
    case 0
    then show ?thesis using s len by (cases ms) (simp_all add: members_def put_members_def seg_in_def)
  next
    case (Suc r)
    then have r: "r < length (snd s)" using q by (simp add: members_def)
    then have "snd s ! r \<in> fst ` set (nw_hosts N)" using s by (auto simp: seg_in_def)
    moreover have "map_of (zip (snd s) (tl ms)) (snd s ! r) = Some (tl ms ! r)"
      using s len r by (intro map_of_zip_nth') (simp_all add: seg_in_def)
    ultimately show ?thesis using Suc r len by (simp add: members_def host_at_put_members nth_tl)
  qed
qed

lemma members_put_other:
  assumes "seg_in N s'" and "apart s s'"
  shows "members s' (put_members s ms N) = members s' N"
proof -
  have n: "unat (fst s) \<noteq> unat (fst s')" using assms(2) by (auto simp: apart_def word_unat_eq_iff)
  have "host_at name (put_members s ms N) = host_at name N" if "name \<in> set (snd s')" for name
  proof -
    have "map_of (zip (snd s) (tl ms)) name = None" using assms(2) that by (auto simp: apart_def map_of_eq_None_iff dest: set_zip_leftD)
    then show ?thesis using assms(1) that by (subst host_at_put_members) (auto simp: seg_in_def)
  qed
  with n show ?thesis by (simp add: members_def put_members_def)
qed

lemma length_members: "length (members s N) = Suc (length (snd s))"
  by (simp add: members_def)

lemma ends_length: "ends ms = ends (members s N) \<Longrightarrow> length ms = Suc (length (snd s))"
  by (metis ends_def length_map length_members)

lemma put_put_members:
  assumes "length ms = length ms'"
  shows "put_members s ms' (put_members s ms N) = put_members s ms' N"
proof -
  have n: "map_of (zip (snd s) (tl ms')) name = None \<Longrightarrow> map_of (zip (snd s) (tl ms)) name = None" for name
    using assms by (simp add: map_of_eq_None_iff) (metis length_tl map_fst_zip_take set_map)
  have "(case map_of (zip (snd s) (tl ms')) name of
      Some a \<Rightarrow> (case map_of (zip (snd s) (tl ms)) name of Some a \<Rightarrow> h\<lparr>ho_interface := a\<rparr> | None \<Rightarrow> h)\<lparr>ho_interface := a\<rparr>
    | None \<Rightarrow> (case map_of (zip (snd s) (tl ms)) name of Some a \<Rightarrow> h\<lparr>ho_interface := a\<rparr> | None \<Rightarrow> h)) =
    (case map_of (zip (snd s) (tl ms')) name of Some a \<Rightarrow> h\<lparr>ho_interface := a\<rparr> | None \<Rightarrow> h)" for name and h :: Host
    using n [of name] by (cases "map_of (zip (snd s) (tl ms')) name"; cases "map_of (zip (snd s) (tl ms)) name") simp_all
  then show ?thesis by (simp add: put_members_def case_prod_beta)
qed

lemma put_members_id:
  assumes "distinct (map fst (nw_hosts N))" and "seg_in N s"
  shows "put_members s (members s N) N = N"
proof -
  have "(case map_of (zip (snd s) (tl (members s N))) name of Some a \<Rightarrow> h\<lparr>ho_interface := a\<rparr> | None \<Rightarrow> h) = h"
    if "(name, h) \<in> set (nw_hosts N)" for name h
  proof -
    have "host_at name N = h" using that assms(1) by (simp add: host_at_def)
    moreover have "a = ho_interface (host_at name N)" if "map_of (zip (snd s) (tl (members s N))) name = Some a" for a
      using map_of_SomeD [OF that] by (auto simp: members_def set_zip)
    ultimately show ?thesis by (auto split: option.split)
  qed
  then have "map (\<lambda>(name, h). (name, case map_of (zip (snd s) (tl (members s N))) name of
      Some a \<Rightarrow> h\<lparr>ho_interface := a\<rparr> | None \<Rightarrow> h)) (nw_hosts N) = nw_hosts N"
    by (intro map_idI) auto
  then show ?thesis by (simp add: put_members_def) (simp add: members_def)
qed

lemma put_members_simps [simp]:
  "nw_default_id (put_members s ms N) = nw_default_id N" "nw_eth0_id (put_members s ms N) = nw_eth0_id N"
  "nw_eth2_id (put_members s ms N) = nw_eth2_id N" "nw_hs4_id (put_members s ms N) = nw_hs4_id N"
  "nw_uun3_id (put_members s ms N) = nw_uun3_id N" "nw_connections (put_members s ms N) = nw_connections N"
  "nw_interface_ids (put_members s ms N) = nw_interface_ids N" "topology (put_members s ms N) = topology N"
  "ro_route_table (nw_router (put_members s ms N)) = ro_route_table (nw_router N)"
  "ro_icmp_enabled (nw_router (put_members s ms N)) = ro_icmp_enabled (nw_router N)"
  "length (ro_interfaces (nw_router (put_members s ms N))) = length (ro_interfaces (nw_router N))"
  "map fst (nw_hosts (put_members s ms N)) = map fst (nw_hosts N)"
  "fst ` set (nw_hosts (put_members s ms N)) = fst ` set (nw_hosts N)"
  "seg_in (put_members s ms N) s' = seg_in N s'"
  by (simp_all add: put_members_def topology_def seg_in_def image_image case_prod_beta)

lemma link_ok_length: "link_ok (members s N) \<Longrightarrow> length (snd s) = 1 \<or> length (snd s) = 2"
  by (auto simp: link_ok_def members_def)

lemma put_members_wf:
  assumes wf: "net_wf N" and s: "s \<in> set (topology N)" and ms: "link_ok ms" "length ms = Suc (length (snd s))"
  shows "net_wf (put_members s ms N)"
proof -
  have "members s' (put_members s ms N) = (if s' = s then ms else members s' N)" if "s' \<in> set (topology N)" for s'
    using wf s that members_put_same [OF _ ms(2)] members_put_other [of N s' s] by (auto simp: net_wf_def)
  moreover have "\<forall>(name, h) \<in> set (nw_hosts (put_members s ms N)). ho_name h = name"
    using wf by (auto simp: net_wf_def put_members_def split: option.splits)
  ultimately show ?thesis using wf ms(1) by (simp add: net_wf_def)
qed

section \<open>One round of exchanges\<close>

definition exchange_segment :: "segment \<Rightarrow> Network \<Rightarrow> Network res" where
  "exchange_segment s N =
     (case snd s of
        [a] \<Rightarrow> exchange_with (fst s) a N
      | [a, b] \<Rightarrow> exchange_with_two (fst s) a b N
      | _ \<Rightarrow> Inr N)"

fun exchange_all :: "segment list \<Rightarrow> Network \<Rightarrow> Network res" where
  "exchange_all [] N = Inr N"
| "exchange_all (s # ss) N = bind_res (exchange_segment s N) (exchange_all ss)"

lemma put_host_same_ids [simp]:
  "nw_default_id (put_host name h N) = nw_default_id N" "nw_eth0_id (put_host name h N) = nw_eth0_id N"
  "nw_eth2_id (put_host name h N) = nw_eth2_id N" "nw_hs4_id (put_host name h N) = nw_hs4_id N"
  "nw_uun3_id (put_host name h N) = nw_uun3_id N" "nw_interface_ids (put_host name h N) = nw_interface_ids N"
  "nw_connections (put_host name h N) = nw_connections N" "nw_router (put_host name h N) = nw_router N"
  "topology (put_host name h N) = topology N"
  by (simp_all add: put_host_def topology_def)

lemma exchange_with_ids:
  "exchange_with i name N = Inr N' \<Longrightarrow> nw_default_id N' = nw_default_id N \<and> nw_eth0_id N' = nw_eth0_id N \<and>
     nw_eth2_id N' = nw_eth2_id N \<and> nw_hs4_id N' = nw_hs4_id N \<and> nw_uun3_id N' = nw_uun3_id N \<and>
     nw_interface_ids N' = nw_interface_ids N"
  by (auto simp: exchange_with_def bind_res_Inr_iff put_host_interface_def put_interface_def)

lemma exchange_connections_eq:
  assumes "\<forall>(c, h) \<in> set conns. nw_interface_ids N c \<noteq> None"
  shows "exchange_connections conns N = exchange_all (map (\<lambda>(c, h). (the (nw_interface_ids N c), [h])) conns) N"
  using assms
proof (induction conns arbitrary: N)
  case (Cons x conns)
  obtain c h i where x: "x = (c, h)" "nw_interface_ids N c = Some i" using Cons.prems by (cases x) auto
  show ?case
  proof (cases "exchange_with i h N")
    case (Inr N')
    then have "nw_interface_ids N' = nw_interface_ids N" using exchange_with_ids by blast
    then show ?thesis using x Inr Cons.IH [of N'] Cons.prems by (simp add: exchange_segment_def)
  qed (use x in \<open>simp add: exchange_segment_def\<close>)
qed simp

lemma bind_res_step: "(\<And>N'. r = Inr N' \<Longrightarrow> f N' = g N') \<Longrightarrow> bind_res r f = bind_res r g"
  by (rule bind_res_cong) simp_all

lemma simulate_physical_eq:
  assumes "\<forall>(c, h) \<in> set (nw_connections N). nw_interface_ids N c \<noteq> None"
  shows "simulate_physical_connections N = exchange_all (topology N) N"
proof (cases "nw_connections N = []")
  case True
  have last: "bind_res r (exchange_all []) = r" for r by (cases r) simp_all
  show ?thesis
    unfolding simulate_physical_connections_def topology_def if_P [OF True] exchange_all.simps(2)
    by (simp only: exchange_segment_def fst_conv snd_conv list.case)
      ((rule bind_res_step, drule exchange_with_ids, simp add: last exchange_segment_def)+)
next
  case False
  then show ?thesis using exchange_connections_eq [OF assms] by (simp add: simulate_physical_connections_def topology_def)
qed

lemma put_one_eq:
  assumes "distinct (map fst (nw_hosts N))"
  shows "put_host_interface a (host_at a N) y (put_interface i x N) = put_members (i, [a]) [x, y] N"
proof -
  have "host_at a N = h" if "(a, h) \<in> set (nw_hosts N)" for h using that assms by (simp add: host_at_def)
  then have "map (\<lambda>(n, g). (n, if n = a then (host_at a N)\<lparr>ho_interface := y\<rparr> else g)) (nw_hosts N) =
      map (\<lambda>(n, h). (n, case [a \<mapsto> y] n of Some a \<Rightarrow> h\<lparr>ho_interface := a\<rparr> | None \<Rightarrow> h)) (nw_hosts N)"
    by (intro map_cong) auto
  then show ?thesis by (simp add: put_host_interface_def put_host_def put_interface_def put_members_def)
qed

lemma put_two_eq:
  assumes "distinct (map fst (nw_hosts N))" and "a \<noteq> b"
  shows "put_host_interface b (host_at b N) z (put_host_interface a (host_at a N) y (put_interface i x N)) =
    put_members (i, [a, b]) [x, y, z] N"
proof -
  have "host_at n N = h" if "(n, h) \<in> set (nw_hosts N)" for n h using that assms by (simp add: host_at_def)
  then have "map ((\<lambda>(n, g). (n, if n = b then (host_at b N)\<lparr>ho_interface := z\<rparr> else g)) \<circ>
      (\<lambda>(n, g). (n, if n = a then (host_at a N)\<lparr>ho_interface := y\<rparr> else g))) (nw_hosts N) =
      map (\<lambda>(n, h). (n, case if n = a then Some y else [b \<mapsto> z] n of Some a \<Rightarrow> h\<lparr>ho_interface := a\<rparr> | None \<Rightarrow> h)) (nw_hosts N)"
    using assms(2) by (intro map_cong) auto
  then show ?thesis by (simp add: put_host_interface_def put_host_def put_interface_def put_members_def)
qed

lemma exchange_segment_eq:
  assumes wf: "net_wf N" and s: "s \<in> set (topology N)" and ex: "exchange_link (members s N) = Inr ms"
  shows "exchange_segment s N = Inr (put_members s ms N)"
proof -
  let ?r = "nw_router N"
  have f: "fits (ro_interfaces ?r)" and d: "distinct (map fst (nw_hosts N))"
    "\<forall>(name, h) \<in> set (nw_hosts N). ho_name h = name" and seg: "seg_in N s" and l: "link_ok (members s N)"
    using wf s by (simp_all add: net_wf_def)
  have r: "Router_interface (fst s) ?r = Inr (ro_interfaces ?r ! unat (fst s))"
    using Router_interface_at [OF f] seg by (simp add: seg_in_def)
  have h: "Network_host a N = Inr (host_at a N)" if "a \<in> set (snd s)" for a
  proof (rule Network_host_at(1) [OF d])
    show "a \<in> fst ` set (nw_hosts N)" using seg that by (auto simp: seg_in_def)
  qed
  consider a where "snd s = [a]" | a b where "snd s = [a, b]" "a \<noteq> b"
    using link_ok_length [OF l] seg by (auto simp: numeral_eq_Suc length_Suc_conv seg_in_def)
  then show ?thesis
  proof cases
    case 1
    then obtain x y where e: "exchange_frames (ro_interfaces ?r ! unat (fst s)) (ho_interface (host_at a N)) = Inr (x, y)"
      "ms = [x, y]"
      using ex by (auto simp: exchange_link_def members_def bind_res_Inr_iff)
    with 1 h r show ?thesis
      using put_one_eq [OF d(1), of a y "fst s" x] by (cases s) (simp add: exchange_segment_def exchange_with_def)
  next
    case 2
    then obtain x y z where e: "exchange_frames3 (ro_interfaces ?r ! unat (fst s)) (ho_interface (host_at a N))
        (ho_interface (host_at b N)) = Inr (x, y, z)" "ms = [x, y, z]"
      using ex by (auto simp: exchange_link_def members_def bind_res_Inr_iff)
    with 2 h r show ?thesis
      using put_two_eq [OF d(1) 2(2), of z y "fst s" x] by (cases s) (simp add: exchange_segment_def exchange_with_two_def)
  qed
qed

lemma exchange_all_quiet:
  assumes "net_wf N" and "set ss \<subseteq> set (topology N)" and "\<forall>s \<in> set ss. quiet (members s N)"
  shows "exchange_all ss N = Inr N"
  using assms(2,3)
proof (induction ss)
  case (Cons s ss)
  then have s: "s \<in> set (topology N)" "quiet (members s N)" by simp_all
  then have "link_ok (members s N)" "seg_in N s" using assms(1) by (simp_all add: net_wf_def)
  then have "exchange_segment s N = Inr (put_members s (members s N) N)"
    using exchange_segment_eq [OF assms(1) s(1)] quiet_exchange s(2) by blast
  also have "put_members s (members s N) N = N"
    using put_members_id assms(1) \<open>seg_in N s\<close> by (simp add: net_wf_def)
  finally show ?case using Cons by simp
qed simp

lemma exchange_all_append:
  "exchange_all (ss @ ss') N = bind_res (exchange_all ss N) (exchange_all ss')"
proof (induction ss arbitrary: N)
  case (Cons s ss)
  then show ?case by (cases "exchange_segment s N") simp_all
qed simp

lemma exchange_all_one:
  assumes wf: "net_wf N" and s: "s \<in> set (topology N)"
    and others: "\<forall>s' \<in> set (topology N). s' \<noteq> s \<longrightarrow> quiet (members s' N)"
    and ex: "exchange_link (members s N) = Inr ms" "link_ok ms" "length ms = length (members s N)"
  shows "exchange_all (topology N) N = Inr (put_members s ms N)"
proof -
  obtain before after where t: "topology N = before @ s # after" using s by (meson split_list)
  then have ns: "s \<notin> set before" "s \<notin> set after" using wf by (auto simp: net_wf_def)
  let ?N = "put_members s ms N"
  have len: "length ms = Suc (length (snd s))" using ex(3) by (simp add: members_def)
  have "\<forall>s' \<in> set before. quiet (members s' N)" using others t ns(1) by auto
  then have "exchange_all before N = Inr N" using t by (intro exchange_all_quiet [OF wf]) auto
  moreover have "exchange_segment s N = Inr ?N" by (rule exchange_segment_eq [OF wf s ex(1)])
  moreover have "exchange_all after ?N = Inr ?N"
  proof (rule exchange_all_quiet [OF put_members_wf [OF wf s ex(2) len]])
    show "set after \<subseteq> set (topology ?N)" using t by auto
    show "\<forall>s' \<in> set after. quiet (members s' ?N)"
    proof
      fix s'
      assume a: "s' \<in> set after"
      then have "s' \<in> set (topology N)" "s' \<noteq> s" using t ns(2) by auto
      then show "quiet (members s' ?N)"
        using wf s others members_put_other [of N s' s ms] by (auto simp: net_wf_def)
    qed
  qed
  ultimately show ?thesis unfolding t by (simp add: exchange_all_append)
qed

section \<open>Rounds\<close>

lemma simulate_round:
  assumes "net_wf N" and "drained (nw_router N)"
  shows "simulate_rounds (Suc n) N = bind_res (exchange_all (topology N) N) (simulate_rounds n)"
proof -
  have "\<forall>(c, h) \<in> set (nw_connections N). nw_interface_ids N c \<noteq> None" using assms(1) by (simp add: net_wf_def)
  then show ?thesis using route_drained [OF assms(2)] by (simp add: simulate_physical_eq)
qed

lemma idle_rounds:
  assumes "net_wf N" and "drained (nw_router N)" and "\<forall>s \<in> set (topology N). quiet (members s N)"
  shows "simulate_rounds n N = Inr N"
proof (induction n)
  case (Suc n)
  then show ?case using simulate_round [OF assms(1,2)] exchange_all_quiet [OF assms(1) _ assms(3)] by simp
qed simp

definition others_quiet :: "segment \<Rightarrow> Network \<Rightarrow> bool" where
  "others_quiet s N \<longleftrightarrow> (\<forall>s' \<in> set (topology N). s' \<noteq> s \<longrightarrow> quiet (members s' N))"

lemma drained_put:
  assumes "drained (nw_router N)" and "ai_datagrams_out (hd ms) = []"
  shows "drained (nw_router (put_members s ms N))"
  using assms set_update_subset_insert [of "ro_interfaces (nw_router N)" "unat (fst s)" "hd ms"]
  by (auto simp: drained_def put_members_def)

lemma others_quiet_put:
  assumes "net_wf N" and "s \<in> set (topology N)" and "others_quiet s N"
  shows "others_quiet s (put_members s ms N)"
  using assms members_put_other [of N _ s ms] by (auto simp: others_quiet_def net_wf_def)

lemma exchange_round:
  assumes N: "net_wf N" "drained (nw_router N)" and s: "s \<in> set (topology N)" "others_quiet s N"
    and ex: "exchange_link (members s N) = Inr ms" "link_ok ms" "ends ms = ends (members s N)"
  shows "simulate_rounds (Suc n) N = simulate_rounds n (put_members s ms N)" "net_wf (put_members s ms N)"
    "others_quiet s (put_members s ms N)" "members s (put_members s ms N) = ms"
    "received ms ! 0 = received (members s N) ! 0 \<Longrightarrow> drained (nw_router (put_members s ms N))"
proof -
  have len: "length ms = Suc (length (snd s))" by (rule ends_length [OF ex(3)])
  have seg: "seg_in N s" using N(1) s(1) by (simp add: net_wf_def)
  have "\<forall>s' \<in> set (topology N). s' \<noteq> s \<longrightarrow> quiet (members s' N)" using s(2) by (simp add: others_quiet_def)
  then show "simulate_rounds (Suc n) N = simulate_rounds n (put_members s ms N)"
    using simulate_round [OF N] exchange_all_one [OF N(1) s(1) _ ex(1,2)] len by (simp add: length_members)
  show "net_wf (put_members s ms N)" by (rule put_members_wf [OF N(1) s(1) ex(2) len])
  show "others_quiet s (put_members s ms N)" by (rule others_quiet_put [OF N(1) s])
  show "members s (put_members s ms N) = ms" by (rule members_put_same [OF seg len])
  assume q: "received ms ! 0 = received (members s N) ! 0"
  have "ai_datagrams_out (members s N ! 0) = []" using N(2) seg by (simp add: drained_def members_def seg_in_def)
  with q len have "ai_datagrams_out (hd ms) = []" by (cases ms) (simp_all add: received_def length_members)
  then show "drained (nw_router (put_members s ms N))" by (rule drained_put [OF N(2)])
qed

lemma run_phase:
  assumes "net_wf N" and "drained (nw_router N)" and s: "s \<in> set (topology N)" and "others_quiet s N"
    and "in_phase (members s N) p t hop d k"
  shows "\<exists>ms d'. (\<forall>n. simulate_rounds (k + n) N = simulate_rounds n (put_members s ms N)) \<and> link_ok ms \<and> quiet ms \<and>
    ends ms = ends (members s N) \<and> copy_of d d' \<and>
    received ms = (received (members s N))[t := received (members s N) ! t @ [d']]"
  using assms(1,2,4,5) s
proof (induction k arbitrary: N)
  case 0
  then show ?case by (simp add: in_phase_def)
next
  case (Suc k)
  let ?ms = "members s N"
  have l: "link_ok ?ms" using Suc.prems by (simp add: net_wf_def)
  note round = exchange_round [OF Suc.prems(1,2,5,3)]
  show ?case
  proof (cases "k = 0")
    case True
    then have ph: "in_phase ?ms p t hop d 1" using Suc.prems(4) by simp
    obtain ms d' where ms: "exchange_link ?ms = Inr ms" "link_ok ms" "ends ms = ends ?ms" "quiet ms" "copy_of d d'"
      "received ms = (received ?ms)[t := received ?ms ! t @ [d']]"
      using phase_deliver [OF l ph] by blast
    then show ?thesis using round(1) [OF ms(1-3)] True by (intro exI [of _ ms] exI [of _ d']) simp
  next
    case False
    then have "in_phase ?ms p t hop d (Suc k) \<and> (Suc k = 2 \<or> Suc k = 3)" using Suc.prems(4) by (auto simp: in_phase_def)
    then obtain ms where ms: "exchange_link ?ms = Inr ms" "link_ok ms" "ends ms = ends ?ms" "received ms = received ?ms"
      "in_phase ms p t hop d k"
      using phase_ask [OF l] phase_answer [OF l] by (metis One_nat_def Suc_1 Suc_inject numeral_3_eq_3)
    let ?N = "put_members s ms N"
    note r = round [OF ms(1-3)]
    have top: "s \<in> set (topology ?N)" using Suc.prems(5) by simp
    have ph: "in_phase (members s ?N) p t hop d k" using ms(5) by (simp add: r(4))
    obtain ms' d' where ms': "\<forall>n. simulate_rounds (k + n) ?N = simulate_rounds n (put_members s ms' ?N)" "link_ok ms'"
      "quiet ms'" "ends ms' = ends ms" "copy_of d d'" "received ms' = (received ms)[t := received ms ! t @ [d']]"
      using Suc.IH [OF r(2) r(5) r(3) ph top] ms(4) r(4) by auto
    have "length ms = length ms'" using ms'(4) by (metis ends_def length_map)
    then have "put_members s ms' ?N = put_members s ms' N" by (rule put_put_members)
    with ms' ms(3,4) r(1) show ?thesis by (intro exI [of _ ms'] exI [of _ d']) simp
  qed
qed

section \<open>From one link to the next\<close>

definition idle :: "Network \<Rightarrow> bool" where
  "idle N \<longleftrightarrow> net_wf N \<and> drained (nw_router N) \<and> (\<forall>s \<in> set (topology N). quiet (members s N))"

text \<open>What no exchange changes.\<close>

definition same_net :: "Network \<Rightarrow> Network \<Rightarrow> bool" where
  "same_net N N' \<longleftrightarrow>
     topology N' = topology N \<and> ro_route_table (nw_router N') = ro_route_table (nw_router N) \<and>
     ro_icmp_enabled (nw_router N') = ro_icmp_enabled (nw_router N) \<and>
     map (\<lambda>(name, h). (name, ho_my_address h, ho_next_hop h)) (nw_hosts N') =
       map (\<lambda>(name, h). (name, ho_my_address h, ho_next_hop h)) (nw_hosts N) \<and>
     (\<forall>s \<in> set (topology N). ends (members s N') = ends (members s N))"

lemma same_net_refl [simp]: "same_net N N"
  by (simp add: same_net_def)

lemma same_net_trans: "same_net N N' \<Longrightarrow> same_net N' N'' \<Longrightarrow> same_net N N''"
  by (simp add: same_net_def)

lemma put_interface_members:
  assumes "distinct (map fst (nw_hosts N))" and "seg_in N s"
  shows "put_interface (fst s) a N = put_members s ((members s N)[0 := a]) N"
proof -
  have "nw_hosts (put_members s ((members s N)[0 := a]) N) = nw_hosts (put_members s (members s N) N)"
    by (simp add: put_members_def members_def)
  then have "nw_hosts (put_members s ((members s N)[0 := a]) N) = nw_hosts N" using put_members_id [OF assms] by simp
  then show ?thesis by (simp add: put_interface_def put_members_def) (simp add: members_def)
qed

lemma put_host_members:
  assumes "distinct (map fst (nw_hosts N))" and "seg_in N s" and q: "q < length (snd s)"
  shows "put_host (snd s ! q) ((host_at (snd s ! q) N)\<lparr>ho_interface := a\<rparr>) N = put_members s ((members s N)[Suc q := a]) N"
proof -
  let ?ms = "(members s N)[Suc q := a]"
  have tl: "tl ?ms = (map (\<lambda>name. ho_interface (host_at name N)) (snd s))[q := a]" by (simp add: members_def)
  have "(if n = snd s ! q then (host_at (snd s ! q) N)\<lparr>ho_interface := a\<rparr> else h) =
      (case map_of (zip (snd s) (tl ?ms)) n of Some b \<Rightarrow> h\<lparr>ho_interface := b\<rparr> | None \<Rightarrow> h)"
    if "(n, h) \<in> set (nw_hosts N)" for n h
  proof -
    have h: "host_at n N = h" using that assms(1) by (simp add: host_at_def)
    have at: "map_of (zip (snd s) (tl ?ms)) (snd s ! r) = Some (tl ?ms ! r)" if "r < length (snd s)" for r
      using assms(2) that by (intro map_of_zip_nth') (simp_all add: seg_in_def tl)
    show ?thesis
    proof (cases "n \<in> set (snd s)")
      case True
      then obtain r where r: "n = snd s ! r" "r < length (snd s)" by (auto simp: in_set_conv_nth)
      then have "n = snd s ! q \<longleftrightarrow> r = q" using assms(2) q by (auto simp: seg_in_def nth_eq_iff_index_eq)
      then show ?thesis using at [OF r(2)] r h q by (auto simp: tl)
    next
      case False
      moreover from this have "map_of (zip (snd s) (tl ?ms)) n = None" by (auto simp: map_of_eq_None_iff dest: set_zip_leftD)
      ultimately show ?thesis using q by auto
    qed
  qed
  then have "map (\<lambda>(n, h). (n, if n = snd s ! q then (host_at (snd s ! q) N)\<lparr>ho_interface := a\<rparr> else h)) (nw_hosts N) =
      map (\<lambda>(n, h). (n, case map_of (zip (snd s) (tl ?ms)) n of Some b \<Rightarrow> h\<lparr>ho_interface := b\<rparr> | None \<Rightarrow> h)) (nw_hosts N)"
    by (intro map_cong) auto
  moreover have "hd ?ms = ro_interfaces (nw_router N) ! unat (fst s)" by (simp add: members_def)
  ultimately show ?thesis by (simp add: put_host_def put_members_def)
qed

lemma put_members_same_net:
  assumes "net_wf N" and "s \<in> set (topology N)" and "ends ms = ends (members s N)"
  shows "same_net N (put_members s ms N)"
proof -
  have "length ms = Suc (length (snd s))" by (rule ends_length [OF assms(3)])
  then have "members s' (put_members s ms N) = (if s' = s then ms else members s' N)" if "s' \<in> set (topology N)" for s'
    using assms(1,2) that members_put_same [of N s ms] members_put_other [of N s' s] by (auto simp: net_wf_def)
  moreover have "map (\<lambda>(name, h). (name, ho_my_address h, ho_next_hop h)) (nw_hosts (put_members s ms N)) =
      map (\<lambda>(name, h). (name, ho_my_address h, ho_next_hop h)) (nw_hosts N)"
    by (auto simp: put_members_def split: option.split)
  ultimately show ?thesis using assms(3) by (simp add: same_net_def)
qed

definition host_queue :: "Network \<Rightarrow> string \<Rightarrow> IPv4Datagram list" where
  "host_queue N name = ai_datagrams_out (ho_interface (host_at name N))"

definition expected :: "Network \<Rightarrow> string \<Rightarrow> IPv4Datagram list" where
  "expected N name = ho_expecting_to_receive (host_at name N)"

lemma expected_put:
  "name \<in> fst ` set (nw_hosts N) \<Longrightarrow> expected (put_members s ms N) name = expected N name"
  by (simp add: expected_def host_at_put_members split: option.split)

lemma host_queue_put:
  assumes "seg_in N s" and "length ms = Suc (length (snd s))" and "name \<in> fst ` set (nw_hosts N)"
    and "\<forall>q < length (snd s). received ms ! Suc q = (if snd s ! q = to then Q else received (members s N) ! Suc q)"
    and "to \<notin> set (snd s) \<Longrightarrow> Q = host_queue N to"
  shows "host_queue (put_members s ms N) name = (if name = to then Q else host_queue N name)"
proof (cases "name \<in> set (snd s)")
  case True
  then obtain q where q: "name = snd s ! q" "q < length (snd s)" by (auto simp: in_set_conv_nth)
  have "map_of (zip (snd s) (tl ms)) (snd s ! q) = Some (tl ms ! q)"
    using assms(1,2) q(2) by (intro map_of_zip_nth') (simp_all add: seg_in_def)
  moreover have "ai_datagrams_out (tl ms ! q) = received ms ! Suc q" using assms(2) q(2) by (simp add: received_def nth_tl)
  moreover have "received (members s N) ! Suc q = host_queue N name" using q by (simp add: received_def members_def host_queue_def)
  ultimately show ?thesis using assms(3,4) q by (simp add: host_queue_def host_at_put_members)
next
  case False
  then have "map_of (zip (snd s) (tl ms)) name = None" by (auto simp: map_of_eq_None_iff dest: set_zip_leftD)
  then show ?thesis using assms(3,5) False by (auto simp: host_queue_def host_at_put_members)
qed

lemma idle_put:
  assumes N: "idle N" and s: "s \<in> set (topology N)" and ms: "link_ok ms" "quiet ms" "ends ms = ends (members s N)"
    and q: "ai_datagrams_out (hd ms) = []"
  shows "idle (put_members s ms N)"
proof -
  have len: "length ms = Suc (length (snd s))" by (rule ends_length [OF ms(3)])
  have wf: "net_wf N" and "seg_in N s" using N s by (simp_all add: idle_def net_wf_def)
  then have "quiet (members s' (put_members s ms N))" if "s' \<in> set (topology N)" for s'
  proof (cases "s' = s")
    case True
    then show ?thesis using members_put_same [OF \<open>seg_in N s\<close> len] ms(2) by simp
  next
    case False
    then have "seg_in N s'" "apart s s'" using wf s that by (auto simp: net_wf_def)
    from members_put_other [OF this] show ?thesis using N that by (simp add: idle_def)
  qed
  then show ?thesis
    using put_members_wf [OF wf s ms(1) len] drained_put [OF _ q] N by (simp add: idle_def)
qed

lemma leg:
  assumes N: "idle N" and s: "s \<in> set (topology N)" and i: "p < length (members s N)" "t < length (members s N)" "p \<noteq> t"
    and hop: "Address_ipv4_numeric hop = Inr (ip_at (members s N ! t))" and d: "datagram_ok d"
  shows "\<exists>a k ms d'. NetworkInterface_send_datagram d hop (members s N ! p) = Inr a \<and> 1 \<le> k \<and> k \<le> 3 \<and>
    drained (nw_router (put_members s ((members s N)[p := a]) N)) \<and>
    (\<forall>n. simulate_rounds (k + n) (put_members s ((members s N)[p := a]) N) = simulate_rounds n (put_members s ms N)) \<and>
    link_ok ms \<and> quiet ms \<and> ends ms = ends (members s N) \<and> copy_of d d' \<and>
    received ms = (received (members s N))[t := received (members s N) ! t @ [d']]"
proof -
  let ?ms = "members s N"
  have wf: "net_wf N" and l: "link_ok ?ms" and seg: "seg_in N s" and q: "quiet ?ms"
    using N s by (simp_all add: idle_def net_wf_def)
  obtain a k where a: "NetworkInterface_send_datagram d hop (?ms ! p) = Inr a" "1 \<le> k" "k \<le> 3" "link_ok (?ms[p := a])"
    "ends (?ms[p := a]) = ends ?ms" "received (?ms[p := a]) = received ?ms" "in_phase (?ms[p := a]) p t hop d k"
    using send_phase [OF l q i hop d] by blast
  let ?N = "put_members s (?ms[p := a]) N"
  have len: "length (?ms[p := a]) = Suc (length (snd s))" by (simp add: length_members)
  have same: "members s ?N = ?ms[p := a]" by (rule members_put_same [OF seg len])
  have "ai_datagrams_out (?ms ! 0) = []" using N seg by (simp add: idle_def drained_def members_def seg_in_def)
  moreover have "received (?ms[p := a]) ! 0 = received ?ms ! 0" using a(6) by simp
  moreover have "?ms[p := a] \<noteq> []" "?ms \<noteq> []" using i by auto
  ultimately have hd0: "ai_datagrams_out (hd (?ms[p := a])) = []" by (simp add: received_def hd_conv_nth)
  have dr: "drained (nw_router ?N)" by (rule drained_put) (use N hd0 in \<open>simp_all add: idle_def\<close>)
  have oq: "others_quiet s N" using N by (simp add: others_quiet_def idle_def)
  obtain ms d' where ms: "\<forall>n. simulate_rounds (k + n) ?N = simulate_rounds n (put_members s ms ?N)" "link_ok ms" "quiet ms"
    "ends ms = ends (?ms[p := a])" "copy_of d d'" "received ms = (received (?ms[p := a]))[t := received (?ms[p := a]) ! t @ [d']]"
    using run_phase [OF put_members_wf [OF wf s a(4) len] dr _ others_quiet_put [OF wf s oq], of p t hop d k] s a(7) same
    by auto
  have "length (?ms[p := a]) = length ms" using ms(4) by (metis ends_def length_map)
  then have "put_members s ms ?N = put_members s ms N" by (rule put_put_members)
  with ms a dr show ?thesis by (intro exI [of _ a] exI [of _ k] exI [of _ ms] exI [of _ d']) simp
qed

lemma route_round:
  assumes "Router_route (nw_router N) = Inr (nw_router N')" and "N\<lparr>nw_router := nw_router N'\<rparr> = N'" and "drained (nw_router N')"
  shows "simulate_rounds (Suc n) N = simulate_rounds (Suc n) N'"
  using assms route_drained [OF assms(3)] by simp

text \<open>The router has received one datagram on link \<open>s\<close>; the next pass takes it off the queue.\<close>

definition taken :: "AsyncNetworkInterface list \<Rightarrow> AsyncNetworkInterface list" where
  "taken ms = ms[0 := (hd ms)\<lparr>ai_datagrams_out := []\<rparr>]"

lemma taken_link:
  assumes "link_ok ms" and "quiet ms"
  shows "link_ok (taken ms)" "quiet (taken ms)" "ends (taken ms) = ends ms" "received (taken ms) = (received ms)[0 := []]"
proof -
  have ne: "ms \<noteq> []" using assms(1) by (auto simp: link_ok_def)
  then have l: "learns ms (ms ! q) (taken ms ! q)" if "q < length ms" for q
    using learns_queue [OF link_ok_nth [OF assms(1) that]] learns_refl [OF link_ok_nth [OF assms(1) that]]
    by (cases ms; cases q) (simp_all add: taken_def)
  then show "link_ok (taken ms)" "ends (taken ms) = ends ms"
    using link_ok_step [OF assms(1), of "taken ms"] by (simp_all add: taken_def)
  show "quiet (taken ms)" using assms(2) ne by (cases ms) (auto simp: taken_def quiet_def link_state_def nth_Cons')
  show "received (taken ms) = (received ms)[0 := []]" using ne by (cases ms) (simp_all add: taken_def received_def)
qed

lemma pop_put:
  assumes "i < length (ro_interfaces r)" and "ai_datagrams_out (ro_interfaces r ! i) = [d]"
  shows "pop_datagram i r = r\<lparr>ro_interfaces := (ro_interfaces r)[i := (ro_interfaces r ! i)\<lparr>ai_datagrams_out := []\<rparr>]\<rparr>"
  using assms by (simp add: pop_datagram_def)

lemma after_leg:
  assumes N: "idle N" and s: "s \<in> set (topology N)" and ms: "link_ok ms" "quiet ms" "ends ms = ends (members s N)"
    and got: "received ms ! 0 = [d]"
  shows "idle (put_members s (taken ms) N)"
    "unat (fst s) < length (ro_interfaces (nw_router (put_members s ms N)))"
    "ai_datagrams_out (ro_interfaces (nw_router (put_members s ms N)) ! unat (fst s)) = [d]"
    "\<forall>j < length (ro_interfaces (nw_router (put_members s ms N))). j \<noteq> unat (fst s) \<longrightarrow>
       ai_datagrams_out (ro_interfaces (nw_router (put_members s ms N)) ! j) = []"
    "put_interface (fst s) ((ro_interfaces (nw_router (put_members s ms N)) ! unat (fst s))\<lparr>ai_datagrams_out := []\<rparr>)
       (put_members s ms N) = put_members s (taken ms) N"
proof -
  have seg: "unat (fst s) < length (ro_interfaces (nw_router N))" using N s by (simp add: idle_def net_wf_def seg_in_def)
  have ne: "ms \<noteq> []" using ms(1) by (auto simp: link_ok_def)
  have "ai_datagrams_out (hd (taken ms)) = []" using ne by (cases ms) (simp_all add: taken_def)
  then show "idle (put_members s (taken ms) N)"
    using idle_put [OF N s taken_link(1,2) [OF ms(1,2)]] taken_link(3) [OF ms(1,2)] ms(3) by simp
  show "unat (fst s) < length (ro_interfaces (nw_router (put_members s ms N)))" using seg by simp
  show "ai_datagrams_out (ro_interfaces (nw_router (put_members s ms N)) ! unat (fst s)) = [d]"
    using got ne seg by (simp add: put_members_def received_def hd_conv_nth)
  show "\<forall>j < length (ro_interfaces (nw_router (put_members s ms N))). j \<noteq> unat (fst s) \<longrightarrow>
      ai_datagrams_out (ro_interfaces (nw_router (put_members s ms N)) ! j) = []"
    using N by (simp add: idle_def drained_def put_members_def)
  show "put_interface (fst s) ((ro_interfaces (nw_router (put_members s ms N)) ! unat (fst s))\<lparr>ai_datagrams_out := []\<rparr>)
      (put_members s ms N) = put_members s (taken ms) N"
    using ne seg by (cases ms) (simp_all add: put_interface_def put_members_def taken_def)
qed

lemma round_expired:
  assumes N: "idle N" and s: "s \<in> set (topology N)" and ms: "link_ok ms" "quiet ms" "ends ms = ends (members s N)"
    and got: "received ms ! 0 = [d]"
    and d: "ih_proto (id_header d) \<noteq> PROTO_ICMP" "\<not> ro_icmp_enabled (nw_router N)" "ih_ttl (id_header d) \<le> 1"
  shows "simulate_rounds (Suc n) (put_members s ms N) = simulate_rounds (Suc n) (put_members s (taken ms) N)"
proof (rule route_round)
  let ?N = "put_members s ms N" and ?N' = "put_members s (taken ms) N"
  note l = after_leg [OF N s ms got]
  have "Router_route_one_datagram d (nw_router ?N) = Inr (nw_router ?N)" using d by (intro route_one_expired) simp_all
  from route_single [OF l(2-4) this] show "Router_route (nw_router ?N) = Inr (nw_router ?N')"
    using pop_put [OF l(2,3)] by (simp add: l(5) [symmetric] put_interface_def)
  show "?N\<lparr>nw_router := nw_router ?N'\<rparr> = ?N'" by (simp add: l(5) [symmetric] put_interface_def)
  show "drained (nw_router ?N')" using l(1) by (simp add: idle_def)
qed

lemma round_forward:
  assumes N: "idle N" and s: "s \<in> set (topology N)" and ms: "link_ok ms" "quiet ms" "ends ms = ends (members s N)"
    and got: "received ms ! 0 = [d]" and d: "ih_proto (id_header d) \<noteq> PROTO_ICMP" "1 < ih_ttl (id_header d)"
    and e: "RoutingTrie_longest_prefix_match (ih_dst (id_header d)) (ro_route_table (nw_router N)) = Some e"
      "unat (re_interface_num e) < length (ro_interfaces (nw_router N))"
    and a: "NetworkInterface_send_datagram (one_hop d) (next_hop_of e (ih_dst (id_header d)))
      (ro_interfaces (nw_router (put_members s (taken ms) N)) ! unat (re_interface_num e)) = Inr a"
    and dr: "drained (nw_router (put_interface (re_interface_num e) a (put_members s (taken ms) N)))"
  shows "simulate_rounds (Suc n) (put_members s ms N) =
    simulate_rounds (Suc n) (put_interface (re_interface_num e) a (put_members s (taken ms) N))"
proof (rule route_round)
  let ?N = "put_members s ms N" and ?i = "unat (fst s)" and ?j = "unat (re_interface_num e)"
  let ?N' = "put_interface (re_interface_num e) a (put_members s (taken ms) N)"
  let ?ifs = "ro_interfaces (nw_router ?N)"
  note l = after_leg [OF N s ms got]
  have t: "ro_interfaces (nw_router (put_members s (taken ms) N)) = ?ifs[?i := (?ifs ! ?i)\<lparr>ai_datagrams_out := []\<rparr>]"
    by (simp add: l(5) [symmetric] put_interface_def)
  have fits: "fits ?ifs" using N by (simp add: idle_def net_wf_def)
  obtain b where b: "NetworkInterface_send_datagram (one_hop d) (next_hop_of e (ih_dst (id_header d))) (?ifs ! ?j) = Inr b"
    "a = (if ?i = ?j then b\<lparr>ai_datagrams_out := []\<rparr> else b)"
  proof (cases "?i = ?j")
    case True
    then have "bind_res (NetworkInterface_send_datagram (one_hop d) (next_hop_of e (ih_dst (id_header d))) (?ifs ! ?j))
        (\<lambda>a. Inr (a\<lparr>ai_datagrams_out := []\<rparr>)) = Inr a"
      using a l(2) by (simp add: t send_datagram_queue_upd)
    then show thesis using that True by (auto simp: bind_res_Inr_iff)
  next
    case False
    then show thesis using that a by (simp add: t)
  qed
  have "Router_route_one_datagram d (nw_router ?N) = Inr ((nw_router ?N)\<lparr>ro_interfaces := ?ifs[?j := b]\<rparr>)"
    using route_one_forward [OF fits d(1) _ _ d(2) b(1)] e by simp
  from route_single [OF l(2-4) this] show "Router_route (nw_router ?N) = Inr (nw_router ?N')"
    using b(2) l(2,3) e(2) send_datagram_queue [OF b(1)] t
    by (cases "?i = ?j") (simp_all add: pop_datagram_def put_interface_def list_update_swap put_members_def)
  have "tl (taken ms) = tl ms" by (cases ms) (simp_all add: taken_def)
  then show "?N\<lparr>nw_router := nw_router ?N'\<rparr> = ?N'" by (simp add: put_interface_def put_members_def)
  show "drained (nw_router ?N')" by (rule dr)
qed

lemma host_queue_same:
  assumes "seg_in N s" and "length ms = Suc (length (snd s))" and "name \<in> fst ` set (nw_hosts N)"
    and "\<forall>q < length (snd s). received ms ! Suc q = received (members s N) ! Suc q"
  shows "host_queue (put_members s ms N) name = host_queue N name"
  using host_queue_put [OF assms(1-3), of name "host_queue N name"] assms(4)
  by (auto simp: received_def members_def host_queue_def)

lemma copy_of_trans: "copy_of d d' \<Longrightarrow> copy_of d' d'' \<Longrightarrow> copy_of d d''"
  by (auto simp: copy_of_def)

lemma copy_of_hop:
  assumes "copy_of d d'"
  shows "copy_of (one_hop d) (one_hop d')"
proof -
  obtain c where "id_header d' = (id_header d)\<lparr>ih_cksum := c\<rparr>" using assms by (auto simp: copy_of_def)
  then have "id_header (one_hop d') = (id_header (one_hop d))\<lparr>ih_cksum := c\<rparr>" by (simp add: one_hop_def)
  moreover have "datagram_ok (one_hop d')" "id_payload (one_hop d') = id_payload d'" "id_payload (one_hop d) = id_payload d"
    using assms by (simp_all add: copy_of_def one_hop_def)
  ultimately show ?thesis using assms unfolding copy_of_def by metis
qed

lemma copy_of_header:
  "copy_of d d' \<Longrightarrow> ih_dst (id_header d') = ih_dst (id_header d) \<and> ih_ttl (id_header d') = ih_ttl (id_header d) \<and>
     ih_proto (id_header d') = ih_proto (id_header d)"
  by (auto simp: copy_of_def)

lemma same_net_ip:
  assumes "same_net N N'" and "s \<in> set (topology N)" and "q < length (members s N)"
  shows "ip_at (members s N' ! q) = ip_at (members s N ! q)"
  by (rule ends_nth(3) [OF _ assms(3)]) (use assms(1,2) in \<open>simp add: same_net_def\<close>)

text \<open>The first link: the datagram of a host reaches the router, which takes it off its queue.\<close>

lemma first_leg:
  assumes N: "idle N" and s: "s \<in> set (topology N)" and q: "q < length (snd s)" and d: "datagram_ok d"
    and hop: "Address_ipv4_numeric hop = Inr (ip_at (members s N ! 0))"
  shows "\<exists>a k ms d'. NetworkInterface_send_datagram d hop (members s N ! Suc q) = Inr a \<and> k \<le> 3 \<and>
    (\<forall>n. simulate_rounds (k + n) (put_members s ((members s N)[Suc q := a]) N) = simulate_rounds n (put_members s ms N)) \<and>
    link_ok ms \<and> quiet ms \<and> ends ms = ends (members s N) \<and> copy_of d d' \<and> received ms ! 0 = [d'] \<and>
    idle (put_members s (taken ms) N) \<and> same_net N (put_members s (taken ms) N) \<and>
    (\<forall>name \<in> fst ` set (nw_hosts N). host_queue (put_members s (taken ms) N) name = host_queue N name)"
proof -
  have wf: "net_wf N" and seg: "seg_in N s" using N s by (simp_all add: idle_def net_wf_def)
  obtain a k ms d' where l: "NetworkInterface_send_datagram d hop (members s N ! Suc q) = Inr a" "k \<le> 3"
    "\<forall>n. simulate_rounds (k + n) (put_members s ((members s N)[Suc q := a]) N) = simulate_rounds n (put_members s ms N)"
    "link_ok ms" "quiet ms" "ends ms = ends (members s N)" "copy_of d d'"
    "received ms = (received (members s N))[0 := received (members s N) ! 0 @ [d']]"
    using leg [OF N s _ _ _ hop d, of "Suc q"] q by (auto simp: length_members)
  have "received (members s N) ! 0 = []"
    using N seg by (simp add: received_def members_def idle_def drained_def seg_in_def)
  then have got: "received ms ! 0 = [d']" using l(8) by (simp add: received_def length_members)
  have t: "ends (taken ms) = ends (members s N)" "received (taken ms) = (received (members s N))[0 := []]"
    using taken_link(3,4) [OF l(4,5)] l(6,8) by simp_all
  have len: "length (taken ms) = Suc (length (snd s))" by (rule ends_length [OF t(1)])
  have "host_queue (put_members s (taken ms) N) name = host_queue N name" if "name \<in> fst ` set (nw_hosts N)" for name
    using host_queue_same [OF seg len that] t(2) by simp
  then show ?thesis
    using l(1-7) got after_leg(1) [OF N s l(4-6) got] put_members_same_net [OF wf s t(1)] by blast
qed

text \<open>The second link: the router sends to a host.\<close>

lemma second_leg:
  assumes N: "idle N" and s: "s \<in> set (topology N)" and q: "q < length (snd s)" and d: "datagram_ok d"
    and hop: "Address_ipv4_numeric hop = Inr (ip_at (members s N ! Suc q))"
  shows "\<exists>a k N' d'. NetworkInterface_send_datagram d hop (ro_interfaces (nw_router N) ! unat (fst s)) = Inr a \<and>
    1 \<le> k \<and> k \<le> 3 \<and> drained (nw_router (put_interface (fst s) a N)) \<and>
    (\<forall>n. simulate_rounds (k + n) (put_interface (fst s) a N) = simulate_rounds n N') \<and>
    idle N' \<and> same_net N N' \<and> copy_of d d' \<and> (\<forall>name \<in> fst ` set (nw_hosts N). expected N' name = expected N name \<and>
      host_queue N' name = (if name = snd s ! q then host_queue N name @ [d'] else host_queue N name))"
proof -
  let ?to = "snd s ! q"
  have seg: "seg_in N s" and dist: "distinct (map fst (nw_hosts N))" and wf: "net_wf N"
    using N s by (simp_all add: idle_def net_wf_def)
  obtain a k ms d' where m: "NetworkInterface_send_datagram d hop (members s N ! 0) = Inr a" "1 \<le> k" "k \<le> 3"
    "drained (nw_router (put_members s ((members s N)[0 := a]) N))"
    "\<forall>n. simulate_rounds (k + n) (put_members s ((members s N)[0 := a]) N) = simulate_rounds n (put_members s ms N)"
    "link_ok ms" "quiet ms" "ends ms = ends (members s N)" "copy_of d d'"
    "received ms = (received (members s N))[Suc q := received (members s N) ! Suc q @ [d']]"
    using leg [OF N s _ _ _ hop d, of 0] q by (auto simp: length_members)
  have len: "length ms = Suc (length (snd s))" by (rule ends_length [OF m(8)])
  have "received ms ! 0 = received (members s N) ! 0" using m(10) by simp
  moreover have "received (members s N) ! 0 = []"
    using N seg by (simp add: received_def members_def idle_def drained_def seg_in_def)
  ultimately have "ai_datagrams_out (hd ms) = []" using len by (cases ms) (simp_all add: received_def)
  then have "idle (put_members s ms N)" by (rule idle_put [OF N s m(6-8)])
  moreover have "same_net N (put_members s ms N)" by (rule put_members_same_net [OF wf s m(8)])
  moreover have "expected (put_members s ms N) name = expected N name \<and>
      host_queue (put_members s ms N) name = (if name = ?to then host_queue N name @ [d'] else host_queue N name)"
    if name: "name \<in> fst ` set (nw_hosts N)" for name
  proof -
    have "distinct (snd s)" using seg by (simp add: seg_in_def)
    then have "\<forall>r < length (snd s). received ms ! Suc r =
        (if snd s ! r = ?to then host_queue N ?to @ [d'] else received (members s N) ! Suc r)"
      using m(10) q by (auto simp: nth_eq_iff_index_eq received_def members_def host_queue_def)
    from host_queue_put [OF seg len name this] show ?thesis using name q by (auto simp: expected_put)
  qed
  moreover have "members s N ! 0 = ro_interfaces (nw_router N) ! unat (fst s)" by (simp add: members_def)
  ultimately show ?thesis
    using m(1-5,9) put_interface_members [OF dist seg, of a]
    by (intro exI [of _ a] exI [of _ k] exI [of _ "put_members s ms N"] exI [of _ d']) simp
qed

lemma run_delivers:
  assumes N: "idle N" and s1: "s1 \<in> set (topology N)" "q1 < length (snd s1)" and s2: "s2 \<in> set (topology N)" "q2 < length (snd s2)"
    and d: "datagram_ok d" "ih_proto (id_header d) \<noteq> PROTO_ICMP" "1 < ih_ttl (id_header d)"
    and hop: "Address_ipv4_numeric hop = Inr (ip_at (members s1 N ! 0))"
    and e: "RoutingTrie_longest_prefix_match (ih_dst (id_header d)) (ro_route_table (nw_router N)) = Some e"
      "re_interface_num e = fst s2"
      "Address_ipv4_numeric (next_hop_of e (ih_dst (id_header d))) = Inr (ip_at (members s2 N ! Suc q2))"
  shows "\<exists>a N' d'. NetworkInterface_send_datagram d hop (members s1 N ! Suc q1) = Inr a \<and>
    simulate_rounds 256 (put_members s1 ((members s1 N)[Suc q1 := a]) N) = Inr N' \<and> idle N' \<and> same_net N N' \<and>
    copy_of (one_hop d) d' \<and> (\<forall>name \<in> fst ` set (nw_hosts N). expected N' name = expected N name \<and>
      host_queue N' name = (if name = snd s2 ! q2 then host_queue N name @ [d'] else host_queue N name))"
proof -
  obtain a k ms d1 where l: "NetworkInterface_send_datagram d hop (members s1 N ! Suc q1) = Inr a" "k \<le> 3"
    "\<forall>n. simulate_rounds (k + n) (put_members s1 ((members s1 N)[Suc q1 := a]) N) = simulate_rounds n (put_members s1 ms N)"
    "link_ok ms" "quiet ms" "ends ms = ends (members s1 N)" "copy_of d d1" "received ms ! 0 = [d1]"
    and N1: "idle (put_members s1 (taken ms) N)" "same_net N (put_members s1 (taken ms) N)"
      "\<forall>name \<in> fst ` set (nw_hosts N). host_queue (put_members s1 (taken ms) N) name = host_queue N name"
    using first_leg [OF N s1 d(1) hop] by blast
  let ?N1 = "put_members s1 (taken ms) N"
  note h = copy_of_header [OF l(7)]
  have d1: "datagram_ok (one_hop d1)" using l(7) by (simp add: copy_of_def one_hop_def)
  have top: "s2 \<in> set (topology ?N1)" using s2(1) by simp
  have at: "unat (re_interface_num e) < length (ro_interfaces (nw_router N))"
    using N s2(1) e(2) by (simp add: idle_def net_wf_def seg_in_def)
  have hop2: "Address_ipv4_numeric (next_hop_of e (ih_dst (id_header d1))) = Inr (ip_at (members s2 ?N1 ! Suc q2))"
    using e(3) h same_net_ip [OF N1(2) s2(1)] s2(2) by (simp add: length_members)
  obtain b k' N2 d' where m: "NetworkInterface_send_datagram (one_hop d1) (next_hop_of e (ih_dst (id_header d1)))
      (ro_interfaces (nw_router ?N1) ! unat (fst s2)) = Inr b" "1 \<le> k'" "k' \<le> 3" "drained (nw_router (put_interface (fst s2) b ?N1))"
    "\<forall>n. simulate_rounds (k' + n) (put_interface (fst s2) b ?N1) = simulate_rounds n N2" "idle N2" "same_net ?N1 N2"
    "copy_of (one_hop d1) d'" "\<forall>name \<in> fst ` set (nw_hosts ?N1). expected N2 name = expected ?N1 name \<and>
      host_queue N2 name = (if name = snd s2 ! q2 then host_queue ?N1 name @ [d'] else host_queue ?N1 name)"
    using second_leg [OF N1(1) top s2(2) d1 hop2] by blast
  have fwd: "simulate_rounds (Suc n) (put_members s1 ms N) = simulate_rounds (Suc n) (put_interface (fst s2) b ?N1)" for n
    using round_forward [OF N s1(1) l(4-6,8), of e b n] h d e(1,2) at m(1,4) by simp
  have "256 = k + Suc (255 - k)" "Suc (255 - k) = k' + (256 - k - k')" using l(2) m(2,3) by simp_all
  then have "simulate_rounds 256 (put_members s1 ((members s1 N)[Suc q1 := a]) N) = simulate_rounds (256 - k - k') N2"
    using l(3) fwd m(5) by metis
  moreover have "simulate_rounds (256 - k - k') N2 = Inr N2" using m(6) by (intro idle_rounds) (simp_all add: idle_def)
  moreover have "expected N2 name = expected N name \<and>
      host_queue N2 name = (if name = snd s2 ! q2 then host_queue N name @ [d'] else host_queue N name)"
    if name: "name \<in> fst ` set (nw_hosts N)" for name
    using bspec [OF m(9), of name] bspec [OF N1(3) name] name by (auto simp: expected_put)
  ultimately show ?thesis
    using l(1) m(6) same_net_trans [OF N1(2) m(7)] copy_of_trans [OF copy_of_hop [OF l(7)] m(8)]
    by (intro exI [of _ a] exI [of _ N2] exI [of _ d']) simp
qed

lemma run_expires:
  assumes N: "idle N" and s: "s \<in> set (topology N)" "q < length (snd s)"
    and d: "datagram_ok d" "ih_proto (id_header d) \<noteq> PROTO_ICMP" "ih_ttl (id_header d) \<le> 1" "\<not> ro_icmp_enabled (nw_router N)"
    and hop: "Address_ipv4_numeric hop = Inr (ip_at (members s N ! 0))"
  shows "\<exists>a N'. NetworkInterface_send_datagram d hop (members s N ! Suc q) = Inr a \<and>
    simulate_rounds 256 (put_members s ((members s N)[Suc q := a]) N) = Inr N' \<and> idle N' \<and> same_net N N' \<and>
    (\<forall>name \<in> fst ` set (nw_hosts N). expected N' name = expected N name \<and> host_queue N' name = host_queue N name)"
proof -
  obtain a k ms d1 where l: "NetworkInterface_send_datagram d hop (members s N ! Suc q) = Inr a" "k \<le> 3"
    "\<forall>n. simulate_rounds (k + n) (put_members s ((members s N)[Suc q := a]) N) = simulate_rounds n (put_members s ms N)"
    "link_ok ms" "quiet ms" "ends ms = ends (members s N)" "copy_of d d1" "received ms ! 0 = [d1]"
    and N1: "idle (put_members s (taken ms) N)" "same_net N (put_members s (taken ms) N)"
      "\<forall>name \<in> fst ` set (nw_hosts N). host_queue (put_members s (taken ms) N) name = host_queue N name"
    using first_leg [OF N s d(1) hop] by blast
  let ?N1 = "put_members s (taken ms) N"
  have "simulate_rounds (Suc n) (put_members s ms N) = simulate_rounds (Suc n) ?N1" for n
    using round_expired [OF N s(1) l(4-6,8)] copy_of_header [OF l(7)] d(2-4) by simp
  moreover have "simulate_rounds (Suc (255 - k)) ?N1 = Inr ?N1" using N1(1) by (intro idle_rounds) (simp_all add: idle_def)
  moreover have "256 = k + Suc (255 - k)" using l(2) by simp
  ultimately have "simulate_rounds 256 (put_members s ((members s N)[Suc q := a]) N) = Inr ?N1" using l(3) by metis
  then show ?thesis using l(1) N1 by (intro exI [of _ a] exI [of _ ?N1]) (simp add: expected_put)
qed

section \<open>Expectations and checks\<close>

definition set_expect :: "string \<Rightarrow> IPv4Datagram list \<Rightarrow> Network \<Rightarrow> Network" where
  "set_expect name ds N =
     N\<lparr>nw_hosts := map (\<lambda>(n, h). (n, if n = name then h\<lparr>ho_expecting_to_receive := ds\<rparr> else h)) (nw_hosts N)\<rparr>"

lemma put_host_expect:
  assumes "distinct (map fst (nw_hosts N))"
  shows "put_host name ((host_at name N)\<lparr>ho_expecting_to_receive := ds\<rparr>) N = set_expect name ds N"
proof -
  have "host_at name N = h" if "(name, h) \<in> set (nw_hosts N)" for h using that assms by (simp add: host_at_def)
  then have "map (\<lambda>(n, g). (n, if n = name then (host_at name N)\<lparr>ho_expecting_to_receive := ds\<rparr> else g)) (nw_hosts N) =
      map (\<lambda>(n, h). (n, if n = name then h\<lparr>ho_expecting_to_receive := ds\<rparr> else h)) (nw_hosts N)"
    by (intro map_cong) auto
  then show ?thesis by (simp add: put_host_def set_expect_def)
qed

lemma set_expect_put: "set_expect name ds (put_members s ms N) = put_members s ms (set_expect name ds N)"
proof -
  have "map ((\<lambda>(n, h). (n, if n = name then h\<lparr>ho_expecting_to_receive := ds\<rparr> else h)) \<circ>
      (\<lambda>(n, h). (n, case map_of (zip (snd s) (tl ms)) n of Some a \<Rightarrow> h\<lparr>ho_interface := a\<rparr> | None \<Rightarrow> h))) (nw_hosts N) =
    map ((\<lambda>(n, h). (n, case map_of (zip (snd s) (tl ms)) n of Some a \<Rightarrow> h\<lparr>ho_interface := a\<rparr> | None \<Rightarrow> h)) \<circ>
      (\<lambda>(n, h). (n, if n = name then h\<lparr>ho_expecting_to_receive := ds\<rparr> else h))) (nw_hosts N)"
    by (intro map_cong) (auto split: option.split)
  then show ?thesis by (simp add: set_expect_def put_members_def)
qed

lemma set_expect_simps [simp]:
  "nw_router (set_expect name ds N) = nw_router N" "topology (set_expect name ds N) = topology N"
  "map fst (nw_hosts (set_expect name ds N)) = map fst (nw_hosts N)"
  "fst ` set (nw_hosts (set_expect name ds N)) = fst ` set (nw_hosts N)"
  "seg_in (set_expect name ds N) s = seg_in N s"
  by (simp_all add: set_expect_def topology_def seg_in_def image_image case_prod_beta)

lemma host_at_expect:
  assumes "n \<in> fst ` set (nw_hosts N)"
  shows "host_at n (set_expect name ds N) =
    (if n = name then (host_at n N)\<lparr>ho_expecting_to_receive := ds\<rparr> else host_at n N)"
proof -
  obtain h where "map_of (nw_hosts N) n = Some h" using assms by (metis map_of_eq_None_iff not_Some_eq)
  then show ?thesis by (auto simp: host_at_def set_expect_def map_of_map_value)
qed

lemma members_expect:
  assumes "seg_in N s"
  shows "members s (set_expect name ds N) = members s N"
proof -
  have "ho_interface (host_at n (set_expect name ds N)) = ho_interface (host_at n N)" if "n \<in> set (snd s)" for n
  proof -
    have "n \<in> fst ` set (nw_hosts N)" using assms that by (auto simp: seg_in_def)
    from host_at_expect [OF this] show ?thesis by simp
  qed
  then show ?thesis by (simp add: members_def)
qed

lemma idle_expect:
  assumes "idle N"
  shows "idle (set_expect name ds N)" "same_net N (set_expect name ds N)"
proof -
  have wf: "net_wf N" using assms by (simp add: idle_def)
  have m: "members s (set_expect name ds N) = members s N" if "s \<in> set (topology N)" for s
    using wf that by (intro members_expect) (simp add: net_wf_def)
  have "\<forall>(n, h) \<in> set (nw_hosts (set_expect name ds N)). ho_name h = n"
    using wf by (auto simp: net_wf_def set_expect_def split: if_splits)
  moreover have "nw_connections (set_expect name ds N) = nw_connections N"
    "nw_interface_ids (set_expect name ds N) = nw_interface_ids N" by (simp_all add: set_expect_def)
  ultimately have "net_wf (set_expect name ds N)" using wf m by (simp add: net_wf_def)
  then show "idle (set_expect name ds N)" using assms m by (simp add: idle_def)
  have "map (\<lambda>(name, h). (name, ho_my_address h, ho_next_hop h)) (nw_hosts (set_expect name ds N)) =
      map (\<lambda>(name, h). (name, ho_my_address h, ho_next_hop h)) (nw_hosts N)"
    by (auto simp: set_expect_def)
  then show "same_net N (set_expect name ds N)" using m by (simp add: same_net_def)
qed

definition checked :: "Host \<Rightarrow> Host" where
  "checked h = h\<lparr>ho_interface := (ho_interface h)\<lparr>ai_datagrams_out := []\<rparr>, ho_expecting_to_receive := []\<rparr>"

definition all_checked :: "Network \<Rightarrow> Network" where
  "all_checked N = N\<lparr>nw_hosts := map (\<lambda>(name, h). (name, checked h)) (nw_hosts N)\<rparr>"

lemma check_hosts_ok:
  "\<forall>(name, h) \<in> set hosts. Host_check h = Inr (checked h) \<Longrightarrow>
     check_hosts hosts = Inr (map (\<lambda>(name, h). (name, checked h)) hosts)"
  by (induction hosts) auto

lemma check_hosts_fails:
  "\<forall>(name, h) \<in> set hosts. Host_check h = Inr (checked h) \<or> (\<exists>msg. Host_check h = Inl (Runtime_error msg)) \<Longrightarrow>
     (name, h) \<in> set hosts \<Longrightarrow> Host_check h = Inl e \<Longrightarrow> \<exists>msg. check_hosts hosts = Inl (Runtime_error msg)"
proof (induction hosts)
  case (Cons x hosts)
  obtain n g where x: "x = (n, g)" by (cases x)
  show ?case
  proof (cases "Host_check g")
    case (Inl y)
    then show ?thesis using Cons.prems(1) x by auto
  next
    case (Inr y)
    then have "(name, h) \<in> set hosts" using Cons.prems(2,3) x by auto
    then show ?thesis using Cons Inr x by fastforce
  qed
qed simp

lemma host_at_checked:
  assumes "n \<in> fst ` set (nw_hosts N)"
  shows "host_at n (all_checked N) = checked (host_at n N)"
proof -
  obtain h where "map_of (nw_hosts N) n = Some h" using assms by (metis map_of_eq_None_iff not_Some_eq)
  then show ?thesis by (simp add: host_at_def all_checked_def map_of_map_value)
qed

lemma idle_checked:
  assumes "idle N"
  shows "idle (all_checked N)" "same_net N (all_checked N)"
proof -
  have wf: "net_wf N" using assms by (simp add: idle_def)
  have names: "map fst (nw_hosts (all_checked N)) = map fst (nw_hosts N)" "fst ` set (nw_hosts (all_checked N)) = fst ` set (nw_hosts N)"
    by (simp_all add: all_checked_def case_prod_beta image_image)
  have simps: "nw_router (all_checked N) = nw_router N" "topology (all_checked N) = topology N"
    "nw_connections (all_checked N) = nw_connections N" "nw_interface_ids (all_checked N) = nw_interface_ids N"
    by (simp_all add: all_checked_def topology_def)
  have seg: "seg_in (all_checked N) s = seg_in N s" for s using names simps by (simp add: seg_in_def)
  have m: "link_ok (members s (all_checked N)) \<and> ends (members s (all_checked N)) = ends (members s N) \<and>
      quiet (members s (all_checked N))" if s: "s \<in> set (topology N)" for s
  proof -
    have l: "link_ok (members s N)" "quiet (members s N)" "seg_in N s" using assms s by (simp_all add: idle_def net_wf_def)
    have at: "members s (all_checked N) ! q = (if q = 0 then members s N ! 0 else (members s N ! q)\<lparr>ai_datagrams_out := []\<rparr>)"
      if "q < length (members s N)" for q
    proof (cases q)
      case (Suc r)
      then have "r < length (snd s)" using that by (simp add: length_members)
      then have "snd s ! r \<in> fst ` set (nw_hosts N)" using l(3) by (auto simp: seg_in_def)
      then show ?thesis using Suc \<open>r < length (snd s)\<close> by (simp add: members_def host_at_checked checked_def)
    qed (simp add: members_def simps)
    have "learns (members s N) (members s N ! q) (members s (all_checked N) ! q)" if "q < length (members s N)" for q
      using at [OF that] learns_queue [OF link_ok_nth [OF l(1) that]] learns_refl [OF link_ok_nth [OF l(1) that]] by auto
    then have "link_ok (members s (all_checked N)) \<and> ends (members s (all_checked N)) = ends (members s N)"
      using link_ok_step [OF l(1), of "members s (all_checked N)"] by (simp add: length_members)
    moreover have "quiet (members s (all_checked N))"
      using l(2) at by (simp add: quiet_def link_state_def length_members)
    ultimately show ?thesis by simp
  qed
  have "\<forall>(n, h) \<in> set (nw_hosts (all_checked N)). ho_name h = n"
    using wf by (auto simp: net_wf_def all_checked_def checked_def)
  then have "net_wf (all_checked N)" using wf m seg names simps by (simp add: net_wf_def)
  then show "idle (all_checked N)" using assms m simps by (simp add: idle_def)
  have "map (\<lambda>(name, h). (name, ho_my_address h, ho_next_hop h)) (nw_hosts (all_checked N)) =
      map (\<lambda>(name, h). (name, ho_my_address h, ho_next_hop h)) (nw_hosts N)"
    by (auto simp: all_checked_def checked_def)
  then show "same_net N (all_checked N)" using m simps by (simp add: same_net_def)
qed

lemma copy_of_wire:
  assumes "copy_of d d'"
  shows "datagram_wire d' = datagram_wire d"
proof -
  obtain c where c: "id_header d' = (id_header d)\<lparr>ih_cksum := c\<rparr>" using assms by (auto simp: copy_of_def)
  have "ip_prefix (id_header d') = ip_prefix (id_header d)" "ip_suffix (id_header d') = ip_suffix (id_header d)"
    unfolding c by (simp_all add: ip_prefix_def ip_suffix_def ip_addresses_def IPv4Header_first_byte_def IPv4Header_fo_val_def)
  then show ?thesis using assms by (simp add: datagram_wire_def Let_def copy_of_def)
qed

lemma to_string_length: "n < 10 ^ k \<Longrightarrow> 0 < k \<Longrightarrow> length (to_string n) \<le> k"
proof (induction k arbitrary: n)
  case (Suc k)
  show ?case
  proof (cases "n < 10")
    case False
    then have "0 < k" "n div 10 < 10 ^ k" using Suc.prems(1) by (cases k; simp)+
    then show ?thesis using Suc.IH [of "n div 10"] False by (subst to_string.simps) simp
  qed (subst to_string.simps, simp)
qed simp

lemma Host_datagram_ok:
  "datagram_ok (Host_datagram src dst ttl rnd)" "ih_dst (id_header (Host_datagram src dst ttl rnd)) = dst"
  "ih_ttl (id_header (Host_datagram src dst ttl rnd)) = ttl" "ih_proto (id_header (Host_datagram src dst ttl rnd)) \<noteq> PROTO_ICMP"
proof -
  have "unat rnd < 10 ^ 10" by (rule less_trans [OF unat_lt32]) simp
  then have len: "length (to_string (unat rnd)) \<le> 10" by (rule to_string_length) simp
  then show "datagram_ok (Host_datagram src dst ttl rnd)"
    by (simp add: Host_datagram_def Let_def datagram_ok_def IPv4Datagram_default_def IPv4Header_default_def
        IPv4Header_LENGTH_def BufferList_size_eq BufferList_of_string_def BufferList_of_Buffer_def BufferList_append_def
        BufferList_concatenate_eq sz_def unsigned_ucast_eq unat_word_ariths unat_of_nat take_bit_nat_def)
  show "ih_dst (id_header (Host_datagram src dst ttl rnd)) = dst" "ih_ttl (id_header (Host_datagram src dst ttl rnd)) = ttl"
    "ih_proto (id_header (Host_datagram src dst ttl rnd)) \<noteq> PROTO_ICMP"
    by (simp_all add: Host_datagram_def Let_def IPv4Datagram_default_def IPv4Header_default_def PROTO_ICMP_def PROTO_TCP_def)
qed

section \<open>Tests\<close>

text \<open>Between two tests nothing is under way and no host has received or expects anything.\<close>

definition at_rest :: "Network \<Rightarrow> bool" where
  "at_rest N \<longleftrightarrow> idle N \<and> (\<forall>name \<in> fst ` set (nw_hosts N). host_queue N name = [] \<and> expected N name = [])"

definition uplink :: "Network \<Rightarrow> segment \<Rightarrow> string \<Rightarrow> bool" where
  "uplink N s from \<longleftrightarrow>
     s \<in> set (topology N) \<and> from \<in> set (snd s) \<and> \<not> isl (Address_ipv4_numeric (ho_my_address (host_at from N))) \<and>
     Address_ipv4_numeric (ho_next_hop (host_at from N)) =
       Address_ipv4_numeric (ni_ip_address (ro_interfaces (nw_router N) ! unat (fst s)))"

definition downlink :: "Network \<Rightarrow> u32 \<Rightarrow> segment \<Rightarrow> string \<Rightarrow> bool" where
  "downlink N dst s to \<longleftrightarrow>
     s \<in> set (topology N) \<and> to \<in> set (snd s) \<and>
     (case RoutingTrie_longest_prefix_match dst (ro_route_table (nw_router N)) of
        None \<Rightarrow> False
      | Some e \<Rightarrow> re_interface_num e = fst s \<and>
          Address_ipv4_numeric (next_hop_of e dst) = Address_ipv4_numeric (ni_ip_address (ho_interface (host_at to N))))"

lemma uplinkE:
  assumes "idle N" and "uplink N s from"
  obtains q src where "s \<in> set (topology N)" "q < length (snd s)" "from = snd s ! q" "from \<in> fst ` set (nw_hosts N)"
    "Address_ipv4_numeric (ho_my_address (host_at from N)) = Inr src"
    "Address_ipv4_numeric (ho_next_hop (host_at from N)) = Inr (ip_at (members s N ! 0))"
    "ho_interface (host_at from N) = members s N ! Suc q" "Network_host from N = Inr (host_at from N)"
    "\<And>a. put_host from ((host_at from N)\<lparr>ho_interface := a\<rparr>) N = put_members s ((members s N)[Suc q := a]) N"
proof -
  have s: "s \<in> set (topology N)" and "from \<in> set (snd s)" using assms(2) by (simp_all add: uplink_def)
  then obtain q where q: "q < length (snd s)" "from = snd s ! q" by (auto simp: in_set_conv_nth)
  have wf: "net_wf N" using assms(1) by (simp add: idle_def)
  then have seg: "seg_in N s" and l: "link_ok (members s N)" and d: "distinct (map fst (nw_hosts N))"
    "\<forall>(name, h) \<in> set (nw_hosts N). ho_name h = name"
    using s by (simp_all add: net_wf_def)
  have h: "from \<in> fst ` set (nw_hosts N)" using seg \<open>from \<in> set (snd s)\<close> by (auto simp: seg_in_def)
  obtain src where "Address_ipv4_numeric (ho_my_address (host_at from N)) = Inr src"
    using assms(2) by (cases "Address_ipv4_numeric (ho_my_address (host_at from N))") (simp_all add: uplink_def)
  moreover have "Address_ipv4_numeric (ho_next_hop (host_at from N)) = Inr (ip_at (members s N ! 0))"
    using assms(2) ip_at_eq [OF link_ok_nth [OF l, of 0]] by (simp add: uplink_def members_def)
  moreover have "ho_interface (host_at from N) = members s N ! Suc q" using q by (simp add: members_def)
  ultimately show thesis
    using that s q h Network_host_at(1) [OF d h] put_host_members [OF d(1) seg q(1)] by blast
qed

lemma downlinkE:
  assumes "idle N" and "downlink N dst s to"
  obtains q e where "s \<in> set (topology N)" "q < length (snd s)" "to = snd s ! q" "to \<in> fst ` set (nw_hosts N)"
    "RoutingTrie_longest_prefix_match dst (ro_route_table (nw_router N)) = Some e" "re_interface_num e = fst s"
    "Address_ipv4_numeric (next_hop_of e dst) = Inr (ip_at (members s N ! Suc q))"
proof -
  have s: "s \<in> set (topology N)" and "to \<in> set (snd s)" using assms(2) by (simp_all add: downlink_def)
  then obtain q where q: "q < length (snd s)" "to = snd s ! q" by (auto simp: in_set_conv_nth)
  have seg: "seg_in N s" and l: "link_ok (members s N)" using assms(1) s by (simp_all add: idle_def net_wf_def)
  have h: "to \<in> fst ` set (nw_hosts N)" using seg \<open>to \<in> set (snd s)\<close> by (auto simp: seg_in_def)
  obtain e where e: "RoutingTrie_longest_prefix_match dst (ro_route_table (nw_router N)) = Some e" "re_interface_num e = fst s"
    "Address_ipv4_numeric (next_hop_of e dst) = Address_ipv4_numeric (ni_ip_address (ho_interface (host_at to N)))"
    using assms(2) by (auto simp: downlink_def split: option.splits)
  have "Address_ipv4_numeric (next_hop_of e dst) = Inr (ip_at (members s N ! Suc q))"
    using e(3) q ip_at_eq [OF link_ok_nth [OF l, of "Suc q"]] by (simp add: length_members) (simp add: members_def)
  then show thesis using that s q h e(1,2) by blast
qed

lemma simulate_ok:
  assumes run: "simulate_rounds 256 N = Inr N'" and N': "idle N'"
    and q: "\<forall>name \<in> fst ` set (nw_hosts N'). list_all datagram_ok (host_queue N' name) \<and> list_all datagram_ok (expected N' name) \<and>
      map datagram_wire (host_queue N' name) = map datagram_wire (expected N' name)"
  shows "Network_simulate N = Inr (all_checked N') \<and> at_rest (all_checked N') \<and> same_net N' (all_checked N')"
proof -
  have d: "distinct (map fst (nw_hosts N'))" using N' by (simp add: idle_def net_wf_def)
  have "Host_check h = Inr (checked h)" if "(name, h) \<in> set (nw_hosts N')" for name h
  proof -
    have "host_at name N' = h" using that d by (simp add: host_at_def)
    then have "list_all datagram_ok (ai_datagrams_out (ho_interface h))" "list_all datagram_ok (ho_expecting_to_receive h)"
      "map datagram_wire (ai_datagrams_out (ho_interface h)) = map datagram_wire (ho_expecting_to_receive h)"
      using q that by (force simp: host_queue_def expected_def)+
    then show ?thesis using Host_check_eq [of h] by (metis checked_def)
  qed
  then have "check_hosts (nw_hosts N') = Inr (map (\<lambda>(name, h). (name, checked h)) (nw_hosts N'))"
    by (intro check_hosts_ok) auto
  then have "Network_simulate N = Inr (all_checked N')" using run by (simp add: Network_simulate_def all_checked_def)
  moreover have "host_queue (all_checked N') name = [] \<and> expected (all_checked N') name = []"
    if "name \<in> fst ` set (nw_hosts (all_checked N'))" for name
  proof -
    have "name \<in> fst ` set (nw_hosts N')" using that by (simp add: all_checked_def image_image case_prod_beta)
    from host_at_checked [OF this] show ?thesis by (simp add: host_queue_def expected_def checked_def)
  qed
  ultimately show ?thesis using idle_checked [OF N'] by (simp add: at_rest_def)
qed

lemma same_net_hosts: "same_net N N' \<Longrightarrow> fst ` set (nw_hosts N') = fst ` set (nw_hosts N)"
proof -
  assume "same_net N N'"
  then have "map fst (map (\<lambda>(name, h). (name, ho_my_address h, ho_next_hop h)) (nw_hosts N')) =
      map fst (map (\<lambda>(name, h). (name, ho_my_address h, ho_next_hop h)) (nw_hosts N))"
    by (simp only: same_net_def)
  then have "map fst (nw_hosts N') = map fst (nw_hosts N)" by (simp add: comp_def case_prod_beta)
  then show ?thesis by (metis list.set_map)
qed

lemma expected_expect:
  "name \<in> fst ` set (nw_hosts N) \<Longrightarrow> expected (set_expect to ds N) name = (if name = to then ds else expected N name)"
  "name \<in> fst ` set (nw_hosts N) \<Longrightarrow> host_queue (set_expect to ds N) name = host_queue N name"
  by (simp_all add: expected_def host_queue_def host_at_expect)

lemma set_expect_same:
  assumes "distinct (map fst (nw_hosts N))" and "expected N name = ds"
  shows "set_expect name ds N = N"
proof -
  have "h\<lparr>ho_expecting_to_receive := ds\<rparr> = h" if "(name, h) \<in> set (nw_hosts N)" for h
    using that assms by (auto simp: expected_def host_at_def)
  then have "map (\<lambda>(n, h). (n, if n = name then h\<lparr>ho_expecting_to_receive := ds\<rparr> else h)) (nw_hosts N) = nw_hosts N"
    by (intro map_idI) auto
  then show ?thesis by (simp add: set_expect_def)
qed

lemma expect_after_send:
  assumes "net_wf N" and "to \<in> fst ` set (nw_hosts N)"
  shows "Network_expect to x (put_members s ms N) = Inr (set_expect to (expected N to @ [x]) (put_members s ms N))"
proof -
  let ?N = "put_members s ms N"
  have d: "distinct (map fst (nw_hosts ?N))" using assms(1) by (simp add: net_wf_def)
  have n: "\<forall>(name, h) \<in> set (nw_hosts ?N). ho_name h = name"
    using assms(1) by (auto simp: net_wf_def put_members_def split: option.splits)
  show ?thesis
    using Network_host_at(1) [OF d n, of to] assms(2) expected_put [OF assms(2), of s ms] put_host_expect [OF d, of to]
    by (simp add: Network_expect_def Host_expect_def expected_def)
qed

text \<open>A host sends; whatever the receiver expects, 256 rounds bring a copy to it and to nobody else.\<close>

lemma sent_runs:
  assumes idle: "idle N" and up: "uplink N s from" and down: "downlink N dst s' to"
    and dst: "Address_ipv4_numeric destination = Inr dst" and ttl: "1 < ttl"
  shows "\<exists>N1 d. Network_send_from from destination ttl rnd N = Inr (N1, d) \<and> datagram_ok d \<and>
    to \<in> fst ` set (nw_hosts N) \<and> map fst (nw_hosts N1) = map fst (nw_hosts N) \<and> expected N1 to = expected N to \<and> (\<forall>x. Network_expect to x N1 = Inr (set_expect to (expected N to @ [x]) N1)) \<and>
    (\<forall>ds. \<exists>N' d'. simulate_rounds 256 (set_expect to ds N1) = Inr N' \<and> idle N' \<and> same_net N N' \<and> copy_of (one_hop d) d' \<and>
      (\<forall>name \<in> fst ` set (nw_hosts N). expected N' name = (if name = to then ds else expected N name) \<and>
        host_queue N' name = (if name = to then host_queue N name @ [d'] else host_queue N name)))"
proof -
  obtain q src where u: "s \<in> set (topology N)" "q < length (snd s)" "from = snd s ! q" "from \<in> fst ` set (nw_hosts N)"
    "Address_ipv4_numeric (ho_my_address (host_at from N)) = Inr src"
    "Address_ipv4_numeric (ho_next_hop (host_at from N)) = Inr (ip_at (members s N ! 0))"
    "ho_interface (host_at from N) = members s N ! Suc q" "Network_host from N = Inr (host_at from N)"
    "\<And>a. put_host from ((host_at from N)\<lparr>ho_interface := a\<rparr>) N = put_members s ((members s N)[Suc q := a]) N"
    using uplinkE [OF idle up] by blast
  obtain q' e where w: "s' \<in> set (topology N)" "q' < length (snd s')" "to = snd s' ! q'" "to \<in> fst ` set (nw_hosts N)"
    "RoutingTrie_longest_prefix_match dst (ro_route_table (nw_router N)) = Some e" "re_interface_num e = fst s'"
    "Address_ipv4_numeric (next_hop_of e dst) = Inr (ip_at (members s' N ! Suc q'))"
    using downlinkE [OF idle down] by blast
  let ?d = "Host_datagram src dst ttl rnd" and ?hop = "ho_next_hop (host_at from N)"
  have d: "datagram_ok ?d" "ih_proto (id_header ?d) \<noteq> PROTO_ICMP" "1 < ih_ttl (id_header ?d)" "ih_dst (id_header ?d) = dst"
    using ttl by (simp_all add: Host_datagram_ok)
  have seg: "seg_in N s" "seg_in N s'" and wf: "net_wf N" using idle u(1) w(1) by (simp_all add: idle_def net_wf_def)
  note m = members_expect [OF seg(1), of to] members_expect [OF seg(2), of to]
  have X: "s \<in> set (topology (set_expect to ds N))" "s' \<in> set (topology (set_expect to ds N))"
    "Address_ipv4_numeric ?hop = Inr (ip_at (members s (set_expect to ds N) ! 0))"
    "RoutingTrie_longest_prefix_match (ih_dst (id_header ?d)) (ro_route_table (nw_router (set_expect to ds N))) = Some e"
    "Address_ipv4_numeric (next_hop_of e (ih_dst (id_header ?d))) = Inr (ip_at (members s' (set_expect to ds N) ! Suc q'))" for ds
    using u(1,6) w(1,5,7) d(4) m by simp_all
  note run = run_delivers [OF idle_expect(1) [OF idle] X(1) u(2) X(2) w(2) d(1-3) X(3,4) w(6) X(5),
    unfolded m w(3) [symmetric] set_expect_simps]
  obtain a where a: "NetworkInterface_send_datagram ?d ?hop (members s N ! Suc q) = Inr a" using run by blast
  let ?N1 = "put_members s ((members s N)[Suc q := a]) N"
  have send: "Network_send_from from destination ttl rnd N = Inr (?N1, ?d)"
    using u(5,7-9) a dst by (simp add: Network_send_from_def Host_send_to_def Let_def)
  have "Network_expect to x ?N1 = Inr (set_expect to (expected N to @ [x]) ?N1)" for x
    by (rule expect_after_send [OF wf w(4)])
  moreover have "\<exists>N' d'. simulate_rounds 256 (set_expect to ds ?N1) = Inr N' \<and> idle N' \<and> same_net N N' \<and> copy_of (one_hop ?d) d' \<and>
      (\<forall>name \<in> fst ` set (nw_hosts N). expected N' name = (if name = to then ds else expected N name) \<and>
        host_queue N' name = (if name = to then host_queue N name @ [d'] else host_queue N name))" for ds
  proof -
    obtain N' d' where "simulate_rounds 256 (set_expect to ds ?N1) = Inr N'" "idle N'" "same_net (set_expect to ds N) N'"
      "copy_of (one_hop ?d) d'" "\<forall>name \<in> fst ` set (nw_hosts N). expected N' name = expected (set_expect to ds N) name \<and>
        host_queue N' name = (if name = to then host_queue (set_expect to ds N) name @ [d'] else host_queue (set_expect to ds N) name)"
      using run [of ds] a unfolding set_expect_put by auto
    then show ?thesis
      using same_net_trans [OF idle_expect(2) [OF idle]] expected_expect expected_expect(2) [OF w(4)] by (intro exI [of _ N'] exI [of _ d']) simp
  qed
  moreover have "map fst (nw_hosts ?N1) = map fst (nw_hosts N)" "expected ?N1 to = expected N to"
    using expected_put [OF w(4)] by simp_all
  ultimately show ?thesis using send d(1) w(4) by blast
qed

lemma delivery_test_ok:
  assumes N: "at_rest N" and up: "uplink N s from" and down: "downlink N dst s' to"
    and dst: "Address_ipv4_numeric destination = Inr dst"
  shows "\<exists>N'. delivery_test from destination to rnd N = Inr N' \<and> at_rest N' \<and> same_net N N'"
proof -
  have idle: "idle N" and e0: "\<And>name. name \<in> fst ` set (nw_hosts N) \<Longrightarrow> host_queue N name = [] \<and> expected N name = []"
    using N unfolding at_rest_def by blast+
  have ttl: "1 < (64 :: u8)" by simp
  obtain N1 d where send: "Network_send_from from destination 64 rnd N = Inr (N1, d)" and d: "datagram_ok d"
    and to: "to \<in> fst ` set (nw_hosts N)" and x: "Network_expect to (one_hop d) N1 = Inr (set_expect to (expected N to @ [one_hop d]) N1)"
    and runs: "\<forall>ds. \<exists>N' d'. simulate_rounds 256 (set_expect to ds N1) = Inr N' \<and> idle N' \<and> same_net N N' \<and>
      copy_of (one_hop d) d' \<and> (\<forall>name \<in> fst ` set (nw_hosts N). expected N' name = (if name = to then ds else expected N name) \<and>
        host_queue N' name = (if name = to then host_queue N name @ [d'] else host_queue N name))"
    using sent_runs [OF idle up down dst ttl] by blast
  let ?x = "one_hop d"
  obtain N' d' where r: "simulate_rounds 256 (set_expect to [?x] N1) = Inr N'" "idle N'" "same_net N N'" "copy_of ?x d'"
    "\<forall>name \<in> fst ` set (nw_hosts N). expected N' name = (if name = to then [?x] else expected N name) \<and>
       host_queue N' name = (if name = to then host_queue N name @ [d'] else host_queue N name)"
    using runs by blast
  have "list_all datagram_ok (host_queue N' name) \<and> list_all datagram_ok (expected N' name) \<and>
      map datagram_wire (host_queue N' name) = map datagram_wire (expected N' name)" if "name \<in> fst ` set (nw_hosts N)" for name
    using bspec [OF r(5) that] e0 [OF that] e0 [OF to] copy_of_wire [OF r(4)] r(4) d by (simp add: copy_of_def one_hop_def)
  then have "Network_simulate (set_expect to [?x] N1) = Inr (all_checked N') \<and>
      at_rest (all_checked N') \<and> same_net N' (all_checked N')"
    using simulate_ok [OF r(1,2)] same_net_hosts [OF r(3)] by simp
  then show ?thesis using send x e0 [OF to] same_net_trans [OF r(3)] by (auto simp: delivery_test_def)
qed

lemma expiry_test_ok:
  assumes N: "at_rest N" and up: "uplink N s from" and dst: "Address_ipv4_numeric destination = Inr dst"
    and ttl: "ttl \<le> 1" and icmp: "\<not> ro_icmp_enabled (nw_router N)"
  shows "\<exists>N'. expiry_test from destination ttl rnd N = Inr N' \<and> at_rest N' \<and> same_net N N'"
proof -
  have idle: "idle N" and e0: "\<And>name. name \<in> fst ` set (nw_hosts N) \<Longrightarrow> host_queue N name = [] \<and> expected N name = []"
    using N unfolding at_rest_def by blast+
  obtain q src where u: "s \<in> set (topology N)" "q < length (snd s)"
    "Address_ipv4_numeric (ho_my_address (host_at from N)) = Inr src"
    "Address_ipv4_numeric (ho_next_hop (host_at from N)) = Inr (ip_at (members s N ! 0))"
    "ho_interface (host_at from N) = members s N ! Suc q" "Network_host from N = Inr (host_at from N)"
    "\<And>a. put_host from ((host_at from N)\<lparr>ho_interface := a\<rparr>) N = put_members s ((members s N)[Suc q := a]) N"
    using uplinkE [OF idle up] by blast
  let ?d = "Host_datagram src dst ttl rnd"
  have d: "datagram_ok ?d" "ih_proto (id_header ?d) \<noteq> PROTO_ICMP" "ih_ttl (id_header ?d) \<le> 1"
    using ttl by (simp_all add: Host_datagram_ok)
  obtain a N' where r: "NetworkInterface_send_datagram ?d (ho_next_hop (host_at from N)) (members s N ! Suc q) = Inr a"
    "simulate_rounds 256 (put_members s ((members s N)[Suc q := a]) N) = Inr N'" "idle N'" "same_net N N'"
    "\<forall>name \<in> fst ` set (nw_hosts N). expected N' name = expected N name \<and> host_queue N' name = host_queue N name"
    using run_expires [OF idle u(1,2) d icmp u(4)] by blast
  have "Network_send_from from destination ttl rnd N = Inr (put_members s ((members s N)[Suc q := a]) N, ?d)"
    using u(3,5-7) r(1) dst by (simp add: Network_send_from_def Host_send_to_def Let_def)
  moreover have "list_all datagram_ok (host_queue N' name) \<and> list_all datagram_ok (expected N' name) \<and>
      map datagram_wire (host_queue N' name) = map datagram_wire (expected N' name)" if "name \<in> fst ` set (nw_hosts N)" for name
    using bspec [OF r(5) that] e0 [OF that] by simp
  then have "Network_simulate (put_members s ((members s N)[Suc q := a]) N) = Inr (all_checked N') \<and>
      at_rest (all_checked N') \<and> same_net N' (all_checked N')"
    using simulate_ok [OF r(2,3)] same_net_hosts [OF r(4)] by simp
  ultimately show ?thesis using same_net_trans [OF r(4)] by (auto simp: expiry_test_def)
qed

text \<open>A datagram that reaches a host which expects nothing makes the check throw.\<close>

lemma simulate_unexpected:
  assumes N: "at_rest N" and up: "uplink N s from" and down: "downlink N dst s' to"
    and dst: "Address_ipv4_numeric destination = Inr dst" and ttl: "1 < ttl"
  shows "\<exists>N1 d msg. Network_send_from from destination ttl rnd N = Inr (N1, d) \<and>
    map fst (nw_hosts N1) = map fst (nw_hosts N) \<and> Network_simulate N1 = Inl (Runtime_error msg)"
proof -
  have idle: "idle N" and e0: "\<And>name. name \<in> fst ` set (nw_hosts N) \<Longrightarrow> host_queue N name = [] \<and> expected N name = []"
    using N unfolding at_rest_def by blast+
  obtain N1 d where send: "Network_send_from from destination ttl rnd N = Inr (N1, d)"
    and to: "to \<in> fst ` set (nw_hosts N)" and N1: "map fst (nw_hosts N1) = map fst (nw_hosts N)" "expected N1 to = expected N to"
    and runs: "\<forall>ds. \<exists>N' d'. simulate_rounds 256 (set_expect to ds N1) = Inr N' \<and> idle N' \<and> same_net N N' \<and>
      copy_of (one_hop d) d' \<and> (\<forall>name \<in> fst ` set (nw_hosts N). expected N' name = (if name = to then ds else expected N name) \<and>
        host_queue N' name = (if name = to then host_queue N name @ [d'] else host_queue N name))"
    using sent_runs [OF idle up down dst ttl] by blast
  have "set_expect to [] N1 = N1"
    using N1 e0 [OF to] idle by (intro set_expect_same) (simp_all add: idle_def net_wf_def)
  then obtain N' d' where r: "simulate_rounds 256 N1 = Inr N'" "idle N'" "same_net N N'" "copy_of (one_hop d) d'"
    "\<forall>name \<in> fst ` set (nw_hosts N). expected N' name = (if name = to then [] else expected N name) \<and>
       host_queue N' name = (if name = to then host_queue N name @ [d'] else host_queue N name)"
    using runs by metis
  have names: "fst ` set (nw_hosts N') = fst ` set (nw_hosts N)" by (rule same_net_hosts [OF r(3)])
  have dist: "distinct (map fst (nw_hosts N'))" using r(2) by (simp add: idle_def net_wf_def)
  have ok: "datagram_ok d'" using r(4) by (simp add: copy_of_def)
  have check: "if name = to then \<exists>msg. Host_check h = Inl (Runtime_error msg) else Host_check h = Inr (checked h)"
    if "(name, h) \<in> set (nw_hosts N')" for name h
  proof -
    have n: "name \<in> fst ` set (nw_hosts N)" using that names by force
    have "host_at name N' = h" using that dist by (simp add: host_at_def)
    then have "ai_datagrams_out (ho_interface h) = (if name = to then [d'] else [])" "ho_expecting_to_receive h = []"
      using bspec [OF r(5) n] e0 [OF n] by (auto simp: expected_def host_queue_def)
    then show ?thesis using Host_check_eq [of h] ok by (simp add: checked_def split: if_splits)
  qed
  obtain h where h: "(to, h) \<in> set (nw_hosts N')" using to names by force
  obtain e where e: "Host_check h = Inl e" using check [OF h] by auto
  have "Host_check g = Inr (checked g) \<or> (\<exists>msg. Host_check g = Inl (Runtime_error msg))" if "(name, g) \<in> set (nw_hosts N')" for name g
    using check [OF that] by (simp split: if_splits)
  then have "\<forall>(name, h) \<in> set (nw_hosts N'). Host_check h = Inr (checked h) \<or> (\<exists>msg. Host_check h = Inl (Runtime_error msg))"
    by auto
  from check_hosts_fails [OF this h e] obtain msg where "check_hosts (nw_hosts N') = Inl (Runtime_error msg)" by blast
  then show ?thesis using send N1(1) r(1) by (auto simp: Network_simulate_def)
qed

end
