(* ===== verification/SimulatorTests.thy ===== *)
theory SimulatorTests
  imports SimulatorRuns
begin

text \<open>
  The tests of \<^verbatim>\<open>apps/network_simulator.cc\<close>: the built-in network is in order, and every test of
  \<^verbatim>\<open>network_simulator\<close> passes on it, whatever the random numbers. A test of a script fails when it
  sends to an address that belongs to no host.
\<close>

section \<open>The built-in network\<close>

definition resolves :: "libc \<Rightarrow> string \<Rightarrow> u32 \<Rightarrow> bool" where
  "resolves L s ip \<longleftrightarrow>
     first_result (lc_getaddrinfo L s ''0'' (make_hints AI_NUMERIC INET)) (take 16 (ad_storage (ipv4_address ip)), 16)"

definition simulator_addresses :: "(string \<times> u32) list" where
  "simulator_addresses =
     [(''171.67.76.46'', 0xAB434C2E), (''10.0.0.1'', 0x0A000001), (''172.16.0.1'', 0xAC100001),
      (''192.168.0.1'', 0xC0A80001), (''198.178.229.1'', 0xC6B2E501), (''143.195.0.2'', 0x8FC30002),
      (''128.30.76.255'', 0x801E4CFF), (''10.0.0.2'', 0x0A000002), (''171.67.76.1'', 0xAB434C01), (''0'', 0),
      (''192.168.0.2'', 0xC0A80002), (''143.195.0.1'', 0x8FC30001), (''198.178.229.42'', 0xC6B2E52A),
      (''198.178.229.43'', 0xC6B2E52B), (''0.0.0.0'', 0), (''10.0.0.0'', 0x0A000000), (''172.16.0.0'', 0xAC100000),
      (''192.168.0.0'', 0xC0A80000), (''198.178.229.0'', 0xC6B2E500), (''143.195.0.0'', 0x8FC30000),
      (''143.195.128.0'', 0x8FC38000), (''143.195.192.0'', 0x8FC3C000), (''128.30.0.1'', 0x801E0001),
      (''1.2.3.4'', 0x01020304), (''143.195.131.17'', 0x8FC38311), (''143.195.193.52'', 0x8FC3C134),
      (''143.195.223.255'', 0x8FC3DFFF), (''143.195.224.0'', 0x8FC3E000)]"

definition resolves_all :: "libc \<Rightarrow> bool" where
  "resolves_all L \<longleftrightarrow> list_all (\<lambda>(s, ip). resolves L s ip) simulator_addresses"

lemma to_string_0: "to_string 0 = ''0''"
  by code_simp

lemma resolves_address: "resolves L s ip \<Longrightarrow> Address_of_ip_port L s 0 = Inr (ipv4_address ip)"
proof -
  assume a: "resolves L s ip"
  have "Address_of_sockaddr (take 16 (ad_storage (ipv4_address ip))) 16 = Inr (ipv4_address ip)"
    by (simp add: Address_of_sockaddr_def ipv4_address_def sockaddr_storage_size_def replicate_add [symmetric])
  with a show ?thesis
    unfolding resolves_def by (elim first_resultE) (simp add: Address_of_ip_port_def Address_resolve_def to_string_0)
qed

definition sim_port :: "(nat \<Rightarrow> u32) \<Rightarrow> nat \<Rightarrow> u32 \<Rightarrow> AsyncNetworkInterface" where
  "sim_port rd pos ip =
     AsyncNetworkInterface_new (NetworkInterface_new (random_router_ethernet_address rd pos) (ipv4_address ip))"

definition sim_host :: "(nat \<Rightarrow> u32) \<Rightarrow> nat \<Rightarrow> string \<Rightarrow> u32 \<Rightarrow> u32 \<Rightarrow> string \<times> Host" where
  "sim_host rd pos name ip hop = (name, Host_new rd pos name (ipv4_address ip) (ipv4_address hop))"

definition sim_route :: "u32 \<Rightarrow> u8 \<Rightarrow> u32 option \<Rightarrow> size_t \<Rightarrow> RouteEntry" where
  "sim_route p len hop i =
     \<lparr>re_route_prefix = p, re_prefix_length = len, re_next_hop = map_option ipv4_address hop, re_interface_num = i\<rparr>"

definition sim_routes :: "RouteEntry list" where
  "sim_routes =
     [sim_route 0 0 (Some 0xAB434C01) 0, sim_route 0x0A000000 8 None 1, sim_route 0xAC100000 16 None 2,
      sim_route 0xC0A80000 24 None 3, sim_route 0xC6B2E500 24 None 4, sim_route 0x8FC30000 17 (Some 0x8FC30001) 5,
      sim_route 0x8FC38000 18 (Some 0x8FC30001) 5, sim_route 0x8FC3C000 19 (Some 0x8FC30001) 5,
      sim_route 0x801E4CFF 16 (Some 0x801E0001) 6]"

definition sim_network :: "(nat \<Rightarrow> u32) \<Rightarrow> TrieNode \<Rightarrow> Network" where
  "sim_network rd t =
     \<lparr>nw_router = \<lparr>ro_interfaces =
        [sim_port rd 0 0xAB434C2E, sim_port rd 6 0x0A000001, sim_port rd 12 0xAC100001, sim_port rd 18 0xC0A80001,
         sim_port rd 24 0xC6B2E501, sim_port rd 30 0x8FC30002, sim_port rd 36 0x801E4CFF],
        ro_route_table = t, ro_icmp_enabled = False\<rparr>,
      nw_default_id = 0, nw_eth0_id = 1, nw_eth1_id = 2, nw_eth2_id = 3, nw_uun3_id = 4, nw_hs4_id = 5, nw_mit5_id = 6,
      nw_interface_ids = Map.empty, nw_connections = [],
      nw_hosts =
        [sim_host rd 42 ''applesauce'' 0x0A000002 0x0A000001, sim_host rd 48 ''default_router'' 0xAB434C01 0,
         sim_host rd 54 ''cherrypie'' 0xC0A80002 0xC0A80001, sim_host rd 60 ''hs_router'' 0x8FC30001 0,
         sim_host rd 66 ''dm42'' 0xC6B2E52A 0xC6B2E501, sim_host rd 72 ''dm43'' 0xC6B2E52B 0xC6B2E501]\<rparr>"

definition with_table :: "TrieNode \<Rightarrow> Network \<Rightarrow> Network" where
  "with_table t N = N\<lparr>nw_router := (nw_router N)\<lparr>ro_route_table := t\<rparr>\<rparr>"

lemma hop_address_table [simp]: "hop_address L h (with_table t N) = hop_address L h N"
  by (simp add: hop_address_def Network_host_def with_table_def split: hop.split)

lemma add_routes_eq:
  assumes "list_all2 (\<lambda>(s, len, h, i) e. ip_of L s = Inr (re_route_prefix e) \<and> len = re_prefix_length e \<and>
    hop_address L h N = Inr (re_next_hop e) \<and> i = re_interface_num e) specs es"
    and "insert_all es (ro_route_table (nw_router N)) = Inr t"
  shows "add_routes L specs N = Inr (with_table t N)"
  using assms
proof (induction specs arbitrary: es N)
  case Nil
  then show ?case by (simp add: with_table_def)
next
  case (Cons spec specs)
  obtain s len h i where spec: "spec = (s, len, h, i)" by (cases spec)
  then obtain e es' where es: "es = e # es'" and e: "ip_of L s = Inr (re_route_prefix e)" "len = re_prefix_length e"
    "hop_address L h N = Inr (re_next_hop e)" "i = re_interface_num e"
    and rest: "list_all2 (\<lambda>(s, len, h, i) e. ip_of L s = Inr (re_route_prefix e) \<and> len = re_prefix_length e \<and>
      hop_address L h N = Inr (re_next_hop e) \<and> i = re_interface_num e) specs es'"
    using Cons.prems(1) by (auto simp: list_all2_Cons1)
  obtain t1 where t1: "RoutingTrie_insert e (ro_route_table (nw_router N)) = Inr t1" "insert_all es' t1 = Inr t"
    using Cons.prems(2) es by (auto simp: bind_res_Inr_iff)
  have "Network_add_route (re_route_prefix e) (re_prefix_length e) (re_next_hop e) (re_interface_num e) N = Inr (with_table t1 N)"
    using t1(1) by (cases e) (simp add: Network_add_route_def Router_add_route_def with_table_def)
  moreover have "add_routes L specs (with_table t1 N) = Inr (with_table t (with_table t1 N))"
    by (rule Cons.IH [of _ es']) (use rest t1(2) in \<open>simp_all add: with_table_def [of t1, THEN arg_cong [of _ _ nw_router]]\<close>)
  ultimately show ?case using spec e by (simp add: with_table_def)
qed

lemma sim_routes_scan:
  "\<exists>t. insert_all sim_routes TrieNode_new = Inr t \<and>
    (\<forall>dst. RoutingTrie_longest_prefix_match dst t = scan_routes sim_routes dst)"
proof -
  have "list_all (\<lambda>e. re_prefix_length e \<le> 32) sim_routes" by (simp add: sim_routes_def sim_route_def)
  from insert_all_scan [OF trie_ok_new this] show ?thesis by (auto simp: scan_routes_def match_new)
qed

lemma Network_new_eq:
  assumes L: "resolves_all L" and t: "insert_all sim_routes TrieNode_new = Inr t"
  shows "Network_new L rd = Inr (sim_network rd t)"
proof -
  let ?N = "sim_network rd TrieNode_new"
  have a: "\<forall>(s, ip) \<in> set simulator_addresses. Address_of_ip_port L s 0 = Inr (ipv4_address ip)"
    using L resolves_address by (auto simp: resolves_all_def list_all_iff)
  note ad = a [unfolded simulator_addresses_def, simplified]
  have ports: "add_router_interfaces L rd 0
      [''171.67.76.46'', ''10.0.0.1'', ''172.16.0.1'', ''192.168.0.1'', ''198.178.229.1'', ''143.195.0.2'',
       ''128.30.76.255''] Router_new = Inr (nw_router ?N, [0, 1, 2, 3, 4, 5, 6])"
    by (simp add: ad Router_add_interface_def Router_new_def sim_network_def sim_port_def sz_def)
  have hosts: "add_hosts L rd 42
       [(''applesauce'', ''10.0.0.2'', ''10.0.0.1''), (''default_router'', ''171.67.76.1'', ''0''),
        (''cherrypie'', ''192.168.0.2'', ''192.168.0.1''), (''hs_router'', ''143.195.0.1'', ''0''),
        (''dm42'', ''198.178.229.42'', ''198.178.229.1''), (''dm43'', ''198.178.229.43'', ''198.178.229.1'')]
       (?N\<lparr>nw_hosts := []\<rparr>) = Inr ?N"
    by (simp add: ad emplace_host_def host_exists_def sim_network_def sim_host_def)
  have host: "Network_host ''default_router'' ?N = Inr (snd (sim_host rd 48 ''default_router'' 0xAB434C01 0))"
    "Network_host ''hs_router'' ?N = Inr (snd (sim_host rd 60 ''hs_router'' 0x8FC30001 0))"
    by (simp_all add: Network_host_def sim_network_def sim_host_def Host_new_def)
  have routes: "add_routes L
       [(''0.0.0.0'', 0, Via_host ''default_router'', 0), (''10.0.0.0'', 8, Direct, 1), (''172.16.0.0'', 16, Direct, 2),
        (''192.168.0.0'', 24, Direct, 3), (''198.178.229.0'', 24, Direct, 4), (''143.195.0.0'', 17, Via_host ''hs_router'', 5),
        (''143.195.128.0'', 18, Via_host ''hs_router'', 5), (''143.195.192.0'', 19, Via_host ''hs_router'', 5),
        (''128.30.76.255'', 16, Via_address ''128.30.0.1'', 6)] ?N = Inr (with_table t ?N)"
    by (rule add_routes_eq [where es = sim_routes])
      (simp_all add: t sim_routes_def sim_route_def ip_of_def ad hop_address_def host sim_host_def Host_new_def,
       simp add: sim_network_def t [unfolded sim_routes_def sim_route_def, simplified])
  show ?thesis
    using ports hosts routes
    by (simp add: Network_new_def Network_empty_def sim_network_def with_table_def Let_def)
qed

lemma random_addresses:
  "eth_ok (random_router_ethernet_address rd pos)" "random_router_ethernet_address rd pos \<noteq> ETHERNET_BROADCAST"
  "eth_ok (random_host_ethernet_address rd pos)" "random_host_ethernet_address rd pos \<noteq> ETHERNET_BROADCAST"
proof -
  show "eth_ok (random_router_ethernet_address rd pos)" "random_router_ethernet_address rd pos \<noteq> ETHERNET_BROADCAST"
    by (simp_all add: random_router_ethernet_address_def random_bytes_def ETHERNET_BROADCAST_def upt_rec)
  have "\<not> bit (x AND 0xfe :: byte) 0" for x by (simp add: bit_simps)
  moreover have "bit (0xff :: byte) 0" by simp
  ultimately have "(x AND 0xfe :: byte) \<noteq> 0xff" for x by metis
  then show "eth_ok (random_host_ethernet_address rd pos)" "random_host_ethernet_address rd pos \<noteq> ETHERNET_BROADCAST"
    by (simp_all add: random_host_ethernet_address_def random_bytes_def ETHERNET_BROADCAST_def Let_def upt_rec)
qed

definition fresh_port :: "EthernetAddress \<Rightarrow> u32 \<Rightarrow> AsyncNetworkInterface" where
  "fresh_port eth ip = AsyncNetworkInterface_new (NetworkInterface_new eth (ipv4_address ip))"

lemma fresh_port_simps:
  "ni_ethernet_address (fresh_port eth ip) = eth" "ni_ip_address (fresh_port eth ip) = ipv4_address ip"
  "ip_at (fresh_port eth ip) = ip" "ni_frames_out (fresh_port eth ip) = []" "ni_arp_table (fresh_port eth ip) = Map.empty"
  "ni_waiting_arp_response_ip_addr (fresh_port eth ip) = Map.empty"
  "ni_waiting_internet_datagrams (fresh_port eth ip) = Map.empty" "ai_datagrams_out (fresh_port eth ip) = []"
  by (simp_all add: fresh_port_def AsyncNetworkInterface_new_def NetworkInterface_new_def ip_at_def)

lemma fresh_link:
  assumes "length eths = length ips" and "length ips = 2 \<or> length ips = 3" and "distinct ips"
    and "length ips = 3 \<longrightarrow> distinct eths" and "\<forall>eth \<in> set eths. eth_ok eth \<and> eth \<noteq> ETHERNET_BROADCAST"
  shows "link_ok (map2 fresh_port eths ips)" "quiet (map2 fresh_port eths ips)"
proof -
  have m: "map ip_at (map2 fresh_port eths ips) = ips" "map ni_ethernet_address (map2 fresh_port eths ips) = eths"
    using assms(1) by (simp_all add: fresh_port_simps comp_def case_prod_beta)
  have "iface_inv a \<and> ni_ethernet_address a \<noteq> ETHERNET_BROADCAST \<and> ni_arp_table a = Map.empty \<and>
      ni_waiting_arp_response_ip_addr a = Map.empty"
    if mem: "a \<in> set (map2 fresh_port eths ips)" for a
  proof -
    obtain eth ip where a: "a = fresh_port eth ip" "eth \<in> set eths" using mem by (auto dest: set_zip_leftD)
    then have "eth_ok eth" "eth \<noteq> ETHERNET_BROADCAST" using assms(5) by auto
    then show ?thesis using async_new_inv a(1) by (simp add: fresh_port_simps) (simp add: fresh_port_def)
  qed
  then show "link_ok (map2 fresh_port eths ips)" using assms m by (simp add: link_ok_def knows_def)
  show "quiet (map2 fresh_port eths ips)" by (simp add: quiet_def link_state_def fresh_port_simps)
qed

lemma sim_topology: "topology (sim_network rd t) =
    [(0, [''default_router'']), (1, [''applesauce'']), (3, [''cherrypie'']), (5, [''hs_router'']), (4, [''dm42'', ''dm43''])]"
  by (simp add: topology_def sim_network_def)

lemma sim_ports: "sim_port rd pos ip = fresh_port (random_router_ethernet_address rd pos) ip"
  "ho_interface (Host_new rd pos name (ipv4_address ip) hop) = fresh_port (random_host_ethernet_address rd pos) ip"
  by (simp_all add: sim_port_def fresh_port_def Host_new_def)

lemma sim_hosts:
  "host_at ''applesauce'' (sim_network rd t) = snd (sim_host rd 42 ''applesauce'' 0x0A000002 0x0A000001)"
  "host_at ''default_router'' (sim_network rd t) = snd (sim_host rd 48 ''default_router'' 0xAB434C01 0)"
  "host_at ''cherrypie'' (sim_network rd t) = snd (sim_host rd 54 ''cherrypie'' 0xC0A80002 0xC0A80001)"
  "host_at ''hs_router'' (sim_network rd t) = snd (sim_host rd 60 ''hs_router'' 0x8FC30001 0)"
  "host_at ''dm42'' (sim_network rd t) = snd (sim_host rd 66 ''dm42'' 0xC6B2E52A 0xC6B2E501)"
  "host_at ''dm43'' (sim_network rd t) = snd (sim_host rd 72 ''dm43'' 0xC6B2E52B 0xC6B2E501)"
  by (simp_all add: host_at_def sim_network_def sim_host_def)

lemma sim_members:
  "members (0, [''default_router'']) (sim_network rd t) =
     map2 fresh_port [random_router_ethernet_address rd 0, random_host_ethernet_address rd 48] [0xAB434C2E, 0xAB434C01]"
  "members (1, [''applesauce'']) (sim_network rd t) =
     map2 fresh_port [random_router_ethernet_address rd 6, random_host_ethernet_address rd 42] [0x0A000001, 0x0A000002]"
  "members (3, [''cherrypie'']) (sim_network rd t) =
     map2 fresh_port [random_router_ethernet_address rd 18, random_host_ethernet_address rd 54] [0xC0A80001, 0xC0A80002]"
  "members (5, [''hs_router'']) (sim_network rd t) =
     map2 fresh_port [random_router_ethernet_address rd 30, random_host_ethernet_address rd 60] [0x8FC30002, 0x8FC30001]"
  "members (4, [''dm42'', ''dm43'']) (sim_network rd t) =
     map2 fresh_port [random_router_ethernet_address rd 24, random_host_ethernet_address rd 66, random_host_ethernet_address rd 72]
       [0xC6B2E501, 0xC6B2E52A, 0xC6B2E52B]"
  by (simp_all add: members_def sim_hosts sim_host_def sim_ports) (simp_all add: sim_network_def sim_ports)

definition distinct_draws :: "(nat \<Rightarrow> u32) \<Rightarrow> bool" where
  "distinct_draws rd \<longleftrightarrow> distinct
     [random_router_ethernet_address rd 24, random_host_ethernet_address rd 66, random_host_ethernet_address rd 72]"

lemma sim_at_rest:
  assumes "distinct_draws rd"
  shows "at_rest (sim_network rd t)"
proof -
  let ?N = "sim_network rd t"
  have links: "link_ok (members s ?N) \<and> quiet (members s ?N)" if "s \<in> set (topology ?N)" for s
    using that assms fresh_link random_addresses
    by (auto simp: sim_topology sim_members distinct_draws_def simp del: list.map zip_Cons_Cons)
  have hosts: "(name, h) \<in> set (nw_hosts ?N) \<Longrightarrow> ho_name h = name \<and> ai_datagrams_out (ho_interface h) = [] \<and>
      ho_expecting_to_receive h = []" for name h
    by (auto simp: sim_network_def sim_host_def sim_ports fresh_port_simps) (auto simp: Host_new_def)
  have names: "map fst (nw_hosts ?N) = [''applesauce'', ''default_router'', ''cherrypie'', ''hs_router'', ''dm42'', ''dm43'']"
    by (simp add: sim_network_def sim_host_def)
  then have in_names: "fst ` set (nw_hosts ?N) = {''applesauce'', ''default_router'', ''cherrypie'', ''hs_router'', ''dm42'', ''dm43''}"
    by (metis list.set_map list.simps(15) set_empty2)
  have len: "length (ro_interfaces (nw_router ?N)) = 7" by (simp add: sim_network_def)
  have "list_all (seg_in ?N) (topology ?N)" unfolding sim_topology seg_in_def in_names len by simp
  then have segs: "seg_in ?N s" if "s \<in> set (topology ?N)" for s using that by (simp add: list_all_iff)
  have ap: "apart s s'" if "s \<in> set (topology ?N)" "s' \<in> set (topology ?N)" "s \<noteq> s'" for s s'
  proof -
    have "\<forall>s \<in> set (topology ?N). \<forall>s' \<in> set (topology ?N). s \<noteq> s' \<longrightarrow> apart s s'" by (simp add: sim_topology apart_def)
    then show ?thesis using that by blast
  qed
  have "fits (ro_interfaces (nw_router ?N))" and dist: "distinct (map fst (nw_hosts ?N))" and "nw_connections ?N = []"
    "distinct (topology ?N)"
    by (simp_all add: len names sim_topology) (simp add: sim_network_def)
  then have "net_wf ?N" unfolding net_wf_def using links hosts segs ap by fastforce
  moreover have "drained (nw_router ?N)" by (simp add: drained_def sim_network_def sim_ports fresh_port_simps)
  moreover have "host_queue ?N name = [] \<and> expected ?N name = []" if n: "name \<in> fst ` set (nw_hosts ?N)" for name
  proof -
    obtain h where h: "(name, h) \<in> set (nw_hosts ?N)" using n by auto
    then have "host_at name ?N = h" using dist by (simp add: host_at_def)
    then show ?thesis using hosts [OF h] by (simp add: host_queue_def expected_def)
  qed
  ultimately show ?thesis using links by (simp add: at_rest_def idle_def)
qed

section \<open>What the tests rely on is kept\<close>

lemma same_net_host:
  assumes "same_net N N'" and "name \<in> fst ` set (nw_hosts N)"
  shows "ho_my_address (host_at name N') = ho_my_address (host_at name N)"
    "ho_next_hop (host_at name N') = ho_next_hop (host_at name N)"
proof -
  let ?f = "\<lambda>h. (ho_my_address h, ho_next_hop h)"
  have eq: "map_option ?f (map_of (nw_hosts M) name) =
      map_of (map (\<lambda>(name, h). (name, ho_my_address h, ho_next_hop h)) (nw_hosts M)) name" for M
    using map_of_map_value [of "\<lambda>_. ?f" "nw_hosts M" name] by simp
  have "map_option ?f (map_of (nw_hosts N') name) = map_option ?f (map_of (nw_hosts N) name)"
    unfolding eq using assms(1) by (simp only: same_net_def)
  moreover obtain h where "map_of (nw_hosts N) name = Some h" using assms(2) by (metis map_of_eq_None_iff not_Some_eq)
  ultimately show "ho_my_address (host_at name N') = ho_my_address (host_at name N)"
    "ho_next_hop (host_at name N') = ho_next_hop (host_at name N)"
    by (auto simp: host_at_def)
qed

lemma uplink_same:
  assumes "net_wf N" and "same_net N N'" and "uplink N s from"
  shows "uplink N' s from"
proof -
  have s: "s \<in> set (topology N)" "from \<in> set (snd s)" using assms(3) by (simp_all add: uplink_def)
  then have "seg_in N s" using assms(1) by (simp add: net_wf_def)
  then have "from \<in> fst ` set (nw_hosts N)" using s(2) by (auto simp: seg_in_def)
  note h = same_net_host [OF assms(2) this]
  have "ends (members s N') = ends (members s N)" using assms(2) s(1) by (simp add: same_net_def)
  from ends_nth(2) [OF this, of 0] have "ni_ip_address (ro_interfaces (nw_router N') ! unat (fst s)) =
      ni_ip_address (ro_interfaces (nw_router N) ! unat (fst s))" by (simp add: members_def)
  moreover have "topology N' = topology N" using assms(2) by (simp add: same_net_def)
  ultimately show ?thesis using assms(3) h by (simp add: uplink_def)
qed

lemma downlink_same:
  assumes "same_net N N'" and "downlink N dst s to"
  shows "downlink N' dst s to"
proof -
  have s: "s \<in> set (topology N)" "to \<in> set (snd s)" using assms(2) by (simp_all add: downlink_def)
  then obtain q where q: "q < length (snd s)" "to = snd s ! q" by (auto simp: in_set_conv_nth)
  have "ends (members s N') = ends (members s N)" using assms(1) s(1) by (simp add: same_net_def)
  from ends_nth(2) [OF this, of "Suc q"] have "ni_ip_address (ho_interface (host_at to N')) =
      ni_ip_address (ho_interface (host_at to N))" using q by (simp add: length_members) (simp add: members_def)
  moreover have "topology N' = topology N" "ro_route_table (nw_router N') = ro_route_table (nw_router N)"
    using assms(1) by (simp_all add: same_net_def)
  ultimately show ?thesis using assms(2) by (simp add: downlink_def split: option.splits)
qed

text \<open>The networks that a sequence of passed tests leaves behind.\<close>

definition after_tests :: "Network \<Rightarrow> Network \<Rightarrow> bool" where
  "after_tests N0 N \<longleftrightarrow> at_rest N \<and> same_net N0 N"

lemma after_delivery:
  assumes N0: "net_wf N0" and N: "after_tests N0 N" and "uplink N0 s from" "downlink N0 dst s' to"
    and "Address_ipv4_numeric destination = Inr dst"
  shows "\<exists>N'. delivery_test from destination to rnd N = Inr N' \<and> after_tests N0 N'"
proof -
  have r: "at_rest N" "same_net N0 N" using N by (simp_all add: after_tests_def)
  obtain N' where "delivery_test from destination to rnd N = Inr N'" "at_rest N'" "same_net N N'"
    using delivery_test_ok [OF r(1) uplink_same [OF N0 r(2) assms(3)] downlink_same [OF r(2) assms(4)] assms(5)] by blast
  then show ?thesis using same_net_trans [OF r(2)] by (simp add: after_tests_def)
qed

lemma after_expiry:
  assumes N0: "net_wf N0" "\<not> ro_icmp_enabled (nw_router N0)" and N: "after_tests N0 N" and "uplink N0 s from"
    and "Address_ipv4_numeric destination = Inr dst" and "ttl \<le> 1"
  shows "\<exists>N'. expiry_test from destination ttl rnd N = Inr N' \<and> after_tests N0 N'"
proof -
  have r: "at_rest N" "same_net N0 N" using N by (simp_all add: after_tests_def)
  then have "\<not> ro_icmp_enabled (nw_router N)" using N0(2) by (simp add: same_net_def)
  then obtain N' where "expiry_test from destination ttl rnd N = Inr N'" "at_rest N'" "same_net N N'"
    using expiry_test_ok [OF r(1) uplink_same [OF N0(1) r(2) assms(4)] assms(5,6)] by blast
  then show ?thesis using same_net_trans [OF r(2)] by (simp add: after_tests_def)
qed

lemma after_host_test:
  assumes N0: "net_wf N0" and N: "after_tests N0 N" and "uplink N0 s from" "downlink N0 dst s' to"
    and "Address_ipv4_numeric (ho_my_address (host_at to N0)) = Inr dst"
  shows "\<exists>N'. host_test from to rnd N = Inr N' \<and> after_tests N0 N'"
proof -
  have r: "at_rest N" "same_net N0 N" using N by (simp_all add: after_tests_def)
  then have wf: "distinct (map fst (nw_hosts N))" "\<forall>(name, h) \<in> set (nw_hosts N). ho_name h = name"
    by (simp_all add: at_rest_def idle_def net_wf_def)
  have "s' \<in> set (topology N0)" "to \<in> set (snd s')" using assms(4) by (simp_all add: downlink_def)
  then have to: "to \<in> fst ` set (nw_hosts N0)" using N0 by (auto simp: net_wf_def seg_in_def)
  then have "Network_host to N = Inr (host_at to N)" using Network_host_at(1) [OF wf] same_net_hosts [OF r(2)] by simp
  moreover have "Address_ipv4_numeric (ho_my_address (host_at to N)) = Inr dst"
    using same_net_host(1) [OF r(2) to] assms(5) by simp
  ultimately show ?thesis using after_delivery [OF N0 N assms(3,4)] by (simp add: host_test_def)
qed

lemma after_address_test:
  assumes "net_wf N0" and "after_tests N0 N" and "uplink N0 s from" "downlink N0 ip s' to" and "resolves L ip_s ip"
  shows "\<exists>N'. address_test L from ip_s to rnd N = Inr N' \<and> after_tests N0 N'"
  using after_delivery [OF assms(1-4) ipv4_numeric_address] resolves_address [OF assms(5)] by (simp add: address_test_def)

lemma sim_uplinks:
  "uplink (sim_network rd t) (1, [''applesauce'']) ''applesauce''"
  "uplink (sim_network rd t) (3, [''cherrypie'']) ''cherrypie''"
  "uplink (sim_network rd t) (4, [''dm42'', ''dm43'']) ''dm42''"
  unfolding uplink_def sim_topology sim_hosts sim_host_def snd_conv
  by (simp_all add: Host_new_def) (simp_all add: sim_network_def sim_ports fresh_port_simps)

lemma sim_downlink:
  assumes t: "\<forall>dst. RoutingTrie_longest_prefix_match dst t = scan_routes sim_routes dst"
    and scan: "map_option (\<lambda>e. (re_interface_num e, Address_ipv4_numeric (next_hop_of e dst))) (scan_routes sim_routes dst) =
      Some (fst s, Address_ipv4_numeric (ni_ip_address (ho_interface (host_at to (sim_network rd t)))))"
    and "s \<in> set (topology (sim_network rd t))" "to \<in> set (snd s)"
  shows "downlink (sim_network rd t) dst s to"
proof -
  have "ro_route_table (nw_router (sim_network rd t)) = t" by (simp add: sim_network_def)
  then show ?thesis using assms by (auto simp: downlink_def)
qed

definition sim_next :: "u32 \<Rightarrow> (size_t \<times> u32 res) option" where
  "sim_next dst = map_option (\<lambda>e. (re_interface_num e, Address_ipv4_numeric (next_hop_of e dst))) (scan_routes sim_routes dst)"

lemma sim_scans:
  "sim_next 0xC0A80002 = Some (3, Inr 0xC0A80002)" "sim_next 0x0A000002 = Some (1, Inr 0x0A000002)"
  "sim_next 0x01020304 = Some (0, Inr 0xAB434C01)" "sim_next 0x8FC38311 = Some (5, Inr 0x8FC30001)"
  "sim_next 0x8FC3C134 = Some (5, Inr 0x8FC30001)" "sim_next 0x8FC3DFFF = Some (5, Inr 0x8FC30001)"
  "sim_next 0x8FC3E000 = Some (0, Inr 0xAB434C01)" "sim_next 0xC6B2E52B = Some (4, Inr 0xC6B2E52B)"
  by code_simp+

lemma sim_downlinks:
  assumes t: "\<forall>dst. RoutingTrie_longest_prefix_match dst t = scan_routes sim_routes dst"
  shows "downlink (sim_network rd t) 0xC0A80002 (3, [''cherrypie'']) ''cherrypie''"
    "downlink (sim_network rd t) 0x0A000002 (1, [''applesauce'']) ''applesauce''"
    "downlink (sim_network rd t) 0x01020304 (0, [''default_router'']) ''default_router''"
    "downlink (sim_network rd t) 0x8FC38311 (5, [''hs_router'']) ''hs_router''"
    "downlink (sim_network rd t) 0x8FC3C134 (5, [''hs_router'']) ''hs_router''"
    "downlink (sim_network rd t) 0x8FC3DFFF (5, [''hs_router'']) ''hs_router''"
    "downlink (sim_network rd t) 0x8FC3E000 (0, [''default_router'']) ''default_router''"
    "downlink (sim_network rd t) 0xC6B2E52B (4, [''dm42'', ''dm43'']) ''dm43''"
  by (rule sim_downlink [OF t], unfold sim_next_def [symmetric] sim_scans sim_hosts sim_host_def snd_conv sim_ports(2),
      simp_all add: sim_topology fresh_port_simps)+

lemma network_simulator_passes:
  assumes L: "resolves_all L" and draws: "distinct_draws rd"
  shows "\<exists>N0 N. Network_new L rd = Inr N0 \<and> network_simulator L rd = Inr N \<and> after_tests N0 N"
proof -
  obtain t where t: "insert_all sim_routes TrieNode_new = Inr t"
    "\<forall>dst. RoutingTrie_longest_prefix_match dst t = scan_routes sim_routes dst"
    using sim_routes_scan by blast
  define N0 where "N0 = sim_network rd t"
  have new: "Network_new L rd = Inr N0" unfolding N0_def by (rule Network_new_eq [OF L t(1)])
  have rest: "at_rest N0" unfolding N0_def by (rule sim_at_rest [OF draws])
  then have wf: "net_wf N0" by (simp add: at_rest_def idle_def)
  have start: "after_tests N0 N0" using rest by (simp add: after_tests_def)
  note up = sim_uplinks [of rd t, folded N0_def] and down = sim_downlinks [OF t(2), of rd, folded N0_def]
  have my: "Address_ipv4_numeric (ho_my_address (host_at ''cherrypie'' N0)) = Inr 0xC0A80002"
    "Address_ipv4_numeric (ho_my_address (host_at ''applesauce'' N0)) = Inr 0x0A000002"
    "Address_ipv4_numeric (ho_my_address (host_at ''dm43'' N0)) = Inr 0xC6B2E52B"
    by (simp_all add: N0_def sim_hosts sim_host_def Host_new_def)
  have icmp: "\<not> ro_icmp_enabled (nw_router N0)" by (simp add: N0_def sim_network_def)
  have r: "resolves L ''1.2.3.4'' 0x01020304" "resolves L ''143.195.131.17'' 0x8FC38311"
    "resolves L ''143.195.193.52'' 0x8FC3C134" "resolves L ''143.195.223.255'' 0x8FC3DFFF" "resolves L ''143.195.224.0'' 0x8FC3E000"
    using L by (simp_all add: resolves_all_def simulator_addresses_def)
  obtain N1 where N1: "host_test ''applesauce'' ''cherrypie'' (rd 78) N0 = Inr N1" "after_tests N0 N1"
    using after_host_test [OF wf start up(1) down(1) my(1)] by blast
  obtain N2 where N2: "host_test ''cherrypie'' ''applesauce'' (rd 79) N1 = Inr N2" "after_tests N0 N2"
    using after_host_test [OF wf N1(2) up(2) down(2) my(2)] by blast
  obtain N3 where N3: "address_test L ''applesauce'' ''1.2.3.4'' ''default_router'' (rd 80) N2 = Inr N3" "after_tests N0 N3"
    using after_address_test [OF wf N2(2) up(1) down(3) r(1)] by blast
  obtain N4 where N4: "address_test L ''applesauce'' ''143.195.131.17'' ''hs_router'' (rd 81) N3 = Inr N4" "after_tests N0 N4"
    using after_address_test [OF wf N3(2) up(1) down(4) r(2)] by blast
  obtain N5 where N5: "address_test L ''cherrypie'' ''143.195.193.52'' ''hs_router'' (rd 82) N4 = Inr N5" "after_tests N0 N5"
    using after_address_test [OF wf N4(2) up(2) down(5) r(3)] by blast
  obtain N6 where N6: "address_test L ''cherrypie'' ''143.195.223.255'' ''hs_router'' (rd 83) N5 = Inr N6" "after_tests N0 N6"
    using after_address_test [OF wf N5(2) up(2) down(6) r(4)] by blast
  obtain N7 where N7: "address_test L ''cherrypie'' ''143.195.224.0'' ''default_router'' (rd 84) N6 = Inr N7" "after_tests N0 N7"
    using after_address_test [OF wf N6(2) up(2) down(7) r(5)] by blast
  obtain N8 where N8: "host_test ''dm42'' ''dm43'' (rd 85) N7 = Inr N8" "after_tests N0 N8"
    using after_host_test [OF wf N7(2) up(3) down(8) my(3)] by blast
  let ?a = "ipv4_address 0x01020304"
  obtain N9 where N9: "expiry_test ''applesauce'' ?a 1 (rd 86) N8 = Inr N9" "after_tests N0 N9"
    using after_expiry [OF wf icmp N8(2) up(1) ipv4_numeric_address, of 1] by auto
  obtain N10 where N10: "expiry_test ''applesauce'' ?a 0 (rd 87) N9 = Inr N10" "after_tests N0 N10"
    using after_expiry [OF wf icmp N9(2) up(1) ipv4_numeric_address, of 0] by auto
  have "network_simulator L rd = Inr N10"
    using new N1(1) N2(1) N3(1) N4(1) N5(1) N6(1) N7(1) N8(1) N9(1) N10(1) resolves_address [OF r(1)]
    by (simp add: network_simulator_def)
  with new N10(2) show ?thesis by blast
qed

section \<open>Scripts\<close>

text \<open>A test of a script whose destination is the name of a host ends with the error of the resolver, which
  is asked for a numeric address.\<close>

lemma lua_host_name_fails:
  assumes "lc_getaddrinfo L to ''0'' (make_hints AI_NUMERIC INET) = Inl err"
  shows "lua_test_run L from to ttl_i rnd N = Inl err"
  using assms by (simp add: lua_test_run_def Address_of_ip_port_def Address_resolve_def to_string_0)

text \<open>Two hosts of a script on one interface. The exchange with the first takes the router's frames off
  the queue, so a frame for the second host reaches nobody.\<close>

lemma lua_second_host_starves:
  assumes wf: "fits (ro_interfaces (nw_router N))" "distinct (map fst (nw_hosts N))"
      "\<forall>(name, h) \<in> set (nw_hosts N). ho_name h = name" "a \<in> fst ` set (nw_hosts N)" "b \<in> fst ` set (nw_hosts N)" "a \<noteq> b"
    and i: "nw_interface_ids N c = Some i" "unat i < length (ro_interfaces (nw_router N))"
    and f: "ni_frames_out (ro_interfaces (nw_router N) ! unat i) = [f]" "eh_dst (ef_header f) \<noteq> ETHERNET_BROADCAST"
      "eh_dst (ef_header f) = ni_ethernet_address (ho_interface (host_at b N))"
      "eh_dst (ef_header f) \<noteq> ni_ethernet_address (ho_interface (host_at a N))"
    and q: "ni_frames_out (ho_interface (host_at a N)) = []" "ni_frames_out (ho_interface (host_at b N)) = []"
  shows "exchange_connections [(c, a), (c, b)] N =
    Inr (put_interface i ((ro_interfaces (nw_router N) ! unat i)\<lparr>ni_frames_out := []\<rparr>) N)"
proof -
  let ?x = "ro_interfaces (nw_router N) ! unat i" and ?x' = "(ro_interfaces (nw_router N) ! unat i)\<lparr>ni_frames_out := []\<rparr>"
  have h: "Network_host a N = Inr (host_at a N)" "Network_host b N = Inr (host_at b N)"
    using Network_host_at(1) [OF wf(2,3)] wf(4,5) by simp_all
  have keep: "put_host_interface n (host_at n N) (ho_interface (host_at n N)) (put_interface i y N) = put_interface i y N"
    if "n \<in> fst ` set (nw_hosts N)" for n y
  proof -
    have "map (\<lambda>(m, g). (m, if m = n then host_at n N else g)) (nw_hosts N) = nw_hosts N"
      using wf(2) by (intro map_idI) (auto simp: host_at_def)
    then show ?thesis by (simp add: put_host_interface_def put_host_def put_interface_def)
  qed
  have "exchange_frames ?x (ho_interface (host_at a N)) = Inr (?x', ho_interface (host_at a N))"
    using f q recv_foreign [OF f(2,4)] deliver_one [of f] by (simp add: exchange_frames_def Let_def del: deliver.simps(2))
  then have 1: "exchange_with i a N = Inr (put_interface i ?x' N)"
    using h keep [OF wf(4)] Router_interface_at [OF wf(1) i(2)] by (simp add: exchange_with_def)
  let ?N = "put_interface i ?x' N"
  have "Router_interface i (nw_router ?N) = Inr ?x'"
    using Router_interface_at [of "nw_router ?N" i] wf(1) i(2) by (simp add: put_interface_def)
  moreover have "Network_host b ?N = Inr (host_at b N)" using h(2) by (simp add: Network_host_def put_interface_def)
  moreover have "exchange_frames ?x' (ho_interface (host_at b N)) = Inr (?x', ho_interface (host_at b N))"
    using q by (simp add: exchange_frames_def)
  moreover have "put_interface i ?x' ?N = ?N" by (simp add: put_interface_def)
  ultimately have 2: "exchange_with i b ?N = Inr ?N" using keep [OF wf(5)] by (simp add: exchange_with_def)
  have "nw_interface_ids ?N = nw_interface_ids N" by (simp add: put_interface_def)
  then show ?thesis using 1 2 i(1) by simp
qed

section \<open>Properties\<close>

definition demo_draws :: "nat \<Rightarrow> u32" where "demo_draws n = of_nat n"

definition table_libc :: libc where
  "table_libc =
     \<lparr>lc_getaddrinfo = (\<lambda>node service hints. case map_of simulator_addresses node of
        Some ip \<Rightarrow> Inr (replicate 3 (take 16 (ad_storage (ipv4_address ip)), 16))
      | None \<Rightarrow> Inl (Runtime_error ''Name or service not known'')),
      lc_getnameinfo = (\<lambda>addr len. Inl (Runtime_error ''Name or service not known''))\<rparr>"

lemma demo_draws_distinct: "distinct_draws demo_draws"
  by code_simp

lemma table_libc_resolves: "resolves_all table_libc"
  by code_simp

text \<open>
  C11. A simulated network delivers. Nothing is under way; the sender's next hop is the router's address on
  its link, and the route for the destination leads to the receiver's link with the receiver as next
  hop. Then the test that sends a datagram there and expects it, with its time to live one less, at the
  receiver passes: addresses are resolved on both links, 256 rounds are enough, the receiver gets exactly
  that datagram and no other host gets anything. Afterwards nothing is under way again, and addresses,
  routes and links are what they were, so the next test starts from the same situation.
\<close>
theorem simulation_delivers:
  assumes "at_rest N" and "uplink N s from" and "downlink N dst s' to" and "Address_ipv4_numeric destination = Inr dst"
  shows "\<exists>N'. delivery_test from destination to rnd N = Inr N' \<and> at_rest N' \<and> same_net N N'"
  by (rule delivery_test_ok [OF assms])

theorem simulation_delivers_witness:
  "\<exists>t N'. at_rest (sim_network demo_draws t) \<and>
     delivery_test ''applesauce'' (ipv4_address 0x01020304) ''default_router'' 7 (sim_network demo_draws t) = Inr N' \<and>
     at_rest N'"
proof -
  obtain t where t: "\<forall>dst. RoutingTrie_longest_prefix_match dst t = scan_routes sim_routes dst"
    using sim_routes_scan by blast
  have rest: "at_rest (sim_network demo_draws t)" by (rule sim_at_rest [OF demo_draws_distinct])
  from simulation_delivers [OF rest sim_uplinks(1) sim_downlinks(3) [OF t] ipv4_numeric_address] rest show ?thesis by blast
qed

text \<open>
  C12. \<^verbatim>\<open>network_simulator\<close> passes. Whatever numbers the generator draws, as long as the three Ethernet
  addresses on the link of \<^verbatim>\<open>dm42\<close> and \<^verbatim>\<open>dm43\<close> differ, and when the resolver turns the numeric addresses of
  the program into their values, the constructor and all ten tests return without an exception, and no
  host is left with a datagram that it received or expects.
\<close>
theorem network_simulator_succeeds:
  assumes "resolves_all L" and "distinct_draws rd"
  shows "\<exists>N. network_simulator L rd = Inr N \<and> at_rest N"
  using network_simulator_passes [OF assms] by (auto simp: after_tests_def)

theorem network_simulator_succeeds_witness:
  "resolves_all table_libc \<and> distinct_draws demo_draws \<and> (\<exists>N. network_simulator table_libc demo_draws = Inr N \<and> at_rest N)"
  using network_simulator_succeeds [OF table_libc_resolves demo_draws_distinct] table_libc_resolves demo_draws_distinct
  by blast

text \<open>
  A test of a script that gives no time to live and sends to an address outside the network fails, when
  the sender and the route to the address are links of a network at rest. No host has the address as its
  name, so nothing is expected anywhere; but the route leads to a host (the default router, say), which
  receives the datagram, and the check after the simulation throws.
\<close>
theorem lua_external_test_fails:
  assumes "at_rest N" and "uplink N s from" and "downlink N dst s' gateway" and "\<not> host_exists to N"
    and "Address_of_ip_port L to 0 = Inr destination" and "Address_ipv4_numeric destination = Inr dst"
  shows "\<exists>msg. lua_test_run L from to None rnd N = Inl (Runtime_error msg)"
proof -
  have "1 < (64 :: u8)" by simp
  from simulate_unexpected [OF assms(1-3,6) this, of rnd] obtain N1 d msg where
    r: "Network_send_from from destination 64 rnd N = Inr (N1, d)" "map fst (nw_hosts N1) = map fst (nw_hosts N)"
    "Network_simulate N1 = Inl (Runtime_error msg)" by blast
  have "fst ` set (nw_hosts N1) = fst ` set (nw_hosts N)" using r(2) by (metis list.set_map)
  then have "\<not> host_exists to N1" using assms(4) by (simp add: host_exists_def map_of_eq_None_iff)
  with r(1,3) assms(5) show ?thesis by (simp add: lua_test_run_def)
qed

theorem lua_external_test_fails_witness:
  "\<exists>t msg. lua_test_run table_libc ''applesauce'' ''1.2.3.4'' None 7 (sim_network demo_draws t) = Inl (Runtime_error msg)"
proof -
  obtain t where t: "\<forall>dst. RoutingTrie_longest_prefix_match dst t = scan_routes sim_routes dst"
    using sim_routes_scan by blast
  have rest: "at_rest (sim_network demo_draws t)" by (rule sim_at_rest [OF demo_draws_distinct])
  have no: "\<not> host_exists ''1.2.3.4'' (sim_network demo_draws t)"
    by (simp add: host_exists_def sim_network_def sim_host_def)
  have "resolves table_libc ''1.2.3.4'' 0x01020304"
    using table_libc_resolves by (simp add: resolves_all_def simulator_addresses_def)
  from lua_external_test_fails [OF rest sim_uplinks(1) sim_downlinks(3) [OF t] no resolves_address [OF this] ipv4_numeric_address]
  show ?thesis by blast
qed

end
