(* ===== verification/TcpDumps.thy ===== *)
theory TcpDumps
  imports TCPSegments Addresses EthernetFrames
begin

text \<open>
  \<^verbatim>\<open>apps/udp_tcpdump.cc\<close>, which shows the TCP segments that travel in the payload of captured UDP
  datagrams, and \<^verbatim>\<open>hexdump\<close> of \<^verbatim>\<open>libsponge/util/util.cc\<close>. A packet is the list of its captured
  bytes, and reading past its end is undefined behaviour; the capture is opened with a snapshot length of
  65535, so the \<^verbatim>\<open>int\<close> and \<^verbatim>\<open>unsigned\<close> counters of the code cannot overflow and are natural numbers
  here. The conversion of an address to text, \<^verbatim>\<open>inet_ntop\<close>, is the parameter \<open>ntop\<close>, which gets the
  size of the address and its bytes, and the packets that the capture library delivers are an argument.
  The value of \<open>dump_packet\<close> is the text written to \<^verbatim>\<open>cout\<close> for a packet; the diagnostics on \<^verbatim>\<open>cerr\<close>,
  opening the capture and compiling the filter are left out.
\<close>

section \<open>Arguments\<close>

datatype exit_status = Exits int

definition strncmp_eq :: "string \<Rightarrow> string \<Rightarrow> nat \<Rightarrow> bool" where
  "strncmp_eq a b n \<longleftrightarrow> take n a = take n b"

definition check_arg :: "string list \<Rightarrow> nat \<Rightarrow> exit_status + unit" where
  "check_arg argv cur = (if cur + 1 \<ge> length argv then Inl (Exits 1) else Inr ())"

function parse_arguments :: "string list \<Rightarrow> nat \<Rightarrow> string option \<Rightarrow> exit_status + (nat \<times> string option)" where
  "parse_arguments argv cur dev =
     (if cur < length argv then
        if strncmp_eq ''-i'' (argv ! cur) 3 then
          case check_arg argv cur of
            Inl e \<Rightarrow> Inl e
          | Inr _ \<Rightarrow> parse_arguments argv (cur + 2) (Some (argv ! (cur + 1)))
        else if strncmp_eq ''-h'' (argv ! cur) 3 \<or> strncmp_eq ''--help'' (argv ! cur) 7 then Inl (Exits 0)
        else Inr (cur, dev)
      else Inr (cur, dev))"
  by pat_completeness auto
termination by (relation "measure (\<lambda>(argv, cur, dev). length argv - cur)") auto

declare parse_arguments.simps [simp del]

section \<open>Packets\<close>

type_synonym ntop = "nat \<Rightarrow> byte list \<Rightarrow> string option"

definition at :: "byte list \<Rightarrow> nat \<Rightarrow> byte res" where
  "at data i = (if i < length data then Inr (data ! i) else Inl (Undefined_behaviour ''read past the end of the packet''))"

definition span :: "byte list \<Rightarrow> nat \<Rightarrow> nat \<Rightarrow> byte list res" where
  "span data i n =
     (if i + n \<le> length data then Inr (take n (drop i data))
      else Inl (Undefined_behaviour ''read past the end of the packet''))"

definition inet4_addr :: "ntop \<Rightarrow> byte list \<Rightarrow> nat \<Rightarrow> string res" where
  "inet4_addr ntop data i =
     bind_res (span data i 4) (\<lambda>b. Inr (case ntop 4 b of Some s \<Rightarrow> s | None \<Rightarrow> ''unknown''))"

definition inet6_addr :: "ntop \<Rightarrow> byte list \<Rightarrow> nat \<Rightarrow> string res" where
  "inet6_addr ntop data i =
     bind_res (span data i 16) (\<lambda>b. Inr (case ntop 16 b of Some s \<Rightarrow> s | None \<Rightarrow> ''unknown''))"

text \<open>The loop over the extension headers of IPv6: \<open>None\<close> is the answer -1.\<close>

function skip_extensions :: "byte list \<Rightarrow> byte \<Rightarrow> nat \<Rightarrow> nat option res" where
  "skip_extensions data nxt data_offset =
     (if nxt = 0x11 then Inr (Some data_offset)
      else if nxt \<noteq> 0 \<and> nxt \<noteq> 43 \<and> nxt \<noteq> 60 then Inr None
      else
        bind_res (at data data_offset) (\<lambda>nxt.
        bind_res (at data (data_offset + 1)) (\<lambda>l.
        let data_offset = data_offset + 8 * (1 + unat l) in
        if length data < data_offset + 2 then Inr None else skip_extensions data nxt data_offset)))"
  by pat_completeness auto
termination by (relation "measure (\<lambda>(data, nxt, data_offset). length data - data_offset)") (auto simp: at_def split: if_splits)

declare skip_extensions.simps [simp del]

definition process_ipv4_ipv6 :: "ntop \<Rightarrow> byte list \<Rightarrow> (nat \<times> string \<times> string) option res" where
  "process_ipv4_ipv6 ntop data =
     (if length data < 1 then Inr None
      else
        bind_res (at data 0) (\<lambda>b.
        let pt = b AND 0xf0 in
        if pt = 0x40 then
          let data_offset = unat (b AND 0x0f) * 4 in
          if length data < data_offset then Inr None
          else
            bind_res (at data 9) (\<lambda>proto.
            if proto \<noteq> 0x11 then Inr None
            else
              bind_res (inet4_addr ntop data 12) (\<lambda>src_addr.
              bind_res (inet4_addr ntop data 16) (\<lambda>dst_addr.
              Inr (Some (data_offset + 8, src_addr, dst_addr)))))
        else if pt = 0x60 then
          if length data < 42 then Inr None
          else
            bind_res (at data 6) (\<lambda>nxt.
            bind_res (skip_extensions data nxt 40) (\<lambda>r.
            case r of
              None \<Rightarrow> Inr None
            | Some data_offset \<Rightarrow>
                bind_res (inet6_addr ntop data 8) (\<lambda>src_addr.
                bind_res (inet6_addr ntop data 24) (\<lambda>dst_addr.
                Inr (Some (data_offset + 8, src_addr, dst_addr))))))
        else Inr None))"

datatype datalink = DLT_RAW | DLT_NULL | DLT_EN10MB | DLT_LINUX_SLL | DLT_LINUX_SLL2

definition be16_at :: "byte list \<Rightarrow> nat \<Rightarrow> u16 res" where
  "be16_at data i =
     bind_res (at data i) (\<lambda>hi. bind_res (at data (i + 1)) (\<lambda>lo. Inr (push_bit 8 (ucast hi) OR ucast lo)))"

text \<open>Where the Internet datagram starts: \<open>None\<close> where the packet is skipped.\<close>

definition link_header :: "nat \<Rightarrow> u16 res \<Rightarrow> byte list \<Rightarrow> nat option res" where
  "link_header hdr_off type pkt =
     (if length pkt < hdr_off then Inr None
      else bind_res type (\<lambda>pt. Inr (if pt \<noteq> 0x0800 \<and> pt \<noteq> 0x86dd then None else Some hdr_off)))"

definition datagram_start :: "datalink \<Rightarrow> byte list \<Rightarrow> nat option res" where
  "datagram_start dl_type pkt =
     (case dl_type of
        DLT_NULL \<Rightarrow>
          if length pkt < 4 then Inr None
          else bind_res (at pkt 3) (\<lambda>pt. Inr (if pt \<noteq> 2 \<and> pt \<noteq> 24 \<and> pt \<noteq> 28 \<and> pt \<noteq> 30 then None else Some 4))
      | DLT_EN10MB \<Rightarrow> link_header 14 (be16_at pkt 12) pkt
      | DLT_LINUX_SLL \<Rightarrow> link_header 16 (be16_at pkt 14) pkt
      | DLT_LINUX_SLL2 \<Rightarrow> link_header 20 (be16_at pkt 0) pkt
      | DLT_RAW \<Rightarrow> Inr (Some 0))"

section \<open>Printing\<close>

fun to_hex :: "nat \<Rightarrow> string" where
  "to_hex n = (if n < 16 then [hex_digit n] else to_hex (n div 16) @ [hex_digit (n mod 16)])"

declare to_hex.simps [simp del]

definition setw0 :: "nat \<Rightarrow> string \<Rightarrow> string" where
  "setw0 n s = replicate (n - length s) CHR ''0'' @ s"

definition spaces :: "nat \<Rightarrow> string" where
  "spaces n = replicate n CHR '' ''"

definition newline :: string where "newline = [CHR 0x0A]"

text \<open>A \<^verbatim>\<open>stringstream\<close> is its contents and the position at which it writes. Giving it contents puts
  that position at their start.\<close>

type_synonym sstream = "string \<times> nat"

fun sstream_put :: "sstream \<Rightarrow> char \<Rightarrow> sstream" where
  "sstream_put (s, pos) c = (take pos s @ [c] @ drop (Suc pos) s, Suc pos)"

definition pchar :: "byte \<Rightarrow> char" where
  "pchar b = (if 0x20 \<le> b \<and> b \<le> 0x7e then char_of (unat b) else CHR ''.'')"

fun hexdump_loop :: "nat \<Rightarrow> byte list \<Rightarrow> string \<Rightarrow> sstream \<Rightarrow> nat \<Rightarrow> string \<times> sstream \<times> nat" where
  "hexdump_loop indent [] cout pchars printed = (cout, pchars, printed)"
| "hexdump_loop indent (b # data) cout pchars printed =
     (let (cout, pchars) =
        (if printed mod 16 = 0 then
           let (cout, pchars) =
             (if printed \<noteq> 0 then (cout @ spaces 4 @ fst pchars @ newline, ('' '', 0)) else (cout, pchars))
           in (cout @ spaces indent @ setw0 8 (to_hex printed) @ '':    '', pchars)
         else if printed mod 2 = 0 then (cout @ '' '', pchars)
         else (cout, pchars))
      in hexdump_loop indent data (cout @ setw0 2 (to_hex (unat b))) (sstream_put pchars (pchar b)) (printed + 1))"

definition hexdump :: "byte list \<Rightarrow> nat \<Rightarrow> string" where
  "hexdump data indent =
     (let (cout, pchars, printed) = hexdump_loop indent data '''' ('' '', 0) 0;
          print_rem = (16 - printed mod 16) mod 16
      in cout @ spaces (2 * print_rem + print_rem div 2 + 4) @ fst pchars @ newline @ newline)"

definition report_segment :: "string \<Rightarrow> string \<Rightarrow> ParseResult \<Rightarrow> TCPSegment \<Rightarrow> nat \<Rightarrow> string" where
  "report_segment src dst res seg payload_len =
     (let tcp_hdr = ts_header seg;
          seqlen = ucast (TCPSegment_length_in_sequence_space seg) :: u32
      in src @ '':'' @ to_string (unat (th_sport tcp_hdr)) @ '' > '' @
         dst @ '':'' @ to_string (unat (th_dport tcp_hdr)) @ newline @ ''    Flags ['' @
         (if th_urg tcp_hdr then ''U'' else '''') @ (if th_psh tcp_hdr then ''P'' else '''') @
         (if th_rst tcp_hdr then ''R'' else '''') @ (if th_syn tcp_hdr then ''S'' else '''') @
         (if th_fin tcp_hdr then ''F'' else '''') @ (if th_ack tcp_hdr then ''.'' else '''') @
         ''] cksum 0x'' @ setw0 4 (to_hex (unat (th_cksum tcp_hdr))) @
         (if res = NoError then '' (correct)'' else '' (incorrect!)'') @
         '' seq '' @ to_string (unat (raw_value (th_seqno tcp_hdr))) @
         (if seqlen > 0 then '':'' @ to_string (unat (raw_value (wi_add (th_seqno tcp_hdr) seqlen))) else '''') @
         '' ack '' @ to_string (unat (raw_value (th_ackno tcp_hdr))) @
         '' win '' @ to_string (unat (th_win tcp_hdr)) @ '' length '' @ to_string payload_len @ newline)"

section \<open>One packet, and the capture\<close>

definition payload_at :: "byte list \<Rightarrow> nat \<Rightarrow> byte list res" where
  "payload_at pkt payload_off =
     (if payload_off \<le> length pkt then Inr (drop payload_off pkt)
      else Inl (Undefined_behaviour ''payload past the end of the packet''))"

definition report_payload :: "string \<Rightarrow> string \<Rightarrow> byte list \<Rightarrow> string res" where
  "report_payload src dst payload =
     bind_res (TCPSegment_parse (Buffer_of_string payload) 0 TCPSegment_default) (\<lambda>(res, seg).
     Inr ((if ParseResult_value res > ParseResult_value BadChecksum
           then ''(did not recognize TCP header) src: '' @ src @ '' dst: '' @ dst @ newline
           else report_segment src dst res seg (length payload)) @
          hexdump payload 8))"

definition dump_packet :: "ntop \<Rightarrow> datalink \<Rightarrow> byte list \<Rightarrow> string res" where
  "dump_packet ntop dl_type pkt =
     bind_res (datagram_start dl_type pkt) (\<lambda>start.
     case start of
       None \<Rightarrow> Inr ''''
     | Some hdr_off \<Rightarrow>
         bind_res (process_ipv4_ipv6 ntop (drop hdr_off pkt)) (\<lambda>r.
         case r of
           None \<Rightarrow> Inr ''''
         | Some (start_off, src, dst) \<Rightarrow>
             bind_res (payload_at pkt (hdr_off + start_off)) (report_payload src dst)))"

text \<open>What \<^verbatim>\<open>pcap_next_ex\<close> answers, call by call; the list ends when the program is killed.\<close>

datatype capture = Timeout | Packet "byte list" | Stop int

fun dump_loop :: "ntop \<Rightarrow> datalink \<Rightarrow> capture list \<Rightarrow> (string \<times> int option) res" where
  "dump_loop ntop dl_type [] = Inr ('''', None)"
| "dump_loop ntop dl_type (Stop next_ret # _) = Inr ('''', Some (if next_ret = -1 then 1 else 0))"
| "dump_loop ntop dl_type (Timeout # rest) = dump_loop ntop dl_type rest"
| "dump_loop ntop dl_type (Packet pkt # rest) =
     bind_res (dump_packet ntop dl_type pkt) (\<lambda>text.
     bind_res (dump_loop ntop dl_type rest) (\<lambda>(texts, status). Inr (text @ texts, status)))"

section \<open>The layout of a hexdump\<close>

text \<open>A reference for \<^verbatim>\<open>hexdump\<close>: rows of sixteen bytes, the bytes in groups of two, padded to the
  column of the characters.\<close>

fun hex_groups :: "byte list \<Rightarrow> string" where
  "hex_groups [] = ''''"
| "hex_groups [a] = hex_byte a"
| "hex_groups [a, b] = hex_byte a @ hex_byte b"
| "hex_groups (a # b # c # bs) = hex_byte a @ hex_byte b @ '' '' @ hex_groups (c # bs)"

definition hex_row :: "nat \<Rightarrow> nat \<Rightarrow> byte list \<Rightarrow> string" where
  "hex_row indent offset row =
     spaces indent @ setw0 8 (to_hex offset) @ '':    '' @
     hex_groups row @ spaces (43 - length (hex_groups row)) @ map pchar row"

function hex_rows :: "nat \<Rightarrow> nat \<Rightarrow> byte list \<Rightarrow> string" where
  "hex_rows indent offset data =
     (if length data \<le> 16 then hex_row indent offset data @ newline
      else hex_row indent offset (take 16 data) @ newline @ hex_rows indent (offset + 16) (drop 16 data))"
  by pat_completeness auto
termination by (relation "measure (\<lambda>(indent, offset, data). length data)") auto

declare hex_rows.simps [simp del]

lemma setw0_hex_byte: "setw0 2 (to_hex (unat b)) = hex_byte (b :: byte)"
proof (cases "unat b < 16")
  case True
  then show ?thesis by (simp add: hex_byte_def setw0_def to_hex.simps [of "unat b"] hex_digit_def)
next
  case False
  have "unat b div 16 < 16" using unat_lt8 [of b] by linarith
  with False show ?thesis
    by (simp add: hex_byte_def setw0_def to_hex.simps [of "unat b"] to_hex.simps [of "unat b div 16"])
qed

lemma hex_byte_length [simp]: "length (hex_byte b) = 2"
  by (simp add: hex_byte_def)

lemma hex_groups_length: "row \<noteq> [] \<Longrightarrow> length (hex_groups row) = 2 * length row + (length row - 1) div 2"
  by (induction row rule: hex_groups.induct) auto

text \<open>The bytes of a row after the first, \<open>j\<close> of which are printed already.\<close>

fun hex_tail :: "nat \<Rightarrow> byte list \<Rightarrow> string" where
  "hex_tail j [] = ''''"
| "hex_tail j (b # bs) = (if even j then '' '' else '''') @ hex_byte b @ hex_tail (Suc j) bs"

lemma hex_tail_groups: "odd j \<Longrightarrow> hex_byte b @ hex_tail j bs = hex_groups (b # bs)"
proof (induction bs arbitrary: b j rule: induct_list012)
  case (3 x y bs)
  then show ?case using 3(1) [of "Suc (Suc j)" y] by simp
qed simp_all

lemma hexdump_loop_tail:
  assumes "0 < j" "length cs = j" "j + length bs \<le> 16" "16 dvd k"
  shows "hexdump_loop indent (bs @ rest) out (cs, j) (k + j) =
    hexdump_loop indent rest (out @ hex_tail j bs) (cs @ map pchar bs, j + length bs) (k + j + length bs)"
  using assms
proof (induction bs arbitrary: j cs out)
  case (Cons b bs)
  then have m: "(k + j) mod 16 = j" by (auto elim!: dvdE)
  have "even (k + j) = even j" using Cons.prems(4) by (auto elim!: dvdE)
  then have e: "(k + j) mod 2 = 0 \<longleftrightarrow> even j" by presburger
  show ?case
    using Cons.IH [of "Suc j" "cs @ [pchar b]"] Cons.prems m e
    by (simp add: setw0_hex_byte)
qed simp

definition row_head :: "nat \<Rightarrow> nat \<Rightarrow> sstream \<Rightarrow> string" where
  "row_head indent k pchars =
     (if k \<noteq> 0 then spaces 4 @ fst pchars @ newline else '''') @
     spaces indent @ setw0 8 (to_hex k) @ '':    ''"

lemma hexdump_loop_row:
  assumes "row \<noteq> []" "length row \<le> 16" "16 dvd k" "k = 0 \<longrightarrow> pchars = ('' '', 0)"
  shows "hexdump_loop indent (row @ rest) out pchars k =
    hexdump_loop indent rest (out @ row_head indent k pchars @ hex_groups row)
      (map pchar row, length row) (k + length row)"
proof -
  obtain b bs where row: "row = b # bs" using assms(1) by (cases row) auto
  have "hexdump_loop indent (row @ rest) out pchars k =
      hexdump_loop indent (bs @ rest) (out @ row_head indent k pchars @ hex_byte b) ([pchar b], 1) (k + 1)"
    using assms(3,4) by (simp add: row row_head_def setw0_hex_byte)
  also have "\<dots> = hexdump_loop indent rest (out @ row_head indent k pchars @ hex_byte b @ hex_tail 1 bs)
      (map pchar row, length row) (k + length row)"
    using hexdump_loop_tail [of 1 "[pchar b]" bs k] assms(2,3) by (simp add: row)
  finally show ?thesis by (simp add: hex_tail_groups row)
qed

definition hexdump_end :: "string \<times> sstream \<times> nat \<Rightarrow> string" where
  "hexdump_end = (\<lambda>(cout, pchars, printed).
     cout @ spaces (2 * ((16 - printed mod 16) mod 16) + (16 - printed mod 16) mod 16 div 2 + 4) @
     fst pchars @ newline @ newline)"

lemma hex_pad:
  assumes "row \<noteq> []" "length row \<le> 16" "16 dvd k"
  shows "2 * ((16 - (k + length row) mod 16) mod 16) + (16 - (k + length row) mod 16) mod 16 div 2 + 4 =
    43 - length (hex_groups row)"
proof (cases "length row = 16")
  case True
  then show ?thesis using assms by (auto simp: hex_groups_length elim!: dvdE)
next
  case False
  have n: "0 < length row" "length row < 16" using False assms(1,2) by auto
  then have "(k + length row) mod 16 = length row" "(16 - length row) mod 16 = 16 - length row"
    using assms(3) by (auto elim!: dvdE)
  moreover have "2 * (16 - length row) + (16 - length row) div 2 + 4 =
      43 - (2 * length row + (length row - 1) div 2)"
    using n by linarith
  ultimately show ?thesis by (simp only: hex_groups_length [OF assms(1)])
qed

lemma hexdump_loop_rows:
  assumes "data \<noteq> []" "16 dvd k" "k = 0 \<longrightarrow> pchars = ('' '', 0)"
  shows "hexdump_end (hexdump_loop indent data out pchars k) =
    out @ (if k \<noteq> 0 then spaces 4 @ fst pchars @ newline else '''') @ hex_rows indent k data @ newline"
  using assms
proof (induction indent k data arbitrary: out pchars rule: hex_rows.induct)
  case (1 indent k data)
  show ?case
  proof (cases "length data \<le> 16")
    case True
    then show ?thesis
      using hexdump_loop_row [of data k pchars indent "[]"] 1(2-4) hex_pad [of data k]
      by (simp add: hexdump_end_def hex_rows.simps [of indent k data] hex_row_def row_head_def)
  next
    case False
    let ?row = "take 16 data"
    have r: "?row \<noteq> []" "length ?row = 16" "drop 16 data \<noteq> []" using False by auto
    have "length (hex_groups ?row) = 39" using hex_groups_length [OF r(1)] r(2) by simp
    then show ?thesis
      using hexdump_loop_row [of ?row k pchars indent "drop 16 data" out] 1(2-4) r
        1(1) [OF False r(3), of "(map pchar ?row, 16)"] False
      by (simp add: hex_rows.simps [of indent k data] hex_row_def row_head_def)
  qed
qed

lemma hexdump_eq: "data \<noteq> [] \<Longrightarrow> hexdump data indent = hex_rows indent 0 data @ newline"
  using hexdump_loop_rows [of data 0 "('' '', 0)" indent "''''"]
  by (simp add: hexdump_def hexdump_end_def Let_def split_beta)

section \<open>Reading a packet\<close>

text \<open>The IPv4 packets that make \<^verbatim>\<open>process_ipv4_ipv6\<close> read past their end.\<close>

definition ipv4_overrun :: "byte list \<Rightarrow> bool" where
  "ipv4_overrun data \<longleftrightarrow>
     data \<noteq> [] \<and> data ! 0 AND 0xf0 = 0x40 \<and> unat (data ! 0 AND 0x0f) * 4 \<le> length data \<and>
     (length data < 10 \<or> data ! 9 = 0x11 \<and> length data < 20)"

lemma skip_extensions_ok:
  "off + 2 \<le> length data \<Longrightarrow> \<exists>r. skip_extensions data nxt off = Inr r"
proof (induction data nxt off rule: skip_extensions.induct)
  case (1 data nxt off)
  have at: "at data off = Inr (data ! off)" "at data (off + 1) = Inr (data ! (off + 1))"
    using 1(2) by (simp_all add: at_def)
  show ?case
    using 1(1) [OF _ _ at refl] at by (subst skip_extensions.simps) (auto simp: Let_def not_less)
qed

lemma inet_addr_cases:
  "inet4_addr ntop data i = (if i + 4 \<le> length data then
     Inr (case ntop 4 (take 4 (drop i data)) of Some s \<Rightarrow> s | None \<Rightarrow> ''unknown'')
   else Inl (Undefined_behaviour ''read past the end of the packet''))"
  "i + 16 \<le> length data \<Longrightarrow> \<exists>s. inet6_addr ntop data i = Inr s"
  by (simp_all add: inet4_addr_def inet6_addr_def span_def)

lemma process_result:
  "if ipv4_overrun data
   then process_ipv4_ipv6 ntop data = Inl (Undefined_behaviour ''read past the end of the packet'')
   else (\<exists>r. process_ipv4_ipv6 ntop data = Inr r)"
proof -
  consider "data = []" | "data \<noteq> []" "data ! 0 AND 0xf0 = 0x40" | "42 \<le> length data" "data ! 0 AND 0xf0 = 0x60"
    | "data \<noteq> []" "data ! 0 AND 0xf0 \<noteq> 0x40" "data ! 0 AND 0xf0 = 0x60 \<longrightarrow> length data < 42"
    by fastforce
  then show ?thesis
  proof cases
    case 2
    then show ?thesis
      by (auto simp: process_ipv4_ipv6_def ipv4_overrun_def at_def Let_def inet_addr_cases Suc_le_eq)
  next
    case 3
    obtain r where r: "skip_extensions data (data ! 6) 40 = Inr r"
      using skip_extensions_ok [of 40 data "data ! 6"] 3(1) by auto
    obtain s d where "inet6_addr ntop data 8 = Inr s" "inet6_addr ntop data 24 = Inr d"
      using inet_addr_cases(2) [of 8 data ntop] inet_addr_cases(2) [of 24 data ntop] 3(1) by auto
    with 3 r show ?thesis
      by (cases r) (auto simp: process_ipv4_ipv6_def ipv4_overrun_def at_def)
  qed (auto simp: process_ipv4_ipv6_def ipv4_overrun_def at_def Suc_le_eq)
qed

lemma be16_at_ok: "i + 1 < length data \<Longrightarrow> \<exists>w. be16_at data i = Inr w"
  by (simp add: be16_at_def at_def)

lemma datagram_start_ok: "\<exists>r. datagram_start dl_type pkt = Inr r"
  using be16_at_ok [of 12 pkt] be16_at_ok [of 14 pkt] be16_at_ok [of 0 pkt]
  by (cases dl_type) (auto simp: datagram_start_def link_header_def at_def)

lemma payload_at_append: "payload_at (xs @ ys) (length xs) = Inr ys"
  by (simp add: payload_at_def)

lemma report_payload_total:
  assumes "fits payload"
  shows "\<exists>text. report_payload src dst payload = Inr text"
  using tcp_parse_total [of "Buffer_of_string payload" 0 TCPSegment_default] assms
  by (auto simp: report_payload_def)

text \<open>
  Which captured packets make \<^verbatim>\<open>udp_tcpdump\<close> read outside of the packet: exactly the IPv4 packets
  that are shorter than their protocol field, or than their addresses when they carry UDP, although the
  length check on the header passed, and the packets whose headers end beyond the captured bytes. In all
  other cases, and in particular for all chains of IPv6 extension headers up to the payload, the packet is
  processed to its end.
\<close>
theorem dump_packet_reads:
  assumes "length pkt < 2 ^ 16"
  shows "(\<exists>text. dump_packet ntop dl_type pkt = Inr text) \<longleftrightarrow>
    (\<forall>hdr_off. datagram_start dl_type pkt = Inr (Some hdr_off) \<longrightarrow>
       \<not> ipv4_overrun (drop hdr_off pkt) \<and>
       (\<forall>start_off src dst. process_ipv4_ipv6 ntop (drop hdr_off pkt) = Inr (Some (start_off, src, dst)) \<longrightarrow>
          hdr_off + start_off \<le> length pkt))"
proof -
  obtain r where r: "datagram_start dl_type pkt = Inr r" using datagram_start_ok by blast
  show ?thesis
  proof (cases r)
    case None
    with r show ?thesis by (simp add: dump_packet_def)
  next
    case (Some hdr_off)
    have rep: "\<exists>text. report_payload src dst (drop n pkt) = Inr text" for src dst n
      by (rule report_payload_total) (use assms in simp)
    show ?thesis
      using process_result [of "drop hdr_off pkt" ntop] r Some rep
      by (auto simp: dump_packet_def payload_at_def split: if_splits option.splits)
  qed
qed

theorem dump_packet_reads_witness:
  "length (0x42 # replicate 8 0 @ [0x11, 0, 0 :: byte]) < 2 ^ 16 \<and>
   \<not> (\<exists>text. dump_packet (\<lambda>_ _. None) DLT_RAW (0x42 # replicate 8 0 @ [0x11, 0, 0]) = Inr text)"
proof -
  have "ipv4_overrun (0x42 # replicate 8 0 @ [0x11, 0, 0])" by code_simp
  moreover have "datagram_start DLT_RAW (0x42 # replicate 8 0 @ [0x11, 0, 0]) = Inr (Some 0)"
    by (simp add: datagram_start_def)
  ultimately show ?thesis
    using dump_packet_reads [of "0x42 # replicate 8 0 @ [0x11, 0, 0]" "\<lambda>_ _. None" DLT_RAW] by simp
qed



text \<open>
  A payload whose checksum does not verify is reported with zeros in place of its ports, flags,
  checksum, sequence numbers and window, whatever they are: the segment is left as constructed.
\<close>
theorem dump_hides_corrupt_header:
  assumes "checksum_of 0 payload \<noteq> 0"
  shows "report_payload src dst payload =
    Inr (src @ '':0 > '' @ dst @ '':0'' @ newline @
         ''    Flags [] cksum 0x0000 (incorrect!) seq 0 ack 0 win 0 length '' @
         to_string (length payload) @ newline @ hexdump payload 8)"
proof -
  have "TCPSegment_parse (Buffer_of_string payload) 0 TCPSegment_default = Inr (BadChecksum, TCPSegment_default)"
    using assms by (simp add: TCPSegment_parse_def checksum_of_def)
  moreover have "TCPSegment_length_in_sequence_space TCPSegment_default = 0" by code_simp
  moreover have "to_string 0 = ''0''" "setw0 4 (to_hex 0) = ''0000''" by code_simp+
  ultimately show ?thesis
    by (simp add: report_payload_def report_segment_def TCPSegment_default_def TCPHeader_default_def)
qed

theorem dump_hides_corrupt_header_witness:
  "checksum_of 0 [1, 2, 3] \<noteq> 0 \<and>
   report_payload ''a'' ''b'' [1, 2, 3] =
     Inr (''a'' @ '':0 > '' @ ''b'' @ '':0'' @ newline @
          ''    Flags [] cksum 0x0000 (incorrect!) seq 0 ack 0 win 0 length '' @
          to_string (length [1 :: byte, 2, 3]) @ newline @ hexdump [1, 2, 3] 8)"
proof -
  have "checksum_of 0 [1, 2, 3] \<noteq> 0" by code_simp
  then show ?thesis using dump_hides_corrupt_header [of "[1, 2, 3]" "''a''" "''b''"] by blast
qed

end
