(* ===== verification/Spec2Isabelle.thy ===== *)
theory Spec2Isabelle
  imports Buffers ByteStreams Reassembler WrappingInts Parser Checksum TCPSegments TCPReceivers
    TCPSenders TCPConnections TCPNetwork IPv4Datagrams EthernetFrames ARPMessages ICMPMessages
    Addresses NetworkInterfaces RoutingTries Routers Adapters FileDescriptors EventLoops Sockets StreamCopies
    SpongeSockets NetworkSimulators SimulatorLinks SimulatorRuns SimulatorTests TcpDumps
begin

text \<open>
  A verification of a user-space TCP/IP stack, the C++ library \<^verbatim>\<open>libsponge\<close>, and of three of the programs
  built on it. Paths below are relative to \<^verbatim>\<open>src/libsponge\<close>, those that begin with \<^verbatim>\<open>apps\<close> to \<^verbatim>\<open>src\<close>.

  \<^bold>\<open>The program.\<close> A \<^verbatim>\<open>TCPConnection\<close> joins a \<^verbatim>\<open>TCPSender\<close> and a \<^verbatim>\<open>TCPReceiver\<close>; the sender reads
  from a \<^verbatim>\<open>ByteStream\<close>, the receiver hands segments to a \<^verbatim>\<open>StreamReassembler\<close>, which writes to another. Segments
  leave and enter through a datagram adapter, which wraps them in IPv4 datagrams (or UDP payloads) and, for
  Ethernet, passes those to a \<^verbatim>\<open>NetworkInterface\<close>, which resolves addresses by ARP. A \<^verbatim>\<open>Router\<close> forwards
  datagrams between interfaces by the longest matching prefix. A \<^verbatim>\<open>TCPSpongeSocket\<close> drives one connection and
  one adapter from an \<^verbatim>\<open>EventLoop\<close> over file descriptors. Of the programs, \<^verbatim>\<open>bidirectional_stream_copy\<close> relays
  between a socket and the standard descriptors with the same loop, \<^verbatim>\<open>network_simulator\<close> tests a router and hosts
  joined by links, and \<^verbatim>\<open>udp_tcpdump\<close> prints the TCP segments inside captured UDP datagrams.

  \<^bold>\<open>How code becomes definitions.\<close> A class is a record whose fields carry a prefix, its method
  \<^verbatim>\<open>C::m\<close> is the definition \<open>C_m\<close>, and a derived class is an extended record. \<^verbatim>\<open>size_t\<close> and the fixed-width
  integers are words of their width, so arithmetic wraps as in the code; \<^verbatim>\<open>std::string\<close> is a list of bytes. A
  method that may throw returns \<open>exn + 'a\<close>; undefined behaviour is a value of \<open>exn\<close> too, so a theorem that an
  operation returns \<open>Inr\<close> also shows that it is defined. Random numbers, clocks and system calls are arguments.

  \<^bold>\<open>Theories and sources.\<close>
  \<^item> \<open>Prelude\<close>: types, \<open>bind_res\<close>, runs of operations, lemmas on words and lists, and the locale of machines whose
    operations keep an invariant.
  \<^item> \<open>Buffers\<close> (\<^verbatim>\<open>util/buffer\<close>), \<open>Parser\<close> (\<^verbatim>\<open>util/parser\<close>), \<open>Checksum\<close> (\<^verbatim>\<open>util/util\<close>): byte containers, the
    readers and writers of big-endian numbers, the Internet checksum.
  \<^item> \<open>ByteStreams\<close>, \<open>Reassembler\<close>, \<open>WrappingInts\<close>, \<open>TCPReceivers\<close>, \<open>TCPSenders\<close>, \<open>TCPConnections\<close>: the files of
    these names, \<^verbatim>\<open>tcp_helpers/tcp_config\<close> with the sender and \<^verbatim>\<open>tcp_helpers/tcp_state\<close> with the connection.
  \<^item> \<open>TCPSegments\<close>, \<open>IPv4Datagrams\<close>, \<open>EthernetFrames\<close>, \<open>ARPMessages\<close>, \<open>ICMPMessages\<close>: the formats under
    \<^verbatim>\<open>tcp_helpers\<close>. \<open>Addresses\<close>: \<^verbatim>\<open>util/address\<close>.
  \<^item> \<open>NetworkInterfaces\<close> (\<^verbatim>\<open>network_interface\<close>), \<open>RoutingTries\<close> and \<open>Routers\<close> (\<^verbatim>\<open>router\<close>).
  \<^item> \<open>Adapters\<close>: \<^verbatim>\<open>fd_adapter\<close>, \<^verbatim>\<open>tcp_over_ip\<close>, \<^verbatim>\<open>tuntap_adapter\<close>, \<^verbatim>\<open>lossy_fd_adapter\<close>.
  \<^item> \<open>FileDescriptors\<close> (\<^verbatim>\<open>util/file_descriptor\<close>), \<open>EventLoops\<close> (\<^verbatim>\<open>util/eventloop\<close>), \<open>Sockets\<close> (\<^verbatim>\<open>util/socket\<close>),
    \<open>SpongeSockets\<close> (\<^verbatim>\<open>tcp_helpers/tcp_sponge_socket\<close>).
  \<^item> \<open>TCPNetwork\<close>: two connections over a network that loses, delays, repeats and reorders segments.
  \<^item> \<open>StreamCopies\<close>: \<^verbatim>\<open>apps/bidirectional_stream_copy\<close>.
  \<^item> \<open>NetworkSimulators\<close>: the definitions of \<^verbatim>\<open>apps/network_simulator.cc\<close>, with the built-in network and networks
    described by a script. \<open>SimulatorLinks\<close> has the lemmas on the exchange of frames over one link,
    \<open>SimulatorRuns\<close> those on a whole simulation, \<open>SimulatorTests\<close> those on the tests the program runs.
  \<^item> \<open>TcpDumps\<close>: \<^verbatim>\<open>apps/udp_tcpdump.cc\<close> and \<^verbatim>\<open>hexdump\<close> of \<^verbatim>\<open>util/util.cc\<close>.

  \<^bold>\<open>What is shown.\<close> A byte stream is a bounded queue. The reassembler and the receiver deliver a
  prefix of the stream whatever the order, overlap and repetition of the pieces, and all of it once the pieces
  cover it. Every segment a sender ever sends carries its stream at the right number; the window is filled
  exactly, acknowledgments forget what they cover, and the timer repeats the oldest segment. From these the
  network theory gets that one side only ever delivers a prefix of what the other wrote, and that no operation
  throws. The formats survive the wire, and the parsers are characterised on arbitrary bytes. Interfaces keep
  their tables consistent, resolve unknown addresses and deliver; the trie agrees with a linear scan of the
  routes; the router drains its queues, forwards, reports errors, and is blocked by a datagram it cannot
  serialise. Adapters deliver segments to their counterpart and let nothing else through. Writing to a
  descriptor loses nothing under partial writes, the effect of a round of the event loop is given for every
  answer of \<^verbatim>\<open>poll\<close>, the socket's callbacks relay every byte once and in order, and so does the copying loop.
  In the simulator a datagram reaches the host its route leads to, and all tests of the built-in network
  pass for all random addresses that differ. The dump shows a segment as it was sent.

  \<^bold>\<open>Contracts.\<close> Byte queues, consumers of prefixes, codecs, machines with an invariant and sets of
  event-loop rules that keep one are locales; each is interpreted on the definitions of the components that
  provide it.

  \<^bold>\<open>Fuel and termination.\<close> The loop of \<^verbatim>\<open>fill_window\<close> has one unit of fuel more than the window has
  sequence numbers, and each round uses at least one; running out is an error value, and the theorems show
  that it does not occur. The simulator runs the 256 rounds the code has, which the theorems on its tests
  show to be enough. \<open>FileDescriptor_write\<close> and the loop of \<^verbatim>\<open>route\<close> are total functions. The loops of the socket
  and of the stream copy may run forever and are partial functions into options; the theorems are about
  their rounds, and nothing is claimed about their return.

  \<^bold>\<open>Assumptions.\<close> Code outside the sources is a parameter with named hypotheses, each met by a
  concrete instance in a witness: \<open>writev_lawful\<close>, \<open>writev_takes\<close>, \<open>writev_progress\<close>, \<open>read_lawful\<close>,
  \<open>shutdown_lawful\<close> and \<open>copy_lawful\<close> for the kernel, \<open>libc_numeric\<close> and \<open>resolves_all\<close> for the resolver,
  \<open>distinct_draws\<close> for the random addresses of the simulator. The theorems on two connections bound what is
  written in each direction below 2 GiB and the segments each side receives by \<open>2 ^ 40\<close>, and exclude writing
  after the end of the stream.

  \<^bold>\<open>Not modelled.\<close> Threads: the start and joining of the socket's thread, its destructor and
  \<^verbatim>\<open>wait_until_closed\<close>, since the model has one sequence of steps. The reference counts and destructors of
  descriptors, and \<^verbatim>\<open>util/tun\<close>, which only opens a device. \<^verbatim>\<open>util/lua_config\<close>, because it only calls the Lua
  library; what a script contains is an argument. Printing (\<^verbatim>\<open>to_string\<close> and \<^verbatim>\<open>summary\<close> of the formats,
  diagnostics), the clock and the seeding of random generators. Opening the capture of \<^verbatim>\<open>udp_tcpdump\<close>, and the
  other programs under \<^verbatim>\<open>apps\<close>, which parse a command line and open sockets.
\<close>

end
